(* ===== verification/Prelude.thy ===== *)
theory Prelude
  imports Main "HOL-Library.Word" "HOL-Library.Monad_Syntax"
begin

text \<open>
  Shared vocabulary of the development: the machine integer types of the two programs
  (the ATmega32U4 firmware and the avrdude host), total-correctness reasoning about
  option-valued code, little-endian byte lists and the few list and word facts that
  several components need.
\<close>

unbundle bit_operations_syntax

type_synonym u8 = "8 word"
type_synonym u16 = "16 word"
type_synonym u32 = "32 word"
type_synonym u64 = "64 word"

named_theorems wp_rules \<open>rewrite rules of the weakest-precondition calculus\<close>
named_theorems frame \<open>which parts of a state an operation leaves alone\<close>

subsection \<open>Total correctness of option-valued code\<close>

text \<open>
  The value \<open>None\<close> of an operation means that it has no defined result: a busy-wait that
  never ends, or undefined behaviour of C (a store outside an array, a division by zero).
  \<open>wp m Q\<close> says that \<open>m\<close> has a result and that the result satisfies \<open>Q\<close>.
\<close>

definition wp :: "'a option \<Rightarrow> ('a \<Rightarrow> bool) \<Rightarrow> bool" where
  "wp m Q = (case m of None \<Rightarrow> False | Some a \<Rightarrow> Q a)"

lemma wp_Some [simp, wp_rules]: "wp (Some a) Q = Q a"
  by (simp add: wp_def)

lemma wp_None [simp, wp_rules]: "wp None Q = False"
  by (simp add: wp_def)

lemma wp_bind [simp, wp_rules]: "wp (Option.bind m f) Q = wp m (\<lambda>a. wp (f a) Q)"
  by (cases m) simp_all

lemma wp_if [simp, wp_rules]:
  "wp (if b then m else m') Q = (if b then wp m Q else wp m' Q)"
  by simp

lemma wp_conseq: "wp m P \<Longrightarrow> (\<And>a. P a \<Longrightarrow> Q a) \<Longrightarrow> wp m Q"
  by (cases m) simp_all

lemma wp_bind_conseq:
  "wp m P \<Longrightarrow> (\<And>a. P a \<Longrightarrow> wp (f a) Q) \<Longrightarrow> wp (Option.bind m f) Q"
  by (cases m) simp_all

lemma wp_conj: "wp m P \<Longrightarrow> wp m Q \<Longrightarrow> wp m (\<lambda>a. P a \<and> Q a)"
  by (cases m) simp_all

lemma wp_SomeD: "wp m Q \<Longrightarrow> m = Some a \<Longrightarrow> Q a"
  by simp

lemma wp_ex: "wp m Q \<longleftrightarrow> (\<exists>a. m = Some a \<and> Q a)"
  by (cases m) simp_all

subsection \<open>Little-endian byte lists\<close>

definition le32 :: "u32 \<Rightarrow> u8 list" where
  "le32 a = [ucast a, ucast (drop_bit 8 a), ucast (drop_bit 16 a), ucast (drop_bit 24 a)]"

definition le16 :: "u16 \<Rightarrow> u8 list" where
  "le16 a = [ucast a, ucast (drop_bit 8 a)]"

fun of_le :: "u8 list \<Rightarrow> 'a::len word" where
  "of_le [] = 0"
| "of_le (b # bs) = ucast b OR push_bit 8 (of_le bs)"

lemma length_le32 [simp]: "length (le32 a) = 4"
  by (simp add: le32_def)

lemma length_le16 [simp]: "length (le16 a) = 2"
  by (simp add: le16_def)

lemma of_le_le32 [simp]: "of_le (le32 a) = a"
proof (rule bit_word_eqI)
  fix n assume n: "n < LENGTH(32)"
  consider "n < 8" | "8 \<le> n" "n < 16" | "16 \<le> n" "n < 24" | "24 \<le> n" by linarith
  then show "bit (of_le (le32 a) :: u32) n = bit a n"
    by cases (use n in \<open>auto simp: le32_def bit_or_iff bit_push_bit_iff bit_ucast_iff bit_drop_bit_eq\<close>)
qed

lemma of_le_le16 [simp]: "of_le (le16 a) = a"
  by (rule bit_word_eqI)
    (auto simp: le16_def bit_or_iff bit_push_bit_iff bit_ucast_iff bit_drop_bit_eq)

lemma le32_inject [simp]: "le32 a = le32 b \<longleftrightarrow> a = b"
  by (metis of_le_le32)

subsection \<open>Words\<close>

lemma and_single_bit_eq_0: "(v :: 'a::len word) AND push_bit n 1 = 0 \<longleftrightarrow> \<not> bit v n"
  by (simp add: and_exp_eq_0_iff_not_bit push_bit_eq_mult)

lemma unat_plus_numeral: "unat (c :: u16) + n < 65536 \<Longrightarrow> unat (c + of_nat n) = unat c + n"
  by (simp add: unat_word_ariths unat_of_nat)

lemma ucast_up_inject:
  assumes "LENGTH('a::len) \<le> LENGTH('b::len)"
  shows "(ucast (a :: 'a word) :: 'b word) = ucast b \<longleftrightarrow> a = b"
proof
  assume eq: "(ucast a :: 'b word) = ucast b"
  show "a = b"
  proof (rule bit_word_eqI)
    fix n assume "n < LENGTH('a)"
    moreover have "bit (ucast a :: 'b word) n = bit (ucast b :: 'b word) n" by (simp add: eq)
    ultimately show "bit a n = bit b n" using assms by (simp add: bit_ucast_iff)
  qed
qed simp

lemma u8_less [simp]: "unat (b :: u8) < 256"
  using unsigned_less [where 'a = nat, of b] by simp

lemma ucast_u64_u8 [simp]: "(ucast (ucast (b :: u8) :: u64) :: u8) = b"
  by (rule bit_word_eqI) (simp add: bit_ucast_iff)

subsection \<open>Lists\<close>

lemma replicate_snoc: "xs @ [x] @ replicate n x = xs @ replicate (Suc n) x"
  by simp

lemma take_Suc_nth: "n < length xs \<Longrightarrow> take (Suc n) xs = take n xs @ [xs ! n]"
  by (rule take_Suc_conv_app_nth)

lemma list_update_append_nth:
  "length ys = n \<Longrightarrow> (ys @ z # zs)[n := x] = ys @ x # zs"
  by (simp add: list_update_append)

end
