(* ===== verification/Crc16.thy ===== *)
theory Crc16
  imports Prelude
begin

text \<open>
  The CRC-16 of \<^verbatim>\<open>avrdude-6.3/crc16.c\<close>, which frames the JTAG ICE mkII messages: the lookup
  table, the table-driven sum, and the routines that append the checksum to a message and
  check it. The reference definition is the bitwise reflected CCITT polynomial.
\<close>

subsection \<open>The code\<close>

definition crc_table :: "u16 list" where
  "crc_table =
    [0x0000, 0x1189, 0x2312, 0x329b, 0x4624, 0x57ad, 0x6536, 0x74bf,
     0x8c48, 0x9dc1, 0xaf5a, 0xbed3, 0xca6c, 0xdbe5, 0xe97e, 0xf8f7,
     0x1081, 0x0108, 0x3393, 0x221a, 0x56a5, 0x472c, 0x75b7, 0x643e,
     0x9cc9, 0x8d40, 0xbfdb, 0xae52, 0xdaed, 0xcb64, 0xf9ff, 0xe876,
     0x2102, 0x308b, 0x0210, 0x1399, 0x6726, 0x76af, 0x4434, 0x55bd,
     0xad4a, 0xbcc3, 0x8e58, 0x9fd1, 0xeb6e, 0xfae7, 0xc87c, 0xd9f5,
     0x3183, 0x200a, 0x1291, 0x0318, 0x77a7, 0x662e, 0x54b5, 0x453c,
     0xbdcb, 0xac42, 0x9ed9, 0x8f50, 0xfbef, 0xea66, 0xd8fd, 0xc974,
     0x4204, 0x538d, 0x6116, 0x709f, 0x0420, 0x15a9, 0x2732, 0x36bb,
     0xce4c, 0xdfc5, 0xed5e, 0xfcd7, 0x8868, 0x99e1, 0xab7a, 0xbaf3,
     0x5285, 0x430c, 0x7197, 0x601e, 0x14a1, 0x0528, 0x37b3, 0x263a,
     0xdecd, 0xcf44, 0xfddf, 0xec56, 0x98e9, 0x8960, 0xbbfb, 0xaa72,
     0x6306, 0x728f, 0x4014, 0x519d, 0x2522, 0x34ab, 0x0630, 0x17b9,
     0xef4e, 0xfec7, 0xcc5c, 0xddd5, 0xa96a, 0xb8e3, 0x8a78, 0x9bf1,
     0x7387, 0x620e, 0x5095, 0x411c, 0x35a3, 0x242a, 0x16b1, 0x0738,
     0xffcf, 0xee46, 0xdcdd, 0xcd54, 0xb9eb, 0xa862, 0x9af9, 0x8b70,
     0x8408, 0x9581, 0xa71a, 0xb693, 0xc22c, 0xd3a5, 0xe13e, 0xf0b7,
     0x0840, 0x19c9, 0x2b52, 0x3adb, 0x4e64, 0x5fed, 0x6d76, 0x7cff,
     0x9489, 0x8500, 0xb79b, 0xa612, 0xd2ad, 0xc324, 0xf1bf, 0xe036,
     0x18c1, 0x0948, 0x3bd3, 0x2a5a, 0x5ee5, 0x4f6c, 0x7df7, 0x6c7e,
     0xa50a, 0xb483, 0x8618, 0x9791, 0xe32e, 0xf2a7, 0xc03c, 0xd1b5,
     0x2942, 0x38cb, 0x0a50, 0x1bd9, 0x6f66, 0x7eef, 0x4c74, 0x5dfd,
     0xb58b, 0xa402, 0x9699, 0x8710, 0xf3af, 0xe226, 0xd0bd, 0xc134,
     0x39c3, 0x284a, 0x1ad1, 0x0b58, 0x7fe7, 0x6e6e, 0x5cf5, 0x4d7c,
     0xc60c, 0xd785, 0xe51e, 0xf497, 0x8028, 0x91a1, 0xa33a, 0xb2b3,
     0x4a44, 0x5bcd, 0x6956, 0x78df, 0x0c60, 0x1de9, 0x2f72, 0x3efb,
     0xd68d, 0xc704, 0xf59f, 0xe416, 0x90a9, 0x8120, 0xb3bb, 0xa232,
     0x5ac5, 0x4b4c, 0x79d7, 0x685e, 0x1ce1, 0x0d68, 0x3ff3, 0x2e7a,
     0xe70e, 0xf687, 0xc41c, 0xd595, 0xa12a, 0xb0a3, 0x8238, 0x93b1,
     0x6b46, 0x7acf, 0x4854, 0x59dd, 0x2d62, 0x3ceb, 0x0e70, 0x1ff9,
     0xf78f, 0xe606, 0xd49d, 0xc514, 0xb1ab, 0xa022, 0x92b9, 0x8330,
     0x7bc7, 0x6a4e, 0x58d5, 0x495c, 0x3de3, 0x2c6a, 0x1ef1, 0x0f78]"

definition CRC_INIT :: u16 where
  "CRC_INIT = 0xFFFF"

definition CRC :: "u16 \<Rightarrow> u8 \<Rightarrow> u16" where
  "CRC crcval newchar =
     drop_bit 8 crcval XOR crc_table ! unat ((crcval XOR ucast newchar) AND 0x00ff)"

text \<open>
  A message is the array the C code receives; \<open>len\<close> is its \<^verbatim>\<open>length\<close> argument. An index
  beyond the array has no defined result.
\<close>

fun crc_loop :: "u8 list \<Rightarrow> nat \<Rightarrow> nat \<Rightarrow> u16 \<Rightarrow> u16 option" where
  "crc_loop message i 0 crc = Some crc"
| "crc_loop message i (Suc n) crc =
     (if i < length message then crc_loop message (Suc i) n (CRC crc (message ! i)) else None)"

definition crcsum :: "u8 list \<Rightarrow> nat \<Rightarrow> u16 \<Rightarrow> u16 option" where
  "crcsum message len crc = crc_loop message 0 len crc"

text \<open>
  \<^verbatim>\<open>length - 2\<close> is computed on \<^verbatim>\<open>unsigned long\<close>: for a length below 2 it wraps to a value
  no array reaches.
\<close>

definition crcverify :: "u8 list \<Rightarrow> nat \<Rightarrow> bool option" where
  "crcverify message len =
     (if len < 2 then None
      else do {
        expected \<leftarrow> crcsum message (len - 2) CRC_INIT;
        if len - 1 < length message then
          Some ((expected AND 0xff) = ucast (message ! (len - 2)) \<and>
                (drop_bit 8 expected AND 0xff) = ucast (message ! (len - 1)))
        else None
      })"

definition crcappend :: "u8 list \<Rightarrow> nat \<Rightarrow> u8 list option" where
  "crcappend message len = do {
     crc \<leftarrow> crcsum message len CRC_INIT;
     if len + 1 < length message then
       Some (message[len := ucast (crc AND 0xff), len + 1 := ucast (drop_bit 8 crc AND 0xff)])
     else None
   }"

subsection \<open>The reference: one bit at a time\<close>

fun crc_bits :: "nat \<Rightarrow> u16 \<Rightarrow> u16" where
  "crc_bits 0 c = c"
| "crc_bits (Suc n) c =
     crc_bits n (if bit c 0 then drop_bit 1 c XOR 0x8408 else drop_bit 1 c)"

definition crc_ref_byte :: "u16 \<Rightarrow> u8 \<Rightarrow> u16" where
  "crc_ref_byte c b = crc_bits 8 (c XOR ucast b)"

text \<open>
  The table is checked by evaluation, thirty-two entries at a time: each row lists its
  indices as numerals, which the evaluation needs.
\<close>

lemma index_row0: "map of_nat [0..<32] =
    [0, 1, 2, 3, 4, 5, 6, 7, 8, 9, 10, 11, 12, 13, 14, 15, 16, 17, 18, 19, 20, 21, 22, 23,
     24, 25, 26, 27, 28, 29, 30, 31 :: u16]"
  by (simp add: upt_rec_numeral upt_conv_Cons)

lemma crc_table_row0: "map (crc_bits 8)
    [0, 1, 2, 3, 4, 5, 6, 7, 8, 9, 10, 11, 12, 13, 14, 15, 16, 17, 18, 19, 20, 21, 22, 23,
     24, 25, 26, 27, 28, 29, 30, 31] =
    take 32 (drop 0 crc_table)"
  by code_simp

lemma index_row1: "map of_nat [32..<64] =
    [32, 33, 34, 35, 36, 37, 38, 39, 40, 41, 42, 43, 44, 45, 46, 47, 48, 49, 50, 51, 52, 53,
     54, 55, 56, 57, 58, 59, 60, 61, 62, 63 :: u16]"
  by (simp add: upt_rec_numeral upt_conv_Cons)

lemma crc_table_row1: "map (crc_bits 8)
    [32, 33, 34, 35, 36, 37, 38, 39, 40, 41, 42, 43, 44, 45, 46, 47, 48, 49, 50, 51, 52, 53,
     54, 55, 56, 57, 58, 59, 60, 61, 62, 63] =
    take 32 (drop 32 crc_table)"
  by code_simp

lemma index_row2: "map of_nat [64..<96] =
    [64, 65, 66, 67, 68, 69, 70, 71, 72, 73, 74, 75, 76, 77, 78, 79, 80, 81, 82, 83, 84, 85,
     86, 87, 88, 89, 90, 91, 92, 93, 94, 95 :: u16]"
  by (simp add: upt_rec_numeral upt_conv_Cons)

lemma crc_table_row2: "map (crc_bits 8)
    [64, 65, 66, 67, 68, 69, 70, 71, 72, 73, 74, 75, 76, 77, 78, 79, 80, 81, 82, 83, 84, 85,
     86, 87, 88, 89, 90, 91, 92, 93, 94, 95] =
    take 32 (drop 64 crc_table)"
  by code_simp

lemma index_row3: "map of_nat [96..<128] =
    [96, 97, 98, 99, 100, 101, 102, 103, 104, 105, 106, 107, 108, 109, 110, 111, 112, 113,
     114, 115, 116, 117, 118, 119, 120, 121, 122, 123, 124, 125, 126, 127 :: u16]"
  by (simp add: upt_rec_numeral upt_conv_Cons)

lemma crc_table_row3: "map (crc_bits 8)
    [96, 97, 98, 99, 100, 101, 102, 103, 104, 105, 106, 107, 108, 109, 110, 111, 112, 113,
     114, 115, 116, 117, 118, 119, 120, 121, 122, 123, 124, 125, 126, 127] =
    take 32 (drop 96 crc_table)"
  by code_simp

lemma index_row4: "map of_nat [128..<160] =
    [128, 129, 130, 131, 132, 133, 134, 135, 136, 137, 138, 139, 140, 141, 142, 143, 144,
     145, 146, 147, 148, 149, 150, 151, 152, 153, 154, 155, 156, 157, 158, 159 :: u16]"
  by (simp add: upt_rec_numeral upt_conv_Cons)

lemma crc_table_row4: "map (crc_bits 8)
    [128, 129, 130, 131, 132, 133, 134, 135, 136, 137, 138, 139, 140, 141, 142, 143, 144,
     145, 146, 147, 148, 149, 150, 151, 152, 153, 154, 155, 156, 157, 158, 159] =
    take 32 (drop 128 crc_table)"
  by code_simp

lemma index_row5: "map of_nat [160..<192] =
    [160, 161, 162, 163, 164, 165, 166, 167, 168, 169, 170, 171, 172, 173, 174, 175, 176,
     177, 178, 179, 180, 181, 182, 183, 184, 185, 186, 187, 188, 189, 190, 191 :: u16]"
  by (simp add: upt_rec_numeral upt_conv_Cons)

lemma crc_table_row5: "map (crc_bits 8)
    [160, 161, 162, 163, 164, 165, 166, 167, 168, 169, 170, 171, 172, 173, 174, 175, 176,
     177, 178, 179, 180, 181, 182, 183, 184, 185, 186, 187, 188, 189, 190, 191] =
    take 32 (drop 160 crc_table)"
  by code_simp

lemma index_row6: "map of_nat [192..<224] =
    [192, 193, 194, 195, 196, 197, 198, 199, 200, 201, 202, 203, 204, 205, 206, 207, 208,
     209, 210, 211, 212, 213, 214, 215, 216, 217, 218, 219, 220, 221, 222, 223 :: u16]"
  by (simp add: upt_rec_numeral upt_conv_Cons)

lemma crc_table_row6: "map (crc_bits 8)
    [192, 193, 194, 195, 196, 197, 198, 199, 200, 201, 202, 203, 204, 205, 206, 207, 208,
     209, 210, 211, 212, 213, 214, 215, 216, 217, 218, 219, 220, 221, 222, 223] =
    take 32 (drop 192 crc_table)"
  by code_simp

lemma index_row7: "map of_nat [224..<256] =
    [224, 225, 226, 227, 228, 229, 230, 231, 232, 233, 234, 235, 236, 237, 238, 239, 240,
     241, 242, 243, 244, 245, 246, 247, 248, 249, 250, 251, 252, 253, 254, 255 :: u16]"
  by (simp add: upt_rec_numeral upt_conv_Cons)

lemma crc_table_row7: "map (crc_bits 8)
    [224, 225, 226, 227, 228, 229, 230, 231, 232, 233, 234, 235, 236, 237, 238, 239, 240,
     241, 242, 243, 244, 245, 246, 247, 248, 249, 250, 251, 252, 253, 254, 255] =
    take 32 (drop 224 crc_table)"
  by code_simp

lemma length_crc_table [simp]: "length crc_table = 256"
  by (simp add: crc_table_def)

lemma crc_table_row_nth:
  assumes "map of_nat [k..<m] = js" and "map (crc_bits 8) js = take 32 (drop k crc_table)"
    and "m = k + 32" and "k \<le> i" and "i < m" and "i < 256"
  shows "crc_table ! i = crc_bits 8 (of_nat i)"
proof -
  have "take 32 (drop k crc_table) ! (i - k) = crc_bits 8 (of_nat i)"
    using assms(3-6) by (subst assms(2) [symmetric], subst assms(1) [symmetric]) simp
  then show ?thesis using assms(3-6) by simp
qed

lemmas crc_table_rows =
  crc_table_row_nth [OF index_row0 crc_table_row0]
  crc_table_row_nth [OF index_row1 crc_table_row1]
  crc_table_row_nth [OF index_row2 crc_table_row2]
  crc_table_row_nth [OF index_row3 crc_table_row3]
  crc_table_row_nth [OF index_row4 crc_table_row4]
  crc_table_row_nth [OF index_row5 crc_table_row5]
  crc_table_row_nth [OF index_row6 crc_table_row6]
  crc_table_row_nth [OF index_row7 crc_table_row7]

lemma crc_table_nth:
  assumes "i < 256"
  shows "crc_table ! i = crc_bits 8 (of_nat i)"
proof -
  consider "i < 32" | "32 \<le> i" "i < 64" | "64 \<le> i" "i < 96" | "96 \<le> i" "i < 128"
    | "128 \<le> i" "i < 160" | "160 \<le> i" "i < 192" | "192 \<le> i" "i < 224" | "224 \<le> i"
    by linarith
  then show ?thesis
    using crc_table_rows [of i] assms by cases simp_all
qed

lemma crc_byte_index: "unat ((c XOR ucast (b :: u8)) AND 0x00ff :: u16) < 256"
proof -
  have "unat ((c XOR ucast b) AND 0x00ff :: u16) \<le> unat (0x00ff :: u16)"
    by (rule word_and_le1 [THEN word_le_nat_alt [THEN iffD1]])
  then show ?thesis by simp
qed

subsection \<open>The table implements the bitwise algorithm\<close>

lemma crc_bits_xor: "crc_bits n (a XOR b) = crc_bits n a XOR crc_bits n b"
proof (induction n arbitrary: a b)
  case 0
  then show ?case by simp
next
  case (Suc n)
  then show ?case
    by (auto simp: bit_xor_iff drop_bit_xor xor.assoc xor.left_commute xor.commute)
qed

lemma crc_bits_high:
  assumes "n \<le> 8" and "\<And>k. k < n \<Longrightarrow> \<not> bit c k"
  shows "crc_bits n c = drop_bit n c"
  using assms
proof (induction n arbitrary: c)
  case 0
  then show ?case by simp
next
  case (Suc n)
  from Suc.prems(2) [of 0] have "\<not> bit c 0" by simp
  moreover have "crc_bits n (drop_bit 1 c) = drop_bit n (drop_bit 1 c)"
    using Suc.prems by (intro Suc.IH) (auto simp: bit_drop_bit_eq)
  ultimately show ?case by (simp add: drop_bit_drop_bit add.commute)
qed

lemma and_255_take_bit: "x AND 255 = take_bit 8 (x :: u16)"
  by (simp add: take_bit_eq_mask mask_eq_exp_minus_1)

lemma CRC_eq_ref: "CRC c b = crc_ref_byte c b"
proof -
  define x where "x = c XOR ucast b"
  have low: "crc_table ! unat (take_bit 8 x) = crc_bits 8 (take_bit 8 x)"
    using crc_byte_index [of c b] by (simp add: crc_table_nth x_def and_255_take_bit)
  have "crc_bits 8 x = crc_bits 8 (push_bit 8 (drop_bit 8 x) XOR take_bit 8 x)"
    by (rule arg_cong [where f = "crc_bits 8"], rule bit_word_eqI)
      (auto simp: bit_push_bit_iff bit_xor_iff bit_drop_bit_eq bit_take_bit_iff)
  also have "\<dots> = drop_bit 8 (push_bit 8 (drop_bit 8 x)) XOR crc_bits 8 (take_bit 8 x)"
    by (simp only: crc_bits_xor) (simp add: crc_bits_high bit_push_bit_iff)
  also have "drop_bit 8 (push_bit 8 (drop_bit 8 x)) = drop_bit 8 c"
    by (rule bit_word_eqI)
      (auto simp: x_def bit_push_bit_iff bit_drop_bit_eq bit_xor_iff bit_ucast_iff
        dest: bit_imp_le_length)
  finally show ?thesis
    using low by (simp add: CRC_def crc_ref_byte_def x_def and_255_take_bit)
qed

lemma crc_loop_fold:
  "i + n \<le> length m \<Longrightarrow> crc_loop m i n c = Some (fold (\<lambda>b c. CRC c b) (take n (drop i m)) c)"
proof (induction n arbitrary: i c)
  case 0
  then show ?case by simp
next
  case (Suc n)
  then have "drop i m = m ! i # drop (Suc i) m"
    by (simp add: Cons_nth_drop_Suc)
  with Suc show ?case by simp
qed

lemma crcsum_fold:
  "len \<le> length m \<Longrightarrow> crcsum m len c = Some (fold (\<lambda>b c. CRC c b) (take len m) c)"
  by (simp add: crcsum_def crc_loop_fold)

text \<open>C27: The table-driven \<^verbatim>\<open>crcsum\<close> computes the reflected CCITT polynomial bit by bit:
  for every message array, every length within it and every start value, the optimised
  routine returns exactly the value of the bitwise reference.\<close>

theorem crcsum_bitwise:
  assumes "len \<le> length message"
  shows "crcsum message len crc = Some (fold (\<lambda>b c. crc_ref_byte c b) (take len message) crc)"
  using assms by (simp add: crcsum_fold CRC_eq_ref)

theorem crcsum_bitwise_witness:
  "crcsum [0x1B, 0x02] 2 0xFFFF = Some (crc_ref_byte (crc_ref_byte 0xFFFF 0x1B) 0x02)"
  using crcsum_bitwise [of 2 "[0x1B, 0x02]" "0xFFFF"] by simp

subsection \<open>Appending and verifying\<close>

lemma crcappend_eq:
  assumes "len + 1 < length m"
  shows "crcappend m len =
     (let c = fold (\<lambda>b c. CRC c b) (take len m) CRC_INIT
      in Some (m[len := ucast (c AND 0xff), len + 1 := ucast (drop_bit 8 c AND 0xff)]))"
  using assms by (simp add: crcappend_def crcsum_fold Let_def)

lemma ucast_and_255: "ucast (ucast (x AND 0xff :: u16) :: u8) = x AND 0xff"
  by (simp add: and_255_take_bit, rule bit_word_eqI)
    (auto simp: bit_ucast_iff bit_take_bit_iff)

text \<open>C28: Appending the checksum and then verifying succeeds: on every array with room for the
  two extra bytes, \<^verbatim>\<open>crcappend\<close> has a result, leaves the message bytes as they were, and
  \<^verbatim>\<open>crcverify\<close> accepts the result at the longer length.\<close>

theorem crcappend_crcverify:
  assumes "len + 1 < length message"
  shows "\<exists>m'. crcappend message len = Some m' \<and> length m' = length message
           \<and> take len m' = take len message \<and> crcverify m' (len + 2) = Some True"
proof -
  define c where "c = fold (\<lambda>b c. CRC c b) (take len message) CRC_INIT"
  define m' where "m' = message[len := ucast (c AND 0xff), len + 1 := ucast (drop_bit 8 c AND 0xff)]"
  have "crcappend message len = Some m'"
    using assms by (simp add: crcappend_eq c_def m'_def Let_def)
  moreover have take: "take len m' = take len message"
    by (simp add: m'_def)
  moreover have sum: "crcsum m' len CRC_INIT = Some c"
    using assms take by (simp add: crcsum_fold c_def m'_def)
  have "crcverify m' (len + 2) = Some True"
    using assms by (simp add: crcverify_def sum) (simp add: m'_def ucast_and_255 nth_list_update)
  ultimately show ?thesis using assms by (simp add: m'_def)
qed

theorem crcappend_crcverify_witness:
  "\<exists>m'. crcappend [0x1B, 0x02, 0, 0] 2 = Some m' \<and> length m' = 4
      \<and> take 2 m' = [0x1B, 0x02] \<and> crcverify m' 4 = Some True"
  using crcappend_crcverify [of 2 "[0x1B, 0x02, 0, 0]"] by (simp add: eval_nat_numeral)

subsection \<open>Error detection\<close>

lemma crc_bits_eq_0: "crc_bits n c = 0 \<Longrightarrow> c = 0"
proof (induction n arbitrary: c)
  case 0
  then show ?case by simp
next
  case (Suc n)
  show ?case
  proof (cases "bit c 0")
    case True
    with Suc have "drop_bit 1 c XOR 0x8408 = 0" by simp
    then have "bit (drop_bit 1 c XOR 0x8408) 15 = bit (0 :: u16) 15" by simp
    then show ?thesis by (simp add: bit_xor_iff bit_drop_bit_eq) (auto dest: bit_imp_le_length)
  next
    case False
    with Suc have z: "drop_bit 1 c = 0" by simp
    show ?thesis
    proof (rule bit_word_eqI)
      fix k
      show "bit c k = bit 0 k"
        using False arg_cong [OF z, of "\<lambda>w. bit w (k - 1)"] by (cases k) (simp_all add: bit_drop_bit_eq)
    qed
  qed
qed

lemma crc_bits_inject: "crc_bits n a = crc_bits n b \<longleftrightarrow> a = b"
proof
  assume "crc_bits n a = crc_bits n b"
  then have "crc_bits n (a XOR b) = 0" by (simp add: crc_bits_xor)
  then have "a XOR b = 0" by (rule crc_bits_eq_0)
  then show "a = b" by (metis xor.assoc xor_self_eq xor.comm_neutral xor.commute)
qed simp

lemma xor_inject: "(x :: 'a::len word) XOR y = x XOR z \<longleftrightarrow> y = z"
  by (metis xor.assoc xor_self_eq xor.left_neutral)

lemma CRC_inject_byte: "CRC c b = CRC c b' \<longleftrightarrow> b = b'"
  by (simp add: CRC_eq_ref crc_ref_byte_def crc_bits_inject xor_inject ucast_up_inject)

lemma CRC_inject_crc: "CRC c b = CRC c' b \<longleftrightarrow> c = c'"
  by (simp add: CRC_eq_ref crc_ref_byte_def crc_bits_inject xor.commute [of _ "ucast b"] xor_inject)

lemma fold_CRC_inject: "fold (\<lambda>b c. CRC c b) bs c = fold (\<lambda>b c. CRC c b) bs c' \<longleftrightarrow> c = c'"
  by (induction bs arbitrary: c c') (simp_all add: CRC_inject_crc)

text \<open>The checksum detects every single corrupted byte: two messages that differ in at
  most the byte at index \<open>i\<close> have the same sum only if that byte is the same.\<close>

theorem crcsum_detects_byte:
  assumes "i < len" and "len \<le> length message"
    and "crcsum (message[i := b]) len crc = crcsum message len crc"
  shows "b = message ! i"
proof -
  define rest where "rest = drop (Suc i) (take len message)"
  have old: "take len message = take i message @ message ! i # rest"
    using assms(1,2) id_take_nth_drop [of i "take len message"] by (simp add: rest_def min_def)
  have new: "take len (message[i := b]) = take i message @ b # rest"
    using assms(1,2) by (simp add: take_update_swap old list_update_append)
  from assms(2,3) show ?thesis
    by (simp add: crcsum_fold old new fold_CRC_inject CRC_inject_byte)
qed

theorem crcsum_detects_byte_witness:
  "crcsum ([7, 1, 2][1 := 9]) 3 CRC_INIT \<noteq> crcsum [7, 1, 2] 3 CRC_INIT"
  using crcsum_detects_byte [of 1 3 "[7, 1, 2]" 9 CRC_INIT] by auto

end
