(* ===== verification/Serial.thy ===== *)
theory Serial
  imports Prelude
begin

text \<open>
  avrdude's serial ports on a POSIX system: sending, receiving and draining in \<^verbatim>\<open>ser_posix.c\<close>, over a
  record of the system's calls. \<open>None\<close> is a loop that never ends or undefined behaviour. The interface
  \<open>serial_line\<close> says what the drivers of serial programmers expect of a port.
\<close>

subsection \<open>System calls\<close>

text \<open>
  \<open>select\<close> waits for input on the port: it takes the time-out in microseconds and returns the number of
  ready descriptors, the error and what is left of the time-out. \<open>read\<close> takes the size of the buffer
  and returns the number of bytes or a negative number, and the bytes. \<open>malloc\<close> returns the
  uninitialised block, if there is one. The descriptor is fixed.
\<close>

datatype errno = EINTR | EAGAIN | OTHER

record 'd os =
  os_select :: "nat \<Rightarrow> 'd \<Rightarrow> int \<times> errno \<times> nat \<times> 'd"
  os_read :: "nat \<Rightarrow> 'd \<Rightarrow> int \<times> u8 list \<times> 'd"
  os_write :: "u8 list \<Rightarrow> 'd \<Rightarrow> int \<times> 'd"
  os_time :: "'d \<Rightarrow> int \<times> 'd"
  os_malloc :: "nat \<Rightarrow> 'd \<Rightarrow> u8 list option \<times> 'd"

subsection \<open>Sending\<close>

partial_function (option) ser_send_loop :: "'d os \<Rightarrow> u8 list \<Rightarrow> 'd \<Rightarrow> (int \<times> 'd) option" where
  "ser_send_loop os bs d =
     (if bs = [] then Some (0, d)
      else (let (rc, d) = os_write os (if 1024 < length bs then take 1024 bs else bs) d
            in if rc < 0 then Some (-1, d)
               else if length bs < nat rc then None
               else ser_send_loop os (drop (nat rc) bs) d))"

definition ser_send :: "'d os \<Rightarrow> u8 list \<Rightarrow> 'd \<Rightarrow> (int \<times> 'd) option" where
  "ser_send os buf d = (if buf = [] then Some (0, d) else ser_send_loop os buf d)"

subsection \<open>Receiving\<close>

text \<open>\<^verbatim>\<open>reselect\<close>: whether there is input, or the result of the function if it ends here.\<close>

partial_function (option) reselect :: "'d os \<Rightarrow> nat \<Rightarrow> 'd \<Rightarrow> (bool \<times> nat \<times> 'd) option" where
  "reselect os to2 d =
     (let (nfds, err, to2, d) = os_select os to2 d
      in if nfds = 0 then Some (False, to2, d)
         else if nfds = -1
         then (if err = EINTR \<or> err = EAGAIN then reselect os to2 d else Some (False, to2, d))
         else Some (True, to2, d))"

text \<open>\<open>acc\<close> is the part of the buffer that is filled.\<close>

partial_function (option) ser_recv_loop ::
    "'d os \<Rightarrow> nat \<Rightarrow> nat \<Rightarrow> u8 list \<Rightarrow> 'd \<Rightarrow> (int \<times> u8 list \<times> 'd) option" where
  "ser_recv_loop os buflen to2 acc d =
     (if length acc < buflen
      then do {
        (ready, to2, d) \<leftarrow> reselect os to2 d;
        if \<not> ready then Some (-1, acc, d)
        else (let (rc, bs, d) = os_read os (if 1024 < buflen - length acc then 1024 else buflen - length acc) d
              in if rc < 0 then Some (-1, acc, d)
                 else ser_recv_loop os buflen to2 (acc @ take (nat rc) bs) d)
      }
      else Some (0, acc, d))"

definition ser_recv :: "'d os \<Rightarrow> nat \<Rightarrow> nat \<Rightarrow> 'd \<Rightarrow> (int \<times> u8 list \<times> 'd) option" where
  "ser_recv os serial_recv_timeout buflen d =
     ser_recv_loop os buflen (serial_recv_timeout div 1000 * 1000000 + serial_recv_timeout mod 1000 * 1000) [] d"

subsection \<open>Draining\<close>

partial_function (option) drain_select :: "'d os \<Rightarrow> nat \<Rightarrow> 'd \<Rightarrow> (int \<times> nat \<times> 'd) option" where
  "drain_select os timeout d =
     (let (nfds, err, timeout, d) = os_select os timeout d
      in if nfds = -1 \<and> err = EINTR then drain_select os timeout d else Some (nfds, timeout, d))"

partial_function (option) ser_drain_loop :: "'d os \<Rightarrow> nat \<Rightarrow> 'd \<Rightarrow> (int \<times> 'd) option" where
  "ser_drain_loop os timeout d = do {
     (nfds, timeout, d) \<leftarrow> drain_select os timeout d;
     if nfds = 0 then Some (0, d)
     else if nfds = -1 then Some (-1, d)
     else (let (rc, _, d) = os_read os 1 d
           in if rc < 0 then Some (-1, d) else ser_drain_loop os timeout d)
   }"

definition ser_drain :: "'d os \<Rightarrow> 'd \<Rightarrow> (int \<times> 'd) option" where
  "ser_drain os d = ser_drain_loop os 250000 d"

subsection \<open>The port as the drivers see it\<close>

text \<open>\<^verbatim>\<open>serdev\<close> with the clock and the memory of the system, which the drivers use too.\<close>

record 'd serdev =
  serial_send :: "u8 list \<Rightarrow> 'd \<Rightarrow> (int \<times> 'd) option"
  serial_recv :: "nat \<Rightarrow> 'd \<Rightarrow> (int \<times> u8 list \<times> 'd) option"
  serial_drain :: "'d \<Rightarrow> (int \<times> 'd) option"
  gettimeofday :: "'d \<Rightarrow> int \<times> 'd"
  malloc :: "nat \<Rightarrow> 'd \<Rightarrow> u8 list option \<times> 'd"

definition serial_serdev :: "'d os \<Rightarrow> nat \<Rightarrow> 'd serdev" where
  "serial_serdev os serial_recv_timeout =
     \<lparr>serial_send = ser_send os, serial_recv = ser_recv os serial_recv_timeout, serial_drain = ser_drain os,
      gettimeofday = os_time os, malloc = os_malloc os\<rparr>"

text \<open>
  A line over which the peer has sent \<open>inp d\<close>, which has taken \<open>outp d\<close>, and on which the whole
  conversation lasts at most \<open>span\<close> seconds from \<open>t0\<close> on. A receive that asks for more than there is
  runs into its time-out.
\<close>

locale serial_line =
  fixes sd :: "'d serdev" and inp outp :: "'d \<Rightarrow> u8 list" and good :: "'d \<Rightarrow> bool" and t0 span :: int
  assumes recv_ready: "good d \<Longrightarrow> n \<le> length (inp d) \<Longrightarrow>
      \<exists>d'. serial_recv sd n d = Some (0, take n (inp d), d') \<and> good d' \<and> inp d' = drop n (inp d) \<and> outp d' = outp d"
    and recv_starved: "good d \<Longrightarrow> length (inp d) < n \<Longrightarrow>
      \<exists>d'. serial_recv sd n d = Some (-1, inp d, d') \<and> good d' \<and> inp d' = [] \<and> outp d' = outp d"
    and send_ok: "good d \<Longrightarrow>
      \<exists>d'. serial_send sd bs d = Some (0, d') \<and> good d' \<and> inp d' = inp d \<and> outp d' = outp d @ bs"
    and drain_ok: "good d \<Longrightarrow>
      \<exists>d'. serial_drain sd d = Some (0, d') \<and> good d' \<and> inp d' = [] \<and> outp d' = outp d"
    and time_ok: "good d \<Longrightarrow>
      \<exists>t d'. gettimeofday sd d = (t, d') \<and> t0 \<le> t \<and> t \<le> t0 + span \<and> good d' \<and> inp d' = inp d \<and> outp d' = outp d"
    and malloc_ok: "good d \<Longrightarrow>
      \<exists>bs d'. malloc sd n d = (Some bs, d') \<and> length bs = n \<and> good d' \<and> inp d' = inp d \<and> outp d' = outp d"

subsection \<open>The port keeps the contract\<close>

text \<open>
  What POSIX says of the calls on a port that works: \<open>select\<close> sees input when there is some and times
  out otherwise, after at most \<open>k d\<close> signals; \<open>read\<close> and \<open>write\<close> transfer at least one byte.
\<close>

definition posix_select ::
    "'d os \<Rightarrow> ('d \<Rightarrow> u8 list) \<Rightarrow> ('d \<Rightarrow> u8 list) \<Rightarrow> ('d \<Rightarrow> nat) \<Rightarrow> bool" where
  "posix_select os inp outp k \<longleftrightarrow>
     (\<forall>d t. case os_select os t d of (nfds, err, t', d') \<Rightarrow>
        inp d' = inp d \<and> outp d' = outp d \<and>
        (nfds = -1 \<and> err = EINTR \<and> k d' < k d \<or> nfds = (if inp d = [] then 0 else 1) \<and> k d' \<le> k d))"

definition posix_read :: "'d os \<Rightarrow> ('d \<Rightarrow> u8 list) \<Rightarrow> ('d \<Rightarrow> u8 list) \<Rightarrow> bool" where
  "posix_read os inp outp \<longleftrightarrow>
     (\<forall>d n. 0 < n \<and> inp d \<noteq> [] \<longrightarrow> (case os_read os n d of (rc, bs, d') \<Rightarrow>
        0 < rc \<and> rc \<le> int n \<and> nat rc \<le> length (inp d) \<and> bs = take (nat rc) (inp d) \<and>
        inp d' = drop (nat rc) (inp d) \<and> outp d' = outp d))"

definition posix_write :: "'d os \<Rightarrow> ('d \<Rightarrow> u8 list) \<Rightarrow> ('d \<Rightarrow> u8 list) \<Rightarrow> bool" where
  "posix_write os inp outp \<longleftrightarrow>
     (\<forall>d bs. bs \<noteq> [] \<longrightarrow> (case os_write os bs d of (rc, d') \<Rightarrow>
        0 < rc \<and> nat rc \<le> length bs \<and> inp d' = inp d \<and> outp d' = outp d @ take (nat rc) bs))"

definition posix_system :: "'d os \<Rightarrow> ('d \<Rightarrow> u8 list) \<Rightarrow> ('d \<Rightarrow> u8 list) \<Rightarrow> int \<Rightarrow> int \<Rightarrow> bool" where
  "posix_system os inp outp t0 span \<longleftrightarrow>
     (\<forall>d. case os_time os d of (t, d') \<Rightarrow> t0 \<le> t \<and> t \<le> t0 + span \<and> inp d' = inp d \<and> outp d' = outp d) \<and>
     (\<forall>d n. case os_malloc os n d of (b, d') \<Rightarrow>
        (\<exists>bs. b = Some bs \<and> length bs = n) \<and> inp d' = inp d \<and> outp d' = outp d)"

definition posix_port ::
    "'d os \<Rightarrow> ('d \<Rightarrow> u8 list) \<Rightarrow> ('d \<Rightarrow> u8 list) \<Rightarrow> ('d \<Rightarrow> nat) \<Rightarrow> int \<Rightarrow> int \<Rightarrow> bool" where
  "posix_port os inp outp k t0 span \<longleftrightarrow>
     posix_select os inp outp k \<and> posix_read os inp outp \<and> posix_write os inp outp \<and>
     posix_system os inp outp t0 span"

lemma posix_selectE:
  assumes "posix_port os inp outp k t0 span"
  obtains nfds err t' d' where "os_select os t d = (nfds, err, t', d')" "inp d' = inp d" "outp d' = outp d"
    "nfds = -1 \<and> err = EINTR \<and> k d' < k d \<or> nfds = (if inp d = [] then 0 else 1) \<and> k d' \<le> k d"
proof -
  obtain nfds err t' d' where r: "os_select os t d = (nfds, err, t', d')" by (cases "os_select os t d")
  have "posix_select os inp outp k" using assms by (simp add: posix_port_def)
  from this [unfolded posix_select_def, THEN spec [where x = d], THEN spec [where x = t]] show ?thesis
    using that r by simp
qed

lemma posix_readE:
  assumes "posix_port os inp outp k t0 span" and "0 < n" and "inp d \<noteq> []"
  obtains j d' where "os_read os n d = (int j, take j (inp d), d')" "0 < j" "j \<le> n" "j \<le> length (inp d)"
    "inp d' = drop j (inp d)" "outp d' = outp d"
proof -
  obtain rc bs d' where r: "os_read os n d = (rc, bs, d')" by (cases "os_read os n d")
  have "posix_read os inp outp" using assms by (simp add: posix_port_def)
  from this [unfolded posix_read_def, THEN spec [where x = d], THEN spec [where x = n]] show ?thesis
    using that [of "nat rc" d'] r assms(2,3) by (simp add: nat_le_iff)
qed

lemma posix_writeE:
  assumes "posix_port os inp outp k t0 span" and "bs \<noteq> []"
  obtains j d' where "os_write os bs d = (int j, d')" "0 < j" "j \<le> length bs"
    "inp d' = inp d" "outp d' = outp d @ take j bs"
proof -
  obtain rc d' where r: "os_write os bs d = (rc, d')" by (cases "os_write os bs d")
  have "posix_write os inp outp" using assms by (simp add: posix_port_def)
  from this [unfolded posix_write_def, THEN spec [where x = d], THEN spec [where x = bs]] show ?thesis
    using that [of "nat rc" d'] r assms(2) by simp
qed

lemma posix_systemD:
  assumes "posix_port os inp outp k t0 span"
  shows "\<exists>t d'. os_time os d = (t, d') \<and> t0 \<le> t \<and> t \<le> t0 + span \<and> inp d' = inp d \<and> outp d' = outp d"
    and "\<exists>bs d'. os_malloc os n d = (Some bs, d') \<and> length bs = n \<and> inp d' = inp d \<and> outp d' = outp d"
proof -
  have p: "posix_system os inp outp t0 span" using assms by (simp add: posix_port_def)
  show "\<exists>t d'. os_time os d = (t, d') \<and> t0 \<le> t \<and> t \<le> t0 + span \<and> inp d' = inp d \<and> outp d' = outp d"
    using p [unfolded posix_system_def, THEN conjunct1, THEN spec [where x = d]] by (auto split: prod.splits)
  show "\<exists>bs d'. os_malloc os n d = (Some bs, d') \<and> length bs = n \<and> inp d' = inp d \<and> outp d' = outp d"
    using p [unfolded posix_system_def, THEN conjunct2, THEN spec [where x = d], THEN spec [where x = n]] by (auto split: prod.splits)
qed

lemma reselect_posix:
  assumes p: "posix_port os inp outp k t0 span"
  shows "\<exists>t' d'. reselect os t d = Some (inp d \<noteq> [], t', d') \<and> inp d' = inp d \<and> outp d' = outp d"
proof (induction "k d" arbitrary: t d rule: less_induct)
  case less
  obtain nfds err t' d' where s: "os_select os t d = (nfds, err, t', d')" "inp d' = inp d" "outp d' = outp d"
    "nfds = -1 \<and> err = EINTR \<and> k d' < k d \<or> nfds = (if inp d = [] then 0 else 1) \<and> k d' \<le> k d"
    by (rule posix_selectE [OF p])
  show ?case
  proof (cases "nfds = -1")
    case True
    then have "err = EINTR" "k d' < k d" using s(4) by (auto split: if_splits)
    then show ?thesis using less [of d' t'] s(1-3) True by (subst reselect.simps) simp
  next
    case False
    then show ?thesis using s by (subst reselect.simps) (auto split: if_splits)
  qed
qed

lemma drain_select_posix:
  assumes p: "posix_port os inp outp k t0 span"
  shows "\<exists>t' d'. drain_select os t d = Some (if inp d = [] then 0 else 1, t', d') \<and> inp d' = inp d \<and> outp d' = outp d"
proof (induction "k d" arbitrary: t d rule: less_induct)
  case less
  obtain nfds err t' d' where s: "os_select os t d = (nfds, err, t', d')" "inp d' = inp d" "outp d' = outp d"
    "nfds = -1 \<and> err = EINTR \<and> k d' < k d \<or> nfds = (if inp d = [] then 0 else 1) \<and> k d' \<le> k d"
    by (rule posix_selectE [OF p])
  show ?case
  proof (cases "nfds = -1")
    case True
    then have "err = EINTR" "k d' < k d" using s(4) by (auto split: if_splits)
    then show ?thesis using less [of d' t'] s(1-3) True by (subst drain_select.simps) simp
  next
    case False
    then show ?thesis using s by (subst drain_select.simps) (auto split: if_splits)
  qed
qed

lemma ser_send_posix:
  assumes p: "posix_port os inp outp k t0 span"
  shows "\<exists>d'. ser_send_loop os bs d = Some (0, d') \<and> inp d' = inp d \<and> outp d' = outp d @ bs"
proof (induction "length bs" arbitrary: bs d rule: less_induct)
  case less
  show ?case
  proof (cases "bs = []")
    case False
    let ?b = "if 1024 < length bs then take 1024 bs else bs"
    have "?b \<noteq> []" using False by simp
    then obtain j d' where w: "os_write os ?b d = (int j, d')" "0 < j" "j \<le> length ?b"
      "inp d' = inp d" "outp d' = outp d @ take j ?b"
      by (rule posix_writeE [OF p])
    have j: "j \<le> length bs" "take j ?b = take j bs" using w(3) by (auto split: if_splits simp: min_def)
    obtain d'' where "ser_send_loop os (drop j bs) d' = Some (0, d'')" "inp d'' = inp d'"
      "outp d'' = outp d' @ drop j bs"
      using less [of "drop j bs" d'] w(2) False by auto
    then show ?thesis using w j False by (subst ser_send_loop.simps) simp
  qed (simp add: ser_send_loop.simps)
qed

lemma ser_recv_posix:
  assumes p: "posix_port os inp outp k t0 span"
  shows "length acc \<le> n \<Longrightarrow> \<exists>d'.
    ser_recv_loop os n t acc d =
      Some (if n - length acc \<le> length (inp d) then 0 else -1, acc @ take (n - length acc) (inp d), d') \<and>
    inp d' = drop (n - length acc) (inp d) \<and> outp d' = outp d"
proof (induction "n - length acc" arbitrary: acc t d rule: less_induct)
  case less
  show ?case
  proof (cases "length acc < n")
    case True
    obtain t' d1 where s: "reselect os t d = Some (inp d \<noteq> [], t', d1)" "inp d1 = inp d" "outp d1 = outp d"
      using reselect_posix [OF p] by blast
    show ?thesis
    proof (cases "inp d = []")
      case empty: True
      then show ?thesis using True s by (subst ser_recv_loop.simps) simp
    next
      case False
      let ?n = "if 1024 < n - length acc then 1024 else n - length acc"
      have "0 < ?n" "inp d1 \<noteq> []" using True False s(2) by simp_all
      then obtain j d2 where r: "os_read os ?n d1 = (int j, take j (inp d1), d2)" "0 < j" "j \<le> ?n"
        "j \<le> length (inp d1)" "inp d2 = drop j (inp d1)" "outp d2 = outp d1"
        by (rule posix_readE [OF p])
      have j: "j \<le> n - length acc" using r(3) by (auto split: if_splits)
      have t: "take (n - length acc) (inp d) = take j (inp d) @ take (n - length acc - j) (drop j (inp d))"
        using j take_add [of j "n - length acc - j" "inp d"] by (simp only: le_add_diff_inverse)
      have l: "length (acc @ take j (inp d)) = length acc + j" using r(4) s(2) by simp
      have "n - length (acc @ take j (inp d)) < n - length acc" "length (acc @ take j (inp d)) \<le> n"
        unfolding l using True r(2) j by simp_all
      from less.hyps [OF this, of t' d2, unfolded l] obtain d3 where
        "ser_recv_loop os n t' (acc @ take j (inp d)) d2 =
          Some (if n - length acc - j \<le> length (inp d2) then 0 else -1,
                (acc @ take j (inp d)) @ take (n - length acc - j) (inp d2), d3)"
        "inp d3 = drop (n - length acc - j) (inp d2)" "outp d3 = outp d2"
        unfolding diff_diff_left by blast
      moreover have "n - length acc - j \<le> length (inp d) - j \<longleftrightarrow> n - length acc \<le> length (inp d)"
        using r(4) s(2) j by auto
      ultimately show ?thesis using True False s r t j
        by (subst ser_recv_loop.simps) (auto simp: min_def)
    qed
  qed (use less.prems in \<open>simp add: ser_recv_loop.simps\<close>)
qed

lemma ser_drain_posix:
  assumes p: "posix_port os inp outp k t0 span"
  shows "\<exists>d'. ser_drain_loop os t d = Some (0, d') \<and> inp d' = [] \<and> outp d' = outp d"
proof (induction "length (inp d)" arbitrary: d t rule: less_induct)
  case less
  obtain t' d1 where s: "drain_select os t d = Some (if inp d = [] then 0 else 1, t', d1)"
    "inp d1 = inp d" "outp d1 = outp d"
    using drain_select_posix [OF p] by blast
  show ?case
  proof (cases "inp d = []")
    case True
    then show ?thesis using s by (subst ser_drain_loop.simps) simp
  next
    case False
    then have "inp d1 \<noteq> []" by (simp add: s)
    then obtain j d2 where r: "os_read os 1 d1 = (int j, take j (inp d1), d2)" "0 < j" "j \<le> 1"
      "j \<le> length (inp d1)" "inp d2 = drop j (inp d1)" "outp d2 = outp d1"
      by (rule posix_readE [OF p zero_less_one])
    then have "length (inp d2) < length (inp d)" using False s(2) by (cases "inp d") simp_all
    then obtain d3 where "ser_drain_loop os t' d2 = Some (0, d3)" "inp d3 = []" "outp d3 = outp d2"
      using less by blast
    then show ?thesis using False s r by (subst ser_drain_loop.simps) simp
  qed
qed

interpretation posix: serial_line "serial_serdev os serial_recv_timeout" inp outp
    "\<lambda>_. posix_port os inp outp k t0 span" t0 span
  for os :: "'d os" and serial_recv_timeout :: nat and inp outp :: "'d \<Rightarrow> u8 list"
    and k :: "'d \<Rightarrow> nat" and t0 span :: int
proof (unfold_locales, goal_cases)
  case (1 d n)
  then show ?case using ser_recv_posix [of os inp outp k t0 span "[]" n _ d]
    by (simp add: serial_serdev_def ser_recv_def)
next
  case (2 d n)
  then show ?case
    using ser_recv_posix [of os inp outp k t0 span "[]" n
        "serial_recv_timeout div 1000 * 1000000 + serial_recv_timeout mod 1000 * 1000" d]
    by (auto simp: serial_serdev_def ser_recv_def)
next
  case (3 d bs)
  then show ?case using ser_send_posix [of os inp outp k t0 span bs d]
    by (simp add: serial_serdev_def ser_send_def)
next
  case (4 d)
  then show ?case using ser_drain_posix [of os inp outp k t0 span _ d]
    by (simp add: serial_serdev_def ser_drain_def)
next
  case (5 d)
  then show ?case using posix_systemD(1) [of os inp outp k t0 span d] by (simp add: serial_serdev_def)
next
  case (6 d n)
  then show ?case using posix_systemD(2) [of os inp outp k t0 span n d] by (simp add: serial_serdev_def)
qed

subsection \<open>A connection that was closed\<close>

text \<open>
  After the end of the input \<open>select\<close> always reports the descriptor as ready and \<open>read\<close> returns 0.
\<close>

definition at_eof :: "'d os \<Rightarrow> bool" where
  "at_eof os \<longleftrightarrow> (\<forall>t d. os_select os t d = (1, OTHER, t, d)) \<and> (\<forall>n d. os_read os n d = (0, [], d))"

lemma reselect_at_eof: "at_eof os \<Longrightarrow> reselect os t d = Some (True, t, d)"
  by (subst reselect.simps) (simp add: at_eof_def)

lemma recv_at_eof: "ser_recv_loop os n t acc d = Some r \<Longrightarrow> at_eof os \<Longrightarrow> n \<le> length acc"
proof (induction arbitrary: r rule: ser_recv_loop.raw_induct [rotated, consumes 1])
  case (1 f os n t acc d r)
  show ?case
  proof (rule ccontr)
    assume "\<not> n \<le> length acc"
    then have "f os n t acc d = Some r"
      using 1(2,3) by (simp add: reselect_at_eof at_eof_def)
    then show False using 1(1) [of os n t acc d r] 1(3) \<open>\<not> n \<le> length acc\<close> by simp
  qed
qed

lemma ser_recv_at_eof: "at_eof os \<Longrightarrow> 0 < n \<Longrightarrow> ser_recv os tmo n d = None"
  using recv_at_eof [of os n _ "[]" d] by (cases "ser_recv os tmo n d") (auto simp: ser_recv_def)

text \<open>On a working port the receiving of a number of bytes takes exactly the next bytes of the input
  and reports success, or takes what there is and reports the time-out, whatever the sizes of the
  system's reads and however often signals interrupt the waiting.\<close>

theorem ser_recv_delivers:
  assumes "posix_port os inp outp k t0 span"
  shows "\<exists>d'. ser_recv os tmo n d = Some (if n \<le> length (inp d) then 0 else -1, take n (inp d), d') \<and>
    inp d' = drop n (inp d) \<and> outp d' = outp d"
  using ser_recv_posix [OF assms, of "[]" n _ d] by (simp add: ser_recv_def)

text \<open>A port on a list of input bytes that reads and writes one byte at a time.\<close>

definition byte_port :: "(u8 list \<times> u8 list) os" where
  "byte_port =
     \<lparr>os_select = (\<lambda>t d. (if prod.fst d = [] then 0 else 1, OTHER, t, d)),
      os_read = (\<lambda>n d. (1, take 1 (prod.fst d), (drop 1 (prod.fst d), snd d))),
      os_write = (\<lambda>bs d. (1, (prod.fst d, snd d @ take 1 bs))),
      os_time = (\<lambda>d. (0, d)),
      os_malloc = (\<lambda>n d. (Some (replicate n 0), d))\<rparr>"

lemma byte_port_ok: "posix_port byte_port prod.fst snd (\<lambda>_. 0) 0 0"
  by (simp add: posix_port_def posix_select_def posix_read_def posix_write_def posix_system_def byte_port_def
      Suc_le_eq)

lemma ser_recv_delivers_witness:
  "\<exists>d'. ser_recv byte_port 5000 2 ([7, 8, 9], []) = Some (0, [7, 8], d') \<and> prod.fst d' = [9] \<and> snd d' = []"
  using ser_recv_delivers [OF byte_port_ok, of 5000 2 "([7, 8, 9], [])"] by (simp add: eval_nat_numeral)

end
