(* ===== verification/JtagMkII.thy ===== *)
theory JtagMkII
  imports Crc16 Serial
begin

text \<open>
  The messages of the JTAG ICE mkII: framing, sending and receiving in avrdude's \<^verbatim>\<open>jtagmkII.c\<close>. A frame
  has a start byte, a sequence number, a size, a token, the payload and the checksum of \<^verbatim>\<open>crc16.c\<close>.
  \<open>None\<close> is undefined behaviour or an endless loop. The displays of messages are left out.
\<close>

subsection \<open>Numbers as bytes\<close>

definition MESSAGE_START :: u8 where "MESSAGE_START = 0x1b"
definition TOKEN :: u8 where "TOKEN = 0x0e"
definition MAX_MESSAGE :: u64 where "MAX_MESSAGE = 100000"

definition b4_to_u32 :: "u8 list \<Rightarrow> u64" where
  "b4_to_u32 b = ucast (b ! 0) + ucast (push_bit 8 (ucast (b ! 1) :: u32)) +
     ucast (push_bit 16 (ucast (b ! 2) :: u32)) + ucast (push_bit 24 (ucast (b ! 3) :: u32))"

definition b4_to_u32r :: "u8 list \<Rightarrow> u64" where
  "b4_to_u32r b = ucast (b ! 3) + ucast (push_bit 8 (ucast (b ! 2) :: u32)) +
     ucast (push_bit 16 (ucast (b ! 1) :: u32)) + ucast (push_bit 24 (ucast (b ! 0) :: u32))"

definition u32_to_b4 :: "u64 \<Rightarrow> u8 list" where
  "u32_to_b4 l = [ucast (l AND 0xff), ucast (drop_bit 8 l AND 0xff), ucast (drop_bit 16 l AND 0xff),
     ucast (drop_bit 24 l AND 0xff)]"

definition u32_to_b4r :: "u64 \<Rightarrow> u8 list" where
  "u32_to_b4r l = [ucast (drop_bit 24 l AND 0xff), ucast (drop_bit 16 l AND 0xff),
     ucast (drop_bit 8 l AND 0xff), ucast (l AND 0xff)]"

definition b2_to_u16 :: "u8 list \<Rightarrow> u16" where
  "b2_to_u16 b = ucast (b ! 0) + ucast (push_bit 8 (ucast (b ! 1) :: u32))"

definition u16_to_b2 :: "u16 \<Rightarrow> u8 list" where
  "u16_to_b2 l = [ucast (l AND 0xff), ucast (drop_bit 8 l AND 0xff)]"

subsection \<open>Sending\<close>

text \<open>\<^verbatim>\<open>memcpy(buf + k, bs, ...)\<close>, and a single store as well.\<close>

definition store :: "nat \<Rightarrow> u8 list \<Rightarrow> u8 list \<Rightarrow> u8 list option" where
  "store k bs buf =
     (if k + length bs \<le> length buf then Some (take k buf @ bs @ drop (k + length bs) buf) else None)"

definition jtagmkII_send :: "'d serdev \<Rightarrow> u16 \<Rightarrow> u8 list \<Rightarrow> 'd \<Rightarrow> (int \<times> 'd) option" where
  "jtagmkII_send sd command_sequence data d =
     (let len = length data; (buf, d) = malloc sd (len + 10) d
      in case buf of
           None \<Rightarrow> Some (-1, d)
         | Some buf \<Rightarrow> do {
             buf \<leftarrow> store 0 [MESSAGE_START] buf;
             buf \<leftarrow> store 1 (u16_to_b2 command_sequence) buf;
             buf \<leftarrow> store 3 (u32_to_b4 (of_nat len)) buf;
             buf \<leftarrow> store 7 [TOKEN] buf;
             buf \<leftarrow> store 8 data buf;
             buf \<leftarrow> crcappend buf (len + 8);
             (rc, d) \<leftarrow> serial_send sd (take (len + 10) buf) d;
             Some (if rc \<noteq> 0 then -1 else 0, d)
           })"

definition jtagmkII_drain :: "'d serdev \<Rightarrow> 'd \<Rightarrow> (int \<times> 'd) option" where
  "jtagmkII_drain sd d = serial_drain sd d"

subsection \<open>Receiving one frame\<close>

datatype rx_state =
    sSTART | sSEQNUM1 | sSEQNUM2 | sSIZE1 | sSIZE2 | sSIZE3 | sSIZE4 | sTOKEN | sDATA | sCSUM1 | sCSUM2 | sDONE

record rx =
  rx_st :: rx_state
  rx_msglen :: u64
  rx_l :: nat
  rx_header :: "u8 list"
  rx_headeridx :: nat
  rx_ignorpkt :: nat
  rx_buf :: "u8 list option"
  rx_seqno :: u16

text \<open>\<^verbatim>\<open>state++\<close>, for the states that it is used in.\<close>

fun next_state :: "rx_state \<Rightarrow> rx_state" where
  "next_state sSEQNUM1 = sSEQNUM2"
| "next_state sSEQNUM2 = sSIZE1"
| "next_state sSIZE1 = sSIZE2"
| "next_state sSIZE2 = sSIZE3"
| "next_state sSIZE3 = sSIZE4"
| "next_state sSIZE4 = sTOKEN"
| "next_state sCSUM1 = sCSUM2"
| "next_state s = s"

text \<open>\<^verbatim>\<open>state < sDATA\<close>\<close>

definition in_header :: "rx_state \<Rightarrow> bool" where
  "in_header s \<longleftrightarrow> s \<in> {sSTART, sSEQNUM1, sSEQNUM2, sSIZE1, sSIZE2, sSIZE3, sSIZE4, sTOKEN}"

definition put_header :: "u8 \<Rightarrow> rx \<Rightarrow> rx option" where
  "put_header c r =
     (if in_header (rx_st r)
      then (if rx_headeridx r < length (rx_header r)
            then Some (r\<lparr>rx_header := (rx_header r)[rx_headeridx r := c], rx_headeridx := rx_headeridx r + 1\<rparr>)
            else None)
      else Some r)"

definition rx_token :: "'d serdev \<Rightarrow> u8 \<Rightarrow> rx \<Rightarrow> 'd \<Rightarrow> rx \<times> 'd" where
  "rx_token sd c r d =
     (if c = TOKEN
      then (if MAX_MESSAGE < rx_msglen r then (r\<lparr>rx_st := sSTART, rx_headeridx := 0\<rparr>, d)
            else (case malloc sd (unat (rx_msglen r) + 10) d of
                    (None, d) \<Rightarrow> (r\<lparr>rx_st := sDATA, rx_buf := None, rx_ignorpkt := rx_ignorpkt r + 1\<rparr>, d)
                  | (Some buf, d) \<Rightarrow> (r\<lparr>rx_st := sDATA, rx_buf := Some (take 8 (rx_header r) @ drop 8 buf)\<rparr>, d)))
      else (r\<lparr>rx_st := sSTART, rx_headeridx := 0\<rparr>, d))"

text \<open>A checksum byte; after the second one the frame is checked. Without a buffer, the store is to \<^verbatim>\<open>NULL\<close>.\<close>

definition rx_csum :: "u8 \<Rightarrow> rx \<Rightarrow> (int + rx) option" where
  "rx_csum c r = do {
     buf \<leftarrow> rx_buf r;
     buf \<leftarrow> store (rx_l r) [c] buf;
     let r = r\<lparr>rx_buf := Some buf, rx_l := rx_l r + 1\<rparr>;
     if rx_st r = sCSUM2
     then do {
       ok \<leftarrow> crcverify buf (unat (rx_msglen r) + 10);
       Some (if ok then Inr (r\<lparr>rx_st := sDONE\<rparr>) else Inl (-4))
     }
     else Some (Inr (r\<lparr>rx_st := next_state (rx_st r)\<rparr>))
   }"

text \<open>The \<^verbatim>\<open>switch\<close> for a byte that was received.\<close>

definition rx_byte :: "'d serdev \<Rightarrow> u8 \<Rightarrow> rx \<Rightarrow> 'd \<Rightarrow> ((int + rx) \<times> 'd) option" where
  "rx_byte sd c r d = do {
     r \<leftarrow> put_header c r;
     (case rx_st r of
        sSTART \<Rightarrow>
          Some (Inr (if c = MESSAGE_START then r\<lparr>rx_st := sSEQNUM1\<rparr> else r\<lparr>rx_headeridx := 0\<rparr>), d)
      | sTOKEN \<Rightarrow> (let (r, d) = rx_token sd c r d in Some (Inr r, d))
      | sCSUM1 \<Rightarrow> do { x \<leftarrow> rx_csum c r; Some (x, d) }
      | sCSUM2 \<Rightarrow> do { x \<leftarrow> rx_csum c r; Some (x, d) }
      | sDATA \<Rightarrow> Some (Inl (-5), d)
      | sDONE \<Rightarrow> Some (Inl (-5), d)
      | s \<Rightarrow>
          Some (Inr (if s = sSEQNUM1 \<or> s = sSEQNUM2
            then r\<lparr>rx_seqno := drop_bit 8 (rx_seqno r) OR ucast (push_bit 8 (ucast c :: u32)), rx_st := next_state s\<rparr>
            else r\<lparr>rx_msglen := drop_bit 8 (rx_msglen r) OR ucast (push_bit 24 (ucast c :: u32)),
                   rx_st := next_state s\<rparr>), d))
   }"

fun skip_loop :: "'d serdev \<Rightarrow> nat \<Rightarrow> int \<Rightarrow> 'd \<Rightarrow> (int \<times> 'd) option" where
  "skip_loop sd 0 rv d = Some (rv, d)"
| "skip_loop sd (Suc n) rv d = do {
     (rc, _, d) \<leftarrow> serial_recv sd 1 d;
     skip_loop sd n (rv + rc) d
   }"

text \<open>The payload, into the buffer if there is one. The state \<^verbatim>\<open>sDATA\<close> follows in the same round.\<close>

definition rx_data :: "'d serdev \<Rightarrow> rx \<Rightarrow> 'd \<Rightarrow> ((int + rx) \<times> 'd) option" where
  "rx_data sd r d = do {
     (rv, buf, d) \<leftarrow>
       (if rx_ignorpkt r \<noteq> 0
        then do { (rv, d) \<leftarrow> skip_loop sd (unat (rx_msglen r)) 0 d; Some (rv, rx_buf r, d) }
        else do {
          buf \<leftarrow> rx_buf r;
          (rv, bs, d) \<leftarrow> serial_recv sd (unat (rx_msglen r)) d;
          buf \<leftarrow> store 8 bs buf;
          Some (rv, Some buf, d)
        });
     Some (if rv \<noteq> 0 then Inl (-1)
           else Inr (r\<lparr>rx_buf := buf, rx_l := unat (rx_msglen r) + 8, rx_st := sCSUM1\<rparr>), d)
   }"

text \<open>One round: a byte or the payload is received and processed.\<close>

definition rx_round :: "'d serdev \<Rightarrow> rx \<Rightarrow> 'd \<Rightarrow> ((int + rx) \<times> 'd) option" where
  "rx_round sd r d =
     (if rx_st r = sDATA then rx_data sd r d
      else do {
        (rc, bs, d) \<leftarrow> serial_recv sd 1 d;
        if rc \<noteq> 0 then Some (Inl (-1), d)
        else (case bs of [c] \<Rightarrow> rx_byte sd c r d | _ \<Rightarrow> None)
      })"

partial_function (option) rx_loop :: "'d serdev \<Rightarrow> int \<Rightarrow> rx \<Rightarrow> 'd \<Rightarrow> ((int + rx) \<times> 'd) option" where
  "rx_loop sd tstart r d =
     (if rx_st r = sDONE then Some (Inr r, d)
      else do {
        (x, d) \<leftarrow> rx_round sd r d;
        (case x of
           Inl e \<Rightarrow> Some (Inl e, d)
         | Inr r \<Rightarrow>
             (let (tnow, d) = gettimeofday sd d
              in if 100 < tnow - tstart then Some (Inl (-1), d) else rx_loop sd tstart r d))
      })"

definition rx_start :: "u8 list \<Rightarrow> rx" where
  "rx_start junk = \<lparr>rx_st = sSTART, rx_msglen = 0, rx_l = 0, rx_header = junk, rx_headeridx = 0,
     rx_ignorpkt = 0, rx_buf = None, rx_seqno = 0\<rparr>"

text \<open>The result is the size of the payload and the frame with its sequence number, or an error.\<close>

definition jtagmkII_recv_frame :: "'d serdev \<Rightarrow> u8 list \<Rightarrow> 'd \<Rightarrow> (int \<times> (u8 list \<times> u16) option \<times> 'd) option" where
  "jtagmkII_recv_frame sd junk d = do {
     let (tstart, d) = gettimeofday sd d;
     (x, d) \<leftarrow> rx_loop sd tstart (rx_start junk) d;
     (case x of
        Inl e \<Rightarrow> Some (e, None, d)
      | Inr r \<Rightarrow> do { buf \<leftarrow> rx_buf r; Some (sint (ucast (rx_msglen r) :: u32), Some (buf, rx_seqno r), d) })
   }"

subsection \<open>Receiving a response\<close>

text \<open>\<^verbatim>\<open>memmove(*msg, *msg + 8, rv)\<close>\<close>

partial_function (option) jtagmkII_recv ::
    "'d serdev \<Rightarrow> u8 list \<Rightarrow> u16 \<Rightarrow> 'd \<Rightarrow> (int \<times> u8 list option \<times> u16 \<times> 'd) option" where
  "jtagmkII_recv sd junk command_sequence d = do {
     (rv, frame, d) \<leftarrow> jtagmkII_recv_frame sd junk d;
     if rv \<le> 0 then Some (rv, map_option prod.fst frame, command_sequence, d)
     else do {
       (msg, r_seqno) \<leftarrow> frame;
       if r_seqno = command_sequence
       then do {
         msg \<leftarrow> store 0 (take (nat rv) (drop 8 msg)) msg;
         Some (rv, Some msg, if command_sequence + 1 = 0xffff then 0 else command_sequence + 1, d)
       }
       else jtagmkII_recv sd junk command_sequence d
     }
   }"

subsection \<open>Bytes\<close>

lemma u16_to_b2_le: "u16_to_b2 l = le16 l"
  by (auto simp: u16_to_b2_def le16_def intro!: bit_word_eqI
      simp: bit_ucast_iff bit_and_iff bit_drop_bit_eq and_255_take_bit bit_take_bit_iff)

lemma and_ff_u64: "(x :: u64) AND 0xff = take_bit 8 x"
  by (simp add: take_bit_eq_mask mask_eq_exp_minus_1)

lemma u32_to_b4_le: "u32_to_b4 l = le32 (ucast l)"
  by (auto simp: u32_to_b4_def le32_def and_ff_u64 intro!: bit_word_eqI
      simp: bit_ucast_iff bit_drop_bit_eq bit_take_bit_iff)

lemma u32_to_b4r_rev: "u32_to_b4r l = rev (u32_to_b4 l)"
  by (simp add: u32_to_b4r_def u32_to_b4_def)

lemma length_u32_to_b4 [simp]: "length (u32_to_b4 l) = 4"
  by (simp add: u32_to_b4_def)

lemma length_u16_to_b2 [simp]: "length (u16_to_b2 l) = 2"
  by (simp add: u16_to_b2_def)

lemma sum_of_bytes:
  "ucast (a :: u8) + ucast (push_bit 8 (ucast (b :: u8) :: u32)) +
   ucast (push_bit 16 (ucast (c :: u8) :: u32)) + ucast (push_bit 24 (ucast (e :: u8) :: u32))
   = (ucast a OR push_bit 8 (ucast b) OR push_bit 16 (ucast c) OR push_bit 24 (ucast e) :: u64)"
proof -
  have u: "(ucast (push_bit n (ucast (x :: u8) :: u32)) :: u64) = push_bit n (ucast x)" if "n \<le> 24" for n x
    using that by (intro bit_word_eqI) (auto simp: bit_ucast_iff bit_push_bit_iff dest: bit_imp_le_length)
  have 1: "(ucast a + push_bit 8 (ucast b) :: u64) = ucast a OR push_bit 8 (ucast b)"
    by (rule disjunctive_add_eq_or, rule bit_word_eqI)
      (auto simp: bit_and_iff bit_ucast_iff bit_push_bit_iff dest: bit_imp_le_length)
  have 2: "((ucast a OR push_bit 8 (ucast b)) + push_bit 16 (ucast c) :: u64)
      = ucast a OR push_bit 8 (ucast b) OR push_bit 16 (ucast c)"
    unfolding or.assoc [symmetric]
    by (rule disjunctive_add_eq_or, rule bit_word_eqI)
      (auto simp: bit_and_iff bit_or_iff bit_ucast_iff bit_push_bit_iff dest: bit_imp_le_length)
  have 3: "((ucast a OR push_bit 8 (ucast b) OR push_bit 16 (ucast c)) + push_bit 24 (ucast e) :: u64)
      = ucast a OR push_bit 8 (ucast b) OR push_bit 16 (ucast c) OR push_bit 24 (ucast e)"
    unfolding or.assoc [symmetric]
    by (rule disjunctive_add_eq_or, rule bit_word_eqI)
      (auto simp: bit_and_iff bit_or_iff bit_ucast_iff bit_push_bit_iff dest: bit_imp_le_length)
  show ?thesis unfolding u [of 8, simplified] u [of 16, simplified] u [of 24, simplified] 1 2 3 ..
qed

lemma b4_to_u32_of: "b4_to_u32 (u32_to_b4 l) = take_bit 32 l"
proof -
  have "bit (b4_to_u32 (u32_to_b4 l)) n = bit (take_bit 32 l) n" if "n < 64" for n
  proof -
    consider "n < 8" | "8 \<le> n" "n < 16" | "16 \<le> n" "n < 24" | "24 \<le> n" "n < 32" | "32 \<le> n" by linarith
    then show ?thesis
      unfolding b4_to_u32_def u32_to_b4_def nth_Cons_0 nth_Cons_numeral sum_of_bytes
      by cases (use that in \<open>auto simp: and_ff_u64 bit_or_iff bit_push_bit_iff bit_ucast_iff bit_drop_bit_eq bit_take_bit_iff\<close>)
  qed
  then show ?thesis by (intro bit_word_eqI) simp
qed

lemma b4_to_u32r_of: "b4_to_u32r (u32_to_b4r l) = take_bit 32 l"
  using b4_to_u32_of [of l] by (simp add: b4_to_u32_def b4_to_u32r_def u32_to_b4_def u32_to_b4r_def)

lemma b2_to_u16_of: "b2_to_u16 (u16_to_b2 l) = l"
proof -
  have u: "(ucast (push_bit 8 (ucast (x :: u8) :: u32)) :: u16) = push_bit 8 (ucast x)" for x
    by (intro bit_word_eqI) (auto simp: bit_ucast_iff bit_push_bit_iff dest: bit_imp_le_length)
  have "b2_to_u16 (u16_to_b2 l) = ucast (ucast l :: u8) OR push_bit 8 (ucast (ucast (drop_bit 8 l) :: u8))"
    unfolding b2_to_u16_def u16_to_b2_le le16_def nth_Cons_0 nth_Cons_Suc One_nat_def u
    by (rule disjunctive_add_eq_or, rule bit_word_eqI)
      (auto simp: bit_and_iff bit_ucast_iff bit_push_bit_iff)
  then show ?thesis using of_le_le16 [of l] by (simp add: le16_def)
qed

text \<open>The shift registers of the receiver.\<close>

lemma shift_seqno:
  "drop_bit 8 (drop_bit 8 (x :: u16) OR ucast (push_bit 8 (ucast (ucast s :: u8) :: u32)))
     OR ucast (push_bit 8 (ucast (ucast (drop_bit 8 s) :: u8) :: u32)) = s"
  by (rule bit_word_eqI)
    (auto simp: bit_or_iff bit_drop_bit_eq bit_ucast_iff bit_push_bit_iff dest: bit_imp_le_length)

definition shift_in :: "u64 \<Rightarrow> u8 \<Rightarrow> u64" where
  "shift_in m c = drop_bit 8 m OR ucast (push_bit 24 (ucast c :: u32))"

lemma bit_shift_in:
  "bit (shift_in m c) n \<longleftrightarrow> bit m (n + 8) \<or> 24 \<le> n \<and> n < 32 \<and> bit c (n - 24)"
  unfolding shift_in_def bit_or_iff bit_drop_bit_eq
  by (auto simp: bit_ucast_iff bit_push_bit_iff add.commute dest: bit_imp_le_length)

lemma shift_msglen:
  "shift_in (shift_in (shift_in (shift_in 0 (ucast (n :: u32))) (ucast (drop_bit 8 n)))
     (ucast (drop_bit 16 n))) (ucast (drop_bit 24 n)) = ucast n"
proof (rule bit_word_eqI)
  fix k assume "k < LENGTH(64)"
  consider "k < 8" | "8 \<le> k" "k < 16" | "16 \<le> k" "k < 24" | "24 \<le> k" "k < 32" | "32 \<le> k" by linarith
  then show "bit (shift_in (shift_in (shift_in (shift_in 0 (ucast n)) (ucast (drop_bit 8 n)))
     (ucast (drop_bit 16 n))) (ucast (drop_bit 24 n))) k = bit (ucast n :: u64) k"
    by cases (auto simp: bit_shift_in bit_ucast_iff bit_drop_bit_eq dest: bit_imp_le_length)
qed

subsection \<open>Frames\<close>

definition mkII_body :: "u16 \<Rightarrow> u8 list \<Rightarrow> u8 list" where
  "mkII_body seqno data = MESSAGE_START # le16 seqno @ le32 (of_nat (length data)) @ TOKEN # data"

definition sum_bytes :: "u8 list \<Rightarrow> u8 list" where
  "sum_bytes bs = le16 (fold (\<lambda>b c. CRC c b) bs CRC_INIT)"

definition mkII_frame :: "u16 \<Rightarrow> u8 list \<Rightarrow> u8 list" where
  "mkII_frame seqno data = mkII_body seqno data @ sum_bytes (mkII_body seqno data)"

lemma mkII_frame_split: "\<exists>x y. mkII_frame seqno data = mkII_body seqno data @ [x, y] \<and> [x, y] = sum_bytes (mkII_body seqno data)"
  by (simp add: mkII_frame_def sum_bytes_def le16_def)

lemma length_sum_bytes [simp]: "length (sum_bytes bs) = 2"
  by (simp add: sum_bytes_def)

lemma length_mkII_body [simp]: "length (mkII_body seqno data) = length data + 8"
  by (simp add: mkII_body_def)

lemma le16_bytes: "le16 c = [ucast (c AND 0xff), ucast (drop_bit 8 c AND 0xff)]"
  using u16_to_b2_le [of c] by (simp add: u16_to_b2_def)

lemma crcappend_sum:
  assumes "length ck = 2" shows "crcappend (bs @ ck) (length bs) = Some (bs @ sum_bytes bs)"
proof -
  obtain x y where "ck = [x, y]" using assms by (auto simp: length_Suc_conv numeral_2_eq_2)
  then show ?thesis
    by (simp add: crcappend_def crcsum_fold sum_bytes_def le16_bytes list_update_append)
qed

lemma low_byte_eq: "(c :: u16) AND 0xff = ucast (x :: u8) \<longleftrightarrow> x = ucast c"
proof
  assume eq: "c AND 0xff = ucast x"
  show "x = ucast c"
  proof (rule bit_word_eqI)
    fix n assume "n < LENGTH(8)"
    then show "bit x n = bit (ucast c :: u8) n"
      using arg_cong [OF eq, of "\<lambda>w. bit w n"] by (simp add: and_255_take_bit bit_take_bit_iff bit_ucast_iff)
  qed
next
  assume "x = ucast c"
  then show "c AND 0xff = ucast x"
    by (auto simp: and_255_take_bit bit_take_bit_iff bit_ucast_iff intro!: bit_word_eqI)
qed

lemma crcverify_sum:
  assumes "length ck = 2" shows "crcverify (bs @ ck) (length bs + 2) = Some (ck = sum_bytes bs)"
proof -
  obtain x y where t: "ck = [x, y]" using assms by (auto simp: length_Suc_conv numeral_2_eq_2)
  define c where "c = fold (\<lambda>b c. CRC c b) bs CRC_INIT"
  have "crcsum (bs @ [x, y]) (length bs) CRC_INIT = Some c" by (simp add: crcsum_fold c_def)
  then have "crcverify (bs @ [x, y]) (length bs + 2) = Some (x = ucast c \<and> y = ucast (drop_bit 8 c))"
    by (simp add: crcverify_def low_byte_eq nth_append)
  then show ?thesis by (simp add: t sum_bytes_def le16_def c_def)
qed

lemma store_exact: "length old = length bs \<Longrightarrow> length xs = k \<Longrightarrow> store k bs (xs @ old @ ys) = Some (xs @ bs @ ys)"
  by (simp add: store_def)

lemma unat_ucast_u64 [simp]: "unat (ucast (n :: u32) :: u64) = unat n"
proof -
  have "unat n < 2 ^ 64" using unsigned_less [where 'a = nat, of n] by simp
  then show ?thesis by (simp add: unsigned_ucast_eq take_bit_nat_eq_self)
qed

text \<open>The receiver after \<open>k\<close> bytes of a header \<open>hb\<close>; \<open>h\<close> is what the array held before.\<close>

definition hdr_rx :: "u8 list \<Rightarrow> u8 list \<Rightarrow> nat \<Rightarrow> rx_state \<Rightarrow> u64 \<Rightarrow> nat \<Rightarrow> u16 \<Rightarrow> rx" where
  "hdr_rx h hb l st m k s = \<lparr>rx_st = st, rx_msglen = m, rx_l = l, rx_header = take k hb @ drop k h,
     rx_headeridx = k, rx_ignorpkt = 0, rx_buf = None, rx_seqno = s\<rparr>"

lemma put_hdr:
  assumes "length h = 8" "length hb = 8" "k < 8" "in_header st"
  shows "put_header (hb ! k) (hdr_rx h hb l st m k s) = Some (hdr_rx h hb l st m (Suc k) s)"
proof -
  have "(take k hb @ drop k h)[k := hb ! k] = take (Suc k) hb @ drop (Suc k) h"
    using assms by (simp add: take_Suc_nth list_update_append Cons_nth_drop_Suc [symmetric])
  then show ?thesis using assms by (simp add: put_header_def hdr_rx_def)
qed

lemma hdr_rx_st [simp]: "rx_st (hdr_rx h hb l st m k s) = st"
  by (simp add: hdr_rx_def)

lemma rx_byte_seqno:
  assumes "length h = 8" "length hb = 8" "k < 8" "st \<in> {sSEQNUM1, sSEQNUM2}" "hb ! k = c" "j = Suc k"
  shows "rx_byte sd c (hdr_rx h hb l st m k s) d = Some (Inr (hdr_rx h hb l (next_state st) m j
     (drop_bit 8 s OR ucast (push_bit 8 (ucast c :: u32)))), d)"
  using assms put_hdr [of h hb k st l m s]
  by (auto simp: rx_byte_def in_header_def) (auto simp: hdr_rx_def)

lemma rx_byte_size:
  assumes "length h = 8" "length hb = 8" "k < 8" "st \<in> {sSIZE1, sSIZE2, sSIZE3, sSIZE4}" "hb ! k = c" "j = Suc k"
  shows "rx_byte sd c (hdr_rx h hb l st m k s) d = Some (Inr (hdr_rx h hb l (next_state st) (shift_in m c) j s), d)"
  using assms put_hdr [of h hb k st l m s]
  by (auto simp: rx_byte_def in_header_def) (auto simp: hdr_rx_def shift_in_def)

lemma rx_byte_start:
  assumes "length h = 8" "length hb = 8" "hb ! 0 = MESSAGE_START"
  shows "rx_byte sd MESSAGE_START (hdr_rx h hb l sSTART m 0 s) d = Some (Inr (hdr_rx h hb l sSEQNUM1 m 1 s), d)"
  using assms put_hdr [of h hb 0 sSTART l m s]
  by (simp add: rx_byte_def in_header_def) (simp add: hdr_rx_def)

lemma rx_byte_noise:
  assumes "length h = 8" "c \<noteq> MESSAGE_START"
  shows "rx_byte sd c (hdr_rx h hb l sSTART m 0 s) d = Some (Inr (hdr_rx (c # drop 1 h) hb l sSTART m 0 s), d)"
  using assms by (cases h) (auto simp: rx_byte_def put_header_def in_header_def hdr_rx_def)

text \<open>The receiver in any state: what the arrays hold, and how far it has got.\<close>

fun header_pos :: "rx_state \<Rightarrow> nat" where
  "header_pos sSTART = 0"
| "header_pos sSEQNUM1 = 1"
| "header_pos sSEQNUM2 = 2"
| "header_pos sSIZE1 = 3"
| "header_pos sSIZE2 = 4"
| "header_pos sSIZE3 = 5"
| "header_pos sSIZE4 = 6"
| "header_pos sTOKEN = 7"
| "header_pos _ = 8"

definition rx_ok :: "rx \<Rightarrow> bool" where
  "rx_ok r \<longleftrightarrow> length (rx_header r) = 8 \<and> rx_ignorpkt r = 0 \<and>
     (if in_header (rx_st r) then rx_headeridx r = header_pos (rx_st r)
      else rx_msglen r \<le> MAX_MESSAGE \<and> (\<exists>buf. rx_buf r = Some buf \<and> length buf = unat (rx_msglen r) + 10)) \<and>
     (rx_st r = sCSUM1 \<longrightarrow> rx_l r = unat (rx_msglen r) + 8) \<and>
     (rx_st r = sCSUM2 \<longrightarrow> rx_l r = unat (rx_msglen r) + 9)"

lemma crcverify_defined: "2 \<le> n \<Longrightarrow> n \<le> length bs \<Longrightarrow> \<exists>b. crcverify bs n = Some b"
  by (simp add: crcverify_def crcsum_fold)

lemma rx_csum_ok:
  assumes "rx_ok r" and "rx_st r \<in> {sCSUM1, sCSUM2}"
  shows "\<exists>x. rx_csum c r = Some x \<and> (case x of Inl e \<Rightarrow> e = -4 | Inr r' \<Rightarrow> rx_ok r')"
proof -
  obtain buf where b: "rx_buf r = Some buf" "length buf = unat (rx_msglen r) + 10" "rx_msglen r \<le> MAX_MESSAGE"
    using assms by (auto simp: rx_ok_def in_header_def)
  then obtain buf' where s: "store (rx_l r) [c] buf = Some buf'" "length buf' = unat (rx_msglen r) + 10"
    using assms by (auto simp: rx_ok_def store_def)
  obtain ok where "crcverify buf' (unat (rx_msglen r) + 10) = Some ok"
    using crcverify_defined [of "unat (rx_msglen r) + 10" buf'] s(2) by auto
  then show ?thesis
    using assms b s by (auto simp: rx_csum_def rx_ok_def in_header_def)
qed

definition rx_left :: "rx \<Rightarrow> nat \<Rightarrow> nat" where
  "rx_left r n = 2 * n + (if rx_st r = sDATA then 1 else 0)"

subsection \<open>Sending and receiving over a line\<close>

context serial_line
begin

lemma send_frame:
  assumes "good d" and "length data < 2 ^ 32"
  shows "\<exists>d'. jtagmkII_send sd seqno data d = Some (0, d') \<and> good d' \<and> inp d' = inp d \<and>
    outp d' = outp d @ mkII_frame seqno data"
proof -
  let ?n = "length data"
  obtain junk d1 where m: "malloc sd (?n + 10) d = (Some junk, d1)" "length junk = ?n + 10" "good d1"
    "inp d1 = inp d" "outp d1 = outp d"
    using malloc_ok [OF assms(1)] by metis
  obtain d2 where s: "serial_send sd (mkII_frame seqno data) d1 = Some (0, d2)" "good d2" "inp d2 = inp d1"
    "outp d2 = outp d1 @ mkII_frame seqno data"
    using send_ok [OF m(3)] by metis
  obtain ck where b: "store 8 data (MESSAGE_START # le16 seqno @ le32 (of_nat ?n) @ TOKEN # drop 8 junk)
      = Some (mkII_body seqno data @ ck)" "length ck = 2"
    using m(2) by (simp add: store_def mkII_body_def numeral_eq_Suc le16_def le32_def)
  have len: "(ucast (of_nat ?n :: u64) :: u32) = of_nat ?n"
    by (rule bit_word_eqI) (simp add: bit_ucast_iff bit_of_nat_iff)
  have h: "store 0 [MESSAGE_START] junk = Some (MESSAGE_START # drop 1 junk)"
    "store 1 (u16_to_b2 seqno) (MESSAGE_START # drop 1 junk) = Some (MESSAGE_START # le16 seqno @ drop 3 junk)"
    "store 3 (u32_to_b4 (of_nat ?n)) (MESSAGE_START # le16 seqno @ drop 3 junk)
      = Some (MESSAGE_START # le16 seqno @ le32 (of_nat ?n) @ drop 7 junk)"
    "store 7 [TOKEN] (MESSAGE_START # le16 seqno @ le32 (of_nat ?n) @ drop 7 junk)
      = Some (MESSAGE_START # le16 seqno @ le32 (of_nat ?n) @ TOKEN # drop 8 junk)"
    using m(2) by (simp_all add: store_def u16_to_b2_le u32_to_b4_le len le16_def le32_def numeral_eq_Suc)
  have "crcappend (mkII_body seqno data @ ck) (?n + 8) = Some (mkII_frame seqno data)"
    using crcappend_sum [OF b(2), of "mkII_body seqno data"] by (simp add: mkII_frame_def)
  then show ?thesis
    using m s b(1) h by (simp add: jtagmkII_send_def Let_def mkII_frame_def)
qed

text \<open>The line before and after an operation that only takes input.\<close>

abbreviation at :: "'d \<Rightarrow> u8 list \<Rightarrow> u8 list \<Rightarrow> bool" where
  "at d bs out \<equiv> good d \<and> inp d = bs \<and> outp d = out"

lemma recv_at:
  assumes "at d bs out" and "n \<le> length bs"
  obtains d' where "serial_recv sd n d = Some (0, take n bs, d')" "at d' (drop n bs) out"
  using recv_ready [of d n] assms by auto

lemma rx_loop_round:
  assumes span: "span \<le> 100" "t0 \<le> tstart" and nd: "rx_st r \<noteq> sDONE"
    and r: "wp (rx_round sd r d) (\<lambda>(x, d'). case x of
        Inl e \<Rightarrow> Q (Inl e, d')
      | Inr r' \<Rightarrow> (\<exists>bs out. at d' bs out \<and> (\<forall>d''. at d'' bs out \<longrightarrow> wp (rx_loop sd tstart r' d'') Q)))"
  shows "wp (rx_loop sd tstart r d) Q"
proof -
  obtain x d' where s: "rx_round sd r d = Some (x, d')" and
    q: "case x of Inl e \<Rightarrow> Q (Inl e, d')
      | Inr r' \<Rightarrow> (\<exists>bs out. at d' bs out \<and> (\<forall>d''. at d'' bs out \<longrightarrow> wp (rx_loop sd tstart r' d'') Q))"
    using r by (auto simp: wp_ex)
  show ?thesis
  proof (cases x)
    case (Inl e)
    then show ?thesis using s q nd by (subst rx_loop.simps) simp
  next
    case (Inr r')
    then obtain bs out where a: "at d' bs out" "\<forall>d''. at d'' bs out \<longrightarrow> wp (rx_loop sd tstart r' d'') Q"
      using q by auto
    obtain t d'' where "gettimeofday sd d' = (t, d'')" "t0 \<le> t" "t \<le> t0 + span" "at d'' bs out"
      using time_ok [of d'] a(1) by auto
    then show ?thesis using s nd Inr a(2) span by (subst rx_loop.simps) simp
  qed
qed

text \<open>A byte of the header and of the checksum.\<close>

lemma rx_loop_byte:
  assumes span: "span \<le> 100" "t0 \<le> tstart" and st: "rx_st r \<noteq> sDONE" "rx_st r \<noteq> sDATA"
    and d: "at d (c # bs) out"
    and b: "\<And>d. at d bs out \<Longrightarrow> rx_byte sd c r d = Some (Inr r', d)"
    and k: "\<And>d. at d bs out \<Longrightarrow> wp (rx_loop sd tstart r' d) Q"
  shows "wp (rx_loop sd tstart r d) Q"
proof -
  obtain d' where r: "serial_recv sd 1 d = Some (0, [c], d')" "at d' bs out"
    using recv_at [OF d, of 1] by auto
  show ?thesis
    by (rule rx_loop_round [OF span st(1)]) (use r st(2) b [OF r(2)] k in \<open>auto simp: rx_round_def\<close>)
qed

lemma rx_loop_noise:
  assumes span: "span \<le> 100" "t0 \<le> tstart"
  shows "MESSAGE_START \<notin> set ns \<Longrightarrow> length h = 8 \<Longrightarrow> at d (ns @ bs) out \<Longrightarrow>
    (\<And>h d. length h = 8 \<Longrightarrow> at d bs out \<Longrightarrow> wp (rx_loop sd tstart (hdr_rx h hb l sSTART m 0 s) d) Q) \<Longrightarrow>
    wp (rx_loop sd tstart (hdr_rx h hb l sSTART m 0 s) d) Q"
proof (induction ns arbitrary: h d)
  case Nil
  show ?case by (rule Nil.prems(4) [OF Nil.prems(2)]) (use Nil.prems(3) in simp)
next
  case (Cons c ns)
  have c: "c \<noteq> MESSAGE_START" "MESSAGE_START \<notin> set ns" using Cons.prems(1) by auto
  have h: "length (c # drop 1 h) = 8" using Cons.prems(2) by simp
  show ?case
  proof (rule rx_loop_byte [OF span])
    show "at d (c # ns @ bs) out" using Cons.prems(3) by simp
    show "rx_byte sd c (hdr_rx h hb l sSTART m 0 s) d' = Some (Inr (hdr_rx (c # drop 1 h) hb l sSTART m 0 s), d')" for d'
      using rx_byte_noise [OF Cons.prems(2) c(1)] .
    show "wp (rx_loop sd tstart (hdr_rx (c # drop 1 h) hb l sSTART m 0 s) d') Q" if "at d' (ns @ bs) out" for d'
      by (rule Cons.IH [OF c(2) h that Cons.prems(4)])
  qed simp_all
qed

text \<open>A header takes the receiver to the payload, or back to the start when it announces too much.\<close>

lemma rx_loop_header:
  assumes span: "span \<le> 100" "t0 \<le> tstart" and h: "length h = 8"
    and d: "at d (MESSAGE_START # le16 seqno @ le32 n @ TOKEN # bs) out" and n: "(ucast n :: u64) \<le> MAX_MESSAGE"
    and k: "\<And>d r junk. at d bs out \<Longrightarrow> length junk = unat n + 2 \<Longrightarrow> rx_st r = sDATA \<Longrightarrow> rx_msglen r = ucast n \<Longrightarrow>
      rx_ignorpkt r = 0 \<Longrightarrow> rx_seqno r = seqno \<Longrightarrow>
      rx_buf r = Some (MESSAGE_START # le16 seqno @ le32 n @ TOKEN # junk) \<Longrightarrow> wp (rx_loop sd tstart r d) Q"
  shows "wp (rx_loop sd tstart (hdr_rx h hb' l sSTART 0 0 s) d) Q"
proof -
  define hb where "hb = MESSAGE_START # le16 seqno @ le32 n @ [TOKEN]"
  have hb: "length hb = 8" by (simp add: hb_def le16_def le32_def)
  have b: "hb ! 0 = MESSAGE_START" "hb ! 1 = ucast seqno" "hb ! 2 = ucast (drop_bit 8 seqno)" "hb ! 3 = ucast n"
    "hb ! 4 = ucast (drop_bit 8 n)" "hb ! 5 = ucast (drop_bit 16 n)" "hb ! 6 = ucast (drop_bit 24 n)" "hb ! 7 = TOKEN"
    by (simp_all add: hb_def le16_def le32_def)
  define a1 a2 where "a1 = (ucast seqno :: u8)" and "a2 = (ucast (drop_bit 8 seqno) :: u8)"
  define a3 a4 a5 a6 where "a3 = (ucast n :: u8)" and "a4 = (ucast (drop_bit 8 n) :: u8)"
    and "a5 = (ucast (drop_bit 16 n) :: u8)" and "a6 = (ucast (drop_bit 24 n) :: u8)"
  note a = a1_def a2_def a3_def a4_def a5_def a6_def
  define s1 where "s1 = drop_bit 8 s OR ucast (push_bit 8 (ucast a1 :: u32))"
  have s2: "drop_bit 8 s1 OR ucast (push_bit 8 (ucast a2 :: u32)) = seqno"
    unfolding s1_def a by (rule shift_seqno)
  have m4: "shift_in (shift_in (shift_in (shift_in 0 a3) a4) a5) a6 = ucast n" unfolding a by (rule shift_msglen)
  note step = rx_loop_byte [OF span]
  have w7: "wp (rx_loop sd tstart (hdr_rx h hb l sTOKEN (ucast n) 7 seqno) d) Q" if t: "at d (TOKEN # bs) out" for d
  proof -
    obtain d1 where r: "serial_recv sd 1 d = Some (0, [TOKEN], d1)" "at d1 bs out"
      using recv_at [OF t, of 1] by auto
    obtain junk d2 where m: "malloc sd (unat n + 10) d1 = (Some junk, d2)" "length junk = unat n + 10" "at d2 bs out"
      using malloc_ok [of d1 "unat n + 10"] r(2) by auto
    define r' where "r' = (hdr_rx h hb l sTOKEN (ucast n) 8 seqno)\<lparr>rx_st := sDATA, rx_buf := Some (hb @ drop 8 junk)\<rparr>"
    have "put_header TOKEN (hdr_rx h hb l sTOKEN (ucast n) 7 seqno) = Some (hdr_rx h hb l sTOKEN (ucast n) 8 seqno)"
      using put_hdr [OF h hb, of 7 sTOKEN l "ucast n" seqno] b(8) by (simp add: in_header_def)
    then have "rx_byte sd TOKEN (hdr_rx h hb l sTOKEN (ucast n) 7 seqno) d1 = Some (Inr r', d2)"
      using m n hb h by (auto simp: rx_byte_def rx_token_def r'_def hdr_rx_def)
    moreover have "wp (rx_loop sd tstart r' d') Q" if "at d' bs out" for d'
      using m(2) by (intro k [OF that, of "drop 8 junk"]) (auto simp: r'_def hdr_rx_def hb_def)
    ultimately show ?thesis
      using r m(3) by (intro rx_loop_round [OF span]) (auto simp: rx_round_def)
  qed
  have w6: "wp (rx_loop sd tstart (hdr_rx h hb l sSIZE4 (shift_in (shift_in (shift_in 0 a3) a4) a5) 6 seqno) d) Q"
    if "at d (a6 # TOKEN # bs) out" for d
  proof (rule step [OF _ _ that _ w7])
    show "rx_byte sd a6 (hdr_rx h hb l sSIZE4 (shift_in (shift_in (shift_in 0 a3) a4) a5) 6 seqno) d'
        = Some (Inr (hdr_rx h hb l sTOKEN (ucast n) 7 seqno), d')" for d'
      using rx_byte_size [OF h hb, of 6 sSIZE4 a6 7 sd l "shift_in (shift_in (shift_in 0 a3) a4) a5" seqno d'] m4
      by (simp add: b(7) a6_def)
  qed simp_all
  have w5: "wp (rx_loop sd tstart (hdr_rx h hb l sSIZE3 (shift_in (shift_in 0 a3) a4) 5 seqno) d) Q"
    if "at d (a5 # a6 # TOKEN # bs) out" for d
    by (rule step [OF _ _ that _ w6]) (use rx_byte_size [OF h hb, of 5 sSIZE3 a5 6] b a in simp_all)
  have w4: "wp (rx_loop sd tstart (hdr_rx h hb l sSIZE2 (shift_in 0 a3) 4 seqno) d) Q"
    if "at d (a4 # a5 # a6 # TOKEN # bs) out" for d
    by (rule step [OF _ _ that _ w5]) (use rx_byte_size [OF h hb, of 4 sSIZE2 a4 5] b a in simp_all)
  have w3: "wp (rx_loop sd tstart (hdr_rx h hb l sSIZE1 0 3 seqno) d) Q"
    if "at d (a3 # a4 # a5 # a6 # TOKEN # bs) out" for d
    by (rule step [OF _ _ that _ w4]) (use rx_byte_size [OF h hb, of 3 sSIZE1 a3 4] b a in simp_all)
  have w2: "wp (rx_loop sd tstart (hdr_rx h hb l sSEQNUM2 0 2 s1) d) Q"
    if "at d (a2 # a3 # a4 # a5 # a6 # TOKEN # bs) out" for d
  proof (rule step [OF _ _ that _ w3])
    show "rx_byte sd a2 (hdr_rx h hb l sSEQNUM2 0 2 s1) d' = Some (Inr (hdr_rx h hb l sSIZE1 0 3 seqno), d')" for d'
      using rx_byte_seqno [OF h hb, of 2 sSEQNUM2 a2 3 sd l 0 s1 d'] s2 by (simp add: b(3) a2_def)
  qed simp_all
  have w1: "wp (rx_loop sd tstart (hdr_rx h hb l sSEQNUM1 0 1 s) d) Q"
    if "at d (a1 # a2 # a3 # a4 # a5 # a6 # TOKEN # bs) out" for d
    by (rule step [OF _ _ that _ w2]) (use rx_byte_seqno [OF h hb, of 1 sSEQNUM1 a1 2] b a s1_def in simp_all)
  have "hdr_rx h hb' l sSTART 0 0 s = hdr_rx h hb l sSTART 0 0 s" by (simp add: hdr_rx_def)
  moreover have "at d (MESSAGE_START # a1 # a2 # a3 # a4 # a5 # a6 # TOKEN # bs) out"
    using d by (simp add: a le16_def le32_def)
  ultimately show ?thesis
    using step [OF _ _ _ rx_byte_start [OF h hb b(1)] w1] by simp
qed

text \<open>The payload and two bytes after it.\<close>

lemma rx_loop_payload:
  assumes span: "span \<le> 100" "t0 \<le> tstart"
    and d: "at d (data @ x # y # bs) out" and n: "unat n = length data"
    and r: "rx_st r = sDATA" "rx_msglen r = ucast (n :: u32)" "rx_ignorpkt r = 0"
      "rx_buf r = Some (hb @ junk)" "length hb = 8" "length junk = length data + 2"
    and ok: "\<And>d' r'. [x, y] = sum_bytes (hb @ data) \<Longrightarrow> at d' bs out \<Longrightarrow>
      rx_msglen r' = ucast n \<Longrightarrow> rx_seqno r' = rx_seqno r \<Longrightarrow> rx_buf r' = Some (hb @ data @ [x, y]) \<Longrightarrow> Q (Inr r', d')"
    and bad: "\<And>d'. [x, y] \<noteq> sum_bytes (hb @ data) \<Longrightarrow> at d' bs out \<Longrightarrow> Q (Inl (-4), d')"
  shows "wp (rx_loop sd tstart r d) Q"
proof -
  obtain u v where junk: "drop (length data) junk = [u, v]"
  proof -
    have "length (drop (length data) junk) = 2" using r(6) by simp
    then have "\<exists>u v. drop (length data) junk = [u, v]"
      by (auto simp: length_Suc_conv numeral_2_eq_2 simp del: length_drop)
    then show ?thesis using that by blast
  qed
  define r1 where "r1 = r\<lparr>rx_buf := Some (hb @ data @ [u, v]), rx_l := length data + 8, rx_st := sCSUM1\<rparr>"
  define r2 where "r2 = r1\<lparr>rx_buf := Some (hb @ data @ [x, v]), rx_l := length data + 9, rx_st := sCSUM2\<rparr>"
  define r3 where "r3 = r2\<lparr>rx_buf := Some (hb @ data @ [x, y]), rx_l := length data + 10\<rparr>"
  have len: "unat (rx_msglen r) = length data" by (simp add: r n)
  have c1: "rx_csum x r1 = Some (Inr r2)"
    using r(5) by (simp add: rx_csum_def r1_def r2_def store_def)
  have v: "crcverify (hb @ data @ [x, y]) (length data + 10) = Some ([x, y] = sum_bytes (hb @ data))"
    using crcverify_sum [of "[x, y]" "hb @ data"] r(5) by (simp add: add.commute add.left_commute)
  have c2: "rx_csum y r2 = Some (if [x, y] = sum_bytes (hb @ data) then Inr (r3\<lparr>rx_st := sDONE\<rparr>) else Inl (-4))"
    using r(5) v len by (simp add: rx_csum_def r1_def r2_def r3_def store_def)
  have w2: "wp (rx_loop sd tstart r2 d) Q" if a: "at d (y # bs) out" for d
  proof -
    obtain d1 where s: "serial_recv sd 1 d = Some (0, [y], d1)" "at d1 bs out"
      using recv_at [OF a, of 1] by auto
    have st: "rx_st r2 = sCSUM2" by (simp add: r2_def)
    then have b: "rx_byte sd y r2 d1 = Some (if [x, y] = sum_bytes (hb @ data) then Inr (r3\<lparr>rx_st := sDONE\<rparr>) else Inl (-4), d1)"
      by (simp add: rx_byte_def put_header_def in_header_def c2)
    show ?thesis
    proof (rule rx_loop_round [OF span])
      have "wp (rx_loop sd tstart (r3\<lparr>rx_st := sDONE\<rparr>) d') Q" if "[x, y] = sum_bytes (hb @ data)" "at d' bs out" for d'
        using ok [OF that, of "r3\<lparr>rx_st := sDONE\<rparr>"] r
        by (subst rx_loop.simps) (simp add: r3_def r2_def r1_def)
      then show "wp (rx_round sd r2 d) (\<lambda>(x, d'). case x of Inl e \<Rightarrow> Q (Inl e, d')
          | Inr r' \<Rightarrow> (\<exists>bs out. at d' bs out \<and> (\<forall>d''. at d'' bs out \<longrightarrow> wp (rx_loop sd tstart r' d'') Q)))"
        using s st b bad by (auto simp: rx_round_def)
    qed (simp add: st)
  qed
  have w1: "wp (rx_loop sd tstart r1 d) Q" if a: "at d (x # y # bs) out" for d
  proof (rule rx_loop_byte [OF span _ _ a _ w2])
    show "rx_byte sd x r1 d' = Some (Inr r2, d')" for d'
      using c1 by (simp add: rx_byte_def put_header_def in_header_def r1_def)
  qed (simp_all add: r1_def)
  obtain d1 where s: "serial_recv sd (length data) d = Some (0, data, d1)" "at d1 (x # y # bs) out"
    using recv_at [OF d, of "length data"] by auto
  have "store 8 data (hb @ junk) = Some (hb @ data @ [u, v])"
    using r(5,6) junk by (simp add: store_def)
  then have "rx_data sd r d = Some (Inr r1, d1)"
    using s r len by (simp add: rx_data_def r1_def)
  then show ?thesis
    using r(1) s(2) w1 by (intro rx_loop_round [OF span]) (auto simp: rx_round_def)
qed

text \<open>Noise without a start byte, and a frame with any two bytes for its checksum.\<close>

lemma recv_frame_at:
  assumes span: "span \<le> 100" and junk: "length junk = 8" and ns: "MESSAGE_START \<notin> set ns"
    and d: "at d (ns @ mkII_body seqno data @ x # y # bs) out" and len: "length data \<le> 100000"
  shows "\<exists>d'. at d' bs out \<and> jtagmkII_recv_frame sd junk d =
    (if [x, y] = sum_bytes (mkII_body seqno data)
     then Some (int (length data), Some (mkII_frame seqno data, seqno), d')
     else Some (-4, None, d'))"
proof -
  obtain t d1 where t: "gettimeofday sd d = (t, d1)" "t0 \<le> t" "at d1 (ns @ mkII_body seqno data @ x # y # bs) out"
    using time_ok [of d] d by auto
  define n where "n = (of_nat (length data) :: u32)"
  have n: "unat n = length data" using len by (simp add: n_def unat_of_nat take_bit_nat_eq_self)
  define hb where "hb = MESSAGE_START # le16 seqno @ le32 n @ [TOKEN]"
  have body: "mkII_body seqno data = hb @ data" "length hb = 8" by (simp_all add: mkII_body_def hb_def n_def le16_def le32_def)
  define Q where "Q = (\<lambda>(res :: int + rx, d'). at d' bs out \<and>
    (if [x, y] = sum_bytes (hb @ data)
     then \<exists>r. res = Inr r \<and> rx_msglen r = ucast n \<and> rx_seqno r = seqno \<and> rx_buf r = Some (hb @ data @ [x, y])
     else res = Inl (-4)))"
  have max: "(ucast n :: u64) \<le> MAX_MESSAGE"
    using n len by (simp add: word_le_nat_alt MAX_MESSAGE_def)
  have "wp (rx_loop sd t (hdr_rx junk [] 0 sSTART 0 0 0) d1) Q"
  proof (rule rx_loop_noise [OF span t(2) ns junk t(3)])
    fix h :: "u8 list" and d assume h: "length h = 8" and a: "at d (mkII_body seqno data @ x # y # bs) out"
    then have a': "at d (MESSAGE_START # le16 seqno @ le32 n @ TOKEN # data @ x # y # bs) out"
      by (simp add: mkII_body_def n_def)
    show "wp (rx_loop sd t (hdr_rx h [] 0 sSTART 0 0 0) d) Q"
    proof (rule rx_loop_header [OF span t(2) h a' max])
      fix d and r :: rx and jk assume "at d (data @ x # y # bs) out" "length jk = unat n + 2" "rx_st r = sDATA"
        "rx_msglen r = ucast n" "rx_ignorpkt r = 0" "rx_seqno r = seqno"
        "rx_buf r = Some (MESSAGE_START # le16 seqno @ le32 n @ TOKEN # jk)"
      then show "wp (rx_loop sd t r d) Q"
        using n body(2) by (intro rx_loop_payload [OF span t(2), where n = n and hb = hb and junk = jk])
          (auto simp: Q_def hb_def)
    qed
  qed
  moreover have "rx_start junk = hdr_rx junk [] 0 sSTART 0 0 0" by (simp add: rx_start_def hdr_rx_def)
  ultimately obtain res d' where l: "rx_loop sd t (rx_start junk) d1 = Some (res, d')" and q: "Q (res, d')"
    by (auto simp: wp_ex)
  have "(ucast (ucast n :: u64) :: u32) = n" by (rule bit_word_eqI) (simp add: bit_ucast_iff)
  moreover have "sint n = int (length data)"
    using n len by (simp add: sint_uint uint_nat signed_take_bit_int_eq_self)
  ultimately have "sint (ucast (ucast n :: u64) :: u32) = int (length data)" by simp
  then show ?thesis
    using t(1) l q by (auto simp: jtagmkII_recv_frame_def Q_def body mkII_frame_def split: if_splits)
qed

lemma recv_frame_ok:
  assumes "span \<le> 100" and "length junk = 8" and "MESSAGE_START \<notin> set ns"
    and d: "at d (ns @ mkII_frame seqno data @ bs) out" and "length data \<le> 100000"
  shows "\<exists>d'. at d' bs out \<and>
    jtagmkII_recv_frame sd junk d = Some (int (length data), Some (mkII_frame seqno data, seqno), d')"
proof -
  obtain x y where f: "mkII_frame seqno data = mkII_body seqno data @ [x, y]" "[x, y] = sum_bytes (mkII_body seqno data)"
    using mkII_frame_split by blast
  then have "at d (ns @ mkII_body seqno data @ x # y # bs) out" using d by simp
  from recv_frame_at [OF assms(1-3) this assms(5)] show ?thesis using f(2) by auto
qed

text \<open>Events and stale responses are skipped.\<close>

lemma recv_ok:
  assumes span: "span \<le> 100" and junk: "length junk = 8"
    and data: "data \<noteq> []" "length data \<le> 100000"
  shows "\<forall>(ns, s, dt) \<in> set fs. MESSAGE_START \<notin> set ns \<and> s \<noteq> seqno \<and> dt \<noteq> [] \<and> length dt \<le> 100000 \<Longrightarrow>
    MESSAGE_START \<notin> set ns \<Longrightarrow>
    at d (concat (map (\<lambda>(ns, s, dt). ns @ mkII_frame s dt) fs) @ ns @ mkII_frame seqno data @ bs) out \<Longrightarrow>
    \<exists>msg d'. at d' bs out \<and> take (length data) msg = data \<and>
      jtagmkII_recv sd junk seqno d =
        Some (int (length data), Some msg, if seqno + 1 = 0xffff then 0 else seqno + 1, d')"
proof (induction fs arbitrary: d)
  case Nil
  obtain d' where r: "at d' bs out"
    "jtagmkII_recv_frame sd junk d = Some (int (length data), Some (mkII_frame seqno data, seqno), d')"
    using recv_frame_ok [OF span junk Nil.prems(2) _ data(2)] Nil.prems(3) by force
  have "store 0 (take (length data) (drop 8 (mkII_frame seqno data))) (mkII_frame seqno data)
      = Some (data @ drop (length data) (mkII_frame seqno data))"
    by (simp add: store_def mkII_frame_def mkII_body_def le16_def le32_def numeral_eq_Suc)
  then show ?case using r data(1)
    by (intro exI [of _ "data @ drop (length data) (mkII_frame seqno data)"] exI [of _ d'])
      (subst jtagmkII_recv.simps, simp)
next
  case (Cons f fs)
  obtain n s dt where f: "f = (n, s, dt)" by (cases f)
  obtain d' where r: "at d' (concat (map (\<lambda>(ns, s, dt). ns @ mkII_frame s dt) fs) @ ns @ mkII_frame seqno data @ bs) out"
    "jtagmkII_recv_frame sd junk d = Some (int (length dt), Some (mkII_frame s dt, s), d')"
    using recv_frame_ok [OF span junk, of n d s dt _ out] Cons.prems f by force
  have nd: "s \<noteq> seqno" "dt \<noteq> []" using Cons.prems(1) f by auto
  have "jtagmkII_recv sd junk seqno d = jtagmkII_recv sd junk seqno d'"
    using r(2) nd by (subst jtagmkII_recv.simps) simp
  moreover have "\<exists>msg d''. at d'' bs out \<and> take (length data) msg = data \<and>
      jtagmkII_recv sd junk seqno d' =
        Some (int (length data), Some msg, if seqno + 1 = 0xffff then 0 else seqno + 1, d'')"
    using Cons.prems(1,2) by (intro Cons.IH [OF _ _ r(1)]) simp_all
  ultimately show ?case by simp
qed

subsection \<open>The receiver ends\<close>

lemma rx_token_ok:
  assumes "length (rx_header r) = 8" "rx_ignorpkt r = 0" and d: "at d bs out"
  shows "\<exists>r' d'. rx_token sd c r d = (r', d') \<and> rx_ok r' \<and> at d' bs out"
proof -
  obtain buf d1 where m: "malloc sd (unat (rx_msglen r) + 10) d = (Some buf, d1)"
    "length buf = unat (rx_msglen r) + 10" "at d1 bs out"
    using malloc_ok [of d "unat (rx_msglen r) + 10"] d by auto
  consider "c \<noteq> TOKEN \<or> MAX_MESSAGE < rx_msglen r" | "c = TOKEN" "rx_msglen r \<le> MAX_MESSAGE" by fastforce
  then show ?thesis
  proof cases
    case 1
    then have "rx_token sd c r d = (r\<lparr>rx_st := sSTART, rx_headeridx := 0\<rparr>, d)" by (auto simp: rx_token_def)
    moreover have "rx_ok (r\<lparr>rx_st := sSTART, rx_headeridx := 0\<rparr>)" using assms by (simp add: rx_ok_def in_header_def)
    ultimately show ?thesis using d by blast
  next
    case 2
    let ?r = "r\<lparr>rx_st := sDATA, rx_buf := Some (take 8 (rx_header r) @ drop 8 buf)\<rparr>"
    have "rx_token sd c r d = (?r, d1)" using 2 m(1) by (simp add: rx_token_def leD)
    moreover have "rx_ok ?r" using assms 2 m(2) by (simp add: rx_ok_def in_header_def)
    ultimately show ?thesis using m(3) by blast
  qed
qed

lemma rx_byte_ok:
  assumes ok: "rx_ok r" and st: "rx_st r \<noteq> sDONE" "rx_st r \<noteq> sDATA" and d: "at d bs out"
  shows "\<exists>x d'. rx_byte sd c r d = Some (x, d') \<and> at d' bs out \<and>
    (case x of Inl e \<Rightarrow> e = -4 | Inr r' \<Rightarrow> rx_ok r')"
proof (cases "rx_st r \<in> {sCSUM1, sCSUM2}")
  case True
  then obtain x where x: "rx_csum c r = Some x" "case x of Inl e \<Rightarrow> e = -4 | Inr r' \<Rightarrow> rx_ok r'"
    using rx_csum_ok [OF ok True, of c] by (elim exE conjE) (rule that)
  have "rx_byte sd c r d = Some (x, d)"
    using True x(1) by (elim insertE) (simp_all add: rx_byte_def put_header_def in_header_def)
  then show ?thesis using x(2) d by (intro exI [of _ x] exI [of _ d]) simp
next
  case False
  then have h: "in_header (rx_st r)" using st by (cases "rx_st r") (simp_all add: in_header_def)
  define r1 where "r1 = r\<lparr>rx_header := (rx_header r)[rx_headeridx r := c], rx_headeridx := rx_headeridx r + 1\<rparr>"
  have idx: "rx_headeridx r = header_pos (rx_st r)" "length (rx_header r) = 8" "rx_ignorpkt r = 0"
    using ok h by (simp_all add: rx_ok_def)
  moreover have "header_pos (rx_st r) < 8" using h by (auto simp: in_header_def)
  ultimately have p: "put_header c r = Some r1" using h by (simp add: put_header_def r1_def)
  show ?thesis
  proof (cases "rx_st r = sTOKEN")
    case True
    have r1: "length (rx_header r1) = 8" "rx_ignorpkt r1 = 0" using idx by (simp_all add: r1_def)
    obtain r' d' where t: "rx_token sd c r1 d = (r', d')" "rx_ok r'" "at d' bs out"
      using rx_token_ok [OF r1 d, of c] by blast
    have "rx_st r1 = sTOKEN" using True by (simp add: r1_def)
    then show ?thesis using p t by (simp add: rx_byte_def)
  next
    case False
    define r2 where "r2 = (if rx_st r = sSTART
      then (if c = MESSAGE_START then r1\<lparr>rx_st := sSEQNUM1\<rparr> else r1\<lparr>rx_headeridx := 0\<rparr>)
      else if rx_st r = sSEQNUM1 \<or> rx_st r = sSEQNUM2
      then r1\<lparr>rx_seqno := drop_bit 8 (rx_seqno r1) OR ucast (push_bit 8 (ucast c :: u32)), rx_st := next_state (rx_st r)\<rparr>
      else r1\<lparr>rx_msglen := drop_bit 8 (rx_msglen r1) OR ucast (push_bit 24 (ucast c :: u32)), rx_st := next_state (rx_st r)\<rparr>)"
    have st1: "rx_st r1 = rx_st r" by (simp add: r1_def)
    have "rx_byte sd c r d = Some (Inr r2, d)"
      using h False unfolding rx_byte_def p r2_def
      by (cases "rx_st r") (simp_all add: st1 in_header_def)
    moreover have "rx_ok r2"
      using h False idx unfolding rx_ok_def r2_def
      by (cases "rx_st r") (simp_all add: r1_def in_header_def)
    ultimately show ?thesis using d by (intro exI [of _ "Inr r2"] exI [of _ d]) simp
  qed
qed

lemma rx_round_ok:
  assumes ok: "rx_ok r" and st: "rx_st r \<noteq> sDONE" and d: "good d" "outp d = out"
  shows "\<exists>x d'. rx_round sd r d = Some (x, d') \<and> good d' \<and> outp d' = out \<and> length (inp d') \<le> length (inp d) \<and>
    (case x of Inl e \<Rightarrow> e = -1 \<or> e = -4
     | Inr r' \<Rightarrow> rx_ok r' \<and> rx_left r' (length (inp d')) < rx_left r (length (inp d)))"
proof (cases "rx_st r = sDATA")
  case True
  let ?n = "unat (rx_msglen r)"
  obtain buf where b: "rx_buf r = Some buf" "length buf = ?n + 10" "rx_ignorpkt r = 0"
    using ok True by (auto simp: rx_ok_def in_header_def)
  show ?thesis
  proof (cases "?n \<le> length (inp d)")
    case n: True
    obtain d' where s: "serial_recv sd ?n d = Some (0, take ?n (inp d), d')" "good d'"
      "inp d' = drop ?n (inp d)" "outp d' = outp d"
      using recv_ready [OF d(1) n] by blast
    then show ?thesis
      using True b n ok d(2) by (auto simp: rx_round_def rx_data_def store_def rx_ok_def in_header_def rx_left_def)
  next
    case False
    then obtain d' where s: "serial_recv sd ?n d = Some (-1, inp d, d')" "good d'" "inp d' = []" "outp d' = outp d"
      using recv_starved [OF d(1), of ?n] by force
    then show ?thesis using True b False d(2) by (auto simp: rx_round_def rx_data_def store_def)
  qed
next
  case False
  show ?thesis
  proof (cases "inp d")
    case Nil
    then obtain d' where "serial_recv sd 1 d = Some (-1, inp d, d')" "good d'" "inp d' = []" "outp d' = outp d"
      using recv_starved [OF d(1), of 1] by force
    then show ?thesis using False d(2) by (auto simp: rx_round_def)
  next
    case (Cons c bs)
    obtain d1 where s: "serial_recv sd 1 d = Some (0, [c], d1)" "at d1 bs out"
      using recv_at [of d "c # bs" out 1] d Cons by auto
    obtain x d' where x: "rx_byte sd c r d1 = Some (x, d')" "at d' bs out"
      "case x of Inl e \<Rightarrow> e = -4 | Inr r' \<Rightarrow> rx_ok r'"
      using rx_byte_ok [OF ok st False s(2)] by blast
    then show ?thesis using False s Cons by (auto simp: rx_round_def rx_left_def split: sum.splits)
  qed
qed

lemma rx_loop_ok:
  "rx_ok r \<Longrightarrow> good d \<Longrightarrow> outp d = out \<Longrightarrow>
   \<exists>x d'. rx_loop sd t r d = Some (x, d') \<and> good d' \<and> outp d' = out \<and>
     (case x of Inl e \<Rightarrow> e = -1 \<or> e = -4
      | Inr r' \<Rightarrow> rx_ok r' \<and> rx_st r' = sDONE \<and>
          rx_left r' (length (inp d')) \<le> rx_left r (length (inp d)) \<and>
          (rx_st r \<noteq> sDONE \<longrightarrow> rx_left r' (length (inp d')) < rx_left r (length (inp d))))"
proof (induction "rx_left r (length (inp d))" arbitrary: r d rule: less_induct)
  case less
  show ?case
  proof (cases "rx_st r = sDONE")
    case True
    then show ?thesis using less.prems by (subst rx_loop.simps) auto
  next
    case False
    obtain x d1 where x: "rx_round sd r d = Some (x, d1)" "good d1" "outp d1 = out"
      "case x of Inl e \<Rightarrow> e = -1 \<or> e = -4
       | Inr r' \<Rightarrow> rx_ok r' \<and> rx_left r' (length (inp d1)) < rx_left r (length (inp d))"
      using rx_round_ok [OF less.prems(1) False less.prems(2,3)] by (elim exE conjE) (rule that)
    show ?thesis
    proof (cases x)
      case (Inl e)
      then show ?thesis using x False by (subst rx_loop.simps) simp
    next
      case (Inr r1)
      obtain tn d2 where t: "gettimeofday sd d1 = (tn, d2)" "good d2" "inp d2 = inp d1" "outp d2 = outp d1"
        using time_ok [OF x(2)] by blast
      have r1: "rx_ok r1" "rx_left r1 (length (inp d2)) < rx_left r (length (inp d))" "outp d2 = out"
        using x(3,4) Inr t(3,4) by simp_all
      have eq: "rx_loop sd t r d = (if 100 < tn - t then Some (Inl (-1), d2) else rx_loop sd t r1 d2)"
        using x(1) False Inr t(1) by (subst rx_loop.simps) simp
      show ?thesis
      proof (cases "100 < tn - t")
        case True
        then show ?thesis using eq t(2) r1(3) by simp
      next
        case False
        obtain y d3 where y: "rx_loop sd t r1 d2 = Some (y, d3)" "good d3" "outp d3 = out"
          "case y of Inl e \<Rightarrow> e = -1 \<or> e = -4
           | Inr r' \<Rightarrow> rx_ok r' \<and> rx_st r' = sDONE \<and>
              rx_left r' (length (inp d3)) \<le> rx_left r1 (length (inp d2)) \<and>
              (rx_st r1 \<noteq> sDONE \<longrightarrow> rx_left r' (length (inp d3)) < rx_left r1 (length (inp d2)))"
          using less.hyps [OF r1(2) r1(1) t(2) r1(3)] by (elim exE conjE) (rule that)
        have "case y of Inl e \<Rightarrow> e = -1 \<or> e = -4
           | Inr r' \<Rightarrow> rx_ok r' \<and> rx_st r' = sDONE \<and> rx_left r' (length (inp d3)) < rx_left r (length (inp d))"
          using y(4) r1(2) by (cases y) auto
        then show ?thesis using y(1-3) False eq by (cases y) auto
      qed
    qed
  qed
qed

lemma recv_frame_ends:
  assumes d: "good d" and junk: "length junk = 8"
  shows "\<exists>rv fr d'. jtagmkII_recv_frame sd junk d = Some (rv, fr, d') \<and> good d' \<and> outp d' = outp d \<and>
    (if rv < 0 then (rv = -1 \<or> rv = -4) \<and> fr = None
     else rv \<le> 100000 \<and> length (inp d') < length (inp d) \<and>
       (\<exists>buf s. fr = Some (buf, s) \<and> length buf = nat rv + 10))"
proof -
  obtain t d1 where t: "gettimeofday sd d = (t, d1)" "good d1" "inp d1 = inp d" "outp d1 = outp d"
    using time_ok [OF d] by blast
  have ok: "rx_ok (rx_start junk)" using junk by (simp add: rx_ok_def rx_start_def in_header_def)
  obtain x d' where x: "rx_loop sd t (rx_start junk) d1 = Some (x, d')" "good d'" "outp d' = outp d"
    "case x of Inl e \<Rightarrow> e = -1 \<or> e = -4
      | Inr r' \<Rightarrow> rx_ok r' \<and> rx_st r' = sDONE \<and>
          rx_left r' (length (inp d')) \<le> rx_left (rx_start junk) (length (inp d1)) \<and>
          (rx_st (rx_start junk) \<noteq> sDONE \<longrightarrow> rx_left r' (length (inp d')) < rx_left (rx_start junk) (length (inp d1)))"
    using rx_loop_ok [OF ok t(2) t(4), of t] by (elim exE conjE) (rule that)
  show ?thesis
  proof (cases x)
    case (Inl e)
    then show ?thesis using x t by (auto simp: jtagmkII_recv_frame_def)
  next
    case (Inr r')
    then have r': "rx_ok r'" "rx_st r' = sDONE" "length (inp d') < length (inp d)"
      using x(4) t(3) by (simp_all add: rx_left_def rx_start_def)
    then obtain buf where b: "rx_buf r' = Some buf" "length buf = unat (rx_msglen r') + 10" "rx_msglen r' \<le> MAX_MESSAGE"
      by (auto simp: rx_ok_def in_header_def)
    have m: "unat (rx_msglen r') \<le> 100000" using b(3) by (simp add: word_le_nat_alt MAX_MESSAGE_def)
    have u: "unat (ucast (rx_msglen r') :: u32) = unat (rx_msglen r')"
      using m by (simp add: unsigned_ucast_eq take_bit_nat_eq_self)
    have "uint (ucast (rx_msglen r') :: u32) = int (unat (rx_msglen r'))" using u by (metis uint_nat)
    moreover have ui: "uint (rx_msglen r') \<le> 100000" using m unfolding uint_nat by linarith
    ultimately have "sint (ucast (rx_msglen r') :: u32) = int (unat (rx_msglen r'))"
      unfolding sint_uint uint_nat [of "rx_msglen r'", symmetric]
      by (auto simp: signed_take_bit_int_eq_self_iff intro: order_trans [OF _ uint_ge_0])
    then show ?thesis using x(1-3) t(1) Inr r'(3) b m ui by (auto simp: jtagmkII_recv_frame_def)
  qed
qed

lemma recv_ends:
  assumes junk: "length junk = 8"
  shows "good d \<Longrightarrow> \<exists>rv msg seqno' d'. jtagmkII_recv sd junk seqno d = Some (rv, msg, seqno', d') \<and>
    good d' \<and> outp d' = outp d \<and>
    (if rv \<le> 0 then seqno' = seqno
     else rv \<le> 100000 \<and> seqno' = (if seqno + 1 = 0xffff then 0 else seqno + 1) \<and>
       (\<exists>buf. msg = Some buf \<and> length buf = nat rv + 10))"
proof (induction "length (inp d)" arbitrary: d rule: less_induct)
  case less
  obtain rv fr d1 where f: "jtagmkII_recv_frame sd junk d = Some (rv, fr, d1)" "good d1" "outp d1 = outp d"
    "if rv < 0 then (rv = -1 \<or> rv = -4) \<and> fr = None
     else rv \<le> 100000 \<and> length (inp d1) < length (inp d) \<and> (\<exists>buf s. fr = Some (buf, s) \<and> length buf = nat rv + 10)"
    using recv_frame_ends [OF less.prems junk] by (elim exE conjE) (rule that)
  show ?case
  proof (cases "rv \<le> 0")
    case True
    then show ?thesis using f(1-3) by (subst jtagmkII_recv.simps) simp
  next
    case False
    then obtain buf s where b: "fr = Some (buf, s)" "length buf = nat rv + 10" "rv \<le> 100000" "length (inp d1) < length (inp d)"
      using f(4) by auto
    have st: "store 0 (take (nat rv) (drop 8 buf)) buf = Some (take (nat rv) (drop 8 buf) @ drop (nat rv) buf)"
      using b(2) by (simp add: store_def)
    show ?thesis
    proof (cases "s = seqno")
      case True
      then show ?thesis using f(1-3) b st False by (subst jtagmkII_recv.simps) simp
    next
      case other: False
      then have "jtagmkII_recv sd junk seqno d = jtagmkII_recv sd junk seqno d1"
        using f(1) b(1) False by (subst jtagmkII_recv.simps) simp
      then show ?thesis using less.hyps [OF b(4) f(2)] f(3) by simp
    qed
  qed
qed

end

subsection \<open>Messages over a serial port\<close>

text \<open>C38: A command that the driver sends through one port is received on another: the receiver returns
  the payload and goes on to the next sequence number, whatever came before the frame that contains no
  start byte.\<close>

theorem command_arrives:
  assumes a: "posix_port osa inpa outpa ka ta sa" and b: "posix_port osb inpb outpb kb tb sb" and span: "sb \<le> 100"
    and data: "data \<noteq> []" "length data \<le> 100000" and junk: "length junk = 8" and ns: "MESSAGE_START \<notin> set ns"
    and send: "jtagmkII_send (serial_serdev osa tmoa) seqno data x = Some (rc, x')"
    and wire: "outpa x' = outpa x @ sent" "inpb y = ns @ sent @ rest"
  shows "\<exists>msg y'. rc = 0 \<and> take (length data) msg = data \<and> inpb y' = rest \<and>
    jtagmkII_recv (serial_serdev osb tmob) junk seqno y =
      Some (int (length data), Some msg, if seqno + 1 = 0xffff then 0 else seqno + 1, y')"
proof -
  have "length data < 2 ^ 32" using data(2) by simp
  then have s: "rc = 0" "sent = mkII_frame seqno data"
    using posix.send_frame [OF a, of data tmoa seqno x] send wire(1) by auto
  have "inpb y = concat (map (\<lambda>(ns, s, dt). ns @ mkII_frame s dt) []) @ ns @ mkII_frame seqno data @ rest"
    using wire(2) s(2) by simp
  then show ?thesis
    using posix.recv_ok [OF span junk data, of "[]" seqno ns osb inpb outpb kb tb y rest "outpb y" tmob] b ns s(1) by auto
qed


lemma sum_bytes_inject: "sum_bytes as = sum_bytes bs \<longleftrightarrow> fold (\<lambda>b c. CRC c b) as CRC_INIT = fold (\<lambda>b c. CRC c b) bs CRC_INIT"
  unfolding sum_bytes_def by (metis of_le_le16)

lemma sum_bytes_update:
  assumes "i < length bs" "b \<noteq> bs ! i" shows "sum_bytes (bs[i := b]) \<noteq> sum_bytes bs"
proof -
  define f where "f = (\<lambda>b c. CRC c b)"
  have "fold f (take i bs @ x # drop (Suc i) bs) CRC_INIT = fold f (drop (Suc i) bs) (CRC (fold f (take i bs) CRC_INIT) x)" for x
    by (simp add: f_def)
  moreover have "bs = take i bs @ bs ! i # drop (Suc i) bs" "bs[i := b] = take i bs @ b # drop (Suc i) bs"
    using assms(1) by (simp_all add: id_take_nth_drop upd_conv_take_nth_drop)
  ultimately have "fold f (bs[i := b]) CRC_INIT = fold f (drop (Suc i) bs) (CRC (fold f (take i bs) CRC_INIT) b)"
    "fold f bs CRC_INIT = fold f (drop (Suc i) bs) (CRC (fold f (take i bs) CRC_INIT) (bs ! i))"
    by metis+
  then show ?thesis
    using assms(2) unfolding sum_bytes_inject f_def by (simp add: fold_CRC_inject CRC_inject_byte)
qed

text \<open>A frame in which a byte of the payload was changed on the line is refused with the error of the
  checksum, and its sequence number is not taken.\<close>

theorem changed_byte_refused:
  assumes "posix_port os inp outp k t0 span" and "span \<le> 100" and "length junk = 8"
    and "i < length data" "b \<noteq> data ! i" "length data \<le> 100000"
    and "inp d = (mkII_frame s data)[8 + i := b] @ rest"
  shows "\<exists>d'. jtagmkII_recv (serial_serdev os tmo) junk seqno d = Some (-4, None, seqno, d') \<and> inp d' = rest"
proof -
  obtain x y where f: "mkII_frame s data = mkII_body s data @ [x, y]" "[x, y] = sum_bytes (mkII_body s data)"
    using mkII_frame_split by blast
  have body: "(mkII_body s data)[8 + i := b] = mkII_body s (data[i := b])"
    using assms(4) by (simp add: mkII_body_def le16_def le32_def numeral_eq_Suc)
  have nth: "mkII_body s data ! (8 + i) = data ! i" by (simp add: mkII_body_def le16_def le32_def numeral_eq_Suc)
  have ne: "[x, y] \<noteq> sum_bytes (mkII_body s (data[i := b]))"
    using sum_bytes_update [of "8 + i" "mkII_body s data" b] assms(4,5) f(2) body nth by simp
  have "inp d = [] @ mkII_body s (data[i := b]) @ x # y # rest"
    using assms(4,7) f(1) body by (simp add: list_update_append)
  then obtain d' where "inp d' = rest"
    "jtagmkII_recv_frame (serial_serdev os tmo) junk d = Some (-4, None, d')"
    using posix.recv_frame_at [OF assms(2,3), of "[]" os inp outp k t0 d s "data[i := b]" x y rest "outp d" tmo]
      assms(1,6) ne by auto
  then show ?thesis by (subst jtagmkII_recv.simps) simp
qed


subsection \<open>Examples\<close>

lemma command_arrives_witness:
  "\<exists>x' msg y'. jtagmkII_send (serial_serdev byte_port 5000) 0 [0x80] ([], []) = Some (0, x') \<and>
     take 1 msg = [0x80] \<and> prod.fst y' = [7] \<and>
     jtagmkII_recv (serial_serdev byte_port 5000) (replicate 8 0) 0 ([0] @ snd x' @ [7], []) = Some (1, Some msg, 1, y')"
proof -
  obtain x' where x: "jtagmkII_send (serial_serdev byte_port 5000) 0 [0x80] ([], []) = Some (0, x')"
    using posix.send_frame [OF byte_port_ok, of "[0x80]" 5000 0 "([], [])"] by auto
  show ?thesis
    using x command_arrives [OF byte_port_ok byte_port_ok _ _ _ _ _ x, of "replicate 8 0" "[0]" "snd x'" "([0] @ snd x' @ [7], [])" "[7]" 5000]
    by (auto simp: MESSAGE_START_def)
qed


lemma changed_byte_refused_witness:
  "\<exists>d'. jtagmkII_recv (serial_serdev byte_port 5000) (replicate 8 0) 3 ((mkII_frame 3 [0x80])[8 := 0x81] @ [7], [])
     = Some (-4, None, 3, d') \<and> prod.fst d' = [7]"
  using changed_byte_refused [OF byte_port_ok, of "replicate 8 0" 0 "[0x80]" "0x81"
      "((mkII_frame 3 [0x80])[8 := 0x81] @ [7], [])" 3 "[7]" 5000 3]
  by simp


end
