(* ===== verification/CLib.thy ===== *)
theory CLib
  imports Prelude "HOL-Library.Char_ord"
begin

text \<open>
  The functions of the C library that avrdude's file formats rest on: hexadecimal printing,
  \<^verbatim>\<open>strtoul\<close>, reading a line, character classes. Text is a list of characters; a file is the list
  of its characters.
\<close>

subsection \<open>Characters\<close>

definition NL :: char where "NL = CHR 0x0A"
definition NUL :: char where "NUL = CHR 0x00"

definition isspace :: "char \<Rightarrow> bool" where
  "isspace c \<longleftrightarrow> c \<in> {CHR 0x20, CHR 0x09, CHR 0x0A, CHR 0x0B, CHR 0x0C, CHR 0x0D}"

text \<open>The value of a digit of any base up to 36, and 255 for other characters.\<close>

definition digit_val :: "char \<Rightarrow> nat" where
  "digit_val c = (let n = of_char c in
     if 48 \<le> n \<and> n \<le> 57 then n - 48
     else if 97 \<le> n \<and> n \<le> 122 then n - 87
     else if 65 \<le> n \<and> n \<le> 90 then n - 55
     else (255 :: nat))"

definition isxdigit :: "char \<Rightarrow> bool" where
  "isxdigit c \<longleftrightarrow> digit_val c < 16"

definition isdigit :: "char \<Rightarrow> bool" where
  "isdigit c \<longleftrightarrow> digit_val c < 10"

definition strlen :: "string \<Rightarrow> nat" where
  "strlen s = length (takeWhile (\<lambda>c. c \<noteq> NUL) s)"

subsection \<open>Numbers\<close>

definition digits_value :: "nat \<Rightarrow> string \<Rightarrow> nat" where
  "digits_value b ds = foldl (\<lambda>v c. v * b + digit_val c) 0 ds"

text \<open>
  \<^verbatim>\<open>strtoul(s, &e, base)\<close>: leading space, a sign, the prefix of base 16, the digits. The result is
  the value, on 64 bits, and the rest of the string; \<open>None\<close> is the case without digits, in which
  \<^verbatim>\<open>e\<close> points at the start.
\<close>

definition strtoul_sign :: "string \<Rightarrow> bool \<times> string" where
  "strtoul_sign s = (case s of
     c # cs \<Rightarrow> if c = CHR ''-'' then (True, cs) else if c = CHR ''+'' then (False, cs) else (False, s)
   | [] \<Rightarrow> (False, s))"

definition hex_prefix :: "string \<Rightarrow> bool" where
  "hex_prefix s \<longleftrightarrow> length s \<ge> 3 \<and> s ! 0 = CHR ''0'' \<and> (s ! 1 = CHR ''x'' \<or> s ! 1 = CHR ''X'') \<and> isxdigit (s ! 2)"

definition strtoul_base :: "nat \<Rightarrow> string \<Rightarrow> nat \<times> string" where
  "strtoul_base base s =
     (if (base = 16 \<or> base = 0) \<and> hex_prefix s then (16, drop 2 s)
      else if base = 0 then (if s \<noteq> [] \<and> hd s = CHR ''0'' then (8, s) else (10, s))
      else (base, s))"

definition strtoul :: "nat \<Rightarrow> string \<Rightarrow> (u64 \<times> string) option" where
  "strtoul base s =
     (let (neg, s1) = strtoul_sign (dropWhile isspace s);
          (b, s2) = strtoul_base base s1;
          ds = takeWhile (\<lambda>c. digit_val c < b) s2;
          v = digits_value b ds
      in if ds = [] then None
         else Some (if v \<ge> 2 ^ 64 then -1 else if neg then - of_nat v else of_nat v, drop (length ds) s2))"

text \<open>The test \<^verbatim>\<open>e == buf || *e != 0\<close> of the readers: the whole string has to be a number.\<close>

definition number16 :: "string \<Rightarrow> u64 option" where
  "number16 s = (case strtoul 16 s of
     Some (v, rest) \<Rightarrow> if rest = [] \<or> hd rest = NUL then Some v else None
   | None \<Rightarrow> None)"

text \<open>\<^verbatim>\<open>printf("%0<w>X", n)\<close>\<close>

definition hex_digit :: "nat \<Rightarrow> char" where
  "hex_digit n = char_of (if n < 10 then n + 48 else n + 55)"

fun hex_fixed :: "nat \<Rightarrow> nat \<Rightarrow> string" where
  "hex_fixed 0 n = []"
| "hex_fixed (Suc w) n = hex_fixed w (n div 16) @ [hex_digit (n mod 16)]"

fun hex_width :: "nat \<Rightarrow> nat" where
  "hex_width n = (if n < 16 then 1 else Suc (hex_width (n div 16)))"

declare hex_width.simps [simp del]

definition hex :: "nat \<Rightarrow> nat \<Rightarrow> string" where
  "hex w n = hex_fixed (max w (hex_width n)) n"

subsection \<open>Lines\<close>

fun line_of :: "nat \<Rightarrow> string \<Rightarrow> string \<times> string" where
  "line_of 0 s = ([], s)"
| "line_of (Suc n) [] = ([], [])"
| "line_of (Suc n) (c # cs) = (if c = NL then ([c], cs) else (let (l, r) = line_of n cs in (c # l, r)))"

text \<open>\<^verbatim>\<open>fgets(buffer, n, f)\<close>: the line, at most \<open>n - 1\<close> characters with its newline, and the rest.\<close>

definition fgets :: "nat \<Rightarrow> string \<Rightarrow> (string \<times> string) option" where
  "fgets n f = (if f = [] then None else Some (line_of (n - 1) f))"

lemma line_of_length: "line_of n s = (l, r) \<Longrightarrow> s = l @ r \<and> (0 < n \<longrightarrow> s \<noteq> [] \<longrightarrow> l \<noteq> [])"
  by (induction n s arbitrary: l r rule: line_of.induct) (auto split: if_splits prod.splits)

text \<open>\<^verbatim>\<open>fgets\<close> makes progress, which is why the loops over the lines of a file end.\<close>

lemma fgets_progress: "fgets n f = Some (l, r) \<Longrightarrow> 1 < n \<Longrightarrow> length r < length f"
  using line_of_length [of "n - 1" f l r] by (auto simp: fgets_def split: if_splits)

subsection \<open>What is printed is read back\<close>

lemma less_16_cases: "(n :: nat) < 16 \<Longrightarrow> n \<in> {0,1,2,3,4,5,6,7,8,9,10,11,12,13,14,15}"
  by (simp, presburger)

lemma hex_digit_facts:
  assumes "n < 16"
  shows "digit_val (hex_digit n) = n" "\<not> isspace (hex_digit n)" "hex_digit n \<noteq> CHR ''-''"
    "hex_digit n \<noteq> CHR ''+''" "hex_digit n \<noteq> CHR ''x''" "hex_digit n \<noteq> CHR ''X''"
    "hex_digit n \<noteq> NL" "hex_digit n \<noteq> NUL" "of_char (hex_digit n) < (128 :: nat)"
proof -
  have *: "digit_val (hex_digit n) = n \<and> \<not> isspace (hex_digit n) \<and> hex_digit n \<noteq> CHR ''-'' \<and>
    hex_digit n \<noteq> CHR ''+'' \<and> hex_digit n \<noteq> CHR ''x'' \<and> hex_digit n \<noteq> CHR ''X'' \<and>
    hex_digit n \<noteq> NL \<and> hex_digit n \<noteq> NUL \<and> of_char (hex_digit n) < (128 :: nat)"
    using less_16_cases [OF assms]
    by (elim insertE emptyE) (simp_all add: hex_digit_def digit_val_def isspace_def NL_def NUL_def Let_def
        char_of_def of_char_def bit_numeral_rec bit_0)
  show "digit_val (hex_digit n) = n" "\<not> isspace (hex_digit n)" "hex_digit n \<noteq> CHR ''-''"
    "hex_digit n \<noteq> CHR ''+''" "hex_digit n \<noteq> CHR ''x''" "hex_digit n \<noteq> CHR ''X''"
    "hex_digit n \<noteq> NL" "hex_digit n \<noteq> NUL" "of_char (hex_digit n) < (128 :: nat)"
    using * by blast+
qed

lemma length_hex_fixed [simp]: "length (hex_fixed w n) = w"
  by (induction w n rule: hex_fixed.induct) simp_all

lemma hex_fixed_chars: "c \<in> set (hex_fixed w n) \<Longrightarrow> \<exists>k < 16. c = hex_digit k"
proof (induction w n rule: hex_fixed.induct)
  case (2 w n)
  then consider "c \<in> set (hex_fixed w (n div 16))" | "c = hex_digit (n mod 16)" by auto
  then show ?case
  proof cases
    case 1
    then show ?thesis by (rule "2.IH")
  next
    case 2
    then show ?thesis by (intro exI [of _ "n mod 16"]) simp
  qed
qed simp

lemma digits_value_hex: "digits_value 16 (hex_fixed w n) = n mod 16 ^ w"
proof (induction w n rule: hex_fixed.induct)
  case (2 w n)
  have "n mod 16 ^ Suc w = 16 * (n div 16 mod 16 ^ w) + n mod 16"
    by (simp add: mod_mult2_eq)
  then show ?case
    using 2 by (simp add: digits_value_def hex_digit_facts)
qed (simp add: digits_value_def)

lemma strtoul_hex:
  assumes "0 < w" and "w \<le> 16"
  shows "strtoul 16 (hex_fixed w n) = Some (of_nat (n mod 16 ^ w), [])"
proof -
  let ?s = "hex_fixed w n"
  have hexd: "\<exists>k < 16. ?s ! i = hex_digit k" if "i < w" for i
    using hex_fixed_chars [of "?s ! i" w n] that by simp
  obtain c cs where s: "?s = c # cs" using assms(1) by (cases ?s) (auto dest: arg_cong [of _ _ length])
  then obtain k where c: "k < 16" "c = hex_digit k" using hexd [of 0] assms(1) by auto
  have sign: "strtoul_sign (dropWhile isspace ?s) = (False, ?s)"
    using c by (simp add: s strtoul_sign_def hex_digit_facts)
  have "\<not> hex_prefix ?s"
    using hexd [of 1] hex_digit_facts(5,6) by (fastforce simp: hex_prefix_def)
  then have base: "strtoul_base 16 ?s = (16, ?s)" by (simp add: strtoul_base_def)
  have take: "takeWhile (\<lambda>c. digit_val c < 16) ?s = ?s"
    unfolding takeWhile_eq_all_conv by (metis hex_fixed_chars hex_digit_facts(1))
  have "n mod 16 ^ w < 16 ^ w" by simp
  also have "(16 :: nat) ^ w \<le> 16 ^ 16" using assms(2) by (intro power_increasing) simp_all
  finally have "n mod 16 ^ w < 2 ^ 64" by simp
  moreover have "?s \<noteq> []" by (simp add: s)
  ultimately show ?thesis
    by (simp add: strtoul_def sign base take digits_value_hex)
qed

lemma hex_fixed_when: "n < 16 ^ w \<Longrightarrow> 0 < w \<Longrightarrow> hex w n = hex_fixed w n"
proof -
  have "n < 16 ^ w \<Longrightarrow> 0 < w \<Longrightarrow> hex_width n \<le> w"
  proof (induction n arbitrary: w rule: hex_width.induct)
    case (1 n)
    show ?case
    proof (cases "n < 16")
      case True
      with 1 show ?thesis by (simp add: hex_width.simps [of n])
    next
      case False
      obtain v where w: "w = Suc v" using "1.prems"(2) by (cases w) auto
      with False "1.prems"(1) have "0 < v" by (cases v) auto
      note w = w this
      with "1.prems" have "n div 16 < 16 ^ v" by (simp add: less_mult_imp_div_less mult.commute)
      with False w "1.IH" show ?thesis by (simp add: hex_width.simps [of n])
    qed
  qed
  then show "n < 16 ^ w \<Longrightarrow> 0 < w \<Longrightarrow> hex w n = hex_fixed w n"
    by (simp add: hex_def max_def)
qed

lemma number16_hex: "n < 16 ^ w \<Longrightarrow> 0 < w \<Longrightarrow> w \<le> 16 \<Longrightarrow> number16 (hex w n) = Some (of_nat n)"
  by (simp add: number16_def hex_fixed_when strtoul_hex)

lemma length_hex: "n < 16 ^ w \<Longrightarrow> 0 < w \<Longrightarrow> length (hex w n) = w"
  by (simp add: hex_fixed_when)

lemma hex_chars: "c \<in> set (hex w n) \<Longrightarrow> \<exists>k < 16. c = hex_digit k"
  by (auto simp: hex_def dest: hex_fixed_chars)

lemma line_of_line: "NL \<notin> set l \<Longrightarrow> length l < n \<Longrightarrow> line_of n (l @ NL # r) = (l @ [NL], r)"
proof (induction l arbitrary: n)
  case Nil
  then show ?case by (cases n) simp_all
next
  case (Cons c l)
  then show ?case by (cases n) auto
qed

lemma fgets_line: "NL \<notin> set l \<Longrightarrow> length l + 1 < n \<Longrightarrow> fgets n (l @ NL # r) = Some (l @ [NL], r)"
  by (simp add: fgets_def line_of_line)

end
