(* ===== verification/AvrPart.thy ===== *)
theory AvrPart
  imports Prelude "HOL-Library.Char_ord"
begin

text \<open>
  Parts, memories and serial-programming opcodes of avrdude: \<^verbatim>\<open>avrpart.c\<close> with the structures of
  \<^verbatim>\<open>libavrdude.h\<close>. Opcodes are lists of 32 bit specifications; a command is a list of four bytes
  that the opcode functions fill in place. A pointer to a memory of a part is its index.
\<close>

subsection \<open>Data\<close>

datatype avr_op =
    AVR_OP_READ | AVR_OP_WRITE | AVR_OP_READ_LO | AVR_OP_READ_HI | AVR_OP_WRITE_LO | AVR_OP_WRITE_HI
  | AVR_OP_LOADPAGE_LO | AVR_OP_LOADPAGE_HI | AVR_OP_LOAD_EXT_ADDR | AVR_OP_WRITEPAGE
  | AVR_OP_CHIP_ERASE | AVR_OP_PGM_ENABLE

datatype cmdbit_type =
    AVR_CMDBIT_IGNORE | AVR_CMDBIT_VALUE | AVR_CMDBIT_ADDRESS | AVR_CMDBIT_INPUT | AVR_CMDBIT_OUTPUT

record cmdbit =
  bit_type :: cmdbit_type
  bitno :: nat
  bit_value :: int

type_synonym opcode = "cmdbit list"

text \<open>Memory buffers that are not allocated yet are empty lists.\<close>

record avrmem =
  m_desc :: string
  paged :: bool
  m_size :: nat
  page_size :: nat
  num_pages :: nat
  m_offset :: u32
  min_write_delay :: nat
  max_write_delay :: nat
  pwroff_after_write :: bool
  readback :: "u8 \<times> u8"
  m_mode :: int
  m_delay :: int
  blocksize :: int
  readsize :: int
  pollindex :: int
  buf :: "u8 list"
  tags :: "u8 list"
  m_op :: "avr_op \<Rightarrow> opcode option"

definition TAG_ALLOCATED :: u8 where "TAG_ALLOCATED = 1"

definition AVRPART_SERIALOK :: u32 where "AVRPART_SERIALOK = 0x0001"
definition AVRPART_PARALLELOK :: u32 where "AVRPART_PARALLELOK = 0x0002"
definition AVRPART_ENABLEPAGEPROGRAMMING :: u32 where "AVRPART_ENABLEPAGEPROGRAMMING = 0x0020"
definition AVRPART_HAS_PDI :: u32 where "AVRPART_HAS_PDI = 0x0080"
definition AVRPART_AVR32 :: u32 where "AVRPART_AVR32 = 0x0100"
definition AVRPART_HAS_TPI :: u32 where "AVRPART_HAS_TPI = 0x0800"
definition AVRPART_IS_AT90S1200 :: u32 where "AVRPART_IS_AT90S1200 = 0x1000"

text \<open>Where the reset pin goes, and what the control stack is for.\<close>

datatype reset_disp = RESET_DEDICATED | RESET_IO
datatype ctl_stack_t = CTL_STACK_NONE | CTL_STACK_PP | CTL_STACK_HVSP

definition PIN_AVR_SCK :: nat where "PIN_AVR_SCK = 4"

record avrpart =
  p_desc :: string
  p_id :: string
  stk500_devcode :: int
  avr910_devcode :: int
  chip_erase_delay :: nat
  pagel :: u8
  bs2 :: u8
  signature :: "u8 list"
  usbpid :: u16
  reset_disposition :: reset_disp
  retry_pulse :: nat
  flags :: u32
  timeout :: int
  stabdelay :: int
  cmdexedelay :: int
  synchloops :: int
  bytedelay :: int
  p_pollindex :: int
  pollvalue :: u8
  predelay :: int
  postdelay :: int
  pollmethod :: int
  ctl_stack_type :: ctl_stack_t
  controlstack :: "u8 list"
  flash_instr :: "u8 list"
  eeprom_instr :: "u8 list"
  hventerstabdelay :: int
  progmodedelay :: int
  latchcycles :: int
  togglevtg :: int
  poweroffdelay :: int
  resetdelayms :: int
  resetdelayus :: int
  hvleavestabdelay :: int
  resetdelay :: int
  chiperasepulsewidth :: int
  chiperasepolltimeout :: int
  chiperasetime :: int
  programfusepulsewidth :: int
  programfusepolltimeout :: int
  programlockpulsewidth :: int
  programlockpolltimeout :: int
  synchcycles :: int
  hvspcmdexedelay :: int
  idr :: u8
  rampz :: u8
  spmcr :: u8
  eecr :: u16
  mcu_base :: u32
  nvm_base :: u32
  ocdrev :: int
  p_op :: "avr_op \<Rightarrow> opcode option"
  p_mem :: "avrmem list"
  config_file :: string
  lineno :: int

subsection \<open>Opcodes\<close>

text \<open>\<^verbatim>\<open>cmd[j] | mask\<close> or \<^verbatim>\<open>cmd[j] & ~mask\<close> for the command bit \<open>i\<close>, counted from the last byte.\<close>

definition put_bit :: "nat \<Rightarrow> bool \<Rightarrow> u8 list \<Rightarrow> u8 list" where
  "put_bit i v cmd =
     (let j = 3 - i div 8; mask = push_bit (i mod 8) 1
      in cmd[j := (if v then cmd ! j OR mask else cmd ! j AND NOT mask)])"

definition avr_set_bits :: "opcode \<Rightarrow> u8 list \<Rightarrow> u8 list" where
  "avr_set_bits op cmd = fold (\<lambda>i cmd.
     if bit_type (op ! i) = AVR_CMDBIT_VALUE then put_bit i (bit_value (op ! i) \<noteq> 0) cmd else cmd)
     [0..<32] cmd"

definition avr_set_addr :: "opcode \<Rightarrow> u8 list \<Rightarrow> u64 \<Rightarrow> u8 list" where
  "avr_set_addr op cmd addr = fold (\<lambda>i cmd.
     if bit_type (op ! i) = AVR_CMDBIT_ADDRESS
     then put_bit i (drop_bit (bitno (op ! i)) addr AND 1 \<noteq> 0) cmd else cmd)
     [0..<32] cmd"

definition avr_set_input :: "opcode \<Rightarrow> u8 list \<Rightarrow> u8 \<Rightarrow> u8 list" where
  "avr_set_input op cmd data = fold (\<lambda>i cmd.
     if bit_type (op ! i) = AVR_CMDBIT_INPUT
     then put_bit i (drop_bit (bitno (op ! i)) data AND 1 \<noteq> 0) cmd else cmd)
     [0..<32] cmd"

text \<open>
  The clearing branch of the source masks with the complement of a value that is zero there, so it
  keeps the data as it is.
\<close>

definition avr_get_output :: "opcode \<Rightarrow> u8 list \<Rightarrow> u8 \<Rightarrow> u8" where
  "avr_get_output op res data = fold (\<lambda>i data.
     if bit_type (op ! i) = AVR_CMDBIT_OUTPUT
     then (let j = 3 - i div 8; mask = push_bit (i mod 8) 1;
               value = (drop_bit (i mod 8) (res ! j AND mask)) AND 1;
               value = push_bit (bitno (op ! i)) value
           in if value \<noteq> 0 then data OR value else data AND NOT value)
     else data)
     [0..<32] data"

fun output_index_from :: "opcode \<Rightarrow> nat list \<Rightarrow> int" where
  "output_index_from op [] = -1"
| "output_index_from op (i # is) =
     (if bit_type (op ! i) = AVR_CMDBIT_OUTPUT then 3 - int (i div 8) else output_index_from op is)"

definition avr_get_output_index :: "opcode \<Rightarrow> int" where
  "avr_get_output_index op = output_index_from op [0..<32]"

fun avr_op_str :: "avr_op \<Rightarrow> string" where
  "avr_op_str AVR_OP_READ = ''READ''"
| "avr_op_str AVR_OP_WRITE = ''WRITE''"
| "avr_op_str AVR_OP_READ_LO = ''READ_LO''"
| "avr_op_str AVR_OP_READ_HI = ''READ_HI''"
| "avr_op_str AVR_OP_WRITE_LO = ''WRITE_LO''"
| "avr_op_str AVR_OP_WRITE_HI = ''WRITE_HI''"
| "avr_op_str AVR_OP_LOADPAGE_LO = ''LOADPAGE_LO''"
| "avr_op_str AVR_OP_LOADPAGE_HI = ''LOADPAGE_HI''"
| "avr_op_str AVR_OP_LOAD_EXT_ADDR = ''LOAD_EXT_ADDR''"
| "avr_op_str AVR_OP_WRITEPAGE = ''WRITEPAGE''"
| "avr_op_str AVR_OP_CHIP_ERASE = ''CHIP_ERASE''"
| "avr_op_str AVR_OP_PGM_ENABLE = ''PGM_ENABLE''"

fun bittype :: "cmdbit_type \<Rightarrow> string" where
  "bittype AVR_CMDBIT_IGNORE = ''IGNORE''"
| "bittype AVR_CMDBIT_VALUE = ''VALUE''"
| "bittype AVR_CMDBIT_ADDRESS = ''ADDRESS''"
| "bittype AVR_CMDBIT_INPUT = ''INPUT''"
| "bittype AVR_CMDBIT_OUTPUT = ''OUTPUT''"

subsection \<open>Memories\<close>

definition avr_new_memtype :: avrmem where
  "avr_new_memtype = \<lparr>m_desc = [], paged = False, m_size = 0, page_size = 0, num_pages = 0, m_offset = 0,
     min_write_delay = 0, max_write_delay = 0, pwroff_after_write = False, readback = (0, 0),
     m_mode = 0, m_delay = 0, blocksize = 0, readsize = 0, pollindex = 0,
     buf = [], tags = [], m_op = (\<lambda>_. None)\<rparr>"

text \<open>
  Allocation leaves the contents undefined: \<open>junk\<close> gives them, by memory and position. Running out
  of memory is not modelled.
\<close>

definition avr_initmem :: "(nat \<Rightarrow> nat \<Rightarrow> u8) \<Rightarrow> avrpart \<Rightarrow> avrpart" where
  "avr_initmem junk p = p\<lparr>p_mem := map (\<lambda>(k, m).
     m\<lparr>buf := map (junk (2 * k)) [0..<m_size m], tags := map (junk (2 * k + 1)) [0..<m_size m]\<rparr>)
     (enumerate 0 (p_mem p))\<rparr>"

definition avr_dup_mem :: "avrmem \<Rightarrow> avrmem" where
  "avr_dup_mem m = m\<lparr>buf := take (m_size m) (buf m), tags := take (m_size m) (tags m)\<rparr>"

text \<open>\<^verbatim>\<open>strncmp(desc, m->desc, strlen(desc)) == 0\<close>\<close>

definition desc_matches :: "string \<Rightarrow> avrmem \<Rightarrow> bool" where
  "desc_matches desc m \<longleftrightarrow> take (length desc) (m_desc m) = desc"

fun locate_mem_loop :: "string \<Rightarrow> nat \<Rightarrow> avrmem list \<Rightarrow> nat option \<Rightarrow> nat \<Rightarrow> nat option \<times> nat" where
  "locate_mem_loop desc k [] match matches = (match, matches)"
| "locate_mem_loop desc k (m # ms) match matches =
     (if desc_matches desc m then locate_mem_loop desc (Suc k) ms (Some k) (Suc matches)
      else locate_mem_loop desc (Suc k) ms match matches)"

definition avr_locate_mem :: "avrpart \<Rightarrow> string \<Rightarrow> nat option" where
  "avr_locate_mem p desc =
     (let (match, matches) = locate_mem_loop desc 0 (p_mem p) None 0
      in if matches = 1 then match else None)"

text \<open>
  \<^verbatim>\<open>avr_mem_hiaddr\<close> of \<^verbatim>\<open>avr.c\<close>: the end of the last byte that is not 0xff, rounded up to an even
  number. The loop stops before the first byte.
\<close>

fun hiaddr_loop :: "u8 list \<Rightarrow> nat \<Rightarrow> nat" where
  "hiaddr_loop b 0 = 0"
| "hiaddr_loop b (Suc i) =
     (if b ! Suc i \<noteq> 0xff then (let n = Suc i + 1 in if odd n then n + 1 else n) else hiaddr_loop b i)"

definition avr_mem_hiaddr :: "avrmem \<Rightarrow> nat" where
  "avr_mem_hiaddr m = hiaddr_loop (buf m) (m_size m - 1)"

subsection \<open>Parts\<close>

definition avr_new_part :: avrpart where
  "avr_new_part = \<lparr>p_desc = [], p_id = [], stk500_devcode = 0, avr910_devcode = 0, chip_erase_delay = 0, pagel = 0, bs2
     = 0, signature = [0xFF, 0xFF, 0xFF], usbpid = 0, reset_disposition = RESET_DEDICATED,
     retry_pulse = PIN_AVR_SCK, flags = AVRPART_SERIALOK OR AVRPART_PARALLELOK OR
     AVRPART_ENABLEPAGEPROGRAMMING, timeout = 0, stabdelay = 0, cmdexedelay = 0, synchloops = 0,
     bytedelay = 0, p_pollindex = 0, pollvalue = 0, predelay = 0, postdelay = 0, pollmethod = 0,
     ctl_stack_type = CTL_STACK_NONE, controlstack = replicate 32 0, flash_instr = replicate 3 0,
     eeprom_instr = replicate 20 0, hventerstabdelay = 0, progmodedelay = 0, latchcycles = 0,
     togglevtg = 0, poweroffdelay = 0, resetdelayms = 0, resetdelayus = 0, hvleavestabdelay = 0,
     resetdelay = 0, chiperasepulsewidth = 0, chiperasepolltimeout = 0, chiperasetime = 0,
     programfusepulsewidth = 0, programfusepolltimeout = 0, programlockpulsewidth = 0,
     programlockpolltimeout = 0, synchcycles = 0, hvspcmdexedelay = 0, idr = 0, rampz = 0, spmcr =
     0, eecr = 0, mcu_base = 0, nvm_base = 0, ocdrev = -1, p_op = (\<lambda>_. None), p_mem = [],
     config_file = [], lineno = 0\<rparr>"

definition avr_dup_part :: "avrpart \<Rightarrow> avrpart" where
  "avr_dup_part d = d\<lparr>p_mem := fold (\<lambda>m ms. ms @ [avr_dup_mem m]) (p_mem d) []\<rparr>"

text \<open>A part in which one memory is replaced.\<close>

definition with_mem :: "avrpart \<Rightarrow> nat \<Rightarrow> avrmem \<Rightarrow> avrpart" where
  "with_mem p k m = p\<lparr>p_mem := (p_mem p)[k := m]\<rparr>"

lemma with_mem_simps [simp]:
  "p_mem (with_mem p k m) = (p_mem p)[k := m]" "flags (with_mem p k m) = flags p"
  "p_op (with_mem p k m) = p_op p" "signature (with_mem p k m) = signature p"
  by (simp_all add: with_mem_def)

lemma with_mem_twice [simp]: "with_mem (with_mem p k m) k m' = with_mem p k m'"
  by (simp add: with_mem_def)

text \<open>Comparison of C strings ignoring the case of ASCII letters.\<close>

definition lower :: "char \<Rightarrow> char" where
  "lower c = (if CHR ''A'' \<le> c \<and> c \<le> CHR ''Z'' then char_of (of_char c + 32 :: nat) else c)"

definition same_ignoring_case :: "string \<Rightarrow> string \<Rightarrow> bool" where
  "same_ignoring_case s t \<longleftrightarrow> map lower s = map lower t"

fun locate_part :: "avrpart list \<Rightarrow> string \<Rightarrow> avrpart option" where
  "locate_part [] d = None"
| "locate_part (p # ps) d =
     (if same_ignoring_case d (p_id p) \<or> same_ignoring_case d (p_desc p) then Some p else locate_part ps d)"

fun locate_part_by_avr910_devcode :: "avrpart list \<Rightarrow> int \<Rightarrow> avrpart option" where
  "locate_part_by_avr910_devcode [] c = None"
| "locate_part_by_avr910_devcode (p # ps) c =
     (if avr910_devcode p = c then Some p else locate_part_by_avr910_devcode ps c)"

fun signature_search :: "avrpart list \<Rightarrow> u8 list \<Rightarrow> avrpart option" where
  "signature_search [] sig = None"
| "signature_search (p # ps) sig =
     (if signature p ! 0 = sig ! 0 \<and> signature p ! 1 = sig ! 1 \<and> signature p ! 2 = sig ! 2 then Some p
      else signature_search ps sig)"

definition locate_part_by_signature :: "avrpart list \<Rightarrow> u8 list \<Rightarrow> nat \<Rightarrow> avrpart option" where
  "locate_part_by_signature parts sig sigsize =
     (if sigsize = 3 then signature_search parts sig else None)"

definition walk_avrparts :: "avrpart list \<Rightarrow> (string \<Rightarrow> string \<Rightarrow> 'c \<Rightarrow> 'c) \<Rightarrow> 'c \<Rightarrow> 'c" where
  "walk_avrparts parts cb cookie = fold (\<lambda>p c. cb (p_id p) (p_desc p) c) parts cookie"

subsection \<open>Opcodes bit by bit\<close>

definition cmd_bit :: "u8 list \<Rightarrow> nat \<Rightarrow> bool" where
  "cmd_bit cmd i = bit (cmd ! (3 - i div 8)) (i mod 8)"

lemma length_put_bit [simp]: "length (put_bit i v cmd) = length cmd"
  by (simp add: put_bit_def Let_def)

lemma cmd_bit_put_bit:
  assumes "length cmd = 4" and "i < 32" and "k < 32"
  shows "cmd_bit (put_bit i v cmd) k = (if k = i then v else cmd_bit cmd k)"
proof -
  have i: "3 - i div 8 < 4" and k: "3 - k div 8 < 4" by simp_all
  show ?thesis
  proof (cases "3 - i div 8 = 3 - k div 8")
    case True
    with assms have d: "i div 8 = k div 8" by linarith
    then have "k = i \<longleftrightarrow> k mod 8 = i mod 8"
      by (metis div_mult_mod_eq)
    then show ?thesis
      using i assms(1) d
      by (auto simp: cmd_bit_def put_bit_def Let_def bit_or_iff bit_and_iff bit_not_iff bit_push_bit_iff bit_1_iff bit_exp_iff)
  next
    case False
    then have "k \<noteq> i" by auto
    with False show ?thesis by (simp add: cmd_bit_def put_bit_def Let_def)
  qed
qed

lemma length_fold_put [simp]:
  "length (fold (\<lambda>i cmd. if P i then put_bit i (f i) cmd else cmd) is cmd) = length cmd"
  by (induction "is" arbitrary: cmd) simp_all

lemma cmd_bit_fold:
  assumes "length cmd = 4" and "\<forall>i \<in> set is. i < 32" and "k < 32"
  shows "cmd_bit (fold (\<lambda>i cmd. if P i then put_bit i (f i) cmd else cmd) is cmd) k
    = (if k \<in> set is \<and> P k then f k else cmd_bit cmd k)"
  using assms(1,2) by (induction "is" arbitrary: cmd) (auto simp: cmd_bit_put_bit assms(3))

lemma and_1_ne_0: "(w :: 'a::len word) AND 1 \<noteq> 0 \<longleftrightarrow> bit w 0"
  using and_single_bit_eq_0 [of w 0] by simp

lemma drop_and_1: "drop_bit n (w :: 'a::len word) AND 1 \<noteq> 0 \<longleftrightarrow> bit w n"
  by (simp only: and_1_ne_0 bit_drop_bit_eq) simp

text \<open>Encoding a serial-programming command, bit by bit. Filling in the fixed bits, the address or
  the data byte of an opcode changes exactly the command bits of that kind, to the value, the
  address bit or the data bit the opcode names, and keeps every other bit and the length.\<close>

theorem opcode_encode:
  assumes "length cmd = 4" and "k < 32"
  shows "cmd_bit (avr_set_bits op cmd) k
      = (if bit_type (op ! k) = AVR_CMDBIT_VALUE then bit_value (op ! k) \<noteq> 0 else cmd_bit cmd k)
    \<and> cmd_bit (avr_set_addr op cmd addr) k
      = (if bit_type (op ! k) = AVR_CMDBIT_ADDRESS then bit addr (bitno (op ! k)) else cmd_bit cmd k)
    \<and> cmd_bit (avr_set_input op cmd data) k
      = (if bit_type (op ! k) = AVR_CMDBIT_INPUT then bit data (bitno (op ! k)) else cmd_bit cmd k)
    \<and> length (avr_set_bits op cmd) = 4 \<and> length (avr_set_addr op cmd addr) = 4
    \<and> length (avr_set_input op cmd data) = 4"
  using assms
  by (simp add: avr_set_bits_def avr_set_addr_def avr_set_input_def cmd_bit_fold drop_and_1)

definition read_op :: opcode where
  "read_op = map (\<lambda>i. \<lparr>bit_type = (if i < 8 then AVR_CMDBIT_OUTPUT else if i < 24 then AVR_CMDBIT_ADDRESS
     else AVR_CMDBIT_VALUE), bitno = (if i < 8 then i else i - 8), bit_value = (if i = 29 then 1 else 0)\<rparr>) [0..<32]"

theorem opcode_encode_witness:
  "cmd_bit (avr_set_addr read_op [0x20, 0, 0, 0] 0x0100) 16"
proof -
  have "bit_type (read_op ! 16) = AVR_CMDBIT_ADDRESS" "bitno (read_op ! 16) = 8"
    by (simp_all add: read_op_def)
  then show ?thesis
    using opcode_encode [of "[0x20, 0, 0, 0]" 16 read_op "0x0100" 0] by (simp add: bit_numeral_rec)
qed

definition out_bit :: "opcode \<Rightarrow> u8 list \<Rightarrow> nat \<Rightarrow> u8" where
  "out_bit op res i = (let j = 3 - i div 8; mask = push_bit (i mod 8) 1;
               value = (drop_bit (i mod 8) (res ! j AND mask)) AND 1
           in push_bit (bitno (op ! i)) value)"

lemma out_bit_bits: "bit (out_bit op res i) n \<longleftrightarrow> n < 8 \<and> n = bitno (op ! i) \<and> cmd_bit res i"
  by (auto simp: out_bit_def Let_def bit_push_bit_iff bit_and_iff bit_drop_bit_eq bit_1_iff bit_exp_iff cmd_bit_def)

lemma avr_get_output_fold:
  "avr_get_output op res data
    = fold (\<lambda>i data. if bit_type (op ! i) = AVR_CMDBIT_OUTPUT then data OR out_bit op res i else data) [0..<32] data"
proof -
  have "(if v \<noteq> 0 then d OR v else d AND NOT v) = d OR v" for d v :: u8 by simp
  then show ?thesis by (simp add: avr_get_output_def out_bit_def Let_def cong: if_cong)
qed

lemma fold_out_bits:
  "bit (fold (\<lambda>i data. if bit_type (op ! i) = AVR_CMDBIT_OUTPUT then data OR out_bit op res i else data) is data) n
    \<longleftrightarrow> bit data n \<or> (\<exists>i \<in> set is. bit_type (op ! i) = AVR_CMDBIT_OUTPUT \<and> bit (out_bit op res i) n)"
  by (induction "is" arbitrary: data) (auto simp: bit_or_iff)

text \<open>Decoding the answer to a command sets each data bit that an output bit of the opcode delivers
  as one. The clearing branch of the source has no effect, so a bit that was set in the caller's
  byte before stays set: the result is right only for a byte that starts as zero.\<close>

theorem opcode_decode:
  "bit (avr_get_output op res data) n \<longleftrightarrow> bit data n \<or>
     (n < 8 \<and> (\<exists>i < 32. bit_type (op ! i) = AVR_CMDBIT_OUTPUT \<and> bitno (op ! i) = n \<and> cmd_bit res i))"
  unfolding avr_get_output_fold fold_out_bits out_bit_bits by auto

text \<open>C31: What is written comes back. If the output bits of the read opcode are the input bits of the
  write opcode, with the same data bit numbers, and all eight data bits occur, then decoding a
  command that carries a data byte, into a zero byte, gives that data byte.\<close>

theorem opcode_roundtrip:
  assumes "length cmd = 4"
    and "\<And>i. i < 32 \<Longrightarrow> bit_type (rop ! i) = AVR_CMDBIT_OUTPUT \<longleftrightarrow> bit_type (wop ! i) = AVR_CMDBIT_INPUT"
    and "\<And>i. i < 32 \<Longrightarrow> bitno (rop ! i) = bitno (wop ! i)"
    and "\<And>n. n < 8 \<Longrightarrow> \<exists>i < 32. bit_type (wop ! i) = AVR_CMDBIT_INPUT \<and> bitno (wop ! i) = n"
  shows "avr_get_output rop (avr_set_input wop cmd data) 0 = data"
proof (rule bit_word_eqI)
  fix n assume n: "n < LENGTH(8)"
  have sent: "cmd_bit (avr_set_input wop cmd data) i = bit data (bitno (wop ! i))"
    if "i < 32" and "bit_type (wop ! i) = AVR_CMDBIT_INPUT" for i
    using that assms(1) by (simp add: avr_set_input_def cmd_bit_fold drop_and_1)
  have "bit (avr_get_output rop (avr_set_input wop cmd data) 0) n \<longleftrightarrow>
      (\<exists>i < 32. bit_type (wop ! i) = AVR_CMDBIT_INPUT \<and> bitno (wop ! i) = n
         \<and> cmd_bit (avr_set_input wop cmd data) i)"
    unfolding avr_get_output_fold fold_out_bits out_bit_bits using n assms(2,3) by auto
  also have "\<dots> \<longleftrightarrow> bit data n"
    using sent assms(4) [of n] n by auto
  finally show "bit (avr_get_output rop (avr_set_input wop cmd data) 0) n = bit data n" .
qed

theorem opcode_roundtrip_witness:
  "avr_get_output read_op (avr_set_input (map (\<lambda>b. if bit_type b = AVR_CMDBIT_OUTPUT
     then b\<lparr>bit_type := AVR_CMDBIT_INPUT\<rparr> else b) read_op) [0x20, 0, 0, 0] 0xA5) 0 = 0xA5"
proof (rule opcode_roundtrip)
  show "\<exists>i < 32. bit_type ((map (\<lambda>b. if bit_type b = AVR_CMDBIT_OUTPUT
     then b\<lparr>bit_type := AVR_CMDBIT_INPUT\<rparr> else b) read_op) ! i) = AVR_CMDBIT_INPUT
     \<and> bitno ((map (\<lambda>b. if bit_type b = AVR_CMDBIT_OUTPUT
     then b\<lparr>bit_type := AVR_CMDBIT_INPUT\<rparr> else b) read_op) ! i) = n" if "n < 8" for n
    using that by (intro exI [of _ n]) (simp add: read_op_def)
qed (auto simp: read_op_def)

subsection \<open>Looking things up\<close>

lemma locate_mem_loop_eq:
  "locate_mem_loop desc k ms match matches
    = (let ks = filter (\<lambda>i. desc_matches desc (ms ! i)) [0..<length ms]
       in (if ks = [] then match else Some (k + last ks), matches + length ks))"
proof (induction ms arbitrary: k match matches)
  case (Cons m ms)
  have f: "filter (\<lambda>i. desc_matches desc ((m # ms) ! i)) [0..<length (m # ms)]
      = (if desc_matches desc m then [0] else []) @ map Suc (filter (\<lambda>i. desc_matches desc (ms ! i)) [0..<length ms])"
  proof -
    have "[0..<length (m # ms)] = 0 # map Suc [0..<length ms]"
      by (simp add: map_Suc_upt upt_conv_Cons del: upt_Suc)
    then show ?thesis by (simp add: filter_map comp_def)
  qed
  show ?case
    unfolding locate_mem_loop.simps Cons.IH f Let_def by (auto simp: last_map)
qed simp

lemma locate_mem_iff:
  "avr_locate_mem p desc = Some i \<longleftrightarrow>
     i < length (p_mem p) \<and> desc_matches desc (p_mem p ! i)
     \<and> (\<forall>j < length (p_mem p). desc_matches desc (p_mem p ! j) \<longrightarrow> j = i)"
proof -
  let ?ks = "filter (\<lambda>i. desc_matches desc (p_mem p ! i)) [0..<length (p_mem p)]"
  have "avr_locate_mem p desc = Some i \<longleftrightarrow> length ?ks = 1 \<and> last ?ks = i"
    by (auto simp: avr_locate_mem_def locate_mem_loop_eq Let_def split: if_splits)
  moreover have "length ?ks = 1 \<and> last ?ks = i \<longleftrightarrow> ?ks = [i]"
    by (cases ?ks) auto
  moreover have "?ks = [i] \<longleftrightarrow> set ?ks = {i}"
  proof
    assume "set ?ks = {i}"
    moreover have "distinct ?ks" by simp
    ultimately show "?ks = [i]"
      by (metis distinct_card card_1_singleton_iff length_0_conv length_Suc_conv list.set_intros(1) One_nat_def
          singletonD is_singletonI is_singleton_altdef)
  qed simp
  moreover have "set ?ks = {i} \<longleftrightarrow> i < length (p_mem p) \<and> desc_matches desc (p_mem p ! i)
     \<and> (\<forall>j < length (p_mem p). desc_matches desc (p_mem p ! j) \<longrightarrow> j = i)"
    by auto
  ultimately show ?thesis by (simp only:)
qed

text \<open>A memory is found by name exactly if one memory of the part, and no other, has a description
  that starts with the name; then it is that one. An ambiguous prefix finds nothing.\<close>

theorem locate_mem_unique:
  "avr_locate_mem p desc = Some i \<longleftrightarrow>
     i < length (p_mem p) \<and> desc_matches desc (p_mem p ! i)
     \<and> (\<forall>j < length (p_mem p). desc_matches desc (p_mem p ! j) \<longrightarrow> j = i)"
  by (rule locate_mem_iff)

lemma hiaddr_loop_spec:
  "even (hiaddr_loop b i) \<and> hiaddr_loop b i \<le> i + 2
   \<and> (\<forall>j. 0 < j \<longrightarrow> j \<le> i \<longrightarrow> hiaddr_loop b i \<le> j \<longrightarrow> b ! j = 0xff)
   \<and> (0 < hiaddr_loop b i \<longrightarrow> (\<exists>j \<le> i. 0 < j \<and> hiaddr_loop b i \<le> j + 2 \<and> b ! j \<noteq> 0xff))"
proof (induction i)
  case (Suc i)
  show ?case
  proof (cases "b ! Suc i = 0xff")
    case True
    with Suc show ?thesis by (auto simp: le_Suc_eq)
  next
    case False
    then show ?thesis by (auto simp: Let_def intro!: exI [of _ "Suc i"])
  qed
qed simp

text \<open>The extent avr_mem_hiaddr computes is even, exceeds the memory by at most one byte, and is the
  place from which on the memory holds only 0xff: every later byte but the first of the memory is
  0xff, and a nonzero extent ends at most two bytes after a byte that is not.\<close>

theorem hiaddr_extent:
  assumes "0 < m_size m"
  shows "even (avr_mem_hiaddr m) \<and> avr_mem_hiaddr m \<le> m_size m + 1
    \<and> (\<forall>j. 0 < j \<longrightarrow> avr_mem_hiaddr m \<le> j \<longrightarrow> j < m_size m \<longrightarrow> buf m ! j = 0xff)
    \<and> (0 < avr_mem_hiaddr m \<longrightarrow> (\<exists>j < m_size m. avr_mem_hiaddr m \<le> j + 2 \<and> buf m ! j \<noteq> 0xff))"
proof -
  obtain i where i: "m_size m = Suc i" using assms gr0_implies_Suc by blast
  then have h: "avr_mem_hiaddr m = hiaddr_loop (buf m) i" by (simp add: avr_mem_hiaddr_def)
  show ?thesis
    unfolding h i less_Suc_eq_le using hiaddr_loop_spec [of "buf m" i] by auto
qed

definition mem0 :: avrmem where
  "mem0 = avr_new_memtype\<lparr>m_desc := ''flash'', m_size := 4, readback := (0xFF, 0xFF),
     buf := [0xFF, 0xFF, 0xFF, 0xFF], tags := [0, 0, 0, 0]\<rparr>"

theorem hiaddr_extent_witness:
  "avr_mem_hiaddr (mem0\<lparr>buf := [0xFF, 0xFF, 7, 0xFF]\<rparr>) = 4 \<and> even (avr_mem_hiaddr (mem0\<lparr>buf := [0xFF, 0xFF, 7, 0xFF]\<rparr>))"
proof -
  let ?m = "mem0\<lparr>buf := [0xFF, 0xFF, 7, 0xFF]\<rparr>"
  have "avr_mem_hiaddr ?m = 4" by code_simp
  moreover have "0 < m_size ?m" by (simp add: mem0_def avr_new_memtype_def)
  ultimately show ?thesis using hiaddr_extent [of ?m] by blast
qed

definition part0 :: avrpart where
  "part0 = avr_new_part\<lparr>p_mem := [mem0, mem0\<lparr>m_desc := ''fuse1''\<rparr>, mem0\<lparr>m_desc := ''fuse2''\<rparr>]\<rparr>"

theorem locate_mem_unique_witness:
  "avr_locate_mem part0 ''fl'' = Some 0 \<and> avr_locate_mem part0 ''fuse'' \<noteq> Some 1"
proof -
  have mems: "p_mem part0 = [mem0, mem0\<lparr>m_desc := ''fuse1''\<rparr>, mem0\<lparr>m_desc := ''fuse2''\<rparr>]"
    by (simp add: part0_def avr_new_part_def)
  have "(\<forall>j < length (p_mem part0). desc_matches ''fl'' (p_mem part0 ! j) \<longrightarrow> j = 0)"
    by (auto simp: mems desc_matches_def mem0_def less_Suc_eq)
  moreover have "desc_matches ''fuse'' (p_mem part0 ! 2)" "(2 :: nat) < length (p_mem part0)"
    by (simp_all add: mems desc_matches_def mem0_def)
  moreover have "desc_matches ''fl'' (p_mem part0 ! 0)" "0 < length (p_mem part0)"
    by (simp_all add: mems desc_matches_def mem0_def)
  ultimately show ?thesis
    unfolding locate_mem_unique by fastforce
qed

end
