(* ===== verification/Pins.thy ===== *)
theory Pins
  imports CLib AvrPart
begin

text \<open>
  Pin definitions of avrdude's programmers: \<^verbatim>\<open>pindefs.c\<close>. A pin definition is a bit field of the pins
  that serve a function and one of those among them that are inverted. \<open>pm\<close> is the largest pin number
  (\<^verbatim>\<open>PIN_MAX\<close>): 31, and 255 where the programmer is the host's own port. \<open>None\<close> is a store or a read
  outside an array. Messages are left out.
\<close>

subsection \<open>Pin definitions\<close>

record pindef =
  pin_mask :: "u32 list"
  pin_inverse :: "u32 list"

definition PIN_FIELD_SIZE :: "nat \<Rightarrow> nat" where
  "PIN_FIELD_SIZE pm = (pm + 32) div 32"

definition PIN_MASK :: u32 where "PIN_MASK = drop_bit 1 0xFFFFFFFF"
definition PIN_INVERSE :: u32 where "PIN_INVERSE = NOT PIN_MASK"

text \<open>\<^verbatim>\<open>mask[i / PIN_FIELD_ELEMENT_SIZE] & (1 << (i % PIN_FIELD_ELEMENT_SIZE))\<close>\<close>

definition has_pin :: "u32 list \<Rightarrow> nat \<Rightarrow> bool" where
  "has_pin ms i \<longleftrightarrow> ms ! (i div 32) AND push_bit (i mod 32) 1 \<noteq> 0"

text \<open>A negative number is a large index after the conversion to an unsigned number.\<close>

definition pin_set_value :: "pindef \<Rightarrow> int \<Rightarrow> bool \<Rightarrow> pindef option" where
  "pin_set_value d pin inverted =
     (if 0 \<le> pin \<and> nat pin div 32 < length (pin_mask d) \<and> nat pin div 32 < length (pin_inverse d)
      then (let k = nat pin div 32;
                b = push_bit (nat pin mod 32) 1;
                d = d\<lparr>pin_mask := (pin_mask d)[k := pin_mask d ! k OR b]\<rparr>
            in if inverted
               then Some (d\<lparr>pin_inverse := (pin_inverse d)[k := pin_inverse d ! k OR b]\<rparr>)
               else Some (d\<lparr>pin_inverse := (pin_inverse d)[k := pin_inverse d ! k AND NOT b]\<rparr>))
      else None)"

definition pin_clear_all :: "pindef \<Rightarrow> pindef" where
  "pin_clear_all d = \<lparr>pin_mask = map (\<lambda>_. 0) (pin_mask d), pin_inverse = map (\<lambda>_. 0) (pin_inverse d)\<rparr>"

subsection \<open>Logical levels\<close>

definition SET_BITS_0 :: "u32 \<Rightarrow> pindef \<Rightarrow> bool \<Rightarrow> u32" where
  "SET_BITS_0 x d level =
     (x AND NOT (pin_mask d ! 0)) OR
     (pin_mask d ! 0 AND (if level then NOT (pin_inverse d ! 0) else pin_inverse d ! 0))"

definition GET_BITS_0 :: "u32 \<Rightarrow> pindef \<Rightarrow> u32" where
  "GET_BITS_0 x d = (x XOR pin_inverse d ! 0) AND pin_mask d ! 0"

subsection \<open>The old pin numbers\<close>

text \<open>The functions of the pins, in the order of the enumeration.\<close>

definition PPI_AVR_VCC :: nat where "PPI_AVR_VCC = 1"
definition PPI_AVR_BUFF :: nat where "PPI_AVR_BUFF = 2"
definition PIN_AVR_RESET :: nat where "PIN_AVR_RESET = 3"
definition PIN_AVR_MOSI :: nat where "PIN_AVR_MOSI = 5"
definition PIN_AVR_MISO :: nat where "PIN_AVR_MISO = 6"
definition PIN_LED_ERR :: nat where "PIN_LED_ERR = 7"
definition PIN_LED_RDY :: nat where "PIN_LED_RDY = 8"
definition PIN_LED_PGM :: nat where "PIN_LED_PGM = 9"
definition PIN_LED_VFY :: nat where "PIN_LED_VFY = 10"
definition N_PINS :: nat where "N_PINS = 11"

lemmas pin_names = PPI_AVR_VCC_def PPI_AVR_BUFF_def PIN_AVR_RESET_def PIN_AVR_SCK_def
  PIN_AVR_MOSI_def PIN_AVR_MISO_def PIN_LED_ERR_def PIN_LED_RDY_def PIN_LED_PGM_def PIN_LED_VFY_def
  N_PINS_def

fun old_pinno_loop :: "pindef \<Rightarrow> nat list \<Rightarrow> bool \<Rightarrow> u32 \<Rightarrow> int \<times> u32" where
  "old_pinno_loop d [] found pinno = (0, pinno)"
| "old_pinno_loop d (i # is) found pinno =
     (if has_pin (pin_mask d) i
      then (if found then (-1, pinno)
            else old_pinno_loop d is True
                   (if has_pin (pin_inverse d) i then of_nat i OR PIN_INVERSE else of_nat i))
      else old_pinno_loop d is found pinno)"

definition pin_fill_old_pinno :: "nat \<Rightarrow> pindef \<Rightarrow> u32 \<Rightarrow> int \<times> u32" where
  "pin_fill_old_pinno pm d pinno = old_pinno_loop d [0..<pm] False pinno"

fun old_pinlist_loop :: "pindef \<Rightarrow> nat list \<Rightarrow> u32 \<Rightarrow> int \<times> u32" where
  "old_pinlist_loop d [] pinno = (0, pinno)"
| "old_pinlist_loop d (i # is) pinno =
     (let mk = pin_mask d ! i; turned = pin_inverse d ! i
      in if i = 0
         then (if mk AND NOT PIN_MASK \<noteq> 0 then (-1, pinno)
               else if mk = 0 then old_pinlist_loop d is 0
               else if mk = turned then old_pinlist_loop d is (mk OR PIN_INVERSE)
               else if mk = NOT turned AND mk then old_pinlist_loop d is mk
               else (-1, pinno))
         else if mk \<noteq> 0 then (-1, pinno)
         else old_pinlist_loop d is pinno)"

definition pin_fill_old_pinlist :: "nat \<Rightarrow> pindef \<Rightarrow> u32 \<Rightarrow> int \<times> u32" where
  "pin_fill_old_pinlist pm d pinno = old_pinlist_loop d [0..<PIN_FIELD_SIZE pm] pinno"

text \<open>The pins of a programmer, by function.\<close>

record pgm_pins =
  pgm_pin :: "pindef list"
  pgm_pinno :: "u32 list"

definition fill_old :: "(pindef \<Rightarrow> u32 \<Rightarrow> int \<times> u32) \<Rightarrow> nat \<Rightarrow> pgm_pins \<Rightarrow> int \<times> pgm_pins" where
  "fill_old f n pgm =
     (let (rc, no) = f (pgm_pin pgm ! n) (pgm_pinno pgm ! n)
      in (rc, pgm\<lparr>pgm_pinno := (pgm_pinno pgm)[n := no]\<rparr>))"

fun fill_all :: "((pindef \<Rightarrow> u32 \<Rightarrow> int \<times> u32) \<times> nat) list \<Rightarrow> pgm_pins \<Rightarrow> int \<times> pgm_pins" where
  "fill_all [] pgm = (0, pgm)"
| "fill_all ((f, n) # fs) pgm =
     (let (rc, pgm) = fill_old f n pgm in if rc < 0 then (-1, pgm) else fill_all fs pgm)"

definition pgm_fill_old_pins :: "nat \<Rightarrow> pgm_pins \<Rightarrow> int \<times> pgm_pins" where
  "pgm_fill_old_pins pm pgm =
     fill_all [(pin_fill_old_pinlist pm, PPI_AVR_VCC), (pin_fill_old_pinlist pm, PPI_AVR_BUFF),
               (pin_fill_old_pinno pm, PIN_AVR_RESET), (pin_fill_old_pinno pm, PIN_AVR_SCK),
               (pin_fill_old_pinno pm, PIN_AVR_MOSI), (pin_fill_old_pinno pm, PIN_AVR_MISO),
               (pin_fill_old_pinno pm, PIN_LED_ERR), (pin_fill_old_pinno pm, PIN_LED_RDY),
               (pin_fill_old_pinno pm, PIN_LED_PGM), (pin_fill_old_pinno pm, PIN_LED_VFY)] pgm"

subsection \<open>Pins as text\<close>

text \<open>\<^verbatim>\<open>%d\<close> of a number that is not negative.\<close>

fun dec_str :: "nat \<Rightarrow> string" where
  "dec_str n = (if n < 10 then [hex_digit n] else dec_str (n div 10) @ [hex_digit (n mod 10)])"

declare dec_str.simps [simp del]

text \<open>\<^verbatim>\<open>sprintf\<close> to the end of the text in the static buffer, with the terminator.\<close>

definition bufcat :: "nat \<Rightarrow> string \<Rightarrow> string \<Rightarrow> string option" where
  "bufcat pm acc s = (if length acc + length s < (pm + 1) * 5 then Some (acc @ s) else None)"

definition close_range :: "nat \<Rightarrow> int \<Rightarrow> int \<Rightarrow> string \<Rightarrow> string option" where
  "close_range pm first_pin last_pin acc =
     (if first_pin \<noteq> last_pin then bufcat pm acc (''-'' @ dec_str (nat last_pin)) else Some acc)"

fun mask_str_loop :: "nat \<Rightarrow> u32 list \<Rightarrow> nat list \<Rightarrow> int \<Rightarrow> int \<Rightarrow> string \<Rightarrow> (int \<times> int \<times> string) option" where
  "mask_str_loop pm ms [] first_pin last_pin acc = Some (first_pin, last_pin, acc)"
| "mask_str_loop pm ms (pin # pins) first_pin last_pin acc =
     (if has_pin ms pin
      then (if first_pin \<noteq> -1 \<and> int pin = last_pin + 1 then mask_str_loop pm ms pins first_pin (int pin) acc
            else do {
              acc \<leftarrow> (if first_pin = -1 then Some acc else close_range pm first_pin last_pin acc);
              acc \<leftarrow> bufcat pm acc ((if acc = [] then [] else '','') @ dec_str pin);
              mask_str_loop pm ms pins (int pin) (int pin) acc
            })
      else mask_str_loop pm ms pins first_pin last_pin acc)"

definition pinmask_to_str :: "nat \<Rightarrow> u32 list \<Rightarrow> string option" where
  "pinmask_to_str pm ms = do {
     (first_pin, last_pin, acc) \<leftarrow> mask_str_loop pm ms [0..<pm + 1] (-1) (-1) [];
     acc \<leftarrow> close_range pm first_pin last_pin acc;
     Some (if acc = [] then ''(no pins)'' else acc)
   }"

fun pins_str_loop :: "nat \<Rightarrow> pindef \<Rightarrow> nat list \<Rightarrow> string \<Rightarrow> string option" where
  "pins_str_loop pm d [] acc = Some acc"
| "pins_str_loop pm d (pin # pins) acc =
     (if has_pin (pin_mask d) pin
      then do {
        acc \<leftarrow> bufcat pm acc
          ((if has_pin (pin_inverse d) pin then (if acc = [] then ''~'' else '',~'')
            else (if acc = [] then '' '' else '','')) @ dec_str pin);
        pins_str_loop pm d pins acc
      }
      else pins_str_loop pm d pins acc)"

definition pins_to_str :: "nat \<Rightarrow> pindef \<Rightarrow> string option" where
  "pins_to_str pm d = do {
     acc \<leftarrow> pins_str_loop pm d [0..<pm + 1] [];
     Some (if acc = [] then '' (not used)'' else acc)
   }"

definition avr_pin_name :: "int \<Rightarrow> string" where
  "avr_pin_name pinname =
     (if pinname = int PPI_AVR_VCC then ''VCC''
      else if pinname = int PPI_AVR_BUFF then ''BUFF''
      else if pinname = int PIN_AVR_RESET then ''RESET''
      else if pinname = int PIN_AVR_SCK then ''SCK''
      else if pinname = int PIN_AVR_MOSI then ''MOSI''
      else if pinname = int PIN_AVR_MISO then ''MISO''
      else if pinname = int PIN_LED_ERR then ''ERRLED''
      else if pinname = int PIN_LED_RDY then ''RDYLED''
      else if pinname = int PIN_LED_PGM then ''PGMLED''
      else if pinname = int PIN_LED_VFY then ''VFYLED''
      else ''<unknown>'')"

subsection \<open>The check of a programmer's pins\<close>

record pin_checklist =
  cl_pinname :: int
  cl_mandatory :: bool
  cl_valid_pins :: pindef

definition no_valid_pins :: "nat \<Rightarrow> pindef" where
  "no_valid_pins pm = \<lparr>pin_mask = replicate (PIN_FIELD_SIZE pm) 0, pin_inverse = replicate (PIN_FIELD_SIZE pm) 0\<rparr>"

fun find_check :: "pin_checklist list \<Rightarrow> int \<Rightarrow> pindef \<Rightarrow> pindef \<times> bool" where
  "find_check [] pinname valid = (valid, False)"
| "find_check (c # cs) pinname valid =
     (if cl_pinname c = pinname then (cl_valid_pins c, cl_mandatory c) else find_check cs pinname valid)"

text \<open>What the check of one function collects: \<^verbatim>\<open>used\<close>, \<^verbatim>\<open>invalid\<close>, \<^verbatim>\<open>inverse\<close>, \<^verbatim>\<open>mandatory_used\<close>.\<close>

fun check_segments ::
    "pindef \<Rightarrow> pindef \<Rightarrow> bool \<Rightarrow> nat list \<Rightarrow> u32 list \<Rightarrow> bool \<times> bool \<times> bool \<times> bool
     \<Rightarrow> u32 list \<times> bool \<times> bool \<times> bool \<times> bool" where
  "check_segments d v is_mandatory [] all (used, invalid, turned, mand) = (all, used, invalid, turned, mand)"
| "check_segments d v is_mandatory (k # ks) all (used, invalid, turned, mand) =
     (let mand = (mand \<or> is_mandatory \<and> pin_mask d ! k AND pin_mask v ! k \<noteq> 0);
          invalid = (invalid \<or> pin_mask d ! k AND NOT (pin_mask v ! k) \<noteq> 0);
          turned = (turned \<or> pin_inverse d ! k AND pin_mask v ! k AND NOT (pin_inverse v ! k) \<noteq> 0);
          used = (used \<or> pin_mask d ! k AND all ! k \<noteq> 0)
      in check_segments d v is_mandatory ks (all[k := all ! k OR pin_mask d ! k]) (used, invalid, turned, mand))"

definition pin_ok :: "bool \<Rightarrow> bool \<Rightarrow> bool \<times> bool \<times> bool \<times> bool \<Rightarrow> bool" where
  "pin_ok output is_mandatory = (\<lambda>(used, invalid, turned, mand).
     \<not> invalid \<and> \<not> turned \<and> \<not> (used \<and> output) \<and> \<not> (\<not> mand \<and> is_mandatory \<and> \<not> invalid))"

fun pins_check_loop ::
    "nat \<Rightarrow> pgm_pins \<Rightarrow> pin_checklist list \<Rightarrow> bool \<Rightarrow> nat list \<Rightarrow> u32 list \<Rightarrow> int \<Rightarrow> int" where
  "pins_check_loop pm pgm cl output [] all rv = rv"
| "pins_check_loop pm pgm cl output (n # ns) all rv =
     (let (v, is_mandatory) = find_check cl (int n) (no_valid_pins pm);
          (all, flags) = check_segments (pgm_pin pgm ! n) v is_mandatory [0..<PIN_FIELD_SIZE pm] all
                           (False, False, False, False)
      in pins_check_loop pm pgm cl output ns all (if pin_ok output is_mandatory flags then rv else -1))"

definition pins_check :: "nat \<Rightarrow> pgm_pins \<Rightarrow> pin_checklist list \<Rightarrow> bool \<Rightarrow> int" where
  "pins_check pm pgm cl output =
     pins_check_loop pm pgm cl output [0..<N_PINS] (replicate (PIN_FIELD_SIZE pm) 0) 0"

subsection \<open>Pin definitions as sets of pins\<close>

definition pins_of :: "u32 list \<Rightarrow> nat set" where
  "pins_of ms = {i. i < 32 * length ms \<and> has_pin ms i}"

definition pindef_ok :: "nat \<Rightarrow> pindef \<Rightarrow> bool" where
  "pindef_ok pm d \<longleftrightarrow> length (pin_mask d) = PIN_FIELD_SIZE pm \<and> length (pin_inverse d) = PIN_FIELD_SIZE pm"

lemma has_pin_bit: "has_pin ms i \<longleftrightarrow> bit (ms ! (i div 32)) (i mod 32)"
  unfolding has_pin_def and_single_bit_eq_0 by simp

lemma bit_pin: "b < 32 \<Longrightarrow> bit (push_bit (i mod 32) (1 :: u32)) b \<longleftrightarrow> b = i mod 32"
  by (simp only: bit_push_bit_iff) (auto simp: bit_1_iff)

lemma pins_of_iff [simp]: "i \<in> pins_of ms \<longleftrightarrow> i < 32 * length ms \<and> bit (ms ! (i div 32)) (i mod 32)"
  by (simp add: pins_of_def has_pin_bit)

lemma pin_position:
  assumes "(i :: nat) div 32 = k div 32" shows "i mod 32 = k mod 32 \<longleftrightarrow> i = k"
  using assms by (metis div_mult_mod_eq)

lemma field_index: "k < length ms \<Longrightarrow> b < 32 \<Longrightarrow> 32 * k + b < 32 * length (ms :: 'a list)"
  by linarith

text \<open>Word by word, and pin by pin.\<close>

lemma words_eq_0:
  "(\<forall>k < n. (f k :: u32) = 0) \<longleftrightarrow> (\<forall>i < 32 * n. \<not> bit (f (i div 32)) (i mod 32))"
proof safe
  fix i assume "\<forall>k < n. f k = 0" and "i < 32 * n" and "bit (f (i div 32)) (i mod 32)"
  moreover have "i div 32 < n" using \<open>i < 32 * n\<close> by (simp add: less_mult_imp_div_less mult.commute)
  ultimately show False by simp
next
  fix k assume no: "\<forall>i < 32 * n. \<not> bit (f (i div 32)) (i mod 32)" and k: "k < n"
  show "f k = 0"
  proof (rule bit_word_eqI)
    fix b assume b: "b < LENGTH(32)"
    then have "32 * k + b < 32 * n" using k by simp
    moreover have "(32 * k + b) div 32 = k" "(32 * k + b) mod 32 = b" using b by simp_all
    ultimately have "\<not> bit (f k) b" using no by metis
    then show "bit (f k) b = bit 0 b" by simp
  qed
qed

text \<open>Setting and clearing one pin in a field.\<close>

lemma pins_of_set:
  assumes "i < 32 * length ms"
  shows "pins_of (ms[i div 32 := ms ! (i div 32) OR push_bit (i mod 32) 1]) = insert i (pins_of ms)"
proof (rule set_eqI)
  fix k
  have i: "i div 32 < length ms" using assms by (simp add: less_mult_imp_div_less mult.commute)
  show "k \<in> pins_of (ms[i div 32 := ms ! (i div 32) OR push_bit (i mod 32) 1]) \<longleftrightarrow> k \<in> insert i (pins_of ms)"
  proof (cases "k div 32 = i div 32")
    case True
    then have "k mod 32 = i mod 32 \<longleftrightarrow> k = i" by (rule pin_position)
    then show ?thesis using True i assms by (auto simp: bit_or_iff bit_pin simp del: push_bit_of_1)
  next
    case False
    then show ?thesis by auto
  qed
qed

lemma pins_of_clear:
  assumes "i < 32 * length ms"
  shows "pins_of (ms[i div 32 := ms ! (i div 32) AND NOT (push_bit (i mod 32) 1)]) = pins_of ms - {i}"
proof (rule set_eqI)
  fix k
  have i: "i div 32 < length ms" using assms by (simp add: less_mult_imp_div_less mult.commute)
  show "k \<in> pins_of (ms[i div 32 := ms ! (i div 32) AND NOT (push_bit (i mod 32) 1)]) \<longleftrightarrow> k \<in> pins_of ms - {i}"
  proof (cases "k div 32 = i div 32")
    case True
    then have "k mod 32 = i mod 32 \<longleftrightarrow> k = i" by (rule pin_position)
    then show ?thesis using True i assms
      by (auto simp: bit_and_iff bit_not_iff bit_pin simp del: push_bit_of_1)
  next
    case False
    then show ?thesis by auto
  qed
qed

lemma pin_set_value_pins:
  assumes ok: "pindef_ok pm d"
  shows "case pin_set_value d pin inverted of
      None \<Rightarrow> pin < 0 \<or> int (32 * PIN_FIELD_SIZE pm) \<le> pin
    | Some d' \<Rightarrow> 0 \<le> pin \<and> pin < int (32 * PIN_FIELD_SIZE pm) \<and> pindef_ok pm d' \<and>
        pins_of (pin_mask d') = insert (nat pin) (pins_of (pin_mask d)) \<and>
        pins_of (pin_inverse d') = (if inverted then insert (nat pin) (pins_of (pin_inverse d))
                                    else pins_of (pin_inverse d) - {nat pin})"
proof -
  have eq: "nat pin div 32 < PIN_FIELD_SIZE pm \<longleftrightarrow> nat pin < 32 * PIN_FIELD_SIZE pm"
    using div_less_iff_less_mult [of 32 "nat pin" "PIN_FIELD_SIZE pm"] by (simp add: mult.commute)
  have L: "length (pin_mask d) = PIN_FIELD_SIZE pm" "length (pin_inverse d) = PIN_FIELD_SIZE pm"
    using ok by (simp_all add: pindef_ok_def)
  show ?thesis
  proof (cases "0 \<le> pin \<and> nat pin < 32 * PIN_FIELD_SIZE pm")
    case True
    then have "nat pin < 32 * length (pin_mask d)" "nat pin < 32 * length (pin_inverse d)" by (simp_all add: L)
    note s = pins_of_set [OF this(1)] pins_of_set [OF this(2)] pins_of_clear [OF this(2)]
    show ?thesis using True s
      by (auto simp add: pin_set_value_def Let_def eq L pindef_ok_def simp del: pins_of_iff)
  next
    case False
    then show ?thesis by (auto simp: pin_set_value_def eq L)
  qed
qed

lemma pin_clear_all_pins:
  "pins_of (pin_mask (pin_clear_all d)) = {}" "pins_of (pin_inverse (pin_clear_all d)) = {}"
  by (auto simp: pin_clear_all_def nth_map less_mult_imp_div_less mult.commute)

text \<open>The level that is written is the level that is read, whichever pins are inverted.\<close>

lemma get_set_bits: "GET_BITS_0 (SET_BITS_0 x d level) d = (if level then pin_mask d ! 0 else 0)"
  by (rule bit_word_eqI)
    (auto simp: GET_BITS_0_def SET_BITS_0_def bit_and_iff bit_or_iff bit_xor_iff bit_not_iff)

lemma set_bits_other: "SET_BITS_0 x d level AND NOT (pin_mask d ! 0) = x AND NOT (pin_mask d ! 0)"
  by (rule bit_word_eqI) (auto simp: SET_BITS_0_def bit_and_iff bit_or_iff bit_not_iff)

subsection \<open>The old pin numbers\<close>

definition old_number :: "pindef \<Rightarrow> nat \<Rightarrow> u32" where
  "old_number d i = (if has_pin (pin_inverse d) i then of_nat i OR PIN_INVERSE else of_nat i)"

lemma old_pinno_loop_filter:
  "old_pinno_loop d is found no =
     (case filter (has_pin (pin_mask d)) is of
        [] \<Rightarrow> (0, no)
      | i # is' \<Rightarrow> if found then (-1, no) else if is' = [] then (0, old_number d i) else (-1, old_number d i))"
proof (induction "is" arbitrary: found no)
  case (Cons i "is")
  show ?case
    by (cases "filter (has_pin (pin_mask d)) is") (auto simp: Cons.IH old_number_def)
qed simp

lemma pin_fill_old_pinno_outcome:
  "pin_fill_old_pinno pm d no =
     (case filter (has_pin (pin_mask d)) [0..<pm] of
        [] \<Rightarrow> (0, no)
      | [i] \<Rightarrow> (0, old_number d i)
      | i # _ \<Rightarrow> (-1, old_number d i))"
  by (auto simp: pin_fill_old_pinno_def old_pinno_loop_filter split: list.split)

text \<open>The loop stops before the largest pin: a function on this pin alone keeps its old number.\<close>

lemma largest_pin_lost:
  assumes "pins_of (pin_mask d) = {pm}" and "pindef_ok pm d"
  shows "pin_fill_old_pinno pm d no = (0, no)"
proof -
  have "pm < 32 * length (pin_mask d)" using assms(1) by force
  then have "\<not> has_pin (pin_mask d) i" if "i < pm" for i
    using assms(1) that pins_of_def [of "pin_mask d"] by force
  then have "filter (has_pin (pin_mask d)) [0..<pm] = []" by simp
  then show ?thesis by (simp add: pin_fill_old_pinno_outcome)
qed

subsection \<open>Pins as text\<close>

lemma dec_str_not_Nil [simp]: "dec_str n \<noteq> []"
  by (subst dec_str.simps) simp

lemma length_dec_str: "n < 10 ^ w \<Longrightarrow> 0 < w \<Longrightarrow> length (dec_str n) \<le> w"
proof (induction w arbitrary: n)
  case (Suc w)
  show ?case
  proof (cases "n < 10")
    case True
    then show ?thesis by (subst dec_str.simps) simp
  next
    case False
    then have "0 < w" using Suc.prems(1) by (cases w) auto
    then show ?thesis using Suc.IH [of "n div 10"] Suc.prems(1) False
      by (subst dec_str.simps) simp
  qed
qed simp

definition show_run :: "nat \<times> nat \<Rightarrow> string" where
  "show_run = (\<lambda>(a, b). dec_str a @ (if a = b then [] else ''-'' @ dec_str b))"

fun show_runs :: "(nat \<times> nat) list \<Rightarrow> string" where
  "show_runs [] = []"
| "show_runs (r # rs) = show_run r @ concat (map (\<lambda>r. '','' @ show_run r) rs)"

text \<open>The maximal intervals of a set, in order.\<close>

definition runs_of :: "nat set \<Rightarrow> (nat \<times> nat) list \<Rightarrow> bool" where
  "runs_of P rs \<longleftrightarrow> (\<Union>(a, b) \<in> set rs. {a..b}) = P \<and> (\<forall>(a, b) \<in> set rs. a \<le> b) \<and>
     sorted_wrt (\<lambda>(a, b) (c, d). b + 1 < c) rs"

lemma show_run_not_Nil [simp]: "show_run r \<noteq> []"
  by (cases r) (simp add: show_run_def)

lemma show_runs_snoc:
  "show_runs (rs @ [r]) = show_runs rs @ (if rs = [] then [] else '','') @ show_run r"
  by (cases rs) simp_all

lemma show_runs_Nil [simp]: "show_runs rs = [] \<longleftrightarrow> rs = []"
  by (cases rs) simp_all

text \<open>The state of the loop: a run that is still open has its first pin in the text.\<close>

definition str_inv :: "u32 list \<Rightarrow> nat \<Rightarrow> int \<times> int \<times> string \<Rightarrow> bool" where
  "str_inv ms n = (\<lambda>(s, e, acc).
     s = -1 \<and> e = -1 \<and> acc = [] \<and> {i. i < n \<and> has_pin ms i} = {} \<or>
     (\<exists>rs a b. s = int a \<and> e = int b \<and> a \<le> b \<and> b < n \<and>
        runs_of {i. i < n \<and> has_pin ms i} (rs @ [(a, b)]) \<and>
        acc = show_runs (rs @ [(a, a)]) \<and> length acc + 1 \<le> 5 * (a + 1)))"

lemma runs_of_extend:
  assumes "runs_of {i. i < n \<and> P i} (rs @ [(a, n - 1)])" and "a < n" and "P n"
  shows "runs_of {i. i < Suc n \<and> P i} (rs @ [(a, n)])"
proof -
  have "{i. i < Suc n \<and> P i} = insert n {i. i < n \<and> P i}" using assms(3) by (auto simp: less_Suc_eq)
  moreover have "{a..n} = insert n {a..n - 1}" using assms(2) by auto
  ultimately show ?thesis using assms(1,2) by (auto simp: runs_of_def sorted_wrt_append)
qed

lemma runs_of_new:
  assumes "runs_of {i. i < n \<and> P i} rs" and "P n" and "\<forall>(a, b) \<in> set rs. b + 1 < n"
  shows "runs_of {i. i < Suc n \<and> P i} (rs @ [(n, n)])"
proof -
  have "{i. i < Suc n \<and> P i} = insert n {i. i < n \<and> P i}" using assms(2) by (auto simp: less_Suc_eq)
  then show ?thesis using assms by (auto simp: runs_of_def sorted_wrt_append)
qed

lemma runs_of_skip: "\<not> P n \<Longrightarrow> {i. i < Suc n \<and> P i} = {i. i < n \<and> P i}"
  by (auto simp: less_Suc_eq)

lemma close_range_text:
  assumes "a \<le> b" and "b \<le> pm" and "pm < 10000" and "length (show_runs (rs @ [(a, a)])) + 1 \<le> 5 * (a + 1)"
  shows "close_range pm (int a) (int b) (show_runs (rs @ [(a, a)])) = Some (show_runs (rs @ [(a, b)]))
     \<and> length (show_runs (rs @ [(a, b)])) + 1 \<le> 5 * (b + 1)"
proof (cases "a = b")
  case False
  have "length (dec_str b) \<le> 4" using length_dec_str [of b 4] assms by simp
  then show ?thesis using False assms
    by (auto simp: close_range_def bufcat_def show_runs_snoc show_run_def)
qed (use assms in \<open>simp add: close_range_def\<close>)

lemma mask_str_step:
  assumes st: "str_inv ms n (s, e, acc)" and n: "n \<le> pm" and pm: "pm < 10000"
    and k: "\<And>s' e' acc'. str_inv ms (Suc n) (s', e', acc') \<Longrightarrow> wp (mask_str_loop pm ms pins s' e' acc') Q"
  shows "wp (mask_str_loop pm ms (n # pins) s e acc) Q"
proof (cases "has_pin ms n")
  case False
  have "str_inv ms (Suc n) (s, e, acc)"
    using st runs_of_skip [of "has_pin ms" n] False unfolding str_inv_def by force
  then show ?thesis using False k by simp
next
  case True
  have w: "length (dec_str n) \<le> 4" using length_dec_str [of n 4] n pm by simp
  consider (first) "s = -1" "e = -1" "acc = []" "{i. i < n \<and> has_pin ms i} = {}"
    | (run) rs a b where "s = int a" "e = int b" "a \<le> b" "b < n"
        "runs_of {i. i < n \<and> has_pin ms i} (rs @ [(a, b)])"
        "acc = show_runs (rs @ [(a, a)])" "length acc + 1 \<le> 5 * (a + 1)"
    using st unfolding str_inv_def by blast
  then show ?thesis
  proof cases
    case first
    have "runs_of {i. i < Suc n \<and> has_pin ms i} [(n, n)]"
      using runs_of_new [of n "has_pin ms" "[]"] True first(4) by (simp add: runs_of_def)
    then have "str_inv ms (Suc n) (int n, int n, dec_str n)"
      unfolding str_inv_def using w
      by (intro case_prodI disjI2 exI [of _ "[]"] exI [of _ n]) (simp add: show_run_def)
    then show ?thesis using True first w n by (simp add: bufcat_def k)
  next
    case run
    show ?thesis
    proof (cases "n = Suc b")
      case next_pin: True
      have "runs_of {i. i < Suc n \<and> has_pin ms i} (rs @ [(a, n)])"
        using runs_of_extend [of n "has_pin ms" rs a] run True next_pin by simp
      then have "str_inv ms (Suc n) (int a, int n, acc)"
        unfolding str_inv_def using run next_pin
        by (intro case_prodI disjI2 exI [of _ rs] exI [of _ a] exI [of _ n]) simp
      then show ?thesis using True run next_pin k by simp
    next
      case gap: False
      define acc' where "acc' = show_runs (rs @ [(a, b)])"
      have c: "close_range pm s e acc = Some acc'" "length acc' + 1 \<le> 5 * (b + 1)"
        using close_range_text [of a b pm rs] run n pm by (simp_all add: acc'_def)
      have "\<forall>(c, d) \<in> set (rs @ [(a, b)]). d + 1 < n"
        using run(3,4,5) gap by (fastforce simp: runs_of_def sorted_wrt_append)
      then have "runs_of {i. i < Suc n \<and> has_pin ms i} ((rs @ [(a, b)]) @ [(n, n)])"
        using runs_of_new [of n "has_pin ms" "rs @ [(a, b)]"] run(5) True by blast
      moreover have t: "acc' @ '','' @ dec_str n = show_runs ((rs @ [(a, b)]) @ [(n, n)])"
        unfolding acc'_def show_runs_snoc [of "rs @ [(a, b)]"] by (simp add: show_run_def)
      moreover have l: "length (acc' @ '','' @ dec_str n) + 1 \<le> 5 * (n + 1)"
        using c(2) w run(4) gap by simp
      ultimately have "str_inv ms (Suc n) (int n, int n, acc' @ '','' @ dec_str n)"
        unfolding str_inv_def
        by (intro case_prodI disjI2 exI [of _ "rs @ [(a, b)]"] exI [of _ n]) simp
      moreover have "acc' \<noteq> []" by (simp add: acc'_def)
      moreover have "bufcat pm acc' ('','' @ dec_str n) = Some (acc' @ '','' @ dec_str n)"
        using l n by (simp add: bufcat_def)
      ultimately show ?thesis using True run(1,2) gap c(1) k by simp
    qed
  qed
qed

lemma mask_str_inv:
  "str_inv ms n (s, e, acc) \<Longrightarrow> n \<le> pm + 1 \<Longrightarrow> pm < 10000 \<Longrightarrow>
   wp (mask_str_loop pm ms [n..<pm + 1] s e acc) (str_inv ms (pm + 1))"
proof (induction "pm + 1 - n" arbitrary: n s e acc)
  case (Suc d)
  then have n: "n \<le> pm" by simp
  have "wp (mask_str_loop pm ms [Suc n..<pm + 1] s' e' acc') (str_inv ms (pm + 1))"
    if "str_inv ms (Suc n) (s', e', acc')" for s' e' acc'
    using Suc.hyps(1) [of "Suc n"] Suc.hyps(2) that n Suc.prems(3) by simp
  moreover have "[n..<pm + 1] = n # [Suc n..<pm + 1]" using n by (intro upt_conv_Cons) simp
  ultimately show ?case
    using mask_str_step [OF Suc.prems(1) n Suc.prems(3)] by metis
qed simp

text \<open>The text of a set of pins is the list of its maximal runs in order, or says that there are
  none, and the static buffer of five characters for each pin holds it.\<close>

theorem pinmask_to_str_runs:
  assumes len: "length ms = PIN_FIELD_SIZE pm" and pm: "pm < 10000"
  shows "\<exists>rs. runs_of (pins_of ms \<inter> {..pm}) rs \<and>
    pinmask_to_str pm ms = Some (if rs = [] then ''(no pins)'' else show_runs rs)"
proof -
  have P: "{i. i < Suc pm \<and> has_pin ms i} = pins_of ms \<inter> {..pm}"
    using len by (auto simp: pins_of_def PIN_FIELD_SIZE_def)
  have "str_inv ms 0 (-1, -1, [])" by (simp add: str_inv_def)
  from mask_str_inv [OF this _ pm] obtain s e acc
    where r: "mask_str_loop pm ms [0..<pm + 1] (-1) (-1) [] = Some (s, e, acc)"
      and st: "str_inv ms (pm + 1) (s, e, acc)"
    by (auto simp: wp_ex)
  consider (first) "s = -1" "e = -1" "acc = []" "pins_of ms \<inter> {..pm} = {}"
    | (run) rs a b where "s = int a" "e = int b" "a \<le> b" "b \<le> pm"
        "runs_of (pins_of ms \<inter> {..pm}) (rs @ [(a, b)])"
        "acc = show_runs (rs @ [(a, a)])" "length acc + 1 \<le> 5 * (a + 1)"
    using st P unfolding str_inv_def by auto
  then show ?thesis
  proof cases
    case first
    then show ?thesis using r
      by (intro exI [of _ "[]"]) (simp add: pinmask_to_str_def close_range_def runs_of_def)
  next
    case run
    then show ?thesis using r close_range_text [of a b pm rs] pm
      by (intro exI [of _ "rs @ [(a, b)]"]) (simp add: pinmask_to_str_def)
  qed
qed

text \<open>The pins of a definition one by one, with their polarity.\<close>

definition show_pin :: "pindef \<Rightarrow> nat \<Rightarrow> string" where
  "show_pin d i = (if has_pin (pin_inverse d) i then ''~'' else []) @ dec_str i"

definition show_pins :: "pindef \<Rightarrow> nat list \<Rightarrow> string" where
  "show_pins d ps =
     (case ps of [] \<Rightarrow> []
      | p # ps \<Rightarrow> (if has_pin (pin_inverse d) p then [] else '' '') @ show_pin d p @
          concat (map (\<lambda>p. '','' @ show_pin d p) ps))"

lemma show_pins_Nil [simp]: "show_pins d ps = [] \<longleftrightarrow> ps = []"
  by (auto simp: show_pins_def show_pin_def split: list.split)

lemma show_pins_snoc:
  "show_pins d (ps @ [p]) = show_pins d ps @
     (if has_pin (pin_inverse d) p then (if ps = [] then ''~'' else '',~'')
      else (if ps = [] then '' '' else '','')) @ dec_str p"
  by (cases ps) (auto simp: show_pins_def show_pin_def)

lemma show_pins_none [simp]: "show_pins d [] = []"
  by (simp add: show_pins_def)

lemma length_show_pins:
  assumes "\<forall>p \<in> set ps. p < 1000" and "ps \<noteq> []"
  shows "length (show_pins d ps) < 5 * length ps"
proof -
  obtain p qs where ps: "ps = p # qs" using assms(2) by (cases ps) auto
  have p: "length (dec_str p) \<le> 3" using length_dec_str [of p 3] assms(1) ps by simp
  have "length (concat (map (\<lambda>p. '','' @ show_pin d p) rs)) \<le> 5 * length rs"
    if "\<forall>p \<in> set rs. p < 1000" for rs
    using that
  proof (induction rs)
    case (Cons r rs)
    then show ?case using length_dec_str [of r 3] by (simp add: show_pin_def)
  qed simp
  from this [of qs] show ?thesis using assms(1) p ps by (simp add: show_pins_def show_pin_def)
qed

lemma pins_str_loop_text:
  assumes "\<forall>p \<in> set (qs @ ps). p < 1000" and "length (qs @ ps) \<le> pm + 1"
    and "\<forall>p \<in> set qs. has_pin (pin_mask d) p"
  shows "pins_str_loop pm d ps (show_pins d qs) = Some (show_pins d (qs @ filter (has_pin (pin_mask d)) ps))"
  using assms
proof (induction ps arbitrary: qs)
  case (Cons p ps)
  show ?case
  proof (cases "has_pin (pin_mask d) p")
    case True
    have "length (show_pins d (qs @ [p])) < 5 * (pm + 1)"
      using length_show_pins [of "qs @ [p]" d] Cons.prems by simp
    then have "bufcat pm (show_pins d qs)
        ((if has_pin (pin_inverse d) p then (if show_pins d qs = [] then ''~'' else '',~'')
          else (if show_pins d qs = [] then '' '' else '','')) @ dec_str p) = Some (show_pins d (qs @ [p]))"
      by (auto simp: bufcat_def show_pins_snoc split: if_splits)
    then show ?thesis using True Cons.IH [of "qs @ [p]"] Cons.prems by (simp del: show_pins_Nil)
  next
    case False
    then show ?thesis using Cons by simp
  qed
qed simp

lemma pins_to_str_text:
  assumes "pm < 1000"
  shows "pins_to_str pm d =
    (let ps = filter (has_pin (pin_mask d)) [0..<pm + 1]
     in Some (if ps = [] then '' (not used)'' else show_pins d ps))"
  using pins_str_loop_text [of "[]" "[0..<pm + 1]" pm d] assms
  by (auto simp: pins_to_str_def Let_def)

subsection \<open>The check of a programmer's pins\<close>

text \<open>What \<^verbatim>\<open>pins_check\<close> promises of the function \<open>n\<close>.\<close>

definition pin_allowed :: "nat \<Rightarrow> pgm_pins \<Rightarrow> pin_checklist list \<Rightarrow> nat \<Rightarrow> bool" where
  "pin_allowed pm pgm cl n =
     (let d = pgm_pin pgm ! n; (v, mandatory) = find_check cl (int n) (no_valid_pins pm)
      in pins_of (pin_mask d) \<subseteq> pins_of (pin_mask v) \<and>
         pins_of (pin_inverse d) \<inter> pins_of (pin_mask v) \<subseteq> pins_of (pin_inverse v) \<and>
         (mandatory \<longrightarrow> pins_of (pin_mask d) \<noteq> {}))"

definition pin_alone :: "pgm_pins \<Rightarrow> nat \<Rightarrow> bool" where
  "pin_alone pgm n \<longleftrightarrow>
     (\<forall>k < n. pins_of (pin_mask (pgm_pin pgm ! k)) \<inter> pins_of (pin_mask (pgm_pin pgm ! n)) = {})"

definition pins_wf :: "nat \<Rightarrow> pgm_pins \<Rightarrow> pin_checklist list \<Rightarrow> bool" where
  "pins_wf pm pgm cl \<longleftrightarrow> length (pgm_pin pgm) = N_PINS \<and> (\<forall>d \<in> set (pgm_pin pgm). pindef_ok pm d) \<and>
     (\<forall>c \<in> set cl. pindef_ok pm (cl_valid_pins c))"

lemma check_segments_flags:
  "distinct ks \<Longrightarrow> \<forall>k \<in> set ks. k < length all \<Longrightarrow>
   check_segments d v is_mandatory ks all (used, invalid, turned, mand) =
     (map (\<lambda>k. if k \<in> set ks then all ! k OR pin_mask d ! k else all ! k) [0..<length all],
      used \<or> (\<exists>k \<in> set ks. pin_mask d ! k AND all ! k \<noteq> 0),
      invalid \<or> (\<exists>k \<in> set ks. pin_mask d ! k AND NOT (pin_mask v ! k) \<noteq> 0),
      turned \<or> (\<exists>k \<in> set ks. pin_inverse d ! k AND pin_mask v ! k AND NOT (pin_inverse v ! k) \<noteq> 0),
      mand \<or> is_mandatory \<and> (\<exists>k \<in> set ks. pin_mask d ! k AND pin_mask v ! k \<noteq> 0))"
proof (induction ks arbitrary: all used invalid turned mand)
  case Nil
  then show ?case by (simp add: map_nth)
next
  case (Cons k ks)
  let ?all = "all[k := all ! k OR pin_mask d ! k]"
  have u: "(\<exists>j \<in> set ks. pin_mask d ! j AND ?all ! j \<noteq> 0) \<longleftrightarrow> (\<exists>j \<in> set ks. pin_mask d ! j AND all ! j \<noteq> 0)"
    using Cons.prems by (intro bex_cong) (auto simp: nth_list_update)
  have m: "map (\<lambda>j. if j \<in> set ks then ?all ! j OR pin_mask d ! j else ?all ! j) [0..<length ?all]
      = map (\<lambda>j. if j \<in> set (k # ks) then all ! j OR pin_mask d ! j else all ! j) [0..<length all]"
    using Cons.prems by (intro nth_equalityI) (auto simp: nth_list_update)
  have "check_segments d v is_mandatory (k # ks) all (used, invalid, turned, mand) =
    check_segments d v is_mandatory ks ?all
      (used \<or> pin_mask d ! k AND all ! k \<noteq> 0,
       invalid \<or> pin_mask d ! k AND NOT (pin_mask v ! k) \<noteq> 0,
       turned \<or> pin_inverse d ! k AND pin_mask v ! k AND NOT (pin_inverse v ! k) \<noteq> 0,
       mand \<or> is_mandatory \<and> pin_mask d ! k AND pin_mask v ! k \<noteq> 0)"
    by (simp add: Let_def)
  also have "\<dots> = (map (\<lambda>j. if j \<in> set (k # ks) then all ! j OR pin_mask d ! j else all ! j) [0..<length all],
      used \<or> (\<exists>j \<in> set (k # ks). pin_mask d ! j AND all ! j \<noteq> 0),
      invalid \<or> (\<exists>j \<in> set (k # ks). pin_mask d ! j AND NOT (pin_mask v ! j) \<noteq> 0),
      turned \<or> (\<exists>j \<in> set (k # ks). pin_inverse d ! j AND pin_mask v ! j AND NOT (pin_inverse v ! j) \<noteq> 0),
      mand \<or> is_mandatory \<and> (\<exists>j \<in> set (k # ks). pin_mask d ! j AND pin_mask v ! j \<noteq> 0))"
  proof -
    have d: "distinct ks" and l: "\<forall>j \<in> set ks. j < length ?all" using Cons.prems by simp_all
    show ?thesis by (simp only: Cons.IH [OF d l] u m) auto
  qed
  finally show ?case .
qed

lemma some_pin:
  "(\<exists>k \<in> set [0..<n]. (f k :: u32) \<noteq> 0) \<longleftrightarrow> (\<exists>i < 32 * n. bit (f (i div 32)) (i mod 32))"
  using words_eq_0 [of n f] by auto

text \<open>One function, when \<open>all\<close> holds the pins of the functions before it.\<close>

lemma check_function:
  assumes d: "pindef_ok pm d" and v: "pindef_ok pm v" and all: "length all = PIN_FIELD_SIZE pm"
  obtains all' used invalid turned mand where
    "check_segments d v is_mandatory [0..<PIN_FIELD_SIZE pm] all (False, False, False, False) =
       (all', used, invalid, turned, mand)"
    "length all' = PIN_FIELD_SIZE pm" "pins_of all' = pins_of all \<union> pins_of (pin_mask d)"
    "used \<longleftrightarrow> pins_of all \<inter> pins_of (pin_mask d) \<noteq> {}"
    "invalid \<longleftrightarrow> \<not> pins_of (pin_mask d) \<subseteq> pins_of (pin_mask v)"
    "turned \<longleftrightarrow> \<not> pins_of (pin_inverse d) \<inter> pins_of (pin_mask v) \<subseteq> pins_of (pin_inverse v)"
    "mand \<longleftrightarrow> is_mandatory \<and> pins_of (pin_mask d) \<inter> pins_of (pin_mask v) \<noteq> {}"
proof -
  let ?n = "PIN_FIELD_SIZE pm"
  have L: "length (pin_mask d) = ?n" "length (pin_inverse d) = ?n" "length (pin_mask v) = ?n"
    "length (pin_inverse v) = ?n"
    using d v by (simp_all add: pindef_ok_def)
  have div: "i div 32 < ?n" if "i < 32 * ?n" for i
    using that by (simp add: less_mult_imp_div_less mult.commute)
  have ks: "distinct [0..<?n]" "\<forall>k \<in> set [0..<?n]. k < length all" by (simp_all add: all)
  show ?thesis
  proof (rule that)
    show "check_segments d v is_mandatory [0..<?n] all (False, False, False, False) =
      (map (\<lambda>k. if k \<in> set [0..<?n] then all ! k OR pin_mask d ! k else all ! k) [0..<length all],
       \<exists>k \<in> set [0..<?n]. pin_mask d ! k AND all ! k \<noteq> 0,
       \<exists>k \<in> set [0..<?n]. pin_mask d ! k AND NOT (pin_mask v ! k) \<noteq> 0,
       \<exists>k \<in> set [0..<?n]. pin_inverse d ! k AND pin_mask v ! k AND NOT (pin_inverse v ! k) \<noteq> 0,
       is_mandatory \<and> (\<exists>k \<in> set [0..<?n]. pin_mask d ! k AND pin_mask v ! k \<noteq> 0))"
      by (simp only: check_segments_flags [OF ks] simp_thms)
  next
    show "pins_of (map (\<lambda>k. if k \<in> set [0..<?n] then all ! k OR pin_mask d ! k else all ! k) [0..<length all])
      = pins_of all \<union> pins_of (pin_mask d)"
      using all L div by (auto simp: bit_or_iff)
  qed (unfold some_pin, auto simp: all L bit_and_iff bit_not_iff)
qed

lemma find_check_ok:
  "\<forall>c \<in> set cl. pindef_ok pm (cl_valid_pins c) \<Longrightarrow> pindef_ok pm v \<Longrightarrow>
   pindef_ok pm (prod.fst (find_check cl n v))"
  by (induction cl n v rule: find_check.induct) auto

lemma no_valid_pins_ok: "pindef_ok pm (no_valid_pins pm)"
  by (simp add: pindef_ok_def no_valid_pins_def)

lemma pins_check_loop_result:
  assumes wf: "pins_wf pm pgm cl"
  shows "n \<le> N_PINS \<Longrightarrow> length all = PIN_FIELD_SIZE pm \<Longrightarrow>
    pins_of all = (\<Union>k < n. pins_of (pin_mask (pgm_pin pgm ! k))) \<Longrightarrow> rv \<in> {0, -1} \<Longrightarrow>
    pins_check_loop pm pgm cl output [n..<N_PINS] all rv =
      (if rv = 0 \<and> (\<forall>k \<in> {n..<N_PINS}. pin_allowed pm pgm cl k \<and> (output \<longrightarrow> pin_alone pgm k)) then 0 else -1)"
proof (induction "N_PINS - n" arbitrary: n all rv)
  case 0
  then show ?case by auto
next
  case (Suc m)
  have n: "n < N_PINS" using Suc.hyps(2) by simp
  obtain v is_mandatory where fc: "find_check cl (int n) (no_valid_pins pm) = (v, is_mandatory)"
    by (cases "find_check cl (int n) (no_valid_pins pm)")
  have v: "pindef_ok pm v"
    using find_check_ok [of cl pm "no_valid_pins pm" "int n"] wf no_valid_pins_ok fc by (simp add: pins_wf_def)
  have d: "pindef_ok pm (pgm_pin pgm ! n)" using wf n by (simp add: pins_wf_def)
  obtain all' used invalid turned mand where c:
    "check_segments (pgm_pin pgm ! n) v is_mandatory [0..<PIN_FIELD_SIZE pm] all (False, False, False, False) =
       (all', used, invalid, turned, mand)"
    "length all' = PIN_FIELD_SIZE pm" "pins_of all' = pins_of all \<union> pins_of (pin_mask (pgm_pin pgm ! n))"
    "used \<longleftrightarrow> pins_of all \<inter> pins_of (pin_mask (pgm_pin pgm ! n)) \<noteq> {}"
    "invalid \<longleftrightarrow> \<not> pins_of (pin_mask (pgm_pin pgm ! n)) \<subseteq> pins_of (pin_mask v)"
    "turned \<longleftrightarrow> \<not> pins_of (pin_inverse (pgm_pin pgm ! n)) \<inter> pins_of (pin_mask v) \<subseteq> pins_of (pin_inverse v)"
    "mand \<longleftrightarrow> is_mandatory \<and> pins_of (pin_mask (pgm_pin pgm ! n)) \<inter> pins_of (pin_mask v) \<noteq> {}"
    by (rule check_function [OF d v Suc.prems(2)])
  have alone: "used \<longleftrightarrow> \<not> pin_alone pgm n"
    unfolding c(4) Suc.prems(3) pin_alone_def by blast
  have ok: "pin_ok output is_mandatory (used, invalid, turned, mand) \<longleftrightarrow>
      pin_allowed pm pgm cl n \<and> (output \<longrightarrow> pin_alone pgm n)"
    using alone c(5,6,7) fc unfolding pin_ok_def pin_allowed_def Let_def by auto
  let ?rv = "if pin_ok output is_mandatory (used, invalid, turned, mand) then rv else -1"
  have "pins_of all' = (\<Union>k < Suc n. pins_of (pin_mask (pgm_pin pgm ! k)))"
    unfolding c(3) Suc.prems(3) by (simp add: lessThan_Suc Un_commute)
  then have "pins_check_loop pm pgm cl output [Suc n..<N_PINS] all' ?rv =
      (if ?rv = 0 \<and> (\<forall>k \<in> {Suc n..<N_PINS}. pin_allowed pm pgm cl k \<and> (output \<longrightarrow> pin_alone pgm k)) then 0 else -1)"
    using Suc.hyps n Suc.prems(4) c(2) by (intro Suc.hyps(1)) auto
  moreover have "{n..<N_PINS} = insert n {Suc n..<N_PINS}" using n by auto
  ultimately show ?case using n Suc.prems(4) ok by (simp add: upt_conv_Cons fc c(1))
qed

text \<open>C37: The check of a programmer's pins accepts exactly the assignments in which every function uses
  only pins that the list of constraints allows for it, inverts only pins that may be inverted, and
  has a pin if it is mandatory; and, but only when the errors are to be reported, in which no two
  functions share a pin.\<close>

theorem pins_check_accepts:
  assumes "pins_wf pm pgm cl"
  shows "pins_check pm pgm cl output =
    (if \<forall>n < N_PINS. pin_allowed pm pgm cl n \<and> (output \<longrightarrow> pin_alone pgm n) then 0 else -1)"
proof -
  have "pins_of (replicate (PIN_FIELD_SIZE pm) 0) = {}"
    by (auto simp: nth_replicate less_mult_imp_div_less mult.commute)
  then have "pins_check_loop pm pgm cl output [0..<N_PINS] (replicate (PIN_FIELD_SIZE pm) 0) 0 =
    (if (0 :: int) = 0 \<and> (\<forall>k \<in> {0..<N_PINS}. pin_allowed pm pgm cl k \<and> (output \<longrightarrow> pin_alone pgm k)) then 0 else -1)"
    by (intro pins_check_loop_result [OF assms]) simp_all
  then show ?thesis by (simp add: pins_check_def Ball_def)
qed

text \<open>Two functions on one pin: the check fails only when it reports errors.\<close>

definition two_on_one :: pgm_pins where
  "two_on_one =
     (let none = \<lparr>pin_mask = [0], pin_inverse = [0]\<rparr>; three = \<lparr>pin_mask = [8], pin_inverse = [0]\<rparr>
      in \<lparr>pgm_pin = (replicate 11 none)[PIN_AVR_SCK := three, PIN_AVR_MOSI := three], pgm_pinno = replicate 11 0\<rparr>)"

definition three_allowed :: "pin_checklist list" where
  "three_allowed =
     [\<lparr>cl_pinname = 4, cl_mandatory = True, cl_valid_pins = \<lparr>pin_mask = [8], pin_inverse = [0]\<rparr>\<rparr>,
      \<lparr>cl_pinname = 5, cl_mandatory = False, cl_valid_pins = \<lparr>pin_mask = [8], pin_inverse = [0]\<rparr>\<rparr>]"

lemma two_on_one_nth:
  "n < 11 \<Longrightarrow> pgm_pin two_on_one ! n =
     (if n = 4 \<or> n = 5 then \<lparr>pin_mask = [8], pin_inverse = [0]\<rparr> else \<lparr>pin_mask = [0], pin_inverse = [0]\<rparr>)"
  by (simp add: two_on_one_def pin_names Let_def nth_list_update)

lemma two_on_one_wf: "pins_wf 31 two_on_one three_allowed"
proof -
  have "length (pgm_pin two_on_one) = 11" by (simp add: two_on_one_def Let_def)
  then show ?thesis
    by (auto simp: pins_wf_def N_PINS_def all_set_conv_all_nth [of "pgm_pin two_on_one"] two_on_one_nth
        pindef_ok_def PIN_FIELD_SIZE_def three_allowed_def)
qed

lemma pins_of_three: "pins_of [0] = {}" "pins_of [8] = {3}"
proof -
  show z: "pins_of [0] = {}" by (rule equals0I) (clarsimp simp: pins_of_def has_pin_def)
  show "pins_of [8] = {3}" using pins_of_set [of 3 "[0]"] z by (simp del: pins_of_iff)
qed

lemma pin_names_below: "(\<forall>n < N_PINS. P n) \<longleftrightarrow> (\<forall>n \<in> {0, 1, 2, 3, 4, 5, 6, 7, 8, 9, 10}. P n)"
proof -
  have "n < 11 \<longleftrightarrow> n \<in> {0, 1, 2, 3, 4, 5, 6, 7, 8, 9, 10}" for n :: nat by simp presburger
  then show ?thesis unfolding N_PINS_def by blast
qed

lemma two_on_one_allowed: "\<forall>n < N_PINS. pin_allowed 31 two_on_one three_allowed n"
  unfolding pin_names_below pin_allowed_def
  by (simp add: two_on_one_nth three_allowed_def pins_of_three no_valid_pins_def PIN_FIELD_SIZE_def del: pins_of_iff)

lemma two_on_one_shared: "\<not> pin_alone two_on_one 5"
  by (auto simp: pin_alone_def two_on_one_nth pins_of_three simp del: pins_of_iff intro!: exI [of _ 4])

lemma pins_check_accepts_witness:
  "pins_check 31 two_on_one three_allowed False = 0 \<and> pins_check 31 two_on_one three_allowed True = -1"
  using two_on_one_allowed two_on_one_shared
  by (auto simp: pins_check_accepts [OF two_on_one_wf] N_PINS_def intro: exI [of _ 5])

lemma pinmask_to_str_runs_witness:
  "pinmask_to_str 31 [0x2F] = Some ''0-3,5'' \<and>
   (\<exists>rs. runs_of (pins_of [0x2F] \<inter> {..31}) rs \<and> ''0-3,5'' = (if rs = [] then ''(no pins)'' else show_runs rs))"
proof -
  have "pinmask_to_str 31 [0x2F] = Some ''0-3,5''" by code_simp
  then show ?thesis using pinmask_to_str_runs [of "[0x2F]" 31] by (simp add: PIN_FIELD_SIZE_def)
qed

end
