(* ===== verification/HexRec.thy ===== *)
theory HexRec
  imports CLib AvrPart
begin

text \<open>
  What the Intel hex and the S-record format of \<^verbatim>\<open>fileio.c\<close> share: the record structure, the fields
  of a record, the stores into a memory, and the argument that a written file is read back, as a
  locale over a writer and a reader.
\<close>

record ihexrec =
  reclen :: u8
  loadofs :: u32
  rectyp :: u8
  data :: "u8 list"
  cksum :: u8

definition IHEX_MAXDATA :: nat where "IHEX_MAXDATA = 256"
definition MAX_LINE_LEN :: nat where "MAX_LINE_LEN = 256"

text \<open>\<^verbatim>\<open>fprintf\<close> of one number: unsigned, in hex, at least \<open>w\<close> digits.\<close>

definition hex8 :: "u8 \<Rightarrow> string" where "hex8 b = hex 2 (unat b)"

text \<open>The checksum accumulates on an unsigned char.\<close>

definition sum8 :: "u8 list \<Rightarrow> u8 \<Rightarrow> u8" where
  "sum8 bs c = foldl (\<lambda>c b. c + b) c bs"

definition byte_of :: "u32 \<Rightarrow> nat \<Rightarrow> u8" where
  "byte_of a k = ucast (drop_bit (8 * k) a AND 0xFF)"

text \<open>The field of \<open>k\<close> characters at an offset: \<open>None\<close> if the record is too short or it is no number.\<close>

definition field :: "string \<Rightarrow> nat \<Rightarrow> nat \<Rightarrow> u64 option" where
  "field rec offset k =
     (if offset + k > length rec then None else number16 (take k (drop offset rec)))"

text \<open>
  The data bytes. They are stored into the record's array, whose rest keeps what the record before
  left there.
\<close>

fun read_data :: "string \<Rightarrow> nat \<Rightarrow> nat \<Rightarrow> nat \<Rightarrow> u8 list \<Rightarrow> u8 \<Rightarrow> (u8 list \<times> u8 \<times> nat) option" where
  "read_data rec offset j 0 d ck = Some (d, ck, offset)"
| "read_data rec offset j (Suc k) d ck =
     (case field rec offset 2 of
        None \<Rightarrow> None
      | Some v \<Rightarrow> read_data rec (offset + 2) (Suc j) k (d[j := ucast v]) (ck + ucast v))"

text \<open>
  One stored byte: outside the arrays of the memory there is no result. Addresses are 32 bits wide.
\<close>

fun store_bytes :: "u32 \<Rightarrow> u8 list \<Rightarrow> avrmem \<Rightarrow> avrmem option" where
  "store_bytes a [] m = Some m"
| "store_bytes a (b # bs) m =
     (if unat a < length (buf m) \<and> unat a < length (tags m)
      then store_bytes (a + 1) bs
             (m\<lparr>buf := (buf m)[unat a := b], tags := (tags m)[unat a := TAG_ALLOCATED]\<rparr>)
      else None)"

text \<open>
  A line as the readers see it: its characters up to a NUL, with a trailing newline removed. The
  test for the newline looks before the buffer if the line starts with a NUL.
\<close>

definition chomp :: "string \<Rightarrow> string option" where
  "chomp l = (let s = takeWhile (\<lambda>c. c \<noteq> NUL) l in
     if s = [] then None else Some (if last s = NL then butlast s else s))"

lemma length_hex8 [simp]: "length (hex8 b) = 2"
  by (simp add: hex8_def length_hex)

lemma field_hex:
  assumes "v < 16 ^ w" and "0 < w" and "w \<le> 16" and "length xs = offset"
  shows "field (xs @ hex w v @ ys) offset w = Some (of_nat v)"
  using assms by (simp add: field_def length_hex number16_hex)

lemma field_hex8:
  assumes "length xs = offset"
  shows "field (xs @ hex8 b @ ys) offset 2 = Some (ucast b)"
  using field_hex [of "unat b" 2 xs offset ys] u8_less [of b] assms
  by (simp add: hex8_def)

lemma read_data_hex:
  assumes "j + length bs \<le> length d" and "length xs = offset"
  shows "read_data (xs @ concat (map hex8 bs) @ ys) offset j (length bs) d c
    = Some (take j d @ bs @ drop (j + length bs) d, sum8 bs c, offset + 2 * length bs)"
  using assms
proof (induction bs arbitrary: xs offset j d c)
  case Nil
  then show ?case by (simp add: sum8_def)
next
  case (Cons b bs)
  have f: "field (xs @ concat (map hex8 (b # bs)) @ ys) offset 2 = Some (ucast b)"
    using field_hex8 [OF Cons.prems(2), of b "concat (map hex8 bs) @ ys"] by simp
  have "read_data ((xs @ hex8 b) @ concat (map hex8 bs) @ ys) (offset + 2) (Suc j) (length bs) (d[j := b]) (c + b)
    = Some (take (Suc j) (d[j := b]) @ bs @ drop (Suc j + length bs) (d[j := b]), sum8 bs (c + b),
        offset + 2 + 2 * length bs)"
    using Cons.prems by (intro Cons.IH) simp_all
  moreover have "take (Suc j) (d[j := b]) = take j d @ [b]"
    using Cons.prems(1) by (simp add: take_Suc_conv_app_nth)
  ultimately show ?case
    using f by (simp add: sum8_def ucast_u64_u8)
qed

lemma hex_no_control:
  assumes "c \<in> set (hex w n)" shows "c \<noteq> NL \<and> c \<noteq> NUL"
proof -
  from hex_chars [OF assms] obtain k where "k < 16" "c = hex_digit k" by blast
  then show ?thesis by (simp add: hex_digit_facts)
qed

definition patch :: "nat \<Rightarrow> 'a list \<Rightarrow> 'a list \<Rightarrow> 'a list" where
  "patch p xs ys = take p ys @ xs @ drop (p + length xs) ys"

text \<open>\<^verbatim>\<open>memset\<close>: outside the array there is no result.\<close>

definition fill :: "nat \<Rightarrow> u8 \<Rightarrow> u8 list \<Rightarrow> u8 list option" where
  "fill n v xs = (if n \<le> length xs then Some (patch 0 (replicate n v) xs) else None)"

lemma length_patch [simp]: "p + length xs \<le> length ys \<Longrightarrow> length (patch p xs ys) = length ys"
  by (simp add: patch_def)

lemma patch_step:
  assumes "p < length ys"
  shows "patch (Suc p) xs (ys[p := x]) = patch p (x # xs) ys"
  using assms by (simp add: patch_def take_Suc_conv_app_nth)

lemma store_bytes_patch:
  assumes "unat a + length bs \<le> length (buf m)" and "length (tags m) = length (buf m)"
    and "length (buf m) < 2 ^ 32"
  shows "store_bytes a bs m = Some (m\<lparr>buf := patch (unat a) bs (buf m),
     tags := patch (unat a) (replicate (length bs) TAG_ALLOCATED) (tags m)\<rparr>)"
  using assms
proof (induction bs arbitrary: a m)
  case Nil
  then show ?case by (simp add: patch_def)
next
  case (Cons b bs)
  have a1: "unat (a + 1) = Suc (unat a)"
    using Cons.prems by (simp add: unat_word_ariths)
  show ?case
    using Cons.prems a1 by (simp add: Cons.IH patch_step)
qed

text \<open>The memory after the first \<open>pos\<close> bytes of \<open>d\<close> were stored into it.\<close>

definition filled :: "u8 list \<Rightarrow> nat \<Rightarrow> avrmem \<Rightarrow> avrmem" where
  "filled d pos m = m\<lparr>buf := take pos d @ drop pos (buf m),
     tags := replicate pos TAG_ALLOCATED @ drop pos (tags m)\<rparr>"

definition fits :: "u8 list \<Rightarrow> nat \<Rightarrow> avrmem \<Rightarrow> bool" where
  "fits d sz m \<longleftrightarrow> length d = sz \<and> length (buf m) = sz \<and> length (tags m) = sz \<and> sz < 2 ^ 31"

lemma filled_store:
  assumes "fits d sz m" and "pos + n \<le> sz"
  shows "store_bytes (of_nat pos) (take n (drop pos d)) (filled d pos m) = Some (filled d (pos + n) m)"
proof -
  have len: "length (take n (drop pos d)) = n" "length (buf (filled d pos m)) = sz"
    "length (tags (filled d pos m)) = sz" "unat (of_nat pos :: u32) = pos"
    using assms by (simp_all add: fits_def filled_def unsigned_of_nat take_bit_nat_eq_self)
  have "patch pos (take n (drop pos d)) (take pos d @ drop pos (buf m)) = take (pos + n) d @ drop (pos + n) (buf m)"
    "patch pos (replicate n TAG_ALLOCATED) (replicate pos TAG_ALLOCATED @ drop pos (tags m))
      = replicate (pos + n) TAG_ALLOCATED @ drop (pos + n) (tags m)"
    using assms using take_add [of pos n d] replicate_add [of pos n TAG_ALLOCATED] by (simp_all add: patch_def fits_def add.commute)
  then show ?thesis
    using assms len by (simp add: store_bytes_patch fits_def) (simp add: filled_def)
qed

lemma sint_small: "x < 2 ^ 31 \<Longrightarrow> sint (of_nat x :: u32) = int x"
  by (simp add: signed_of_nat signed_take_bit_int_eq_self)

lemma filled_0 [simp]: "filled d 0 m = m"
  by (simp add: filled_def)

lemma filled_all:
  "fits d sz m \<Longrightarrow> filled d sz m = m\<lparr>buf := d, tags := replicate sz TAG_ALLOCATED\<rparr>"
  by (simp add: filled_def fits_def)

definition some_ihexrec :: ihexrec where
  "some_ihexrec = \<lparr>reclen = 0, loadofs = 0, rectyp = 0, data = replicate 256 0, cksum = 0\<rparr>"

text \<open>What no file can do to a memory: change the size of its arrays, or a byte it does not mark.\<close>

definition only_marked :: "avrmem \<Rightarrow> avrmem \<Rightarrow> bool" where
  "only_marked m m' \<longleftrightarrow> m'\<lparr>buf := [], tags := []\<rparr> = m\<lparr>buf := [], tags := []\<rparr>
     \<and> length (buf m') = length (buf m) \<and> length (tags m') = length (tags m)
     \<and> (\<forall>i < length (tags m). i < length (buf m) \<longrightarrow>
          tags m' ! i = TAG_ALLOCATED \<or> tags m' ! i = tags m ! i \<and> buf m' ! i = buf m ! i)"

lemma only_marked_refl [simp, intro]: "only_marked m m"
  by (simp add: only_marked_def)

lemma only_markedD:
  assumes "only_marked m m'"
  shows "length (buf m') = length (buf m)" "length (tags m') = length (tags m)"
    "\<And>i. i < length (tags m) \<Longrightarrow> i < length (buf m) \<Longrightarrow>
       tags m' ! i = TAG_ALLOCATED \<or> tags m' ! i = tags m ! i \<and> buf m' ! i = buf m ! i"
  using assms by (simp_all add: only_marked_def)

lemma only_marked_trans:
  assumes "only_marked m1 m2" and "only_marked m2 m3" shows "only_marked m1 m3"
proof -
  have "tags m3 ! i = TAG_ALLOCATED \<or> tags m3 ! i = tags m1 ! i \<and> buf m3 ! i = buf m1 ! i"
    if "i < length (tags m1)" "i < length (buf m1)" for i
    using only_markedD(3) [OF assms(1) that] only_markedD(3) [OF assms(2), of i]
      only_markedD(1,2) [OF assms(1)] that by auto
  then show ?thesis using assms by (simp add: only_marked_def)
qed

lemma store_bytes_marked:
  "store_bytes a bs m = Some m' \<Longrightarrow> only_marked m m'"
proof (induction bs arbitrary: a m)
  case (Cons b bs)
  let ?m = "m\<lparr>buf := (buf m)[unat a := b], tags := (tags m)[unat a := TAG_ALLOCATED]\<rparr>"
  from Cons.prems have a: "unat a < length (buf m)" "unat a < length (tags m)"
    and "store_bytes (a + 1) bs ?m = Some m'" by (auto split: if_splits)
  then have "only_marked ?m m'" by (intro Cons.IH)
  moreover have "only_marked m ?m"
    using a by (auto simp: only_marked_def nth_list_update)
  ultimately show ?case by (rule only_marked_trans [rotated])
qed simp

definition ends_well :: "nat \<Rightarrow> avrmem \<Rightarrow> (int \<times> avrmem) option \<Rightarrow> bool" where
  "ends_well sz m res \<longleftrightarrow> (\<forall>r m'. res = Some (r, m') \<longrightarrow> only_marked m m' \<and> -1 \<le> r \<and> r \<le> int sz)"

lemma ends_well_simps [simp]:
  "ends_well sz m None"
  "ends_well sz m (Some (r, m'')) \<longleftrightarrow> only_marked m m'' \<and> -1 \<le> r \<and> r \<le> int sz"
  by (simp_all add: ends_well_def)

lemma ends_well_trans: "only_marked m m1 \<Longrightarrow> ends_well sz m1 res \<Longrightarrow> ends_well sz m res"
  unfolding ends_well_def using only_marked_trans by blast

lemma sint_le_size:
  assumes "mx \<le> (of_nat sz :: u32)" and "sz < 2 ^ 31" shows "0 \<le> sint mx \<and> sint mx \<le> int sz"
proof -
  have le: "unat mx \<le> sz"
    using assms by (simp add: word_le_nat_alt unsigned_of_nat take_bit_nat_eq_self)
  then have "sint (of_nat (unat mx) :: u32) = int (unat mx)"
    using assms(2) by (intro sint_small) simp
  moreover have "(of_nat (unat mx) :: u32) = mx" by simp
  ultimately have "sint mx = int (unat mx)" by metis
  then show ?thesis using le by linarith
qed

lemma ends_well_if:
  "(c \<Longrightarrow> ends_well sz m a) \<Longrightarrow> (\<not> c \<Longrightarrow> ends_well sz m b) \<Longrightarrow> ends_well sz m (if c then a else b)"
  by simp

lemma ends_well_case:
  assumes "x = None \<Longrightarrow> ends_well sz m a" and "\<And>v. x = Some v \<Longrightarrow> ends_well sz m (g v)"
  shows "ends_well sz m (case x of None \<Rightarrow> a | Some v \<Rightarrow> g v)"
  using assms by (cases x) simp_all

lemma ends_well_prod:
  assumes "\<And>a b. p = (a, b) \<Longrightarrow> ends_well sz m (g a b)"
  shows "ends_well sz m (case p of (a, b) \<Rightarrow> g a b)"
  using assms by (cases p) simp

lemma ends_well_let:
  "(\<And>x. x = e \<Longrightarrow> ends_well sz m (g x)) \<Longrightarrow> ends_well sz m (let x = e in g x)"
  by simp

lemmas ends_well_rules = ends_well_if ends_well_case ends_well_prod ends_well_let

text \<open>A file with one data record at address 1 for a memory of three bytes.\<close>

definition small_mem :: avrmem where
  "small_mem = avr_new_memtype\<lparr>buf := [7, 7, 7], tags := [0, 0, 0]\<rparr>"


lemma chomp_line: "NUL \<notin> set l \<Longrightarrow> chomp (l @ [NL]) = Some l"
proof -
  assume "NUL \<notin> set l"
  then have "takeWhile (\<lambda>c. c \<noteq> NUL) (l @ [NL]) = l @ [NL]"
    by (auto simp: takeWhile_eq_all_conv NL_def NUL_def)
  then show ?thesis by (simp add: chomp_def)
qed

lemma hex_bytes_no_control:
  assumes "c \<in> set (concat (map hex8 bs))" shows "c \<noteq> NL \<and> c \<noteq> NUL"
  using assms hex_no_control unfolding hex8_def by auto

lemma length_hex_bytes [simp]: "length (concat (map hex8 bs)) = 2 * length bs"
  by (induction bs) simp_all

subsection \<open>A writer and a reader that fit together\<close>

text \<open>
  \<open>wr\<close> is the loop of a writer over the rest of a buffer, with its state and the text so far; \<open>rd\<close>
  is the loop of a reader over the rest of a file, with its state and the memory. \<open>together d m sz
  pos w r\<close> says that they agree at position \<open>pos\<close>. The laws: a step of the writer emits lines
  that the reader consumes, storing the bytes of the step, and both are again in agreement; at the
  end the writer stops and the reader accepts the end record.
\<close>

locale record_codec =
  fixes wr :: "u8 list \<Rightarrow> nat \<Rightarrow> 'w \<Rightarrow> string \<Rightarrow> (int \<times> string) option"
    and rd :: "string \<Rightarrow> 'r \<Rightarrow> avrmem \<Rightarrow> (int \<times> avrmem) option"
    and eof :: string
    and together :: "u8 list \<Rightarrow> avrmem \<Rightarrow> nat \<Rightarrow> nat \<Rightarrow> 'w \<Rightarrow> 'r \<Rightarrow> bool"
  assumes wr_end: "together d m sz sz w r \<Longrightarrow> wr (drop sz d) 0 w out = Some (int sz, out)"
    and rd_end: "together d m sz sz w r \<Longrightarrow> rd eof r (filled d sz m) = Some (int sz, filled d sz m)"
    and step: "together d m sz pos w r \<Longrightarrow> pos < sz \<Longrightarrow>
      \<exists>n ls w' r'. 0 < n \<and> pos + n \<le> sz \<and> together d m sz (pos + n) w' r'
        \<and> (\<forall>out. wr (drop pos d) (sz - pos) w out = wr (drop (pos + n) d) (sz - (pos + n)) w' (out @ ls))
        \<and> (\<forall>rest. rd (ls @ rest) r (filled d pos m) = rd rest r' (filled d (pos + n) m))"
begin

lemma written_is_read:
  "together d m sz pos w r \<Longrightarrow> pos \<le> sz \<Longrightarrow>
    \<exists>ls. (\<forall>out. wr (drop pos d) (sz - pos) w out = Some (int sz, out @ ls))
      \<and> rd (ls @ eof) r (filled d pos m) = Some (int sz, filled d sz m)"
proof (induction "sz - pos" arbitrary: pos w r rule: less_induct)
  case less
  show ?case
  proof (cases "pos = sz")
    case True
    then show ?thesis using wr_end rd_end less.prems(1) by (intro exI [of _ "[]"]) simp
  next
    case False
    with less.prems(2) have "pos < sz" by simp
    from step [OF less.prems(1) this] obtain n ls w' r' where
      n: "0 < n" "pos + n \<le> sz" and t: "together d m sz (pos + n) w' r'"
      and w: "\<forall>out. wr (drop pos d) (sz - pos) w out = wr (drop (pos + n) d) (sz - (pos + n)) w' (out @ ls)"
      and r: "\<forall>rest. rd (ls @ rest) r (filled d pos m) = rd rest r' (filled d (pos + n) m)"
      by (elim exE conjE)
    have "sz - (pos + n) < sz - pos" using n by simp
    from less.hyps [OF this t n(2)] obtain ls' where
      "\<forall>out. wr (drop (pos + n) d) (sz - (pos + n)) w' out = Some (int sz, out @ ls')"
      "rd (ls' @ eof) r' (filled d (pos + n) m) = Some (int sz, filled d sz m)"
      by (elim exE conjE)
    then show ?thesis using w r by (intro exI [of _ "ls @ ls'"]) simp
  qed
qed

end

end
