(* ===== verification/AvrCore.thy ===== *)
theory AvrCore
  imports HexRec
begin

text \<open>
  The core of avrdude: \<^verbatim>\<open>avr.c\<close>, which reads, writes and verifies the memories of a part through the
  operations of a programmer. The programmer is a record of functions on a device state; an
  operation that may be missing is an option. \<open>None\<close> as a result is an endless loop or undefined
  behaviour. The display of progress and messages is left out.
\<close>

subsection \<open>Programmers\<close>

text \<open>
  A response array is returned as it is after the call. Reading a byte takes the old value of the
  variable and returns its value after the call. \<open>usleep\<close> and the clock belong to the same state.
\<close>

type_synonym 'd tpi = "u8 list \<Rightarrow> nat \<Rightarrow> 'd \<Rightarrow> int \<times> u8 list \<times> 'd"
type_synonym 'd isp = "u8 list \<Rightarrow> 'd \<Rightarrow> int \<times> u8 list \<times> 'd"

record 'd programmer =
  pgm_led :: "bool \<Rightarrow> 'd \<Rightarrow> 'd"
  err_led :: "bool \<Rightarrow> 'd \<Rightarrow> 'd"
  vfy_led :: "bool \<Rightarrow> 'd \<Rightarrow> 'd"
  vcc_pin :: bool
  initialize :: "avrpart \<Rightarrow> 'd \<Rightarrow> int \<times> 'd"
  powerdown :: "'d \<Rightarrow> 'd"
  chip_erase :: "avrpart \<Rightarrow> 'd \<Rightarrow> int \<times> 'd"
  cmd :: "'d isp option"
  cmd_tpi :: "'d tpi option"
  paged_write :: "(avrpart \<Rightarrow> avrmem \<Rightarrow> nat \<Rightarrow> nat \<Rightarrow> nat \<Rightarrow> 'd \<Rightarrow> int \<times> 'd) option"
  paged_load :: "(avrpart \<Rightarrow> avrmem \<Rightarrow> nat \<Rightarrow> nat \<Rightarrow> nat \<Rightarrow> 'd \<Rightarrow> int \<times> u8 list \<times> 'd) option"
  page_erase :: "avrpart \<Rightarrow> avrmem \<Rightarrow> nat \<Rightarrow> 'd \<Rightarrow> int \<times> 'd"
  write_setup :: "(avrpart \<Rightarrow> avrmem \<Rightarrow> 'd \<Rightarrow> 'd) option"
  write_byte :: "avrpart \<Rightarrow> avrmem \<Rightarrow> u64 \<Rightarrow> u8 \<Rightarrow> 'd \<Rightarrow> int \<times> 'd"
  read_byte :: "avrpart \<Rightarrow> avrmem \<Rightarrow> u64 \<Rightarrow> u8 \<Rightarrow> 'd \<Rightarrow> int \<times> u8 \<times> 'd"
  read_sig_bytes :: "(avrpart \<Rightarrow> avrmem \<Rightarrow> 'd \<Rightarrow> int \<times> u8 list \<times> 'd) option"
  usleep :: "nat \<Rightarrow> 'd \<Rightarrow> 'd"
  clock :: "'d \<Rightarrow> u64 \<times> 'd"

subsection \<open>The TPI link\<close>

definition TPI_REG_TPIIR :: u8 where "TPI_REG_TPIIR = 0x0F"
definition TPI_IDENT_CODE :: u8 where "TPI_IDENT_CODE = 0x80"
definition TPI_REG_TPIPCR :: u8 where "TPI_REG_TPIPCR = 0x02"
definition TPI_REG_TPISR :: u8 where "TPI_REG_TPISR = 0x00"
definition TPI_REG_TPISR_NVMEN :: u8 where "TPI_REG_TPISR_NVMEN = push_bit 1 1"
definition TPI_CMD_SLD :: u8 where "TPI_CMD_SLD = 0x20"
definition TPI_CMD_SLD_PI :: u8 where "TPI_CMD_SLD_PI = 0x24"
definition TPI_CMD_SIN :: u8 where "TPI_CMD_SIN = 0x10"
definition TPI_CMD_SOUT :: u8 where "TPI_CMD_SOUT = 0x90"
definition TPI_CMD_SSTCS :: u8 where "TPI_CMD_SSTCS = 0xC0"
definition TPI_CMD_SST :: u8 where "TPI_CMD_SST = 0x60"
definition TPI_CMD_SST_PI :: u8 where "TPI_CMD_SST_PI = 0x64"
definition TPI_CMD_SLDCS :: u8 where "TPI_CMD_SLDCS = 0x80"
definition TPI_CMD_SSTPR :: u8 where "TPI_CMD_SSTPR = 0x68"
definition TPI_CMD_SKEY :: u8 where "TPI_CMD_SKEY = 0xE0"
definition TPI_IOREG_NVMCSR :: u8 where "TPI_IOREG_NVMCSR = 0x32"
definition TPI_IOREG_NVMCMD :: u8 where "TPI_IOREG_NVMCMD = 0x33"
definition TPI_IOREG_NVMCSR_NVMBSY :: u8 where "TPI_IOREG_NVMCSR_NVMBSY = push_bit 7 1"
definition TPI_NVMCMD_NO_OPERATION :: u8 where "TPI_NVMCMD_NO_OPERATION = 0x00"
definition TPI_NVMCMD_CHIP_ERASE :: u8 where "TPI_NVMCMD_CHIP_ERASE = 0x10"
definition TPI_NVMCMD_SECTION_ERASE :: u8 where "TPI_NVMCMD_SECTION_ERASE = 0x14"
definition TPI_NVMCMD_WORD_WRITE :: u8 where "TPI_NVMCMD_WORD_WRITE = 0x1D"

definition TPI_SIO_ADDR :: "u8 \<Rightarrow> u8" where
  "TPI_SIO_ADDR x = push_bit 1 (x AND 0x30) OR (x AND 0x0F)"

definition tpi_skey_cmd :: "u8 list" where
  "tpi_skey_cmd = [TPI_CMD_SKEY, 0xff, 0x88, 0xd8, 0xcd, 0x45, 0xab, 0x89, 0x12]"

definition avr_tpi_poll_nvmbsy :: "'d tpi \<Rightarrow> 'd \<Rightarrow> u8 \<times> 'd" where
  "avr_tpi_poll_nvmbsy tpi d =
     (let (_, res, d) = tpi [TPI_CMD_SIN OR TPI_SIO_ADDR TPI_IOREG_NVMCSR] 1 d
      in (res ! 0 AND TPI_IOREG_NVMCSR_NVMBSY, d))"

text \<open>\<^verbatim>\<open>while (avr_tpi_poll_nvmbsy(pgm));\<close>\<close>

partial_function (option) tpi_wait :: "'d tpi \<Rightarrow> 'd \<Rightarrow> 'd option" where
  "tpi_wait tpi d =
     (let (busy, d) = avr_tpi_poll_nvmbsy tpi d in if busy \<noteq> 0 then tpi_wait tpi d else Some d)"

definition tpi_send :: "'d tpi \<Rightarrow> u8 list \<Rightarrow> 'd \<Rightarrow> int \<times> 'd" where
  "tpi_send tpi c d = (let (rc, _, d) = tpi c 0 d in (rc, d))"

text \<open>A missing \<^verbatim>\<open>cmd_tpi\<close> is called without a test here.\<close>

definition avr_tpi_chip_erase :: "'d programmer \<Rightarrow> avrpart \<Rightarrow> 'd \<Rightarrow> (int \<times> 'd) option" where
  "avr_tpi_chip_erase pgm p d =
     (if flags p AND AVRPART_HAS_TPI \<noteq> 0 then
        (let d = pgm_led pgm True d in
         case avr_locate_mem p ''flash'' of
           None \<Rightarrow> Some (-1, d)
         | Some k \<Rightarrow> do {
             tpi \<leftarrow> cmd_tpi pgm;
             d \<leftarrow> tpi_wait tpi d;
             let off = m_offset (p_mem p ! k);
             let (err, d) = tpi_send tpi
               [TPI_CMD_SSTPR OR 0, ucast (off AND 0xFF) OR 1,
                TPI_CMD_SSTPR OR 1, ucast (drop_bit 8 off AND 0xFF),
                TPI_CMD_SOUT OR TPI_SIO_ADDR TPI_IOREG_NVMCMD, TPI_NVMCMD_CHIP_ERASE,
                TPI_CMD_SST, 0xFF] d;
             if err \<noteq> 0 then Some (err, d)
             else do {
               d \<leftarrow> tpi_wait tpi d;
               Some (0, pgm_led pgm False d)
             }
           })
      else Some (-1, d))"

text \<open>The polls for the enable bit; the response variable keeps its value if a call fails.\<close>

fun tpi_enable_poll :: "'d tpi \<Rightarrow> nat \<Rightarrow> 'd \<Rightarrow> int \<times> 'd" where
  "tpi_enable_poll tpi 0 d = (-1, d)"
| "tpi_enable_poll tpi (Suc n) d =
     (let (err, res, d) = tpi [TPI_CMD_SLDCS OR TPI_REG_TPISR] 1 d
      in if err \<noteq> 0 \<or> res ! 0 AND TPI_REG_TPISR_NVMEN = 0 then tpi_enable_poll tpi n d else (0, d))"

definition avr_tpi_program_enable :: "'d programmer \<Rightarrow> avrpart \<Rightarrow> u8 \<Rightarrow> 'd \<Rightarrow> (int \<times> 'd) option" where
  "avr_tpi_program_enable pgm p guard_time d =
     (if flags p AND AVRPART_HAS_TPI \<noteq> 0 then do {
        tpi \<leftarrow> cmd_tpi pgm;
        let (err, d) = tpi_send tpi [TPI_CMD_SSTCS OR TPI_REG_TPIPCR, guard_time] d;
        if err \<noteq> 0 then Some (err, d)
        else (let (err, res, d) = tpi [TPI_CMD_SLDCS OR TPI_REG_TPIIR] 1 d
              in if err \<noteq> 0 \<or> res ! 0 \<noteq> TPI_IDENT_CODE then Some (-1, d)
                 else (let (err, d) = tpi_send tpi tpi_skey_cmd d
                       in if err \<noteq> 0 then Some (err, d) else Some (tpi_enable_poll tpi 10 d)))
      }
      else Some (-1, d))"

definition avr_tpi_setup_rw :: "'d tpi \<Rightarrow> avrmem \<Rightarrow> u64 \<Rightarrow> u8 \<Rightarrow> 'd \<Rightarrow> int \<times> 'd" where
  "avr_tpi_setup_rw tpi mem addr nvmcmd d =
     (let (rc, d) = tpi_send tpi [TPI_CMD_SOUT OR TPI_SIO_ADDR TPI_IOREG_NVMCMD, nvmcmd] d
      in if rc = -1 then (-1, d)
         else (let a = ucast (m_offset mem) + addr;
                   (rc, d) = tpi_send tpi [TPI_CMD_SSTPR OR 0, ucast (a AND 0xFF)] d
               in if rc = -1 then (-1, d)
                  else (let (rc, d) = tpi_send tpi [TPI_CMD_SSTPR OR 1, ucast (drop_bit 8 a AND 0xFF)] d
                        in if rc = -1 then (-1, d) else (0, d))))"

subsection \<open>Reading a byte\<close>

definition zero_cmd :: "u8 list" where "zero_cmd = replicate 4 0"

text \<open>The opcode and the address it takes.\<close>

definition read_op_for :: "avrmem \<Rightarrow> u64 \<Rightarrow> opcode option \<times> u64" where
  "read_op_for mem addr =
     (if m_op mem AVR_OP_READ_LO \<noteq> None
      then (if addr AND 1 \<noteq> 0 then m_op mem AVR_OP_READ_HI else m_op mem AVR_OP_READ_LO, addr div 2)
      else (m_op mem AVR_OP_READ, addr))"

definition load_ext_addr :: "'d isp \<Rightarrow> avrmem \<Rightarrow> u64 \<Rightarrow> 'd \<Rightarrow> int \<times> 'd" where
  "load_ext_addr isp mem addr d =
     (case m_op mem AVR_OP_LOAD_EXT_ADDR of
        None \<Rightarrow> (0, d)
      | Some lext \<Rightarrow> (let (r, _, d) = isp (avr_set_addr lext (avr_set_bits lext zero_cmd) addr) d in (r, d)))"

definition avr_read_byte_default :: "'d programmer \<Rightarrow> avrpart \<Rightarrow> avrmem \<Rightarrow> u64 \<Rightarrow> u8 \<Rightarrow> 'd \<Rightarrow> (int \<times> u8 \<times> 'd) option" where
  "avr_read_byte_default pgm p mem addr value d =
     (case cmd pgm of
        None \<Rightarrow> Some (-1, value, d)
      | Some isp \<Rightarrow>
          (let d = err_led pgm False (pgm_led pgm True d) in
           if flags p AND AVRPART_HAS_TPI \<noteq> 0 then
             (case cmd_tpi pgm of
                None \<Rightarrow> Some (-1, value, d)
              | Some tpi \<Rightarrow> do {
                  d \<leftarrow> tpi_wait tpi d;
                  let (_, d) = avr_tpi_setup_rw tpi mem addr TPI_NVMCMD_NO_OPERATION d;
                  let (r, res, d) = tpi [TPI_CMD_SLD] 1 d;
                  Some (if r = -1 then -1 else 0, res ! 0, d)
                })
           else
             (let (readop, addr) = read_op_for mem addr
              in case readop of
                   None \<Rightarrow> Some (-1, value, d)
                 | Some readop \<Rightarrow>
                     (let (r, d) = load_ext_addr isp mem addr d
                      in if r < 0 then Some (r, value, d)
                         else (let (r, res, d) = isp (avr_set_addr readop (avr_set_bits readop zero_cmd) addr) d
                               in if r < 0 then Some (r, value, d)
                                  else Some (0, avr_get_output readop res 0, pgm_led pgm False d))))))"

subsection \<open>Reading a memory\<close>

definition tagged :: "u8 list \<Rightarrow> nat \<Rightarrow> bool" where
  "tagged t i \<longleftrightarrow> t ! i AND TAG_ALLOCATED \<noteq> 0"

text \<open>
  The search for a byte to read or write in the \<open>n\<close> bytes from \<open>i\<close> on. Without a memory to verify
  against every byte is one. Outside the array there is no result.
\<close>

fun scan_page :: "u8 list option \<Rightarrow> nat \<Rightarrow> nat \<Rightarrow> bool option" where
  "scan_page vt i 0 = Some False"
| "scan_page vt i (Suc n) =
     (case vt of
        None \<Rightarrow> Some True
      | Some t \<Rightarrow> if length t \<le> i then None else if tagged t i then Some True else scan_page vt (Suc i) n)"

text \<open>The number of pages to transfer, from address \<open>a\<close> on.\<close>

function count_pages :: "u8 list option \<Rightarrow> nat \<Rightarrow> nat \<Rightarrow> nat \<Rightarrow> nat option" where
  "count_pages vt ps sz a =
     (if ps = 0 \<or> sz \<le> a then Some 0
      else do {
        b \<leftarrow> scan_page vt a ps;
        n \<leftarrow> count_pages vt ps sz (a + ps);
        Some (if b then n + 1 else n)
      })"
  by pat_completeness auto
termination by (relation "measure (\<lambda>(_, ps, sz, a). sz - a)") auto

declare count_pages.simps [simp del]

text \<open>The paged read from address \<open>a\<close> on: whether it failed, the buffer and the device.\<close>

type_synonym 'd loader = "avrpart \<Rightarrow> avrmem \<Rightarrow> nat \<Rightarrow> nat \<Rightarrow> nat \<Rightarrow> 'd \<Rightarrow> int \<times> u8 list \<times> 'd"

function load_pages :: "'d loader \<Rightarrow> avrpart \<Rightarrow> u8 list option \<Rightarrow> avrmem \<Rightarrow> nat \<Rightarrow> 'd \<Rightarrow> (bool \<times> avrmem \<times> 'd) option" where
  "load_pages ld p vt mem a d =
     (if page_size mem = 0 \<or> m_size mem \<le> a then Some (False, mem, d)
      else do {
        b \<leftarrow> scan_page vt a (page_size mem);
        if \<not> b then load_pages ld p vt mem (a + page_size mem) d
        else (let (rc, bs, d) = ld p mem (page_size mem) a (page_size mem) d; mem = mem\<lparr>buf := bs\<rparr>
              in if rc < 0 then Some (True, mem, d) else load_pages ld p vt mem (a + page_size mem) d)
      })"
  by pat_completeness auto
termination by (relation "measure (\<lambda>(_, _, _, mem, a, _). m_size mem - a)") auto

declare load_pages.simps [simp del]

text \<open>The TPI read, which sets the address up again after a byte that was skipped.\<close>

function tpi_read_loop :: "'d tpi \<Rightarrow> u8 list option \<Rightarrow> avrmem \<Rightarrow> nat \<Rightarrow> nat \<Rightarrow> 'd \<Rightarrow> (bool \<times> avrmem \<times> 'd) option" where
  "tpi_read_loop tpi vt mem i lastaddr d =
     (if m_size mem \<le> i then Some (True, mem, d)
      else do {
        b \<leftarrow> scan_page vt i 1;
        if \<not> b then tpi_read_loop tpi vt mem (i + 1) lastaddr d
        else (let d = (if lastaddr \<noteq> i then snd (avr_tpi_setup_rw tpi mem (of_nat i) TPI_NVMCMD_NO_OPERATION d) else d);
                  (rc, res, d) = tpi [TPI_CMD_SLD_PI] 1 d;
                  mem = mem\<lparr>buf := (buf mem)[i := res ! 0]\<rparr>
              in if rc = -1 then Some (False, mem, d) else tpi_read_loop tpi vt mem (i + 1) (i + 1) d)
      })"
  by pat_completeness auto
termination by (relation "measure (\<lambda>(_, _, mem, i, _, _). m_size mem - i)") auto

declare tpi_read_loop.simps [simp del]

function read_each :: "'d programmer \<Rightarrow> avrpart \<Rightarrow> u8 list option \<Rightarrow> avrmem \<Rightarrow> nat \<Rightarrow> 'd \<Rightarrow> (bool \<times> avrmem \<times> 'd) option" where
  "read_each pgm p vt mem i d =
     (if m_size mem \<le> i then Some (True, mem, d)
      else do {
        b \<leftarrow> scan_page vt i 1;
        if \<not> b then read_each pgm p vt mem (i + 1) d
        else (let (rc, v, d) = read_byte pgm p mem (of_nat i) (buf mem ! i) d;
                  mem = mem\<lparr>buf := (buf mem)[i := v]\<rparr>
              in if rc \<noteq> 0 then Some (False, mem, d) else read_each pgm p vt mem (i + 1) d)
      })"
  by pat_completeness auto
termination by (relation "measure (\<lambda>(_, _, _, mem, i, _). m_size mem - i)") auto

declare read_each.simps [simp del]

definition flash_like :: "avrmem \<Rightarrow> bool" where
  "flash_like mem \<longleftrightarrow> same_ignoring_case (m_desc mem) ''flash''
     \<or> same_ignoring_case (m_desc mem) ''application'' \<or> same_ignoring_case (m_desc mem) ''apptable''
     \<or> same_ignoring_case (m_desc mem) ''boot''"

definition read_result :: "avrmem \<Rightarrow> int" where
  "read_result mem = (if flash_like mem then int (avr_mem_hiaddr mem) else int (m_size mem))"

text \<open>The reading byte by byte, to which a failed paged read falls back.\<close>

definition read_bytes :: "'d programmer \<Rightarrow> avrpart \<Rightarrow> u8 list option \<Rightarrow> avrmem \<Rightarrow> 'd \<Rightarrow> (int \<times> avrmem \<times> 'd) option" where
  "read_bytes pgm p vt mem d =
     (if m_desc mem = ''signature'' \<and> read_sig_bytes pgm \<noteq> None
      then (let (rc, bs, d) = the (read_sig_bytes pgm) p mem d in Some (rc, mem\<lparr>buf := bs\<rparr>, d))
      else do {
        (ok, mem, d) \<leftarrow> read_each pgm p vt mem 0 d;
        Some (if ok then read_result mem else -2, mem, d)
      })"

definition read_mem :: "'d programmer \<Rightarrow> avrpart \<Rightarrow> u8 list option \<Rightarrow> avrmem \<Rightarrow> 'd \<Rightarrow> (int \<times> avrmem \<times> 'd) option" where
  "read_mem pgm p vt mem d =
     (if flags p AND AVRPART_HAS_TPI \<noteq> 0 \<and> page_size mem \<noteq> 0 \<and> cmd_tpi pgm \<noteq> None then do {
        let tpi = the (cmd_tpi pgm);
        d \<leftarrow> tpi_wait tpi d;
        let (_, d) = avr_tpi_setup_rw tpi mem 0 TPI_NVMCMD_NO_OPERATION d;
        (ok, mem, d) \<leftarrow> tpi_read_loop tpi vt mem 0 0 d;
        Some (if ok then int (avr_mem_hiaddr mem) else -1, mem, d)
      }
      else if paged_load pgm \<noteq> None \<and> page_size mem \<noteq> 0 then do {
        _ \<leftarrow> count_pages (if vt = None then None else Some (tags mem)) (page_size mem) (m_size mem) 0;
        (failure, mem, d) \<leftarrow> load_pages (the (paged_load pgm)) p vt mem 0 d;
        if \<not> failure then Some (read_result mem, mem, d) else read_bytes pgm p vt mem d
      }
      else read_bytes pgm p vt mem d)"

text \<open>\<open>v\<close> is the part to verify against; it counts only if it has the memory.\<close>

definition avr_read :: "'d programmer \<Rightarrow> avrpart \<Rightarrow> string \<Rightarrow> avrpart option \<Rightarrow> 'd \<Rightarrow> (int \<times> avrpart \<times> 'd) option" where
  "avr_read pgm p memtype v d =
     (let vt = (case v of
          None \<Rightarrow> None
        | Some v \<Rightarrow> (case avr_locate_mem v memtype of None \<Rightarrow> None | Some k \<Rightarrow> Some (tags (p_mem v ! k))))
      in case avr_locate_mem p memtype of
           None \<Rightarrow> Some (-1, p, d)
         | Some k \<Rightarrow> do {
             let mem = p_mem p ! k;
             b \<leftarrow> fill (m_size mem) 0xff (buf mem);
             let mem = mem\<lparr>buf := b\<rparr>;
             (rc, mem, d) \<leftarrow> read_mem pgm (with_mem p k mem) vt mem d;
             Some (rc, with_mem p k mem, d)
           })"

definition avr_signature :: "'d programmer \<Rightarrow> avrpart \<Rightarrow> 'd \<Rightarrow> (int \<times> avrpart \<times> 'd) option" where
  "avr_signature pgm p d = do {
     (rc, p, d) \<leftarrow> avr_read pgm p ''signature'' None d;
     Some (if rc < 0 then -1 else 0, p, d)
   }"

subsection \<open>Writing a page\<close>

definition avr_write_page :: "'d programmer \<Rightarrow> avrpart \<Rightarrow> avrmem \<Rightarrow> u64 \<Rightarrow> 'd \<Rightarrow> int \<times> 'd" where
  "avr_write_page pgm p mem addr d =
     (case cmd pgm of
        None \<Rightarrow> (-1, d)
      | Some isp \<Rightarrow>
          (case m_op mem AVR_OP_WRITEPAGE of
             None \<Rightarrow> (-1, d)
           | Some writepage \<Rightarrow>
               (let addr = (if m_op mem AVR_OP_LOADPAGE_LO \<noteq> None \<or> m_op mem AVR_OP_READ_LO \<noteq> None
                            then addr div 2 else addr);
                    d = err_led pgm False (pgm_led pgm True d);
                    (_, d) = load_ext_addr isp mem addr d;
                    (_, _, d) = isp (avr_set_addr writepage (avr_set_bits writepage zero_cmd) addr) d;
                    d = usleep pgm (max_write_delay mem) d
                in (0, pgm_led pgm False d))))"

subsection \<open>Writing a byte\<close>

text \<open>The opcode and the address, which is cut to 16 bits.\<close>

definition write_op_for :: "avrmem \<Rightarrow> u64 \<Rightarrow> opcode option \<times> u16" where
  "write_op_for mem addr =
     (if m_op mem AVR_OP_WRITE_LO \<noteq> None
      then (if addr AND 1 \<noteq> 0 then m_op mem AVR_OP_WRITE_HI else m_op mem AVR_OP_WRITE_LO, ucast (addr div 2))
      else if paged mem \<and> m_op mem AVR_OP_LOADPAGE_LO \<noteq> None
      then (if addr AND 1 \<noteq> 0 then m_op mem AVR_OP_LOADPAGE_HI else m_op mem AVR_OP_LOADPAGE_LO, ucast (addr div 2))
      else (m_op mem AVR_OP_WRITE, ucast addr))"

definition tpi_write_byte :: "'d tpi \<Rightarrow> avrmem \<Rightarrow> u64 \<Rightarrow> u8 \<Rightarrow> 'd \<Rightarrow> (int \<times> 'd) option" where
  "tpi_write_byte tpi mem addr v d =
     (if m_desc mem = ''flash'' then Some (-1, d)
      else if (ucast (m_offset mem) + addr) AND 1 \<noteq> 0 then Some (-1, d)
      else do {
        d \<leftarrow> tpi_wait tpi d;
        d \<leftarrow> (if m_desc mem = ''fuse'' then
                (let (_, d) = avr_tpi_setup_rw tpi mem (addr OR 1) TPI_NVMCMD_SECTION_ERASE d;
                     (_, d) = tpi_send tpi [TPI_CMD_SST, 0xFF] d
                 in tpi_wait tpi d)
              else Some d);
        let (_, d) = avr_tpi_setup_rw tpi mem addr TPI_NVMCMD_WORD_WRITE d;
        let (_, d) = tpi_send tpi [TPI_CMD_SST_PI, v] d;
        let (_, d) = tpi_send tpi [TPI_CMD_SST_PI, v] d;
        d \<leftarrow> tpi_wait tpi d;
        Some (0, d)
      })"

text \<open>
  Polling for the written value: the byte is read until it is the value or the write delay is over.
  The result is the return code of the last read and the value it delivered. \<open>r\<close> is the variable
  that is read into.
\<close>

partial_function (option) write_poll ::
    "'d programmer \<Rightarrow> avrpart \<Rightarrow> avrmem \<Rightarrow> u64 \<Rightarrow> u8 \<Rightarrow> u64 \<Rightarrow> u8 \<Rightarrow> 'd \<Rightarrow> (int \<times> u8 \<times> 'd) option" where
  "write_poll pgm p mem addr v start r d =
     (let (rc, r, d) = read_byte pgm p mem addr r d
      in if rc \<noteq> 0 then Some (rc, r, d)
         else (let (t, d) = clock pgm d
               in if r \<noteq> v \<and> t - start < of_nat (max_write_delay mem)
                  then write_poll pgm p mem addr v start r d
                  else Some (0, r, d)))"

text \<open>The attempts of the read-back loop: \<open>n\<close> of them are left.\<close>

fun write_tries :: "'d programmer \<Rightarrow> avrpart \<Rightarrow> avrmem \<Rightarrow> u64 \<Rightarrow> u8 \<Rightarrow> nat \<Rightarrow> u8 \<Rightarrow> 'd \<Rightarrow> (int \<times> 'd) option" where
  "write_tries pgm p mem addr v 0 r d = Some (-6, err_led pgm True (pgm_led pgm False d))"
| "write_tries pgm p mem addr v (Suc n) r d =
     (let polled = (v = fst (readback mem) \<or> v = snd (readback mem)) in
      case (if polled
            then Some (read_byte pgm p mem addr r (usleep pgm (max_write_delay mem) d))
            else (let (start, d) = clock pgm d in write_poll pgm p mem addr v start r d)) of
        None \<Rightarrow> None
      | Some (rc, r, d) \<Rightarrow>
          if rc \<noteq> 0 then Some (if polled then (-5, err_led pgm False (pgm_led pgm False d))
                               else (-4, err_led pgm True (pgm_led pgm False d)))
          else if r = v then Some (0, pgm_led pgm False d)
          else if pwroff_after_write mem then
            (let d = pgm_led pgm False d in
             if vcc_pin pgm then
               (let (rc, d) = initialize pgm p (usleep pgm 250000 (powerdown pgm d))
                in Some (if rc < 0 then -3 else 0, d))
             else write_tries pgm p mem addr v n r d)
          else write_tries pgm p mem addr v n r d)"

definition write_cell :: "'d programmer \<Rightarrow> avrpart \<Rightarrow> avrmem \<Rightarrow> u64 \<Rightarrow> u8 \<Rightarrow> bool \<Rightarrow> u8 \<Rightarrow> 'd \<Rightarrow> 'd isp \<Rightarrow> (int \<times> 'd) option" where
  "write_cell pgm p mem addr v readok junk d isp =
     (let (writeop, caddr) = write_op_for mem addr
      in case writeop of
           None \<Rightarrow> Some (-1, d)
         | Some writeop \<Rightarrow>
             (let d = err_led pgm False (pgm_led pgm True d);
                  c = avr_set_input writeop (avr_set_addr writeop (avr_set_bits writeop zero_cmd) (ucast caddr)) v;
                  (_, _, d) = isp c d
              in if paged mem then Some (0, pgm_led pgm False d)
                 else if \<not> readok then Some (0, pgm_led pgm False (usleep pgm (max_write_delay mem) d))
                 else write_tries pgm p mem addr v 6 junk d))"

text \<open>\<open>junk\<close> is the content of the uninitialised variables that are read into.\<close>

definition avr_write_byte_default :: "'d programmer \<Rightarrow> avrpart \<Rightarrow> avrmem \<Rightarrow> u64 \<Rightarrow> u8 \<Rightarrow> u8 \<Rightarrow> 'd \<Rightarrow> (int \<times> 'd) option" where
  "avr_write_byte_default pgm p mem addr v junk d =
     (case cmd pgm of
        None \<Rightarrow> Some (-1, d)
      | Some isp \<Rightarrow>
          if flags p AND AVRPART_HAS_TPI \<noteq> 0 then
            (case cmd_tpi pgm of None \<Rightarrow> Some (-1, d) | Some tpi \<Rightarrow> tpi_write_byte tpi mem addr v d)
          else if \<not> paged mem \<and> flags p AND AVRPART_IS_AT90S1200 = 0 then
            (let (rc, b, d) = read_byte pgm p mem addr junk d
             in if rc \<noteq> 0 \<and> rc \<noteq> -1 then Some (-2, d)
                else if rc = 0 \<and> b = v then Some (0, d)
                else write_cell pgm p mem addr v (rc = 0) junk d isp)
          else write_cell pgm p mem addr v False junk d isp)"

subsection \<open>Writing a byte of a memory\<close>

text \<open>
  The values that safemode expects the fuses to have: the static variables of
  \<^verbatim>\<open>safemode_memfuses\<close>, which saves the caller's values or hands out its own.
\<close>

record fuses =
  sm_lfuse :: u8
  sm_hfuse :: u8
  sm_efuse :: u8
  sm_fuse :: u8

definition safemode_init :: fuses where
  "safemode_init = \<lparr>sm_lfuse = 0xff, sm_hfuse = 0xff, sm_efuse = 0xff, sm_fuse = 0xff\<rparr>"

definition safemode_memfuses :: "int \<Rightarrow> fuses \<Rightarrow> fuses \<Rightarrow> fuses \<times> fuses" where
  "safemode_memfuses save vals st = (if save = 1 then (vals, vals) else (st, st))"

definition avr_write_byte :: "'d programmer \<Rightarrow> avrpart \<Rightarrow> avrmem \<Rightarrow> u64 \<Rightarrow> u8 \<Rightarrow> fuses \<times> 'd \<Rightarrow> int \<times> fuses \<times> 'd" where
  "avr_write_byte pgm p mem addr v = (\<lambda>(st, d).
     let (vals, st) = safemode_memfuses 0 st st;
         vals = (if m_desc mem = ''fuse'' then vals\<lparr>sm_fuse := v\<rparr> else vals);
         vals = (if m_desc mem = ''lfuse'' then vals\<lparr>sm_lfuse := v\<rparr> else vals);
         vals = (if m_desc mem = ''hfuse'' then vals\<lparr>sm_hfuse := v\<rparr> else vals);
         vals = (if m_desc mem = ''efuse'' then vals\<lparr>sm_efuse := v\<rparr> else vals);
         (_, st) = safemode_memfuses 1 vals st;
         (rc, d) = write_byte pgm p mem addr v d
     in (rc, st, d))"

subsection \<open>Writing a memory\<close>

text \<open>The TPI write, in words; the second byte of the last word may lie outside the arrays.\<close>

function tpi_write_loop :: "'d tpi \<Rightarrow> avrmem \<Rightarrow> nat \<Rightarrow> nat \<Rightarrow> nat \<Rightarrow> 'd \<Rightarrow> (nat \<times> 'd) option" where
  "tpi_write_loop tpi m wsize i lastaddr d =
     (if wsize \<le> i then Some (i, d)
      else if length (tags m) \<le> i then None
      else if \<not> tagged (tags m) i \<and> length (tags m) \<le> i + 1 then None
      else if \<not> tagged (tags m) i \<and> \<not> tagged (tags m) (i + 1) then tpi_write_loop tpi m wsize (i + 2) lastaddr d
      else if length (buf m) \<le> i + 1 then None
      else (let d = (if lastaddr \<noteq> i then snd (avr_tpi_setup_rw tpi m (of_nat i) TPI_NVMCMD_WORD_WRITE d) else d);
                (_, d) = tpi_send tpi [TPI_CMD_SST_PI, buf m ! i] d;
                (_, d) = tpi_send tpi [TPI_CMD_SST_PI, buf m ! (i + 1)] d
            in case tpi_wait tpi d of None \<Rightarrow> None | Some d \<Rightarrow> tpi_write_loop tpi m wsize (i + 2) (i + 2) d))"
  by pat_completeness auto
termination by (relation "measure (\<lambda>(_, _, wsize, i, _, _). wsize - i)") auto

declare tpi_write_loop.simps [simp del]

text \<open>The paged write from address \<open>a\<close> on: whether it failed, and the device.\<close>

type_synonym 'd storer = "avrpart \<Rightarrow> avrmem \<Rightarrow> nat \<Rightarrow> nat \<Rightarrow> nat \<Rightarrow> 'd \<Rightarrow> int \<times> 'd"

function store_pages :: "'d programmer \<Rightarrow> 'd storer \<Rightarrow> avrpart \<Rightarrow> bool \<Rightarrow> avrmem \<Rightarrow> nat \<Rightarrow> nat \<Rightarrow> 'd \<Rightarrow> (bool \<times> 'd) option" where
  "store_pages pgm wr p auto_erase m wsize a d =
     (if page_size m = 0 \<or> wsize \<le> a then Some (False, d)
      else do {
        b \<leftarrow> scan_page (Some (tags m)) a (page_size m);
        if \<not> b then store_pages pgm wr p auto_erase m wsize (a + page_size m) d
        else (let (rc, d) = (if auto_erase then page_erase pgm p m a d else (0, d));
                  (rc, d) = (if rc \<ge> 0 then wr p m (page_size m) a (page_size m) d else (rc, d))
              in if rc < 0 then Some (True, d) else store_pages pgm wr p auto_erase m wsize (a + page_size m) d)
      })"
  by pat_completeness auto
termination by (relation "measure (\<lambda>(_, _, _, _, _, wsize, a, _). wsize - a)") auto

declare store_pages.simps [simp del]

text \<open>
  The loop over the bytes. \<open>newpage\<close> and \<open>tainted\<close> are its state: the next byte starts a page, and
  the page has a byte to write; \<open>werror\<close> records a failure.
\<close>

definition page_flags :: "avrmem \<Rightarrow> nat \<Rightarrow> nat \<Rightarrow> bool \<Rightarrow> bool \<Rightarrow> bool \<times> bool \<times> bool" where
  "page_flags m wsize i newpage tainted =
     (let do_write = tagged (tags m) i
      in if paged m
         then (let tainted = (if newpage then do_write else tainted \<or> do_write)
               in if i mod page_size m = page_size m - 1 \<or> i = wsize - 1
                  then (tainted, tainted, True) else (tainted, False, False))
         else (tainted, False, newpage))"

definition write_one :: "'d programmer \<Rightarrow> avrpart \<Rightarrow> avrmem \<Rightarrow> nat \<Rightarrow> bool \<Rightarrow> bool \<Rightarrow> fuses \<times> 'd \<Rightarrow> bool \<times> fuses \<times> 'd" where
  "write_one pgm p m i flush werror = (\<lambda>(st, d).
     let (werror, st, d) = (if tagged (tags m) i
           then (let (rc, st, d) = avr_write_byte pgm p m (of_nat i) (buf m ! i) (st, d)
                 in if rc \<noteq> 0 then (True, st, err_led pgm True d) else (werror, st, d))
           else (werror, st, d));
         (werror, d) = (if flush
           then (let (rc, d) = avr_write_page pgm p m (of_nat i) d
                 in if rc \<noteq> 0 then (True, err_led pgm True d) else (werror, d))
           else (werror, d));
         d = (if werror then err_led pgm True d else d)
     in (werror, st, d))"

text \<open>A paged memory without a page size is a division by zero.\<close>

function write_loop :: "'d programmer \<Rightarrow> avrpart \<Rightarrow> avrmem \<Rightarrow> nat \<Rightarrow> nat \<Rightarrow> bool \<Rightarrow> bool \<Rightarrow> bool \<Rightarrow> fuses \<times> 'd
    \<Rightarrow> (nat \<times> fuses \<times> 'd) option" where
  "write_loop pgm p m wsize i newpage tainted werror sd =
     (if wsize \<le> i then Some (i, sd)
      else if length (buf m) \<le> i \<or> length (tags m) \<le> i then None
      else if paged m \<and> page_size m = 0 then None
      else (let (tainted, flush, newpage) = page_flags m wsize i newpage tainted
            in if \<not> tagged (tags m) i \<and> \<not> flush then write_loop pgm p m wsize (i + 1) newpage tainted werror sd
               else (let (werror, sd) = write_one pgm p m i flush werror sd
                     in write_loop pgm p m wsize (i + 1) newpage tainted werror sd)))"
  by pat_completeness auto
termination by (relation "measure (\<lambda>(_, _, _, wsize, i, _, _, _, _). wsize - i)") auto

declare write_loop.simps [simp del]

definition write_mem :: "'d programmer \<Rightarrow> avrpart \<Rightarrow> avrmem \<Rightarrow> nat \<Rightarrow> bool \<Rightarrow> fuses \<times> 'd \<Rightarrow> (int \<times> fuses \<times> 'd) option" where
  "write_mem pgm p m wsize auto_erase = (\<lambda>(st, d).
     let bytes = (\<lambda>d. (let d = (case write_setup pgm of None \<Rightarrow> d | Some f \<Rightarrow> f p m d) in
           case write_loop pgm p m wsize 0 True False False (st, d) of
             None \<Rightarrow> None | Some (i, sd) \<Rightarrow> Some (int i, sd)))
     in if flags p AND AVRPART_HAS_TPI \<noteq> 0 \<and> page_size m \<noteq> 0 \<and> cmd_tpi pgm \<noteq> None then do {
          let tpi = the (cmd_tpi pgm);
          d \<leftarrow> tpi_wait tpi d;
          let (_, d) = avr_tpi_setup_rw tpi m 0 TPI_NVMCMD_WORD_WRITE d;
          (i, d) \<leftarrow> tpi_write_loop tpi m (if odd wsize then wsize + 1 else wsize) 0 0 d;
          Some (int i, st, d)
        }
        else if paged_write pgm \<noteq> None \<and> page_size m \<noteq> 0 then do {
          _ \<leftarrow> count_pages (Some (tags m)) (page_size m) wsize 0;
          (failure, d) \<leftarrow> store_pages pgm (the (paged_write pgm)) p auto_erase m wsize 0 d;
          if \<not> failure then Some (int wsize, st, d) else bytes d
        }
        else bytes d)"

definition avr_write :: "'d programmer \<Rightarrow> avrpart \<Rightarrow> string \<Rightarrow> int \<Rightarrow> bool \<Rightarrow> fuses \<times> 'd \<Rightarrow> (int \<times> fuses \<times> 'd) option" where
  "avr_write pgm p memtype sz auto_erase = (\<lambda>(st, d).
     case avr_locate_mem p memtype of
       None \<Rightarrow> Some (-1, st, d)
     | Some k \<Rightarrow>
         (let m = p_mem p ! k; d = err_led pgm False d;
              wsize = (if sz < int (m_size m) then sz else int (m_size m))
          in if wsize < 0 then None else write_mem pgm p m (nat wsize) auto_erase (st, d)))"

subsection \<open>Comparing memories\<close>

function verify_loop :: "u8 list \<Rightarrow> u8 list \<Rightarrow> u8 list \<Rightarrow> nat \<Rightarrow> nat \<Rightarrow> bool option" where
  "verify_loop buf1 buf2 t n i =
     (if n \<le> i then Some True
      else if length t \<le> i then None
      else if tagged t i then
        (if length buf1 \<le> i \<or> length buf2 \<le> i then None
         else if buf1 ! i \<noteq> buf2 ! i then Some False else verify_loop buf1 buf2 t n (i + 1))
      else verify_loop buf1 buf2 t n (i + 1))"
  by pat_completeness auto
termination by (relation "measure (\<lambda>(_, _, _, n, i). n - i)") auto

declare verify_loop.simps [simp del]

definition avr_verify :: "avrpart \<Rightarrow> avrpart \<Rightarrow> string \<Rightarrow> int \<Rightarrow> int option" where
  "avr_verify p v memtype sz =
     (case avr_locate_mem p memtype of
        None \<Rightarrow> Some (-1)
      | Some i \<Rightarrow> (case avr_locate_mem v memtype of
          None \<Rightarrow> Some (-1)
        | Some j \<Rightarrow>
            (let a = p_mem p ! i; b = p_mem v ! j;
                 sz = (if int (m_size a) < sz then int (m_size a) else sz)
             in case verify_loop (buf a) (buf b) (tags b) (nat sz) 0 of
                  None \<Rightarrow> None
                | Some ok \<Rightarrow> Some (if ok then sz else -1))))"

subsection \<open>The cycle counter and chip erase\<close>

text \<open>
  The counter is in the last four bytes of the EEPROM, its least significant byte last. \<open>v1\<close> is the
  uninitialised byte that is read into.
\<close>

fun get_count_loop :: "'d programmer \<Rightarrow> avrpart \<Rightarrow> avrmem \<Rightarrow> nat \<Rightarrow> u8 \<Rightarrow> u32 \<Rightarrow> 'd \<Rightarrow> u32 option \<times> 'd" where
  "get_count_loop pgm p a 0 v1 c d = (Some c, d)"
| "get_count_loop pgm p a (Suc i) v1 c d =
     (let (rc, v1, d) = read_byte pgm p a (of_int (int (m_size a) - int (Suc i))) v1 d
      in if rc < 0 then (None, d) else get_count_loop pgm p a i v1 (push_bit 8 c OR ucast v1) d)"

definition avr_get_cycle_count :: "'d programmer \<Rightarrow> avrpart \<Rightarrow> u8 \<Rightarrow> int \<Rightarrow> 'd \<Rightarrow> int \<times> int \<times> 'd" where
  "avr_get_cycle_count pgm p v1 cycles d =
     (case avr_locate_mem p ''eeprom'' of
        None \<Rightarrow> (-1, cycles, d)
      | Some k \<Rightarrow>
          (case get_count_loop pgm p (p_mem p ! k) 4 v1 0 d of
             (None, d) \<Rightarrow> (-1, cycles, d)
           | (Some c, d) \<Rightarrow> (0, sint (if c = 0xffffffff then 0 else c), d)))"

fun put_count_loop :: "'d programmer \<Rightarrow> avrpart \<Rightarrow> avrmem \<Rightarrow> nat list \<Rightarrow> int \<Rightarrow> fuses \<times> 'd \<Rightarrow> int \<times> fuses \<times> 'd" where
  "put_count_loop pgm p a [] cycles sd = (0, sd)"
| "put_count_loop pgm p a (i # is) cycles sd =
     (let (rc, sd) = avr_write_byte pgm p a (of_int (int (m_size a) - int i)) (of_int cycles) sd
      in if rc < 0 then (-1, sd) else put_count_loop pgm p a is (cycles div 256) sd)"

definition avr_put_cycle_count :: "'d programmer \<Rightarrow> avrpart \<Rightarrow> int \<Rightarrow> fuses \<times> 'd \<Rightarrow> int \<times> fuses \<times> 'd" where
  "avr_put_cycle_count pgm p cycles sd =
     (case avr_locate_mem p ''eeprom'' of
        None \<Rightarrow> (-1, sd)
      | Some k \<Rightarrow> put_count_loop pgm p (p_mem p ! k) [1, 2, 3, 4] cycles sd)"

definition avr_chip_erase :: "'d programmer \<Rightarrow> avrpart \<Rightarrow> 'd \<Rightarrow> int \<times> 'd" where
  "avr_chip_erase pgm p d = chip_erase pgm p d"

subsection \<open>Programmers that store bytes\<close>

text \<open>
  The contract of the byte operations of a programmer: \<open>view d desc a\<close> is the byte that the device
  holds at an address of a memory. Reading delivers it, writing replaces it, and neither reading nor
  switching the indicators changes anything.
\<close>

definition byte_access :: "'d programmer \<Rightarrow> ('d \<Rightarrow> string \<Rightarrow> u64 \<Rightarrow> u8) \<Rightarrow> bool" where
  "byte_access pgm view \<longleftrightarrow>
     (\<forall>p m a old d. fst (read_byte pgm p m a old d) = 0
        \<and> fst (snd (read_byte pgm p m a old d)) = view d (m_desc m) a
        \<and> view (snd (snd (read_byte pgm p m a old d))) = view d)
     \<and> (\<forall>p m a v d. fst (write_byte pgm p m a v d) = 0
        \<and> view (snd (write_byte pgm p m a v d)) = (view d)(m_desc m := (view d (m_desc m))(a := v)))
     \<and> (\<forall>b d. view (err_led pgm b d) = view d \<and> view (pgm_led pgm b d) = view d \<and> view (vfy_led pgm b d) = view d)"

lemma byte_access_read:
  assumes "byte_access pgm view"
  obtains d' where "read_byte pgm p m a old d = (0, view d (m_desc m) a, d')" "view d' = view d"
  using assms unfolding byte_access_def by (metis prod.collapse)

lemma byte_access_write:
  assumes "byte_access pgm view"
  obtains d' where "write_byte pgm p m a v d = (0, d')" "view d' = (view d)(m_desc m := (view d (m_desc m))(a := v))"
  using assms unfolding byte_access_def by (metis prod.collapse)

lemma byte_access_led:
  "byte_access pgm view \<Longrightarrow> view (err_led pgm b d) = view d"
  "byte_access pgm view \<Longrightarrow> view (pgm_led pgm b d) = view d"
  "byte_access pgm view \<Longrightarrow> view (vfy_led pgm b d) = view d"
  by (simp_all add: byte_access_def)

definition needed :: "u8 list option \<Rightarrow> nat \<Rightarrow> bool" where
  "needed vt i = (case vt of None \<Rightarrow> True | Some t \<Rightarrow> tagged t i)"

definition covers :: "u8 list option \<Rightarrow> nat \<Rightarrow> bool" where
  "covers vt n = (case vt of None \<Rightarrow> True | Some t \<Rightarrow> n \<le> length t)"

lemma scan_one: "covers vt n \<Longrightarrow> i < n \<Longrightarrow> scan_page vt i 1 = Some (needed vt i)"
  by (cases vt) (simp_all add: covers_def needed_def)

lemma upt_rec': "i < n \<Longrightarrow> [i..<n] = i # [i + 1..<n]"
  by (simp add: upt_rec)

lemma read_each_step:
  assumes "covers vt (m_size mem)" and "i < m_size mem"
  shows "read_each pgm p vt mem i d =
    (if needed vt i
     then (let (rc, v, d) = read_byte pgm p mem (of_nat i) (buf mem ! i) d; mem = mem\<lparr>buf := (buf mem)[i := v]\<rparr>
           in if rc \<noteq> 0 then Some (False, mem, d) else read_each pgm p vt mem (Suc i) d)
     else read_each pgm p vt mem (Suc i) d)"
  using assms(2) scan_one [OF assms] unfolding Suc_eq_plus1
  by (subst read_each.simps) (simp del: scan_page.simps One_nat_def)

lemma read_each_view:
  assumes "byte_access pgm view"
  shows "m_size mem - i = n \<Longrightarrow> length (buf mem) = m_size mem \<Longrightarrow> covers vt (m_size mem) \<Longrightarrow>
    \<exists>d'. view d' = view d \<and> read_each pgm p vt mem i d = Some (True, mem\<lparr>buf := take i (buf mem) @
      map (\<lambda>j. if needed vt j then view d (m_desc mem) (of_nat j) else buf mem ! j) [i..<m_size mem]\<rparr>, d')"
proof (induction n arbitrary: i mem d)
  case 0
  then show ?case by (subst read_each.simps) simp
next
  case (Suc n)
  then have i: "i < m_size mem" "m_size mem - Suc i = n" by simp_all
  note step = read_each_step [OF Suc.prems(3) i(1)]
  show ?case
  proof (cases "needed vt i")
    case False
    from Suc.IH [OF i(2) Suc.prems(2,3), of d] False i(1) Suc.prems(2)
    show ?thesis by (simp add: step upt_rec' take_Suc_conv_app_nth)
  next
    case True
    obtain d1 where r: "read_byte pgm p mem (of_nat i) (buf mem ! i) d = (0, view d (m_desc mem) (of_nat i), d1)"
      and v: "view d1 = view d" by (rule byte_access_read [OF assms])
    let ?mem = "mem\<lparr>buf := (buf mem)[i := view d (m_desc mem) (of_nat i)]\<rparr>"
    have tail: "map (\<lambda>j. if needed vt j then view d (m_desc mem) (of_nat j) else (buf mem)[i := w] ! j) [Suc i..<m_size mem]
        = map (\<lambda>j. if needed vt j then view d (m_desc mem) (of_nat j) else buf mem ! j) [Suc i..<m_size mem]" for w
      by auto
    from Suc.IH [of ?mem "Suc i" d1] i Suc.prems(2,3) v True
    show ?thesis by (simp add: step r upt_rec' take_Suc_conv_app_nth tail cong: if_cong)
  qed
qed

text \<open>What reading byte by byte leaves in the buffer.\<close>

definition mem_image :: "('d \<Rightarrow> string \<Rightarrow> u64 \<Rightarrow> u8) \<Rightarrow> 'd \<Rightarrow> u8 list option \<Rightarrow> avrmem \<Rightarrow> avrmem" where
  "mem_image view d vt m = m\<lparr>buf := map (\<lambda>j. if needed vt j then view d (m_desc m) (of_nat j) else 0xff) [0..<m_size m]\<rparr>"

text \<open>A memory that is read and written byte by byte over the ordinary link.\<close>

definition bytewise :: "'d programmer \<Rightarrow> avrpart \<Rightarrow> avrmem \<Rightarrow> bool" where
  "bytewise pgm p m \<longleftrightarrow> flags p AND AVRPART_HAS_TPI = 0 \<and> (page_size m = 0 \<or> paged_load pgm = None \<and> paged_write pgm = None)
     \<and> \<not> paged m \<and> write_setup pgm = None \<and> (m_desc m \<noteq> ''signature'' \<or> read_sig_bytes pgm = None)
     \<and> length (buf m) = m_size m \<and> length (tags m) = m_size m \<and> m_size m < 2 ^ 31"

lemma avr_read_image:
  assumes "byte_access pgm view" and "avr_locate_mem p mt = Some k" and "bytewise pgm p (p_mem p ! k)"
    and "vt = (case v of None \<Rightarrow> None | Some v \<Rightarrow> (case avr_locate_mem v mt of None \<Rightarrow> None | Some j \<Rightarrow> Some (tags (p_mem v ! j))))"
    and "covers vt (m_size (p_mem p ! k))"
  shows "\<exists>d'. view d' = view d \<and> avr_read pgm p mt v d
    = Some (read_result (mem_image view d vt (p_mem p ! k)), with_mem p k (mem_image view d vt (p_mem p ! k)), d')"
proof -
  define m where "m = p_mem p ! k"
  define m0 where "m0 = m\<lparr>buf := replicate (m_size m) 0xff\<rparr>"
  have b: "flags p AND AVRPART_HAS_TPI = 0" "page_size m = 0 \<or> paged_load pgm = None"
    "m_desc m \<noteq> ''signature'' \<or> read_sig_bytes pgm = None" "length (buf m) = m_size m"
    using assms(3) by (auto simp: bytewise_def m_def)
  have m0: "m_size m0 = m_size m" "m_desc m0 = m_desc m" "page_size m0 = page_size m" "buf m0 = replicate (m_size m) 0xff"
    by (simp_all add: m0_def)
  have f: "fill (m_size m) 0xff (buf m) = Some (replicate (m_size m) 0xff)"
    using b(4) by (simp add: fill_def patch_def)
  obtain d' where d': "view d' = view d" "read_each pgm (with_mem p k m0) vt m0 0 d
      = Some (True, m0\<lparr>buf := take 0 (buf m0) @ map (\<lambda>j. if needed vt j then view d (m_desc m0) (of_nat j)
          else buf m0 ! j) [0..<m_size m0]\<rparr>, d')"
    using read_each_view [OF assms(1), of m0 0 "m_size m0" vt d "with_mem p k m0"] assms(5) m0 by (auto simp: m_def)
  have img: "m0\<lparr>buf := take 0 (buf m0) @ map (\<lambda>j. if needed vt j then view d (m_desc m0) (of_nat j)
          else buf m0 ! j) [0..<m_size m0]\<rparr> = mem_image view d vt m"
    by (auto simp: mem_image_def m0_def)
  have "read_bytes pgm (with_mem p k m0) vt m0 d
      = Some (read_result (mem_image view d vt m), mem_image view d vt m, d')"
    using b(3) d'(2) m0(2) unfolding img by (auto simp: read_bytes_def)
  then have "read_mem pgm (with_mem p k m0) vt m0 d
      = Some (read_result (mem_image view d vt m), mem_image view d vt m, d')"
    using b(1,2) m0(3) by (auto simp: read_mem_def)
  then have "avr_read pgm p mt v d
      = Some (read_result (mem_image view d vt m), with_mem p k (mem_image view d vt m), d')"
    unfolding avr_read_def assms(4) [symmetric] Let_def
    by (simp add: assms(2) m_def [symmetric] f m0_def [symmetric])
  then show ?thesis using d'(1) by (auto simp: m_def)
qed

definition overwrite :: "avrmem \<Rightarrow> nat \<Rightarrow> nat \<Rightarrow> (u64 \<Rightarrow> u8) \<Rightarrow> u64 \<Rightarrow> u8" where
  "overwrite m i n f a = (if i \<le> unat a \<and> unat a < n \<and> tagged (tags m) (unat a) then buf m ! unat a else f a)"

lemma overwrite_done: "n \<le> i \<Longrightarrow> overwrite m i n f = f"
  by (rule ext) (auto simp: overwrite_def)

lemma overwrite_step:
  assumes "i < n" and "n < 2 ^ 31"
  shows "overwrite m (Suc i) n (if tagged (tags m) i then f(of_nat i := buf m ! i) else f) = overwrite m i n f"
proof
  fix a :: u64
  have u: "unat (of_nat i :: u64) = i" using assms by (simp add: unsigned_of_nat take_bit_nat_eq_self)
  have "a = of_nat i \<longleftrightarrow> unat a = i" using u by (metis unsigned_word_eqI)
  then show "overwrite m (Suc i) n (if tagged (tags m) i then f(of_nat i := buf m ! i) else f) a = overwrite m i n f a"
    using assms(1) by (auto simp: overwrite_def not_less_eq_eq le_Suc_eq)
qed

lemma avr_write_byte_view:
  assumes "byte_access pgm view"
  obtains st' d' where "avr_write_byte pgm p m a v (st, d) = (0, st', d')"
    "view d' = (view d)(m_desc m := (view d (m_desc m))(a := v))"
proof -
  obtain d' where w: "write_byte pgm p m a v d = (0, d')" "view d' = (view d)(m_desc m := (view d (m_desc m))(a := v))"
    by (rule byte_access_write [OF assms])
  define st' where "st' = fst (snd (avr_write_byte pgm p m a v (st, d)))"
  have "avr_write_byte pgm p m a v (st, d) = (0, st', d')"
    by (simp add: st'_def avr_write_byte_def w(1) safemode_memfuses_def Let_def)
  with w(2) that show ?thesis by blast
qed

lemma write_one_view:
  assumes "byte_access pgm view" and "tagged (tags m) i"
  obtains st' d' where "write_one pgm p m i False False (st, d) = (False, st', d')"
    "view d' = (view d)(m_desc m := (view d (m_desc m))(of_nat i := buf m ! i))"
proof -
  obtain st' d' where w: "avr_write_byte pgm p m (of_nat i) (buf m ! i) (st, d) = (0, st', d')"
    "view d' = (view d)(m_desc m := (view d (m_desc m))(of_nat i := buf m ! i))"
    by (rule avr_write_byte_view [OF assms(1)])
  then have "write_one pgm p m i False False (st, d) = (False, st', d')"
    using assms(2) by (simp add: write_one_def)
  with w(2) that show ?thesis by blast
qed

lemma write_loop_view:
  assumes "byte_access pgm view" and "\<not> paged m" and "n < 2 ^ 31" and "n \<le> length (buf m)" and "n \<le> length (tags m)"
  shows "n - i = k \<Longrightarrow> i \<le> n \<Longrightarrow> \<exists>st' d'. write_loop pgm p m n i np tainted False (st, d) = Some (n, st', d')
    \<and> view d' = (view d)(m_desc m := overwrite m i n (view d (m_desc m)))"
proof (induction k arbitrary: i np tainted st d)
  case 0
  then show ?case by (subst write_loop.simps) (simp add: overwrite_done)
next
  case (Suc k)
  then have i: "i < n" "n - Suc i = k" "Suc i \<le> n" by simp_all
  have fl: "page_flags m n i np tainted = (tainted, False, np)" using assms(2) by (simp add: page_flags_def)
  note ov = overwrite_step [OF i(1) assms(3), of m "view d (m_desc m)"]
  have len: "\<not> n \<le> i" "\<not> (length (buf m) \<le> i \<or> length (tags m) \<le> i)" using i assms by auto
  show ?case
  proof (cases "tagged (tags m) i")
    case True
    obtain st' d' where w: "write_one pgm p m i False False (st, d) = (False, st', d')"
      "view d' = (view d)(m_desc m := (view d (m_desc m))(of_nat i := buf m ! i))"
      by (rule write_one_view [OF assms(1) True])
    have v: "(view d')(m_desc m := overwrite m (Suc i) n (view d' (m_desc m)))
        = (view d)(m_desc m := overwrite m i n (view d (m_desc m)))"
      using ov True by (simp add: w(2) fun_upd_upd)
    obtain st2 d2 where r: "write_loop pgm p m n (Suc i) np tainted False (st', d') = Some (n, st2, d2)"
      "view d2 = (view d)(m_desc m := overwrite m i n (view d (m_desc m)))"
      using Suc.IH [OF i(2,3), of np tainted st' d'] unfolding v by blast
    have "write_loop pgm p m n i np tainted False (st, d) = Some (n, st2, d2)"
      using True assms(2) r(1) by (subst write_loop.simps) (simp add: len fl w(1) Let_def)
    with r(2) show ?thesis by blast
  next
    case False
    have v: "overwrite m (Suc i) n (view d (m_desc m)) = overwrite m i n (view d (m_desc m))"
      using ov False by simp
    obtain st2 d2 where r: "write_loop pgm p m n (Suc i) np tainted False (st, d) = Some (n, st2, d2)"
      "view d2 = (view d)(m_desc m := overwrite m i n (view d (m_desc m)))"
      using Suc.IH [OF i(2,3), of np tainted st d] unfolding v by blast
    have "write_loop pgm p m n i np tainted False (st, d) = Some (n, st2, d2)"
      using False assms(2) r(1) by (subst write_loop.simps) (simp add: len fl Let_def)
    with r(2) show ?thesis by blast
  qed
qed

lemma avr_write_view:
  assumes "byte_access pgm view" and "avr_locate_mem p mt = Some k" and "bytewise pgm p (p_mem p ! k)" and "0 \<le> sz"
    and "n = min (nat sz) (m_size (p_mem p ! k))" and "m = p_mem p ! k"
  shows "\<exists>st' d'. avr_write pgm p mt sz ae (st, d) = Some (int n, st', d')
    \<and> view d' = (view d)(m_desc m := overwrite m 0 n (view d (m_desc m)))"
proof -
  have b: "flags p AND AVRPART_HAS_TPI = 0" "page_size m = 0 \<or> paged_write pgm = None" "\<not> paged m"
    "write_setup pgm = None" "length (buf m) = m_size m" "length (tags m) = m_size m" "m_size m < 2 ^ 31"
    using assms(3,6) by (auto simp: bytewise_def)
  have n: "n < 2 ^ 31" "n \<le> length (buf m)" "n \<le> length (tags m)" using b(5-7) assms(5,6) by auto
  define d0 where "d0 = err_led pgm False d"
  have v0: "view d0 = view d" by (simp add: d0_def byte_access_led(1) [OF assms(1)])
  obtain st' d' where w: "write_loop pgm p m n 0 True False False (st, d0) = Some (n, st', d')"
    "view d' = (view d0)(m_desc m := overwrite m 0 n (view d0 (m_desc m)))"
    using write_loop_view [OF assms(1) b(3) n, of 0 n p True False st d0] by auto
  have "write_mem pgm p m n ae (st, d0) = Some (int n, st', d')"
    using b w(1) by (auto simp: write_mem_def Let_def)
  moreover have "nat (if sz < int (m_size m) then sz else int (m_size m)) = n"
    "\<not> (if sz < int (m_size m) then sz else int (m_size m)) < 0"
    using assms(4-6) by (auto simp: min_def)
  ultimately have "avr_write pgm p mt sz ae (st, d) = Some (int n, st', d')"
    by (simp add: avr_write_def assms(2) assms(6) [symmetric] Let_def d0_def)
  then show ?thesis using w(2) v0 by auto
qed

lemma verify_loop_eq:
  assumes "n \<le> length t" and "n \<le> length b1" and "n \<le> length b2"
  shows "n - i = k \<Longrightarrow> verify_loop b1 b2 t n i = Some (\<forall>j. i \<le> j \<longrightarrow> j < n \<longrightarrow> tagged t j \<longrightarrow> b1 ! j = b2 ! j)"
proof (induction k arbitrary: i)
  case 0
  then show ?case by (subst verify_loop.simps) simp
next
  case (Suc k)
  then have i: "i < n" "n - Suc i = k" by simp_all
  have all: "(\<forall>j. i \<le> j \<longrightarrow> j < n \<longrightarrow> P j) \<longleftrightarrow> P i \<and> (\<forall>j. Suc i \<le> j \<longrightarrow> j < n \<longrightarrow> P j)" for P
    using i(1) by (metis Suc_leD Suc_leI le_neq_implies_less order_refl)
  have len: "\<not> n \<le> i" "\<not> length t \<le> i" "\<not> (length b1 \<le> i \<or> length b2 \<le> i)" using i assms by auto
  show ?case
    using Suc.IH [OF i(2)] by (subst verify_loop.simps) (simp add: len all)
qed

subsection \<open>What reading, writing and verifying achieve\<close>

text \<open>C12: Over a programmer that reads bytes faithfully, reading a memory byte by byte succeeds without
  changing the device, and its buffer holds what the device holds; when a part to verify against
  is given, the bytes that it does not mark are left at 0xff.\<close>

theorem avr_read_delivers:
  assumes "byte_access pgm view" and "avr_locate_mem p mt = Some k" and "bytewise pgm p (p_mem p ! k)"
    and "vt = (case v of None \<Rightarrow> None | Some v \<Rightarrow> (case avr_locate_mem v mt of None \<Rightarrow> None | Some j \<Rightarrow> Some (tags (p_mem v ! j))))"
    and "covers vt (m_size (p_mem p ! k))"
  shows "\<exists>d'. view d' = view d \<and> avr_read pgm p mt v d
    = Some (read_result (mem_image view d vt (p_mem p ! k)), with_mem p k (mem_image view d vt (p_mem p ! k)), d')"
  by (rule avr_read_image [OF assms])

text \<open>C11: Over a programmer that writes bytes faithfully, writing a memory byte by byte reports the number
  of bytes asked for, at most the size of the memory; afterwards the device holds the marked bytes
  of the buffer among them, and every other byte of every memory is what it was.\<close>

theorem avr_write_stores:
  assumes "byte_access pgm view" and "avr_locate_mem p mt = Some k" and "bytewise pgm p (p_mem p ! k)" and "0 \<le> sz"
    and "n = min (nat sz) (m_size (p_mem p ! k))" and "m = p_mem p ! k"
  shows "\<exists>st' d'. avr_write pgm p mt sz ae (st, d) = Some (int n, st', d')
    \<and> view d' = (view d)(m_desc m := overwrite m 0 n (view d (m_desc m)))"
  by (rule avr_write_view [OF assms])

lemma write_loop_returns:
  assumes "\<not> paged m" and "n \<le> length (buf m)" and "n \<le> length (tags m)"
  shows "n - i = k \<Longrightarrow> i \<le> n \<Longrightarrow> \<exists>sd'. write_loop pgm p m n i np tainted werror sd = Some (n, sd')"
proof (induction k arbitrary: i np tainted werror sd)
  case 0
  then show ?case by (subst write_loop.simps) simp
next
  case (Suc k)
  then have i: "i < n" "n - Suc i = k" "Suc i \<le> n" by simp_all
  have fl: "page_flags m n i np tainted = (tainted, False, np)" using assms(1) by (simp add: page_flags_def)
  have len: "\<not> n \<le> i" "\<not> (length (buf m) \<le> i \<or> length (tags m) \<le> i)" using i assms by auto
  obtain we sd1 where w: "write_one pgm p m i False werror sd = (we, sd1)"
    by (cases "write_one pgm p m i False werror sd") blast
  show ?case
    using Suc.IH [OF i(2,3), of np tainted we sd1] Suc.IH [OF i(2,3), of np tainted werror sd] assms(1)
    by (subst write_loop.simps) (simp add: len fl w Let_def)
qed

text \<open>C32: Writing a memory byte by byte reports the full number of bytes whatever the programmer answers:
  a byte that could not be written changes the error indicator, not the result.\<close>

theorem avr_write_hides_failures:
  assumes "avr_locate_mem p mt = Some k" and "bytewise pgm p (p_mem p ! k)" and "0 \<le> sz"
  shows "\<exists>sd. avr_write pgm p mt sz ae (st, d) = Some (int (min (nat sz) (m_size (p_mem p ! k))), sd)"
proof -
  define m where "m = p_mem p ! k"
  define n where "n = min (nat sz) (m_size m)"
  have b: "flags p AND AVRPART_HAS_TPI = 0" "page_size m = 0 \<or> paged_write pgm = None" "\<not> paged m"
    "write_setup pgm = None" "length (buf m) = m_size m" "length (tags m) = m_size m"
    using assms(2) by (auto simp: bytewise_def m_def)
  obtain sd where "write_loop pgm p m n 0 True False False (st, err_led pgm False d) = Some (n, sd)"
    using write_loop_returns [OF b(3), of n 0 n pgm p True False False "(st, err_led pgm False d)"] b(5,6)
    by (auto simp: n_def)
  then have "write_mem pgm p m n ae (st, err_led pgm False d) = Some (int n, sd)"
    using b by (auto simp: write_mem_def Let_def)
  moreover have "nat (if sz < int (m_size m) then sz else int (m_size m)) = n"
    "\<not> (if sz < int (m_size m) then sz else int (m_size m)) < 0"
    using assms(3) by (auto simp: n_def min_def)
  ultimately show ?thesis
    by (simp add: avr_write_def assms(1) m_def [symmetric] n_def [symmetric] Let_def)
qed

lemma avr_verify_marks:
  assumes "avr_locate_mem p mt = Some i" and "avr_locate_mem v mt = Some j" and "a = p_mem p ! i" and "b = p_mem v ! j"
    and "n = min sz (int (m_size a))" and "nat n \<le> length (buf a)" and "nat n \<le> length (buf b)" and "nat n \<le> length (tags b)"
  shows "avr_verify p v mt sz
    = Some (if \<forall>k < nat n. tagged (tags b) k \<longrightarrow> buf a ! k = buf b ! k then n else -1)"
proof -
  have n: "(if int (m_size a) < sz then int (m_size a) else sz) = n" using assms(5) by (auto simp: min_def)
  show ?thesis
    using verify_loop_eq [OF assms(8,6,7), of 0 "nat n"]
    by (auto simp: avr_verify_def assms(1,2) assms(3,4) [symmetric] Let_def n)
qed

text \<open>The verification of a memory against a file compares exactly the bytes the file marks, within
  the given number of bytes and the size of the memory: it returns that number if they agree and -1
  otherwise.\<close>

theorem avr_verify_exact:
  assumes "avr_locate_mem p mt = Some i" and "avr_locate_mem v mt = Some j" and "a = p_mem p ! i" and "b = p_mem v ! j"
    and "n = min sz (int (m_size a))" and "nat n \<le> length (buf a)" and "nat n \<le> length (buf b)" and "nat n \<le> length (tags b)"
  shows "avr_verify p v mt sz
    = Some (if \<forall>k < nat n. tagged (tags b) k \<longrightarrow> buf a ! k = buf b ! k then n else -1)"
  by (rule avr_verify_marks [OF assms])

subsection \<open>The cycle counter\<close>

lemma unat_small: "x < 2 ^ 64 \<Longrightarrow> unat (of_nat x :: u64) = x"
  by (simp add: unsigned_of_nat take_bit_nat_eq_self)

lemma bytes_of_int:
  "push_bit 8 (push_bit 8 (push_bit 8 (push_bit 8 0 OR ucast (of_int (c div 256 div 256 div 256) :: u8))
      OR ucast (of_int (c div 256 div 256) :: u8)) OR ucast (of_int (c div 256) :: u8)) OR ucast (of_int c :: u8)
   = (of_int c :: u32)"
proof (rule bit_word_eqI)
  fix n assume n: "n < LENGTH(32)"
  have d: "bit (c div 256 div 256 div 256) i = bit c (i + 24)" "bit (c div 256 div 256) i = bit c (i + 16)"
    "bit (c div 256) i = bit c (i + 8)" for i
    using bit_drop_bit_eq [of 24 c] bit_drop_bit_eq [of 16 c] bit_drop_bit_eq [of 8 c]
    by (simp_all add: drop_bit_eq_div zdiv_zmult2_eq [symmetric] add.commute)
  consider "n < 8" | "8 \<le> n" "n < 16" | "16 \<le> n" "n < 24" | "24 \<le> n" by linarith
  then show "bit (push_bit 8 (push_bit 8 (push_bit 8 (push_bit 8 0 OR ucast (of_int (c div 256 div 256 div 256) :: u8))
      OR ucast (of_int (c div 256 div 256) :: u8)) OR ucast (of_int (c div 256) :: u8)) OR ucast (of_int c :: u8) :: u32) n
      = bit (of_int c :: u32) n"
    using n by cases (auto simp: bit_or_iff bit_push_bit_iff bit_ucast_iff bit_of_int_iff d)
qed

lemma of_int_m1:
  assumes "- (2 ^ 31) \<le> c" and "c < 2 ^ 31"
  shows "sint (of_int c :: u32) = c" and "(of_int c :: u32) = 0xffffffff \<longleftrightarrow> c = -1"
proof -
  show s: "sint (of_int c :: u32) = c" using assms by (simp add: signed_of_int signed_take_bit_int_eq_self)
  have "sint (0xffffffff :: u32) = -1" by simp
  then show "(of_int c :: u32) = 0xffffffff \<longleftrightarrow> c = -1" using s by auto
qed

text \<open>The cycle count that is put into the EEPROM is the one that is got from it, for every 32-bit
  count but -1, which reads as the erased state and gives 0.\<close>

theorem cycle_count_roundtrip:
  assumes "byte_access pgm view" and "avr_locate_mem p ''eeprom'' = Some k" and "4 \<le> m_size (p_mem p ! k)"
    and "m_size (p_mem p ! k) < 2 ^ 31" and "- (2 ^ 31) \<le> c" and "c < 2 ^ 31"
  shows "\<exists>sd'. avr_put_cycle_count pgm p c (st, d) = (0, sd')
    \<and> (\<exists>d'. avr_get_cycle_count pgm p junk old (snd sd') = (0, if c = -1 then 0 else c, d') \<and> view d' = view (snd sd'))"
proof -
  define m where "m = p_mem p ! k"
  define A :: "nat \<Rightarrow> u64" where "A i = of_int (int (m_size m) - int i)" for i
  have A_eq: "A i = A j \<longleftrightarrow> i = j" if "i \<le> 4" "j \<le> 4" for i j
  proof -
    have "A l = of_nat (m_size m - l) \<and> unat (of_nat (m_size m - l) :: u64) = m_size m - l" if "l \<le> 4" for l
    proof -
      have l: "int (m_size m) - int l = int (m_size m - l)" using assms(3) that by (simp add: m_def)
      have "A l = of_nat (m_size m - l)" unfolding A_def l by simp
      moreover have "m_size m - l < 2 ^ 64" using assms(4) by (simp add: m_def)
      then have "unat (of_nat (m_size m - l) :: u64) = m_size m - l" by (rule unat_small)
      ultimately show ?thesis ..
    qed
    then show ?thesis using that assms(3) by (metis diff_diff_cancel le_trans m_def)
  qed
  obtain s1 d1 where w1: "avr_write_byte pgm p m (A 1) (of_int c) (st, d) = (0, s1, d1)"
    "view d1 = (view d)(m_desc m := (view d (m_desc m))(A 1 := of_int c))"
    by (rule avr_write_byte_view [OF assms(1)])
  obtain s2 d2 where w2: "avr_write_byte pgm p m (A 2) (of_int (c div 256)) (s1, d1) = (0, s2, d2)"
    "view d2 = (view d1)(m_desc m := (view d1 (m_desc m))(A 2 := of_int (c div 256)))"
    by (rule avr_write_byte_view [OF assms(1)])
  obtain s3 d3 where w3: "avr_write_byte pgm p m (A 3) (of_int (c div 256 div 256)) (s2, d2) = (0, s3, d3)"
    "view d3 = (view d2)(m_desc m := (view d2 (m_desc m))(A 3 := of_int (c div 256 div 256)))"
    by (rule avr_write_byte_view [OF assms(1)])
  obtain s4 d4 where w4: "avr_write_byte pgm p m (A 4) (of_int (c div 256 div 256 div 256)) (s3, d3) = (0, s4, d4)"
    "view d4 = (view d3)(m_desc m := (view d3 (m_desc m))(A 4 := of_int (c div 256 div 256 div 256)))"
    by (rule avr_write_byte_view [OF assms(1)])
  have put: "avr_put_cycle_count pgm p c (st, d) = (0, s4, d4)"
    using w1(1) w2(1) w3(1) w4(1)
    by (simp add: avr_put_cycle_count_def assms(2) m_def [symmetric] A_def del: One_nat_def)
  have at: "view d4 (m_desc m) (A 1) = of_int c" "view d4 (m_desc m) (A 2) = of_int (c div 256)"
    "view d4 (m_desc m) (A 3) = of_int (c div 256 div 256)" "view d4 (m_desc m) (A 4) = of_int (c div 256 div 256 div 256)"
    by (simp_all add: w1(2) w2(2) w3(2) w4(2) A_eq)
  have loop: "\<exists>d'. view d' = view d4 \<and> get_count_loop pgm p m n v a e
      = (Some (foldl (\<lambda>a i. push_bit 8 a OR ucast (view d4 (m_desc m) (A i))) a (rev [1..<Suc n])), d')"
    if "view e = view d4" for n v a e
    using that
  proof (induction n arbitrary: v a e)
    case 0
    then show ?case by auto
  next
    case (Suc n)
    obtain e' where r: "read_byte pgm p m (A (Suc n)) v e = (0, view e (m_desc m) (A (Suc n)), e')" "view e' = view e"
      by (rule byte_access_read [OF assms(1)])
    have "get_count_loop pgm p m (Suc n) v a e
        = get_count_loop pgm p m n (view d4 (m_desc m) (A (Suc n))) (push_bit 8 a OR ucast (view d4 (m_desc m) (A (Suc n)))) e'"
      using r(1) Suc.prems by (simp add: A_def)
    with Suc.IH [of e'] r(2) Suc.prems show ?case by simp
  qed
  have four: "rev [1..<Suc 4] = [4, 3, 2, 1]" by (simp add: upt_rec)
  have val: "foldl (\<lambda>a i. push_bit 8 a OR ucast (view d4 (m_desc m) (A i))) (0 :: u32) (rev [1..<Suc 4]) = of_int c"
    unfolding four foldl.simps at by (rule bytes_of_int)
  obtain d' where "view d' = view d4" and g: "get_count_loop pgm p m 4 junk 0 d4 = (Some (of_int c), d')"
    using loop [of d4 4 junk 0] unfolding val by blast
  moreover have "avr_get_cycle_count pgm p junk old d4 = (0, if c = -1 then 0 else c, d')"
    using of_int_m1 [OF assms(5,6)] by (simp add: avr_get_cycle_count_def assms(2) m_def [symmetric] g)
  ultimately show ?thesis using put by auto
qed

subsection \<open>A programmer that stores bytes\<close>

definition store_pgm :: "(string \<Rightarrow> u64 \<Rightarrow> u8) programmer" where
  "store_pgm = \<lparr>pgm_led = \<lambda>_ d. d, err_led = \<lambda>_ d. d, vfy_led = \<lambda>_ d. d, vcc_pin = False,
     initialize = \<lambda>_ d. (0, d), powerdown = \<lambda>d. d, chip_erase = \<lambda>_ d. (0, \<lambda>_ _. 0xff), cmd = None, cmd_tpi = None,
     paged_write = None, paged_load = None, page_erase = \<lambda>_ _ _ d. (0, d), write_setup = None,
     write_byte = \<lambda>_ m a v d. (0, d(m_desc m := (d (m_desc m))(a := v))),
     read_byte = \<lambda>_ m a _ d. (0, d (m_desc m) a, d), read_sig_bytes = None, usleep = \<lambda>_ d. d, clock = \<lambda>d. (0, d)\<rparr>"

lemma store_pgm_access: "byte_access store_pgm (\<lambda>d. d)"
  by (simp add: byte_access_def store_pgm_def)

definition byte_part :: "u8 list \<Rightarrow> u8 list \<Rightarrow> avrpart" where
  "byte_part bs ts = avr_new_part\<lparr>p_mem := [avr_new_memtype\<lparr>m_desc := ''eeprom'', m_size := length bs, buf := bs, tags := ts\<rparr>]\<rparr>"

lemma byte_part_mem:
  "p_mem (byte_part bs ts) ! 0 = avr_new_memtype\<lparr>m_desc := ''eeprom'', m_size := length bs, buf := bs, tags := ts\<rparr>"
  by (simp add: byte_part_def avr_new_part_def)

lemma byte_part_locate: "avr_locate_mem (byte_part bs ts) ''eeprom'' = Some 0"
  unfolding locate_mem_iff by (simp add: byte_part_def avr_new_part_def desc_matches_def)

lemma byte_part_tpi: "flags (byte_part bs ts) AND AVRPART_HAS_TPI = 0"
  by (simp add: byte_part_def avr_new_part_def AVRPART_SERIALOK_def AVRPART_PARALLELOK_def
      AVRPART_ENABLEPAGEPROGRAMMING_def AVRPART_HAS_TPI_def)

lemma byte_part_bytewise:
  assumes "length ts = length bs" and "length bs < 2 ^ 31"
  shows "bytewise store_pgm (byte_part bs ts) (p_mem (byte_part bs ts) ! 0)"
  unfolding byte_part_mem
  using assms by (simp add: bytewise_def avr_new_memtype_def store_pgm_def byte_part_tpi)

definition counting :: "string \<Rightarrow> u64 \<Rightarrow> u8" where "counting _ a = ucast a"

theorem avr_read_delivers_witness:
  "\<exists>p. avr_read store_pgm (byte_part [0, 0, 0] [0, 0, 0]) ''eeprom'' None counting = Some (3, p, counting)
     \<and> buf (p_mem p ! 0) = [0, 1, 2]"
proof -
  let ?p = "byte_part [0, 0, 0] [0, 0, 0]"
  let ?i = "mem_image (\<lambda>d. d) counting None (p_mem ?p ! 0)"
  have img: "buf ?i = [0, 1, 2]" "read_result ?i = 3"
    by (simp_all add: mem_image_def byte_part_mem needed_def counting_def upt_rec read_result_def flash_like_def
        same_ignoring_case_def)
  obtain d' where "avr_read store_pgm ?p ''eeprom'' None counting
      = Some (read_result ?i, with_mem ?p 0 ?i, d')" "d' = counting"
    using avr_read_delivers [of store_pgm "\<lambda>d. d" ?p "''eeprom''" 0 None None counting] store_pgm_access
      byte_part_locate byte_part_bytewise [of "[0, 0, 0]" "[0, 0, 0]"] by (auto simp: covers_def)
  with img show ?thesis by (auto simp: byte_part_def avr_new_part_def)
qed

theorem avr_write_stores_witness:
  "\<exists>st' d'. avr_write store_pgm (byte_part [5, 6, 7] [1, 0, 1]) ''eeprom'' 2 False (safemode_init, counting)
       = Some (2, st', d')
     \<and> d' ''eeprom'' 0 = 5 \<and> d' ''eeprom'' 1 = 1 \<and> d' ''eeprom'' 2 = 2 \<and> d' ''flash'' = counting ''flash''"
proof -
  let ?p = "byte_part [5, 6, 7] [1, 0, 1]"
  let ?m = "p_mem ?p ! 0"
  obtain st' d' where w: "avr_write store_pgm ?p ''eeprom'' 2 False (safemode_init, counting) = Some (int 2, st', d')"
    "d' = counting(m_desc ?m := overwrite ?m 0 2 (counting (m_desc ?m)))"
    using avr_write_stores [of store_pgm "\<lambda>d. d" ?p "''eeprom''" 0 2 2 ?m False safemode_init counting] store_pgm_access
      byte_part_locate byte_part_bytewise [of "[1, 0, 1]" "[5, 6, 7]"] by (auto simp: byte_part_mem)
  have "d' ''eeprom'' 0 = 5 \<and> d' ''eeprom'' 1 = 1 \<and> d' ''eeprom'' 2 = 2 \<and> d' ''flash'' = counting ''flash''"
    by (simp add: w(2) byte_part_mem overwrite_def tagged_def counting_def TAG_ALLOCATED_def)
  with w(1) show ?thesis by auto
qed

definition broken_pgm :: "unit programmer" where
  "broken_pgm = \<lparr>pgm_led = \<lambda>_ d. d, err_led = \<lambda>_ d. d, vfy_led = \<lambda>_ d. d, vcc_pin = False,
     initialize = \<lambda>_ d. (0, d), powerdown = \<lambda>d. d, chip_erase = \<lambda>_ d. (-1, d), cmd = None, cmd_tpi = None,
     paged_write = None, paged_load = None, page_erase = \<lambda>_ _ _ d. (-1, d), write_setup = None,
     write_byte = \<lambda>_ _ _ _ d. (-1, d), read_byte = \<lambda>_ _ _ v d. (-1, v, d), read_sig_bytes = None,
     usleep = \<lambda>_ d. d, clock = \<lambda>d. (0, d)\<rparr>"

theorem avr_write_hides_failures_witness:
  "\<exists>sd. avr_write broken_pgm (byte_part [5, 6, 7] [1, 0, 1]) ''eeprom'' 3 False (safemode_init, ()) = Some (3, sd)"
proof -
  let ?p = "byte_part [5, 6, 7] [1, 0, 1]"
  have "bytewise broken_pgm ?p (p_mem ?p ! 0)"
    unfolding byte_part_mem by (simp add: bytewise_def avr_new_memtype_def broken_pgm_def byte_part_tpi)
  from avr_write_hides_failures [OF byte_part_locate this, of 3 False safemode_init "()"]
  show ?thesis by (simp add: byte_part_mem)
qed

theorem avr_verify_exact_witness:
  "avr_verify (byte_part [5, 6, 7] [0, 0, 0]) (byte_part [5, 9, 7] [1, 0, 1]) ''eeprom'' 8 = Some 3
   \<and> avr_verify (byte_part [5, 6, 7] [0, 0, 0]) (byte_part [5, 9, 7] [1, 1, 1]) ''eeprom'' 8 = Some (-1)"
proof -
  have v: "avr_verify (byte_part [5, 6, 7] [0, 0, 0]) (byte_part [5, 9, 7] ts) ''eeprom'' 8
    = Some (if \<forall>k < nat 3. tagged ts k \<longrightarrow> [5, 6, 7] ! k = ([5, 9, 7] :: u8 list) ! k then 3 else -1)"
    if "length ts = 3" for ts
    using avr_verify_exact [OF byte_part_locate byte_part_locate refl refl, of 3 8 "[5, 6, 7]" "[0, 0, 0]" "[5, 9, 7]" ts]
    that by (simp add: byte_part_mem)
  have "(\<forall>k < nat 3. P k) \<longleftrightarrow> P 0 \<and> P 1 \<and> P 2" for P by (auto simp: less_Suc_eq numeral_eq_Suc)
  then show ?thesis using v [of "[1, 0, 1]"] v [of "[1, 1, 1]"] by (simp add: tagged_def TAG_ALLOCATED_def)
qed

theorem cycle_count_roundtrip_witness:
  "\<exists>sd'. avr_put_cycle_count store_pgm (byte_part [0, 0, 0, 0] [0, 0, 0, 0]) 1000 (safemode_init, counting) = (0, sd')
    \<and> (\<exists>d'. avr_get_cycle_count store_pgm (byte_part [0, 0, 0, 0] [0, 0, 0, 0]) 0 0 (snd sd') = (0, 1000, d'))"
  using cycle_count_roundtrip [OF store_pgm_access byte_part_locate, of "[0, 0, 0, 0]" "[0, 0, 0, 0]" 1000 safemode_init counting 0 0]
  by (auto simp: byte_part_mem)

end
