(* ===== verification/LucaxHost.thy ===== *)
theory LucaxHost
  imports AvrCore
begin

text \<open>
  The host driver of the programmer, avrdude's \<^verbatim>\<open>lucax.c\<close>. The USB library is a parameter: a record of
  its calls on a state \<open>'d\<close>. \<open>None\<close> is undefined behaviour: a store or a read outside an array.
  The time-outs, the context and the device handle of the library are left out.
\<close>

subsection \<open>The USB library\<close>

text \<open>
  A control transfer takes direction, request, value, index and the data, and returns the number of
  bytes or a negative code, and the data after the call. A bulk read takes the endpoint and the
  largest number of bytes and returns the code and the bytes received. A bulk write returns the code
  and the number of bytes sent.
\<close>

record 'd libusb =
  libusb_init :: "'d \<Rightarrow> int \<times> 'd"
  libusb_open_device_with_vid_pid :: "u16 \<Rightarrow> u16 \<Rightarrow> 'd \<Rightarrow> bool \<times> 'd"
  libusb_close :: "'d \<Rightarrow> 'd"
  libusb_exit :: "'d \<Rightarrow> 'd"
  control_transfer :: "u8 \<Rightarrow> u8 \<Rightarrow> u16 \<Rightarrow> u16 \<Rightarrow> u8 list \<Rightarrow> 'd \<Rightarrow> int \<times> u8 list \<times> 'd"
  bulk_in :: "u8 \<Rightarrow> nat \<Rightarrow> 'd \<Rightarrow> int \<times> u8 list \<times> 'd"
  bulk_out :: "u8 \<Rightarrow> u8 list \<Rightarrow> 'd \<Rightarrow> int \<times> nat \<times> 'd"

subsection \<open>Constants and state\<close>

definition LUCAX_IO_UNSUPPORTED :: int where "LUCAX_IO_UNSUPPORTED = 0x00"
definition LUCAX_IO_PDI :: int where "LUCAX_IO_PDI = 0x01"
definition LUCAX_HAS_PDI :: u8 where "LUCAX_HAS_PDI = 0x01"
definition LUCAX_VID :: u16 where "LUCAX_VID = 0x03EB"
definition LUCAX_PID :: u16 where "LUCAX_PID = 0x206C"
definition USB_HOSTTODEVICE :: u8 where "USB_HOSTTODEVICE = 0"
definition USB_DEVICETOHOST :: u8 where "USB_DEVICETOHOST = push_bit 7 1"
definition LUCAX_IN :: u8 where "LUCAX_IN = 130"
definition LUCAX_OUT :: u8 where "LUCAX_OUT = 1"
definition HOST_PDI_FLASH :: int where "HOST_PDI_FLASH = 0"
definition HOST_PDI_EEPROM :: int where "HOST_PDI_EEPROM = 1"
definition HOST_PDI_FUSE :: int where "HOST_PDI_FUSE = 0"
definition HOST_PDI_LOCK :: int where "HOST_PDI_LOCK = 1"
definition HOST_GET_DESCRIPTOR :: u8 where "HOST_GET_DESCRIPTOR = 33"
definition HOST_RELEASE_INTERFACE :: u8 where "HOST_RELEASE_INTERFACE = 34"
definition HOST_REPORT_ERROR :: u8 where "HOST_REPORT_ERROR = 42"
definition HOST_PDI_INIT :: u8 where "HOST_PDI_INIT = 35"
definition HOST_PDI_CHIP_ERASE :: u8 where "HOST_PDI_CHIP_ERASE = 43"
definition HOST_PDI_NVM_READ :: u8 where "HOST_PDI_NVM_READ = 36"
definition HOST_PDI_NVM_WRITE_BYTE :: u8 where "HOST_PDI_NVM_WRITE_BYTE = 38"
definition HOST_PDI_NVM_WRITE_PAGE :: u8 where "HOST_PDI_NVM_WRITE_PAGE = 39"
definition HOST_PDI_RAW_READ :: u8 where "HOST_PDI_RAW_READ = 40"

record pdata =
  lucax_info :: u8
  io_frequency :: int
  lucax_io_mode :: int

type_synonym 'd host = "pdata \<times> 'd"

subsection \<open>Session\<close>

definition lucax_setup :: "'d \<Rightarrow> 'd host" where
  "lucax_setup d = (\<lparr>lucax_info = 0, io_frequency = 0, lucax_io_mode = 0\<rparr>, d)"

definition lucax_open :: "'d libusb \<Rightarrow> 'd host \<Rightarrow> int \<times> 'd host" where
  "lucax_open usb = (\<lambda>(pd, d).
     let (rc, d) = libusb_init usb d
     in if rc < 0 then (-1, pd, d)
        else (let (ok, d) = libusb_open_device_with_vid_pid usb LUCAX_VID LUCAX_PID d
              in if \<not> ok then (-1, pd, d) else (0, pd, d)))"

text \<open>
  The status variable of the initialisation is uninitialised: \<open>junk\<close> is what it holds if the
  transfer does not fill it.
\<close>

definition lucax_init :: "'d libusb \<Rightarrow> avrpart \<Rightarrow> u8 \<Rightarrow> 'd host \<Rightarrow> int \<times> 'd host" where
  "lucax_init usb part junk = (\<lambda>(pd, d).
     let (rc, bs, d) = control_transfer usb USB_DEVICETOHOST HOST_GET_DESCRIPTOR 0 0 [lucax_info pd] d;
         pd = pd\<lparr>lucax_info := bs ! 0\<rparr>
     in if rc < 0 then (-1, pd, d)
        else (let pd = pd\<lparr>lucax_io_mode :=
                (if flags part AND AVRPART_HAS_PDI \<noteq> 0 \<and> lucax_info pd AND LUCAX_HAS_PDI \<noteq> 0
                 then LUCAX_IO_PDI else LUCAX_IO_UNSUPPORTED)\<rparr>
              in if lucax_io_mode pd = LUCAX_IO_PDI
                 then (let pd = (if io_frequency pd < 15 \<or> io_frequency pd > 1000 then pd\<lparr>io_frequency := 250\<rparr> else pd);
                           (rc, bs, d) = control_transfer usb USB_DEVICETOHOST HOST_PDI_INIT (of_int (io_frequency pd)) 0 [junk] d
                       in if rc < 0 then (-1, pd, d) else if bs ! 0 \<noteq> 0 then (-1, pd, d) else (0, pd, d))
                 else (-1, pd, d)))"

definition lucax_close :: "'d libusb \<Rightarrow> 'd host \<Rightarrow> 'd host" where
  "lucax_close usb = (\<lambda>(pd, d).
     let (_, _, d) = control_transfer usb 0 HOST_RELEASE_INTERFACE 0 0 [] d
     in (pd, libusb_exit usb (libusb_close usb d)))"

definition lucax_chip_erase :: "'d libusb \<Rightarrow> u8 \<Rightarrow> 'd \<Rightarrow> int \<times> 'd" where
  "lucax_chip_erase usb junk d =
     (let (_, bs, d) = control_transfer usb USB_DEVICETOHOST HOST_PDI_CHIP_ERASE 0 0 [junk] d
      in (if bs ! 0 \<noteq> 0 then -1 else 0, d))"

text \<open>\<open>khz\<close> is the value of the floating-point expression \<^verbatim>\<open>1/v/1000\<close> as an integer.\<close>

definition lucax_set_sck_period :: "int \<Rightarrow> 'd host \<Rightarrow> int \<times> 'd host" where
  "lucax_set_sck_period khz = (\<lambda>(pd, d). (0, pd\<lparr>io_frequency := khz\<rparr>, d))"

definition lucax_get_error :: "'d libusb \<Rightarrow> u8 \<Rightarrow> 'd \<Rightarrow> int \<times> 'd" where
  "lucax_get_error usb junk d =
     (let (_, bs, d) = control_transfer usb USB_DEVICETOHOST HOST_REPORT_ERROR 0 0 [junk] d in (uint (bs ! 0), d))"

definition lucax_dummy_read :: "'d libusb \<Rightarrow> 'd \<Rightarrow> 'd" where
  "lucax_dummy_read usb d =
     (let (_, _, d) = control_transfer usb USB_HOSTTODEVICE HOST_PDI_NVM_READ 0 2 [0, 1, 2, 4] d;
          (_, _, d) = bulk_in usb LUCAX_IN 2 d
      in d)"

subsection \<open>Addresses\<close>

text \<open>The sum is cut to a 32-bit integer.\<close>

definition host_address :: "avrmem \<Rightarrow> u64 \<Rightarrow> u32" where
  "host_address m addr = ucast (ucast (m_offset m) + addr)"

definition adr_bytes :: "u32 \<Rightarrow> u8 list" where
  "adr_bytes a = [ucast (a AND 0xFF), ucast (drop_bit 8 a AND 0xFF), ucast (drop_bit 16 a AND 0xFF), ucast (drop_bit 24 a AND 0xFF)]"

subsection \<open>Bytes\<close>

definition lucax_read_byte :: "'d libusb \<Rightarrow> avrmem \<Rightarrow> u64 \<Rightarrow> u8 \<Rightarrow> 'd \<Rightarrow> int \<times> u8 \<times> 'd" where
  "lucax_read_byte usb m addr value d =
     (let a = host_address m addr
      in if 0x01000000 \<le> sint a
         then (let (rc, bs, d) = control_transfer usb USB_DEVICETOHOST HOST_PDI_RAW_READ (ucast (a AND 0xFFFF))
                     (ucast (drop_bit 16 a)) [value] d
               in (if rc < 0 then -1 else 0, bs ! 0, d))
         else (let (rc, _, d) = control_transfer usb USB_HOSTTODEVICE HOST_PDI_NVM_READ 0 1 (adr_bytes a) d
               in if rc < 0 then (-1, value, d)
                  else (let (rc, bs, d) = bulk_in usb LUCAX_IN 1 d;
                            value = (if bs = [] then value else bs ! 0)
                        in (if rc < 0 then -1 else if length bs \<noteq> 1 then -1 else 0, value, d))))"

text \<open>
  A name that starts with \<^verbatim>\<open>fuse\<close> fills the array of four characters, and the comparison with the
  literal reads behind it.
\<close>

definition lucax_write_byte :: "'d libusb \<Rightarrow> avrmem \<Rightarrow> u64 \<Rightarrow> u8 \<Rightarrow> 'd \<Rightarrow> (int \<times> 'd) option" where
  "lucax_write_byte usb m addr value d =
     (if m_desc m = ''lock''
      then (let (rc, _, d) = control_transfer usb USB_HOSTTODEVICE HOST_PDI_NVM_WRITE_BYTE (of_int HOST_PDI_LOCK)
                  (ucast value) (adr_bytes (host_address m addr)) d
            in Some (if rc < 0 then -1 else 0, d))
      else if take 4 (m_desc m) = ''fuse'' then None
      else Some (-1, d))"

subsection \<open>Blocks\<close>

text \<open>
  The packets are stored one after the other as they come; an empty one ends the loop as a success.
\<close>

function load_loop :: "'d libusb \<Rightarrow> nat \<Rightarrow> nat \<Rightarrow> nat \<Rightarrow> u8 list \<Rightarrow> 'd \<Rightarrow> (int \<times> u8 list \<times> 'd) option" where
  "load_loop usb baseaddr n_bytes tot b d =
     (if tot < n_bytes
      then (let (rc, bs, d) = bulk_in usb LUCAX_IN 64 d
            in if length b < baseaddr + tot + length bs then None
               else (let b = patch (baseaddr + tot) bs b
                     in if rc < 0 then Some (-1, b, d)
                        else if bs = [] then Some (0, b, d)
                        else load_loop usb baseaddr n_bytes (tot + length bs) b d))
      else Some (0, b, d))"
  by pat_completeness auto
termination by (relation "measure (\<lambda>(_, _, n_bytes, tot, _, _). n_bytes - tot)") (auto intro!: diff_less_mono2)

declare load_loop.simps [simp del]

text \<open>The number of bytes goes into a 16-bit field.\<close>

definition lucax_paged_load :: "'d libusb \<Rightarrow> avrmem \<Rightarrow> nat \<Rightarrow> nat \<Rightarrow> 'd \<Rightarrow> (int \<times> u8 list \<times> 'd) option" where
  "lucax_paged_load usb m baseaddr n_bytes d =
     (let (rc, _, d) = control_transfer usb USB_HOSTTODEVICE HOST_PDI_NVM_READ 0 (of_nat n_bytes)
            (adr_bytes (host_address m (of_nat baseaddr))) d
      in if rc < 0 then Some (-1, buf m, d) else load_loop usb baseaddr n_bytes 0 (buf m) d)"

function store_loop :: "'d libusb \<Rightarrow> u8 list \<Rightarrow> nat \<Rightarrow> nat \<Rightarrow> nat \<Rightarrow> 'd \<Rightarrow> (int \<times> 'd) option" where
  "store_loop usb b addr n_bytes tot d =
     (if tot < n_bytes
      then (let len = (if n_bytes - tot > 64 then 64 else n_bytes - tot)
            in if length b < addr + tot + len then None
               else (let (rc, actual, d) = bulk_out usb LUCAX_OUT (take len (drop (addr + tot) b)) d
                     in if rc < 0 then Some (-1, d)
                        else if actual = 0 then Some (0, d)
                        else store_loop usb b addr n_bytes (tot + actual) d))
      else Some (0, d))"
  by pat_completeness auto
termination by (relation "measure (\<lambda>(_, _, _, n_bytes, tot, _). n_bytes - tot)") auto

declare store_loop.simps [simp del]

definition lucax_paged_write :: "'d libusb \<Rightarrow> avrmem \<Rightarrow> nat \<Rightarrow> nat \<Rightarrow> 'd \<Rightarrow> (int \<times> 'd) option" where
  "lucax_paged_write usb m addr n_bytes d =
     (if m_desc m \<noteq> ''flash'' \<and> m_desc m \<noteq> ''eeprom'' then Some (-1, d)
      else (let mem = (if m_desc m = ''flash'' then HOST_PDI_FLASH else HOST_PDI_EEPROM);
                (rc, _, d) = control_transfer usb USB_HOSTTODEVICE HOST_PDI_NVM_WRITE_PAGE (of_int mem) (of_nat n_bytes)
                  (adr_bytes (host_address m (of_nat addr))) d
            in if rc < 0 then Some (-1, d) else store_loop usb (buf m) addr n_bytes 0 d))"

end
