(* ===== verification/Hw.thy ===== *)
theory Hw
  imports Prelude
begin

text \<open>
  The microcontroller as the firmware sees it: memory-mapped registers. A volatile read returns
  whatever the hardware chooses; the hardware is a parameter \<open>env\<close> of every definition that
  reads a register, a function from everything that happened so far to the value read. The state
  records what happened (register reads and writes and the calibrated delays) in order.
\<close>

datatype reg =
    UBRR1 | UCSR1A | UCSR1B | UCSR1C | UDR1 | PORTD | DDRD
  | UENUM | UEINTX | UEDATX | UECONX | UECFG0X | UECFG1X | UEIENX | UESTA0X | UEBCHX | UEBCLX
  | UDFNUML | UDFNUMH | USB_STATE | UDADDR | UERST | SREG | SIGROW u8
  | USBCON | USBSTA | USBINT | UDCON | UDINT | UDIEN | PLLCSR | PLLFRQ | UHWCON

datatype io = Rd reg | Wr reg u8 | Wr16 reg u16 | DelayUs nat | DelayMs nat

type_synonym env = "io list \<Rightarrow> reg \<Rightarrow> u8"

record hw =
  trace :: "io list"

definition emit :: "io \<Rightarrow> 'a hw_scheme \<Rightarrow> 'a hw_scheme" where
  "emit e s = s\<lparr>trace := trace s @ [e]\<rparr>"

definition rd :: "env \<Rightarrow> reg \<Rightarrow> 'a hw_scheme \<Rightarrow> u8 \<times> 'a hw_scheme" where
  "rd env r s = (env (trace s) r, emit (Rd r) s)"

definition wr :: "reg \<Rightarrow> u8 \<Rightarrow> 'a hw_scheme \<Rightarrow> 'a hw_scheme" where
  "wr r v s = emit (Wr r v) s"

definition delay_us :: "nat \<Rightarrow> 'a hw_scheme \<Rightarrow> 'a hw_scheme" where
  "delay_us n s = emit (DelayUs n) s"

definition delay_ms :: "nat \<Rightarrow> 'a hw_scheme \<Rightarrow> 'a hw_scheme" where
  "delay_ms n s = emit (DelayMs n) s"

text \<open>Read, modify, write: \<^verbatim>\<open>r |= m\<close> and \<^verbatim>\<open>r &= ~m\<close>.\<close>

definition set_bits :: "env \<Rightarrow> reg \<Rightarrow> u8 \<Rightarrow> 'a hw_scheme \<Rightarrow> 'a hw_scheme" where
  "set_bits env r m s = (let (v, s) = rd env r s in wr r (v OR m) s)"

definition clear_bits :: "env \<Rightarrow> reg \<Rightarrow> u8 \<Rightarrow> 'a hw_scheme \<Rightarrow> 'a hw_scheme" where
  "clear_bits env r m s = (let (v, s) = rd env r s in wr r (v AND NOT m) s)"

text \<open>\<^verbatim>\<open>while (!(r & m));\<close>\<close>

partial_function (option) wait_set :: "env \<Rightarrow> reg \<Rightarrow> u8 \<Rightarrow> 'a hw_scheme \<Rightarrow> 'a hw_scheme option" where
  "wait_set env r m s =
     (if fst (rd env r s) AND m = 0 then wait_set env r m (snd (rd env r s))
      else Some (snd (rd env r s)))"

lemmas hw_defs = emit_def rd_def wr_def delay_us_def delay_ms_def set_bits_def clear_bits_def

subsection \<open>Traces\<close>

text \<open>The values written to one register, oldest first.\<close>

fun writes :: "reg \<Rightarrow> io list \<Rightarrow> u8 list" where
  "writes r [] = []"
| "writes r (Wr r' v # es) = (if r' = r then v # writes r es else writes r es)"
| "writes r (e # es) = writes r es"

text \<open>How often a register was read.\<close>

fun reads :: "reg \<Rightarrow> io list \<Rightarrow> nat" where
  "reads r [] = 0"
| "reads r (Rd r' # es) = (if r' = r then Suc (reads r es) else reads r es)"
| "reads r (e # es) = reads r es"

lemma writes_append [simp]: "writes r (xs @ ys) = writes r xs @ writes r ys"
  by (induction r xs rule: writes.induct) simp_all

lemma reads_append [simp]: "reads r (xs @ ys) = reads r xs + reads r ys"
  by (induction r xs rule: reads.induct) simp_all

lemma writes_replicate_Rd [simp]: "writes r (replicate n (Rd r')) = []"
  by (induction n) simp_all

lemma writes_replicate_DelayUs [simp]: "writes r (replicate n (DelayUs d)) = []"
  by (induction n) simp_all

lemma reads_replicate_Rd [simp]: "reads r (replicate n (Rd r')) = (if r' = r then n else 0)"
  by (induction n) (simp_all split: if_splits)

lemma reads_replicate_DelayUs [simp]: "reads r (replicate n (DelayUs d)) = 0"
  by (induction n) simp_all

subsection \<open>The history of the USB endpoints\<close>

text \<open>
  The accesses that move data through the endpoints, each with everything that happened before it:
  the selection of an endpoint, the writes to the endpoint's flags and the accesses to its bank.
\<close>

type_synonym usb_history = "(io list \<times> io) list"

definition usb_event :: "io \<Rightarrow> bool" where
  "usb_event e = (case e of
     Wr r v \<Rightarrow> r = UENUM \<or> r = UEINTX \<or> r = UEDATX | Rd r \<Rightarrow> r = UEDATX | _ \<Rightarrow> False)"

fun usb_events :: "io list \<Rightarrow> io list \<Rightarrow> usb_history" where
  "usb_events tr [] = []"
| "usb_events tr (e # es) = (if usb_event e then [(tr, e)] else []) @ usb_events (tr @ [e]) es"

lemma usb_event_simps [simp]:
  "usb_event (Rd r) \<longleftrightarrow> r = UEDATX" "usb_event (Wr r v) \<longleftrightarrow> r = UENUM \<or> r = UEINTX \<or> r = UEDATX"
  "\<not> usb_event (Wr16 r w)" "\<not> usb_event (DelayUs n)" "\<not> usb_event (DelayMs n)"
  by (simp_all add: usb_event_def)

lemma usb_events_append: "usb_events tr (xs @ ys) = usb_events tr xs @ usb_events (tr @ xs) ys"
  by (induction tr xs rule: usb_events.induct) simp_all

lemma usb_events_silent: "(\<And>e. e \<in> set es \<Longrightarrow> \<not> usb_event e) \<Longrightarrow> usb_events tr es = []"
  by (induction tr es rule: usb_events.induct) simp_all

lemma usb_events_replicate [simp]: "\<not> usb_event e \<Longrightarrow> usb_events tr (replicate n e) = []"
  by (rule usb_events_silent) simp

subsection \<open>Busy-waits\<close>

text \<open>
  A flag shows up under polling if, whatever happened before, finitely many reads of its
  register reach one that has it set. This is what the data sheet promises for a ready flag.
\<close>

definition shows_up :: "env \<Rightarrow> reg \<Rightarrow> u8 \<Rightarrow> bool" where
  "shows_up env r m \<longleftrightarrow> (\<forall>tr. \<exists>n. env (tr @ replicate n (Rd r)) r AND m \<noteq> 0)"

lemma emit_simps [simp]:
  "trace (emit e s) = trace s @ [e]" "hw.more (emit e s) = hw.more s"
  by (simp_all add: emit_def)

lemma wait_set_reads:
  assumes "(env :: env) (trace s @ replicate n (Rd r)) r AND m \<noteq> 0"
  shows "\<exists>k s'. wait_set env r m s = Some s' \<and> trace s' = trace s @ replicate (Suc k) (Rd r)
     \<and> hw.more s' = hw.more s"
  using assms
proof (induction n arbitrary: s)
  case 0
  then have "wait_set env r m s = Some (emit (Rd r) s)"
    by (subst wait_set.simps) (simp add: rd_def)
  then show ?case by (intro exI [of _ 0]) simp
next
  case (Suc n)
  show ?case
  proof (cases "env (trace s) r AND m = 0")
    case False
    then have "wait_set env r m s = Some (emit (Rd r) s)"
      by (subst wait_set.simps) (simp add: rd_def)
    then show ?thesis by (intro exI [of _ 0]) simp
  next
    case True
    then have step: "wait_set env r m s = wait_set env r m (emit (Rd r) s)"
      by (subst wait_set.simps) (simp add: rd_def)
    have "env (trace (emit (Rd r) s) @ replicate n (Rd r)) r AND m \<noteq> 0"
      using Suc.prems by simp
    from Suc.IH [where s = "emit (Rd r) s", OF this] obtain k s' where
      "wait_set env r m (emit (Rd r) s) = Some s'"
      "trace s' = trace (emit (Rd r) s) @ replicate (Suc k) (Rd r)"
      "hw.more s' = hw.more (emit (Rd r) s)" by blast
    then show ?thesis by (intro exI [of _ "Suc k"]) (simp add: step)
  qed
qed

lemma wait_set_wp:
  assumes "shows_up env r m"
  shows "wp (wait_set env r m s)
    (\<lambda>s'. \<exists>k. trace s' = trace s @ replicate (Suc k) (Rd r) \<and> hw.more s' = hw.more s)"
proof -
  obtain n where "env (trace s @ replicate n (Rd r)) r AND m \<noteq> 0"
    using assms unfolding shows_up_def by blast
  from wait_set_reads [where env = env and r = r and m = m and s = s and n = n, OF this] show ?thesis by (auto simp: wp_ex)
qed

end
