(* ===== verification/Usart.thy ===== *)
theory Usart
  imports Hw
begin

text \<open>
  The USART driver of the firmware, \<^verbatim>\<open>src/driver/usart.c\<close>: the direction of the half-duplex
  line, sending a byte, receiving a byte with a bounded wait.
\<close>

subsection \<open>State and registers\<close>

datatype usart_state = UTX | URX

record usart = hw +
  ustate :: usart_state
  pending :: u8

definition TXEN1 :: u8 where "TXEN1 = 0x08"
definition RXEN1 :: u8 where "RXEN1 = 0x10"
definition UDRE1 :: u8 where "UDRE1 = 0x20"
definition TXC1 :: u8 where "TXC1 = 0x40"
definition RXC1 :: u8 where "RXC1 = 0x80"

text \<open>UMSEL10, UPM11, USBS1, UCSZ11, UCSZ10 and the clock polarity bit.\<close>

definition UCSR1C_mode :: u8 where "UCSR1C_mode = 0x40 OR 0x20 OR 0x08 OR 0x04 OR 0x02 OR 0x01"

subsection \<open>Operations\<close>

definition usart_setup :: "u16 \<Rightarrow> 'a usart_scheme \<Rightarrow> 'a usart_scheme" where
  "usart_setup ubrr s =
     (let s = emit (Wr16 UBRR1 ((ubrr AND 0xFFFF) - 1)) s
      in wr UCSR1C UCSR1C_mode s)"

definition usart_tx_mode :: "'a usart_scheme \<Rightarrow> 'a usart_scheme" where
  "usart_tx_mode s = (wr UCSR1B TXEN1 s)\<lparr>ustate := UTX, pending := 0\<rparr>"

definition usart_rx_mode :: "'a usart_scheme \<Rightarrow> 'a usart_scheme" where
  "usart_rx_mode s = (wr UCSR1B RXEN1 s)\<lparr>ustate := URX\<rparr>"

definition usart_disconnect :: "'a usart_scheme \<Rightarrow> 'a usart_scheme" where
  "usart_disconnect s = wr UCSR1B 0 s"

definition send_byte :: "env \<Rightarrow> u8 \<Rightarrow> 'a usart_scheme \<Rightarrow> 'a usart_scheme option" where
  "send_byte env data s = do {
     let s = (if ustate s = URX then usart_tx_mode s else s);
     s \<leftarrow> wait_set env UCSR1A UDRE1 s;
     let s = wr UDR1 data s;
     let s = set_bits env UCSR1A TXC1 s;
     Some (s\<lparr>pending := 1\<rparr>)
   }"

text \<open>
  The wait for a received byte: \<open>retry\<close> counts down from 250, and the flag is looked at
  before each decrement.
\<close>

fun rx_poll :: "env \<Rightarrow> nat \<Rightarrow> 'a usart_scheme \<Rightarrow> bool \<times> 'a usart_scheme" where
  "rx_poll env retry s =
     (let (v, s) = rd env UCSR1A s in
      if v AND RXC1 \<noteq> 0 then (True, s)
      else (let s = delay_us 15 s in
            if retry - 1 = 0 then (False, s) else rx_poll env (retry - 1) s))"

declare rx_poll.simps [simp del]

text \<open>
  \<^verbatim>\<open>*data\<close> is the last argument and part of the result: it keeps its value when the wait
  times out.
\<close>

definition read_byte :: "env \<Rightarrow> u8 \<Rightarrow> 'a usart_scheme \<Rightarrow> ((u8 \<times> u8) \<times> 'a usart_scheme) option" where
  "read_byte env data s = do {
     s \<leftarrow> (if ustate s = UTX then do {
              s \<leftarrow> wait_set env UCSR1A TXC1 s;
              Some ((usart_rx_mode s)\<lparr>pending := 0\<rparr>)
            } else Some s);
     let (ready, s) = rx_poll env 250 s;
     if \<not> ready then Some ((1, data), s)
     else (let (v, s) = rd env UDR1 s in Some ((0, v), s))
   }"

definition usart_wait_tx :: "env \<Rightarrow> 'a usart_scheme \<Rightarrow> 'a usart_scheme option" where
  "usart_wait_tx env s =
     (if ustate s = UTX \<and> pending s = 1 then do {
        s \<leftarrow> wait_set env UCSR1A TXC1 s;
        Some (s\<lparr>pending := 0\<rparr>)
      } else Some s)"

subsection \<open>Observations\<close>

text \<open>The bytes put on the line and the number of bytes taken from it.\<close>

definition tx :: "'a hw_scheme \<Rightarrow> u8 list" where
  "tx s = writes UDR1 (trace s)"

definition rx_count :: "'a hw_scheme \<Rightarrow> nat" where
  "rx_count s = reads UDR1 (trace s)"

text \<open>What was done to the USB endpoints.\<close>

definition ep :: "'a hw_scheme \<Rightarrow> usb_history" where
  "ep s = usb_events [] (trace s)"

lemma ep_emit: "ep (emit e s) = ep s @ (if usb_event e then [(trace s, e)] else [])"
  by (simp add: ep_def usb_events_append)

text \<open>
  The transmitter-enable bit last written, against the direction the driver believes in:
  the invariant of the driver.
\<close>

definition usart_inv :: "'a usart_scheme \<Rightarrow> bool" where
  "usart_inv s \<longleftrightarrow> writes UCSR1B (trace s) \<noteq> [] \<and>
     last (writes UCSR1B (trace s)) = (if ustate s = UTX then TXEN1 else RXEN1)"

text \<open>The data sheet: while transmitting, data-register-empty and transmit-complete come up.\<close>

definition tx_live :: "env \<Rightarrow> bool" where
  "tx_live env \<longleftrightarrow> shows_up env UCSR1A UDRE1 \<and> shows_up env UCSR1A TXC1"

lemma tx_live_UDRE1 [simp]: "tx_live env \<Longrightarrow> shows_up env UCSR1A UDRE1"
  and tx_live_TXC1 [simp]: "tx_live env \<Longrightarrow> shows_up env UCSR1A TXC1"
  by (simp_all add: tx_live_def)

lemma more_eq_ustate: "hw.more s' = hw.more s \<Longrightarrow> ustate s' = ustate s"
  by (cases s; cases s') simp

lemma more_eq_pending: "hw.more s' = hw.more s \<Longrightarrow> pending s' = pending s"
  by (cases s; cases s') simp

lemma more_eq_more: "hw.more s' = hw.more s \<Longrightarrow> usart.more s' = usart.more s"
  by (cases s; cases s') simp

lemmas more_eq = more_eq_ustate more_eq_pending more_eq_more

subsection \<open>Sending\<close>

text \<open>
  \<open>sent bs s s'\<close>: from \<open>s\<close> to \<open>s'\<close> exactly the bytes \<open>bs\<close> went out, none came in, the line
  ends in transmit direction, and the layers above the driver are untouched.
\<close>

definition sent :: "u8 list \<Rightarrow> 'a usart_scheme \<Rightarrow> 'a usart_scheme \<Rightarrow> bool" where
  "sent bs s s' \<longleftrightarrow> tx s' = tx s @ bs \<and> rx_count s' = rx_count s \<and> ep s' = ep s \<and> ustate s' = UTX
     \<and> usart.more s' = usart.more s \<and> usart_inv s'"

lemma sent_trans: "sent bs s s' \<Longrightarrow> sent cs s' s'' \<Longrightarrow> sent (bs @ cs) s s''"
  by (simp add: sent_def)

lemma wr_simps [simp]:
  "trace (wr r v s) = trace s @ [Wr r v]" "hw.more (wr r v s) = hw.more s"
  by (simp_all add: wr_def)

lemma set_bits_simps [simp]:
  "trace (set_bits env r m s) = trace s @ [Rd r, Wr r (env (trace s) r OR m)]"
  "hw.more (set_bits env r m s) = hw.more s"
  by (simp_all add: set_bits_def rd_def)

lemma clear_bits_simps [simp]:
  "trace (clear_bits env r m s) = trace s @ [Rd r, Wr r (env (trace s) r AND NOT m)]"
  "hw.more (clear_bits env r m s) = hw.more s"
  by (simp_all add: clear_bits_def rd_def)

lemma delay_us_simps [simp]:
  "trace (delay_us n s) = trace s @ [DelayUs n]" "hw.more (delay_us n s) = hw.more s"
  by (simp_all add: delay_us_def)

lemma delay_ms_simps [simp]:
  "trace (delay_ms n s) = trace s @ [DelayMs n]" "hw.more (delay_ms n s) = hw.more s"
  by (simp_all add: delay_ms_def)

lemmas hw_more_simps = wr_simps(2) set_bits_simps(2) clear_bits_simps(2) delay_us_simps(2)
  delay_ms_simps(2) emit_simps(2)

lemmas usart_more_simps [simp] = hw_more_simps [THEN more_eq_ustate] hw_more_simps [THEN more_eq_pending]
  hw_more_simps [THEN more_eq_more]

lemma tx_mode_simps [simp]:
  "trace (usart_tx_mode s) = trace s @ [Wr UCSR1B TXEN1]" "ustate (usart_tx_mode s) = UTX"
  "pending (usart_tx_mode s) = 0" "usart.more (usart_tx_mode s) = usart.more s"
  by (simp_all add: usart_tx_mode_def)

lemma rx_mode_simps [simp]:
  "trace (usart_rx_mode s) = trace s @ [Wr UCSR1B RXEN1]" "ustate (usart_rx_mode s) = URX"
  "pending (usart_rx_mode s) = pending s" "usart.more (usart_rx_mode s) = usart.more s"
  by (simp_all add: usart_rx_mode_def)

lemma wait_set_usart:
  assumes "shows_up env r m" and "\<And>s' k. trace s' = trace s @ replicate (Suc k) (Rd r) \<Longrightarrow>
     ustate s' = ustate s \<Longrightarrow> pending s' = pending s \<Longrightarrow> usart.more s' = usart.more s \<Longrightarrow> Q s'"
  shows "wp (wait_set env r m s) Q"
  by (rule wp_conseq [OF wait_set_wp [OF assms(1)]]) (auto intro: assms(2) dest: more_eq)

lemma not_URX [simp]: "u \<noteq> URX \<longleftrightarrow> u = UTX"
  by (cases u) simp_all

lemma not_UTX [simp]: "u \<noteq> UTX \<longleftrightarrow> u = URX"
  by (cases u) simp_all

lemma send_byte_wp:
  assumes "tx_live env" and "usart_inv s"
  shows "wp (send_byte env b s) (\<lambda>s'. sent [b] s s' \<and> pending s' = 1)"
  using assms unfolding send_byte_def
  by (auto simp: Let_def sent_def tx_def rx_count_def ep_def usb_events_append usart_inv_def intro!: wait_set_usart)

lemma usart_wait_tx_wp:
  assumes "tx_live env"
  shows "wp (usart_wait_tx env s) (\<lambda>s'. tx s' = tx s \<and> rx_count s' = rx_count s \<and> ep s' = ep s
    \<and> ustate s' = ustate s \<and> usart.more s' = usart.more s \<and> (usart_inv s \<longrightarrow> usart_inv s'))"
  using assms unfolding usart_wait_tx_def
  by (auto simp: tx_def rx_count_def ep_def usb_events_append usart_inv_def intro!: wait_set_usart)

subsection \<open>Receiving\<close>

text \<open>The polling trace of the receive loop: \<open>n\<close> looks at the flag that did not see it.\<close>

definition rx_waits :: "nat \<Rightarrow> io list" where
  "rx_waits n = concat (replicate n [Rd UCSR1A, DelayUs 15])"

lemma rx_waits_simps [simp]:
  "rx_waits 0 = []" "rx_waits (Suc n) = Rd UCSR1A # DelayUs 15 # rx_waits n"
  by (simp_all add: rx_waits_def)

lemma writes_rx_waits [simp]: "writes r (rx_waits n) = []"
  by (induction n) simp_all

lemma reads_rx_waits [simp]: "r \<noteq> UCSR1A \<Longrightarrow> reads r (rx_waits n) = 0"
  by (induction n) auto

lemma usb_events_rx_waits [simp]: "usb_events tr (rx_waits n) = []"
  by (rule usb_events_silent) (induction n, auto)

lemma rx_poll_trace:
  assumes "0 < n" and "rx_poll env n s = (b, s')"
  shows "hw.more s' = hw.more s \<and> (\<exists>k. k \<le> n \<and>
    trace s' = trace s @ (if b then rx_waits k @ [Rd UCSR1A] else rx_waits n) \<and> (b \<longrightarrow> k < n))"
  using assms
proof (induction env n s arbitrary: b s' rule: rx_poll.induct)
  case (1 env n s)
  let ?s1 = "emit (Rd UCSR1A) s" and ?s2 = "delay_us 15 (emit (Rd UCSR1A) s)"
  consider (set) "env (trace s) UCSR1A AND RXC1 \<noteq> 0"
    | (last) "env (trace s) UCSR1A AND RXC1 = 0" "n = 1"
    | (more) "env (trace s) UCSR1A AND RXC1 = 0" "1 < n"
    using "1.prems"(1) by linarith
  then show ?case
  proof cases
    case set
    with "1.prems" have "b" "s' = ?s1"
      by (simp_all add: rx_poll.simps [of env n s] rd_def)
    with "1.prems" show ?thesis by (intro conjI exI [of _ 0]) simp_all
  next
    case last
    with "1.prems" have "\<not> b" "s' = ?s2"
      by (simp_all add: rx_poll.simps [of env "Suc 0" s] rd_def)
    with last show ?thesis by (intro conjI exI [of _ 0]) simp_all
  next
    case more
    with "1.prems" have rec: "rx_poll env (n - 1) ?s2 = (b, s')"
      by (simp add: rx_poll.simps [of env n s] rd_def)
    with more have "hw.more s' = hw.more ?s2 \<and> (\<exists>k \<le> n - 1. trace s' = trace ?s2 @
        (if b then rx_waits k @ [Rd UCSR1A] else rx_waits (n - 1)) \<and> (b \<longrightarrow> k < n - 1))"
      by (intro "1.IH") (auto simp: rd_def)
    then obtain k where "hw.more s' = hw.more s" "k \<le> n - 1" "b \<longrightarrow> k < n - 1"
      and tr: "trace s' = trace s @ [Rd UCSR1A, DelayUs 15] @
        (if b then rx_waits k @ [Rd UCSR1A] else rx_waits (n - 1))"
      by auto
    moreover have "rx_waits n = Rd UCSR1A # DelayUs 15 # rx_waits (n - 1)"
      using more by (cases n) simp_all
    ultimately show ?thesis
      using more by (intro conjI exI [of _ "Suc k"]) auto
  qed
qed

text \<open>A received byte shows up within the 250 looks the driver takes.\<close>

definition rx_live :: "env \<Rightarrow> bool" where
  "rx_live env \<longleftrightarrow> (\<forall>tr. \<exists>n < 250. env (tr @ rx_waits n) UCSR1A AND RXC1 \<noteq> 0)"

lemma rx_poll_ready:
  assumes "env (trace s @ rx_waits k) UCSR1A AND RXC1 \<noteq> 0" and "k < n"
  shows "fst (rx_poll env n s)"
  using assms
proof (induction k arbitrary: n s)
  case 0
  then show ?case by (subst rx_poll.simps) (simp add: rd_def)
next
  case (Suc k)
  let ?s2 = "delay_us 15 (emit (Rd UCSR1A) s)"
  have "fst (rx_poll env (n - 1) ?s2)"
    using Suc.prems by (intro Suc.IH) simp_all
  then show ?case
    using Suc.prems(2) by (subst rx_poll.simps) (simp add: rd_def)
qed

text \<open>
  The byte the hardware delivers next, as a function of the bytes sent and of how many were
  taken before: what the far end of the line answers.
\<close>

definition answers :: "env \<Rightarrow> (u8 list \<Rightarrow> nat \<Rightarrow> u8) \<Rightarrow> bool" where
  "answers env resp \<longleftrightarrow> (\<forall>tr. env tr UDR1 = resp (writes UDR1 tr) (reads UDR1 tr))"

text \<open>\<open>got n s s'\<close>: \<open>n\<close> bytes came in, none went out, the line is in receive direction.\<close>

definition got :: "nat \<Rightarrow> 'a usart_scheme \<Rightarrow> 'a usart_scheme \<Rightarrow> bool" where
  "got n s s' \<longleftrightarrow> tx s' = tx s \<and> rx_count s' = rx_count s + n \<and> ep s' = ep s \<and> ustate s' = URX
     \<and> usart.more s' = usart.more s \<and> usart_inv s'"

lemma got_trans: "got m s s' \<Longrightarrow> got n s' s'' \<Longrightarrow> got (m + n) s s''"
  by (simp add: got_def)

lemma turnaround_wp:
  assumes "tx_live env" and "usart_inv s"
  shows "wp (if ustate s = UTX then do {
              s \<leftarrow> wait_set env UCSR1A TXC1 s;
              Some ((usart_rx_mode s)\<lparr>pending := 0\<rparr>)
            } else Some s) (got 0 s)"
  using assms
  by (auto simp: got_def tx_def rx_count_def ep_def usb_events_append usart_inv_def intro!: wait_set_usart)

lemma read_byte_wp:
  assumes "tx_live env" and "usart_inv s"
  shows "wp (read_byte env d s) (\<lambda>((rc, v), s').
     (rc = 0 \<and> got 1 s s' \<or> rc = 1 \<and> v = d \<and> got 0 s s')
     \<and> (answers env resp \<longrightarrow> rc = 0 \<longrightarrow> v = resp (tx s) (rx_count s))
     \<and> (rx_live env \<longrightarrow> rc = 0))"
proof -
  have poll: "case rx_poll env 250 s1 of (b, s2) \<Rightarrow>
      got 0 s s2 \<and> (rx_live env \<longrightarrow> b)"
    if "got 0 s s1" for s1
  proof -
    obtain b s2 where r: "rx_poll env 250 s1 = (b, s2)" by fastforce
    from rx_poll_trace [OF _ r] obtain k where more: "hw.more s2 = hw.more s1"
      and "trace s2 = trace s1 @ (if b then rx_waits k @ [Rd UCSR1A] else rx_waits 250)" by auto
    with that have "got 0 s s2"
      using more_eq [OF more] by (auto simp: got_def tx_def rx_count_def ep_def usb_events_append usart_inv_def)
    moreover have "b" if "rx_live env"
      using that rx_poll_ready [of env s1 _ 250] r unfolding rx_live_def by fastforce
    ultimately show ?thesis using r by simp
  qed
  show ?thesis
    unfolding read_byte_def
    apply (simp only: wp_bind)
    apply (rule wp_conseq [OF turnaround_wp [OF assms]])
    apply (drule poll)
    apply (auto simp: rd_def got_def tx_def rx_count_def ep_def usb_events_append usart_inv_def answers_def Let_def
        split: prod.splits dest: more_eq)
    done
qed

subsection \<open>A line whose far end answers at once\<close>

definition ready_env :: "(u8 list \<Rightarrow> nat \<Rightarrow> u8) \<Rightarrow> env" where
  "ready_env resp tr r = (if r = UDR1 then resp (writes UDR1 tr) (reads UDR1 tr) else 0xFF)"

lemma ready_env_live [simp]:
  "tx_live (ready_env resp)" "rx_live (ready_env resp)" "answers (ready_env resp) resp"
  by (auto simp: tx_live_def shows_up_def rx_live_def answers_def ready_env_def UDRE1_def TXC1_def
      RXC1_def intro: exI [of _ 0])

text \<open>The receive operation of the serial driver always ends, whatever the hardware does once
  the transmitter works: it turns the line around, then either takes exactly one byte and reports
  0, or takes none, reports 1 and leaves the caller's variable alone, which cannot happen on a line
  that delivers within the 250 looks. A byte it reports is the one the far end answers, and the
  direction the driver believes in stays the one the hardware is set to.\<close>

theorem read_byte_outcome:
  assumes "tx_live env" and "usart_inv s"
  shows "\<exists>rc v s'. read_byte env d s = Some ((rc, v), s')
     \<and> usart_inv s' \<and> ustate s' = URX \<and> tx s' = tx s
     \<and> (rc = 0 \<and> rx_count s' = rx_count s + 1 \<or> rc = 1 \<and> v = d \<and> rx_count s' = rx_count s)
     \<and> (rx_live env \<longrightarrow> rc = 0)
     \<and> (answers env resp \<longrightarrow> rc = 0 \<longrightarrow> v = resp (tx s) (rx_count s))"
  using read_byte_wp [OF assms, of d resp] by (auto simp: wp_ex got_def)

definition usart_tx_state :: usart where
  "usart_tx_state = \<lparr>trace = [Wr UCSR1B TXEN1], ustate = UTX, pending = 0\<rparr>"

lemma usart_tx_state_inv [simp]: "usart_inv usart_tx_state"
  by (simp add: usart_tx_state_def usart_inv_def)

theorem read_byte_outcome_witness:
  "\<exists>rc v s'. read_byte (ready_env (\<lambda>bs n. 0x5A)) 7 usart_tx_state = Some ((rc, v), s') \<and> rc = 0 \<and> v = 0x5A"
proof -
  let ?resp = "\<lambda>(bs :: u8 list) (n :: nat). 0x5A :: u8"
  have "rx_live (ready_env ?resp)" "answers (ready_env ?resp) ?resp" by simp_all
  with read_byte_outcome [OF ready_env_live(1) usart_tx_state_inv, of ?resp 7 ?resp]
  show ?thesis by blast
qed

end
