(* ===== verification/Pdi.thy ===== *)
theory Pdi
  imports Usart
begin

text \<open>
  The PDI link layer of the firmware, \<^verbatim>\<open>src/driver/pdi_physical.c\<close> with the constants of
  \<^verbatim>\<open>pdi_const.h\<close> and \<^verbatim>\<open>pdi_physical.h\<close>: entering and leaving programming mode, single-byte and
  block transfers to the PDI address space of the target.
\<close>

subsection \<open>Constants and state\<close>

datatype pdi_result = NO_ERROR | PDI_DISABLED | TIME_OUT | INVALID_ADDRESS

fun pdi_code :: "pdi_result \<Rightarrow> u8" where
  "pdi_code NO_ERROR = 0"
| "pdi_code PDI_DISABLED = 1"
| "pdi_code TIME_OUT = 2"
| "pdi_code INVALID_ADDRESS = 3"

definition PDI_LOAD_DIRECT :: u8 where "PDI_LOAD_DIRECT = 0x00"
definition PDI_STORE_DIRECT :: u8 where "PDI_STORE_DIRECT = 0x40"
definition PDI_LOAD_INDIRECT :: u8 where "PDI_LOAD_INDIRECT = 0x20"
definition PDI_STORE_INDIRECT :: u8 where "PDI_STORE_INDIRECT = 0x60"
definition PDI_LOAD_CONTROL_REG :: u8 where "PDI_LOAD_CONTROL_REG = 0x80"
definition PDI_STORE_CONTROL_REG :: u8 where "PDI_STORE_CONTROL_REG = 0xC0"
definition PDI_REPEAT :: u8 where "PDI_REPEAT = 0xA0"
definition PDI_KEY :: u8 where "PDI_KEY = 0xE0"
definition PDI_STATUS_REG :: u8 where "PDI_STATUS_REG = 0x00"
definition NVMEN_MASK :: u8 where "NVMEN_MASK = 0x02"
definition PDI_RESET_REG :: u8 where "PDI_RESET_REG = 0x01"
definition PDI_CTRL_REG :: u8 where "PDI_CTRL_REG = 0x02"
definition PDI_RESET_SIGNATURE :: u8 where "PDI_RESET_SIGNATURE = 0x59"
definition LONG :: u8 where "LONG = 0x03"
definition WORD :: u8 where "WORD = 0x01"
definition BYTE :: u8 where "BYTE = 0x00"
definition PTR :: u8 where "PTR = 0x02"
definition PTR_DATA_INC :: u8 where "PTR_DATA_INC = 0x01"

lemmas pdi_consts = PDI_LOAD_DIRECT_def PDI_STORE_DIRECT_def PDI_LOAD_INDIRECT_def
  PDI_STORE_INDIRECT_def PDI_LOAD_CONTROL_REG_def PDI_STORE_CONTROL_REG_def PDI_REPEAT_def
  PDI_KEY_def PDI_STATUS_REG_def NVMEN_MASK_def PDI_RESET_REG_def PDI_CTRL_REG_def
  PDI_RESET_SIGNATURE_def LONG_def WORD_def BYTE_def PTR_def PTR_DATA_INC_def

text \<open>The pins CLK (PD5), TX (PD3) and RX (PD2) of port D, as masks.\<close>

definition CLK :: u8 where "CLK = 0x20"
definition TX :: u8 where "TX = 0x08"
definition RX :: u8 where "RX = 0x04"

record pdi = usart +
  pdi_on :: u8
  char_us :: u16

subsection \<open>Line conditions\<close>

text \<open>
  \<^verbatim>\<open>for (c = 0; c < char_us; c += 10) _delay_us(9);\<close> on 16-bit unsigned integers: it ends only
  if \<open>c\<close> does not wrap.
\<close>

partial_function (option) char_wait :: "u16 \<Rightarrow> 'a pdi_scheme \<Rightarrow> 'a pdi_scheme option" where
  "char_wait c s = (if c < char_us s then char_wait (c + 10) (delay_us 9 s) else Some s)"

definition send_break :: "env \<Rightarrow> 'a pdi_scheme \<Rightarrow> 'a pdi_scheme option" where
  "send_break env s = do {
     let s = set_bits env DDRD TX s;
     let s = usart_rx_mode s;
     s \<leftarrow> char_wait 0 s;
     let s = clear_bits env DDRD TX s;
     Some (usart_tx_mode s)
   }"

definition send_idle :: "env \<Rightarrow> 'a pdi_scheme \<Rightarrow> 'a pdi_scheme option" where
  "send_idle env s = do {
     s \<leftarrow> usart_wait_tx env s;
     let s = usart_tx_mode s;
     char_wait 0 s
   }"

fun send_idles :: "env \<Rightarrow> nat \<Rightarrow> 'a pdi_scheme \<Rightarrow> 'a pdi_scheme option" where
  "send_idles env 0 s = Some s"
| "send_idles env (Suc n) s = do { s \<leftarrow> send_idle env s; send_idles env n s }"

definition pin_default_state :: "env \<Rightarrow> 'a pdi_scheme \<Rightarrow> 'a pdi_scheme" where
  "pin_default_state env s =
     (let s = clear_bits env PORTD (TX OR RX OR CLK) s;
          s = clear_bits env DDRD (RX OR TX) s
      in set_bits env DDRD CLK s)"

subsection \<open>Sending bytes and addresses\<close>

text \<open>\<^verbatim>\<open>pdi_write_raw\<close>: reading past the end of the array has no defined result.\<close>

fun pdi_write_raw :: "env \<Rightarrow> u8 list \<Rightarrow> nat \<Rightarrow> 'a usart_scheme \<Rightarrow> 'a usart_scheme option" where
  "pdi_write_raw env data 0 s = Some s"
| "pdi_write_raw env data (Suc n) s =
     (case data of [] \<Rightarrow> None
      | d # ds \<Rightarrow> do { s \<leftarrow> send_byte env d s; pdi_write_raw env ds n s })"

text \<open>The loop that sends the four bytes of an address, low byte first.\<close>

fun send_address :: "env \<Rightarrow> nat \<Rightarrow> u32 \<Rightarrow> 'a usart_scheme \<Rightarrow> 'a usart_scheme option" where
  "send_address env 0 address s = Some s"
| "send_address env (Suc n) address s = do {
     s \<leftarrow> send_byte env (ucast address) s;
     send_address env n (drop_bit 8 address) s
   }"

subsection \<open>Transfers\<close>

definition pdi_read_byte ::
    "env \<Rightarrow> u32 \<Rightarrow> u8 \<Rightarrow> 'a pdi_scheme \<Rightarrow> ((pdi_result \<times> u8) \<times> 'a pdi_scheme) option" where
  "pdi_read_byte env address data s =
     (if pdi_on s = 0 then Some ((PDI_DISABLED, data), s)
      else do {
        s \<leftarrow> send_byte env (PDI_LOAD_DIRECT OR push_bit 2 LONG OR BYTE) s;
        s \<leftarrow> send_address env 4 address s;
        ((rc, data), s) \<leftarrow> read_byte env data s;
        if rc \<noteq> 0 then Some ((TIME_OUT, data), s) else Some ((NO_ERROR, data), s)
      })"

definition pdi_write_byte ::
    "env \<Rightarrow> u32 \<Rightarrow> u8 \<Rightarrow> 'a pdi_scheme \<Rightarrow> (pdi_result \<times> 'a pdi_scheme) option" where
  "pdi_write_byte env address data s =
     (if pdi_on s = 0 then Some (PDI_DISABLED, s)
      else do {
        s \<leftarrow> send_byte env (PDI_STORE_DIRECT OR push_bit 2 LONG OR BYTE) s;
        s \<leftarrow> send_address env 4 address s;
        s \<leftarrow> send_byte env data s;
        Some (NO_ERROR, s)
      })"

text \<open>
  The two block transfers start alike: the pointer, then the repeat counter, which is
  \<^verbatim>\<open>count - 1\<close> on 16 bits.
\<close>

definition pdi_set_pointer_repeat ::
    "env \<Rightarrow> u32 \<Rightarrow> u16 \<Rightarrow> 'a pdi_scheme \<Rightarrow> 'a pdi_scheme option" where
  "pdi_set_pointer_repeat env start_address count s = do {
     let count_tmp = count - 1;
     s \<leftarrow> send_byte env (PDI_STORE_INDIRECT OR push_bit 2 PTR OR LONG) s;
     s \<leftarrow> send_address env 4 start_address s;
     s \<leftarrow> send_byte env (PDI_REPEAT OR WORD) s;
     s \<leftarrow> send_byte env (ucast count_tmp) s;
     let count_tmp = drop_bit 8 count_tmp;
     send_byte env (ucast count_tmp) s
   }"

text \<open>The receive loop of a block read; a store beyond the buffer has no defined result.\<close>

fun read_loop ::
    "env \<Rightarrow> u8 list \<Rightarrow> nat \<Rightarrow> nat \<Rightarrow> 'a usart_scheme \<Rightarrow> ((pdi_result \<times> u8 list) \<times> 'a usart_scheme) option"
where
  "read_loop env data c 0 s = Some ((NO_ERROR, data), s)"
| "read_loop env data c (Suc n) s = do {
     ((rc, v), s) \<leftarrow> read_byte env 0 s;
     if rc \<noteq> 0 then Some ((TIME_OUT, data), s)
     else if c < length data then read_loop env (data[c := v]) (Suc c) n s
     else None
   }"

definition pdi_read_bytes ::
    "env \<Rightarrow> u32 \<Rightarrow> u8 list \<Rightarrow> u16 \<Rightarrow> 'a pdi_scheme \<Rightarrow> ((pdi_result \<times> u8 list) \<times> 'a pdi_scheme) option"
where
  "pdi_read_bytes env start_address data count s =
     (if pdi_on s = 0 then Some ((PDI_DISABLED, data), s)
      else do {
        s \<leftarrow> pdi_set_pointer_repeat env start_address count s;
        s \<leftarrow> send_byte env (PDI_LOAD_INDIRECT OR push_bit 2 PTR_DATA_INC OR BYTE) s;
        read_loop env data 0 (unat count) s
      })"

definition pdi_write_bytes ::
    "env \<Rightarrow> u32 \<Rightarrow> u8 list \<Rightarrow> u16 \<Rightarrow> 'a pdi_scheme \<Rightarrow> (pdi_result \<times> 'a pdi_scheme) option"
where
  "pdi_write_bytes env start_address data count s =
     (if pdi_on s = 0 then Some (PDI_DISABLED, s)
      else do {
        s \<leftarrow> pdi_set_pointer_repeat env start_address count s;
        s \<leftarrow> send_byte env (PDI_STORE_INDIRECT OR push_bit 2 PTR_DATA_INC OR BYTE) s;
        s \<leftarrow> pdi_write_raw env data (unat count) s;
        Some (NO_ERROR, s)
      })"

subsection \<open>Entering and leaving programming mode\<close>

text \<open>The bounded poll of the NVM-enable bit: at most \<open>retry\<close> status reads.\<close>

fun nvmen_poll :: "env \<Rightarrow> nat \<Rightarrow> 'a pdi_scheme \<Rightarrow> (pdi_result \<times> 'a pdi_scheme) option" where
  "nvmen_poll env 0 s = Some (TIME_OUT, s)"
| "nvmen_poll env (Suc retry) s = do {
     s \<leftarrow> send_byte env (PDI_LOAD_CONTROL_REG OR PDI_STATUS_REG) s;
     ((rc, status), s) \<leftarrow> read_byte env 0 s;
     if rc \<noteq> 0 then Some (TIME_OUT, s)
     else if status AND NVMEN_MASK \<noteq> 0 then Some (NO_ERROR, s)
     else do { s \<leftarrow> send_idles env 2 s; nvmen_poll env retry s }
   }"

definition pdi_key_bytes :: "u8 list" where
  "pdi_key_bytes = [PDI_KEY, 0xFF, 0x88, 0xD8, 0xCD, 0x45, 0xAB, 0x89, 0x12]"

definition pdi_init :: "env \<Rightarrow> u16 \<Rightarrow> 'a pdi_scheme \<Rightarrow> (pdi_result \<times> 'a pdi_scheme) option" where
  "pdi_init env freq_khz s =
     (if freq_khz = 0 then None
      else do {
        let s = s\<lparr>char_us := 12000 div freq_khz\<rparr>;
        let s = clear_bits env PORTD (TX OR RX OR CLK) s;
        let s = clear_bits env DDRD RX s;
        let s = set_bits env DDRD (CLK OR TX) s;
        let brr = (8000 :: u32) div ucast freq_khz;
        let s = usart_setup (ucast brr) s;
        let s = delay_us 10 s;
        let s = set_bits env PORTD TX s;
        let s = usart_tx_mode s;
        let s = pin_default_state env s;
        s \<leftarrow> send_idles env 2 s;
        s \<leftarrow> send_byte env (PDI_STORE_CONTROL_REG OR PDI_CTRL_REG) s;
        s \<leftarrow> send_byte env 0x03 s;
        s \<leftarrow> send_idle env s;
        s \<leftarrow> send_byte env (PDI_STORE_CONTROL_REG OR PDI_RESET_REG) s;
        s \<leftarrow> send_byte env PDI_RESET_SIGNATURE s;
        s \<leftarrow> send_idle env s;
        s \<leftarrow> pdi_write_raw env pdi_key_bytes 9 s;
        s \<leftarrow> send_idles env 2 s;
        (r, s) \<leftarrow> nvmen_poll env 200 s;
        if r = NO_ERROR then Some (NO_ERROR, s\<lparr>pdi_on := 1\<rparr>) else Some (TIME_OUT, s)
      })"

definition pdi_exit :: "env \<Rightarrow> 'a pdi_scheme \<Rightarrow> 'a pdi_scheme option" where
  "pdi_exit env s = do {
     s \<leftarrow> send_break env s;
     s \<leftarrow> send_break env s;
     s \<leftarrow> send_idle env s;
     s \<leftarrow> send_idle env s;
     s \<leftarrow> send_byte env (PDI_STORE_CONTROL_REG OR PDI_RESET_REG) s;
     s \<leftarrow> send_byte env 0 s;
     s \<leftarrow> send_idles env 4 s;
     let s = usart_disconnect s;
     let s = clear_bits env PORTD (CLK OR TX OR RX) s;
     let s = clear_bits env DDRD (CLK OR TX OR RX) s;
     Some (s\<lparr>pdi_on := 0\<rparr>)
   }"

subsection \<open>What the operations send\<close>

lemma sent_inv: "sent bs s s' \<Longrightarrow> usart_inv s'"
  by (simp add: sent_def)

lemma sent_more: "sent bs s s' \<Longrightarrow> usart.more s' = usart.more s"
  by (simp add: sent_def)

lemma more_pdi: "usart.more s' = usart.more s \<Longrightarrow> pdi_on s' = pdi_on s \<and> char_us s' = char_us s
    \<and> pdi.more s' = pdi.more s"
  by (cases s; cases s') simp

lemma sent_pdi_on: "sent bs s s' \<Longrightarrow> pdi_on s' = pdi_on s"
  and sent_char_us: "sent bs s s' \<Longrightarrow> char_us s' = char_us s"
  using more_pdi [of s' s] by (simp_all add: sent_def)

lemma got_inv: "got n s s' \<Longrightarrow> usart_inv s'"
  by (simp add: got_def)

lemma got_pdi_on: "got n s s' \<Longrightarrow> pdi_on s' = pdi_on s"
  and got_char_us: "got n s s' \<Longrightarrow> char_us s' = char_us s"
  using more_pdi [of s' s] by (simp_all add: got_def)

lemma send_byte_step:
  assumes "tx_live env" and "usart_inv s" and "\<And>s'. sent [b] s s' \<Longrightarrow> Q s'"
  shows "wp (send_byte env b s) Q"
  using send_byte_wp [OF assms(1,2)] by (rule wp_conseq) (auto intro: assms(3))

lemma sent_bind:
  assumes "wp m (sent bs s)" and "\<And>s'. sent bs s s' \<Longrightarrow> wp (f s') (sent cs s')"
  shows "wp (Option.bind m f) (sent (bs @ cs) s)"
  unfolding wp_bind
  using assms(1) by (rule wp_conseq) (auto intro: wp_conseq [OF assms(2)] sent_trans)

lemma send_byte_sent: "tx_live env \<Longrightarrow> usart_inv s \<Longrightarrow> wp (send_byte env b s) (sent [b] s)"
  by (rule send_byte_step)

lemma send_byte_bind:
  assumes "tx_live env" and "usart_inv s" and "\<And>s'. usart_inv s' \<Longrightarrow> wp (f s') (sent cs s')"
  shows "wp (Option.bind (send_byte env b s) f) (sent (b # cs) s)"
  using sent_bind [of "send_byte env b s" "[b]" s f cs] assms
  by (simp add: send_byte_sent sent_inv del: wp_bind)

lemma send_address_sent:
  assumes "tx_live env" and "usart_inv s"
  shows "wp (send_address env 4 a s) (sent (le32 a) s)"
proof -
  have "wp (send_address env 4 a s) (sent ([ucast a] @ [ucast (drop_bit 8 a)] @
      [ucast (drop_bit 16 a)] @ [ucast (drop_bit 24 a)]) s)"
    using assms
    by (auto simp: eval_nat_numeral drop_bit_drop_bit simp del: append.simps
        intro!: send_byte_step intro: sent_trans sent_inv)
  then show ?thesis by (simp add: le32_def)
qed

lemma pdi_write_raw_sent:
  assumes "tx_live env" and "usart_inv s" and "n \<le> length data"
    and "n = 0 \<longrightarrow> ustate s = UTX"
  shows "wp (pdi_write_raw env data n s) (sent (take n data) s)"
  using assms(2-4)
proof (induction n arbitrary: data s)
  case 0
  then show ?case by (simp add: sent_def)
next
  case (Suc n)
  then obtain d ds where data: "data = d # ds" by (cases data) auto
  have "wp (pdi_write_raw env ds n s') (sent (take n ds) s')" if "sent [d] s s'" for s'
    using Suc.prems data that by (intro Suc.IH) (simp_all add: sent_def)
  then show ?case
    using sent_bind [OF send_byte_sent, of env s d] assms(1) Suc.prems data
    by (simp del: wp_bind)
qed

lemma char_wait_replicate:
  assumes "unat (char_us s) \<le> 65525"
  shows "\<exists>n. char_wait c s = Some (s\<lparr>trace := trace s @ replicate n (DelayUs 9)\<rparr>)"
  using assms
proof (induction "unat (char_us s) - unat c" arbitrary: c s rule: less_induct)
  case less
  show ?case
  proof (cases "c < char_us s")
    case False
    then have "char_wait c s = Some s" by (subst char_wait.simps) simp
    then show ?thesis by (intro exI [of _ 0]) simp
  next
    case True
    then have lt: "unat c < unat (char_us s)" by (simp add: word_less_nat_alt)
    then have c10: "unat (c + 10) = unat c + 10"
      using less.prems unat_plus_numeral [of c 10] by simp
    have "\<exists>n. char_wait (c + 10) (delay_us 9 s)
        = Some ((delay_us 9 s)\<lparr>trace := trace (delay_us 9 s) @ replicate n (DelayUs 9)\<rparr>)"
      using less.prems lt c10 by (intro less.hyps) (simp_all add: delay_us_def emit_def)
    then obtain n where "char_wait (c + 10) (delay_us 9 s)
        = Some ((delay_us 9 s)\<lparr>trace := trace (delay_us 9 s) @ replicate n (DelayUs 9)\<rparr>)" ..
    moreover have "char_wait c s = char_wait (c + 10) (delay_us 9 s)"
      using True by (subst char_wait.simps) simp
    ultimately show ?thesis
      by (intro exI [of _ "Suc n"]) (simp add: delay_us_def emit_def)
  qed
qed

lemma char_wait_quiet:
  assumes "unat (char_us s) \<le> 65525"
  shows "wp (char_wait c s) (\<lambda>s'. tx s' = tx s \<and> rx_count s' = rx_count s \<and> ep s' = ep s \<and> ustate s' = ustate s
     \<and> usart.more s' = usart.more s \<and> (usart_inv s \<longrightarrow> usart_inv s'))"
proof -
  from char_wait_replicate [OF assms] obtain n where
    "char_wait c s = Some (s\<lparr>trace := trace s @ replicate n (DelayUs 9)\<rparr>)" by blast
  then show ?thesis by (simp add: tx_def rx_count_def ep_def usb_events_append usart_inv_def)
qed

lemma send_idle_sent:
  assumes "tx_live env" and "usart_inv s" and "unat (char_us s) \<le> 65525"
  shows "wp (send_idle env s) (sent [] s)"
  unfolding send_idle_def
  apply (simp only: wp_bind)
  apply (rule wp_conseq [OF usart_wait_tx_wp [OF assms(1)]])
  subgoal for s1
    using assms(2,3) more_pdi [of s1 s] more_pdi [of "usart_tx_mode s1" s]
    by (auto simp: Let_def sent_def tx_def rx_count_def ep_def usb_events_append usart_inv_def
        intro!: wp_conseq [OF char_wait_quiet])
  done

lemma send_idles_sent:
  assumes "tx_live env" and "usart_inv s" and "unat (char_us s) \<le> 65525" and "0 < n"
  shows "wp (send_idles env n s) (sent [] s)"
  using assms(2-4)
proof (induction n arbitrary: s)
  case 0
  then show ?case by simp
next
  case (Suc n)
  have "wp (send_idles env n s') (sent [] s')" if "sent [] s s'" for s'
  proof (cases "n = 0")
    case True
    with that show ?thesis by (simp add: sent_def)
  next
    case False
    then show ?thesis
      using Suc.prems Suc.IH [of s'] that sent_inv [OF that] sent_char_us [OF that] by simp
  qed
  then show ?case
    using sent_bind [OF send_idle_sent, of env s] assms(1) Suc.prems by (simp del: wp_bind)
qed

subsection \<open>The wire format of the transfers\<close>

definition lds_bytes :: "u32 \<Rightarrow> u8 list" where
  "lds_bytes a = 0x0C # le32 a"

definition sts_bytes :: "u32 \<Rightarrow> u8 \<Rightarrow> u8 list" where
  "sts_bytes a d = 0x4C # le32 a @ [d]"

definition block_bytes :: "u32 \<Rightarrow> u16 \<Rightarrow> u8 list" where
  "block_bytes a n = 0x6B # le32 a @ 0xA1 # le16 (n - 1)"

lemma pdi_write_byte_wp:
  assumes "tx_live env" and "usart_inv s" and "pdi_on s \<noteq> 0"
  shows "wp (pdi_write_byte env a d s) (\<lambda>(r, s'). r = NO_ERROR \<and> sent (sts_bytes a d) s s')"
proof -
  have "wp (do { s \<leftarrow> send_byte env 0x4C s; s \<leftarrow> send_address env 4 a s; send_byte env d s })
     (sent ([0x4C] @ le32 a @ [d]) s)"
    using assms by (intro sent_bind send_byte_sent send_address_sent) (auto dest: sent_inv)
  then show ?thesis
    using assms by (simp add: pdi_write_byte_def sts_bytes_def pdi_consts)
qed

lemma pdi_set_pointer_repeat_sent:
  assumes "tx_live env" and "usart_inv s"
  shows "wp (pdi_set_pointer_repeat env a n s) (sent (block_bytes a n) s)"
proof -
  have "wp (pdi_set_pointer_repeat env a n s)
     (sent ([0x6B] @ le32 a @ [0xA1] @ [ucast (n - 1)] @ [ucast (drop_bit 8 (n - 1))]) s)"
    using assms unfolding pdi_set_pointer_repeat_def Let_def
    by (intro sent_bind) (auto simp: pdi_consts intro!: send_byte_sent send_address_sent dest: sent_inv)
  then show ?thesis by (simp add: block_bytes_def le16_def)
qed

lemma pdi_write_bytes_wp:
  assumes "tx_live env" and "usart_inv s" and "pdi_on s \<noteq> 0" and "unat n \<le> length data"
  shows "wp (pdi_write_bytes env a data n s)
    (\<lambda>(r, s'). r = NO_ERROR \<and> sent (block_bytes a n @ 0x64 # take (unat n) data) s s')"
proof -
  have "wp (do {
       s \<leftarrow> pdi_set_pointer_repeat env a n s;
       s \<leftarrow> send_byte env 0x64 s;
       pdi_write_raw env data (unat n) s })
     (sent (block_bytes a n @ [0x64] @ take (unat n) data) s)"
    using assms
    by (intro sent_bind pdi_set_pointer_repeat_sent send_byte_sent pdi_write_raw_sent)
      (auto simp: sent_def)
  then show ?thesis
    using assms(3) by (simp add: pdi_write_bytes_def pdi_consts)
qed

text \<open>
  \<open>xfer bs n s s'\<close>: the bytes \<open>bs\<close> went out and then \<open>n\<close> bytes came in.
\<close>

definition xfer :: "u8 list \<Rightarrow> nat \<Rightarrow> 'a usart_scheme \<Rightarrow> 'a usart_scheme \<Rightarrow> bool" where
  "xfer bs n s s' \<longleftrightarrow> tx s' = tx s @ bs \<and> rx_count s' = rx_count s + n \<and> ep s' = ep s
     \<and> usart.more s' = usart.more s \<and> usart_inv s'"

lemma sent_xfer: "sent bs s s' \<Longrightarrow> xfer bs 0 s s'"
  by (simp add: sent_def xfer_def)

lemma sent_got_xfer: "sent bs s s' \<Longrightarrow> got n s' s'' \<Longrightarrow> xfer bs n s s''"
  by (simp add: sent_def got_def xfer_def)

lemma xfer_trans: "xfer bs m s s' \<Longrightarrow> xfer cs n s' s'' \<Longrightarrow> xfer (bs @ cs) (m + n) s s''"
  by (simp add: xfer_def)

lemma xfer_inv: "xfer bs n s s' \<Longrightarrow> usart_inv s'"
  and xfer_pdi_on: "xfer bs n s s' \<Longrightarrow> pdi_on s' = pdi_on s"
  and xfer_char_us: "xfer bs n s s' \<Longrightarrow> char_us s' = char_us s"
  using more_pdi [of s' s] by (simp_all add: xfer_def)

definition read_post ::
    "env \<Rightarrow> (u8 list \<Rightarrow> nat \<Rightarrow> u8) \<Rightarrow> u8 list \<Rightarrow> u8 \<Rightarrow> 'a usart_scheme
      \<Rightarrow> pdi_result \<Rightarrow> u8 \<Rightarrow> 'a usart_scheme \<Rightarrow> bool" where
  "read_post env resp bs d s r v s' \<longleftrightarrow>
     (r = NO_ERROR \<and> xfer bs 1 s s' \<or> r = TIME_OUT \<and> v = d \<and> xfer bs 0 s s')
     \<and> (answers env resp \<longrightarrow> r = NO_ERROR \<longrightarrow> v = resp (tx s @ bs) (rx_count s))
     \<and> (rx_live env \<longrightarrow> r = NO_ERROR)"

lemma pdi_read_byte_wp:
  assumes "tx_live env" and "usart_inv s" and "pdi_on s \<noteq> 0"
  shows "wp (pdi_read_byte env a d s) (\<lambda>((r, v), s'). read_post env resp (lds_bytes a) d s r v s')"
proof -
  let ?pre = "do { s \<leftarrow> send_byte env 0x0C s; send_address env 4 a s }"
  let ?post = "\<lambda>s. do { ((rc, data), s) \<leftarrow> read_byte env d s;
        if rc \<noteq> 0 then Some ((TIME_OUT, data), s) else Some ((NO_ERROR, data), s) }"
  have "wp ?pre (sent ([0x0C] @ le32 a) s)"
    using assms by (intro sent_bind send_byte_sent send_address_sent) (auto dest: sent_inv)
  moreover have "wp (?post s1) (\<lambda>((r, v), s'). read_post env resp (lds_bytes a) d s r v s')"
    if "sent ([0x0C] @ le32 a) s s1" for s1
    apply (rule wp_bind_conseq [OF read_byte_wp [OF assms(1) sent_inv [OF that], where resp = resp]])
    using that
    apply (auto simp: lds_bytes_def sent_def got_def xfer_def read_post_def)
    done
  ultimately have "wp (Option.bind ?pre ?post)
      (\<lambda>((r, v), s'). read_post env resp (lds_bytes a) d s r v s')"
    by (rule wp_bind_conseq)
  then show ?thesis
    using assms(3) by (simp add: pdi_read_byte_def pdi_consts bind_assoc del: wp_bind)
qed

text \<open>
  A block read that runs to the end stores what the far end answers, byte after byte, at the
  start of the buffer; one that times out has stored a prefix.
\<close>

definition block_read_post ::
    "env \<Rightarrow> (u8 list \<Rightarrow> nat \<Rightarrow> u8) \<Rightarrow> u8 list \<Rightarrow> u8 list \<Rightarrow> nat \<Rightarrow> nat \<Rightarrow> 'a usart_scheme
      \<Rightarrow> pdi_result \<Rightarrow> u8 list \<Rightarrow> 'a usart_scheme \<Rightarrow> bool" where
  "block_read_post env resp bs data c n s r data' s' \<longleftrightarrow>
     (\<exists>vs. length vs \<le> n \<and> data' = take c data @ vs @ drop (c + length vs) data
        \<and> xfer bs (length vs) s s'
        \<and> (r = NO_ERROR \<and> length vs = n \<or> r = TIME_OUT \<and> length vs < n \<and> \<not> rx_live env)
        \<and> (answers env resp \<longrightarrow>
             vs = map (resp (tx s @ bs)) [rx_count s..<rx_count s + length vs]))"

lemma block_read_post_step:
  assumes "block_read_post env resp [] (data[c := v]) (Suc c) n s1 r data' s'"
    and "got 1 s s1" and "answers env resp \<longrightarrow> v = resp (tx s) (rx_count s)" and "c < length data"
  shows "block_read_post env resp [] data c (Suc n) s r data' s'"
proof -
  from assms(1) obtain vs where "length vs \<le> n"
    and d: "data' = take (Suc c) (data[c := v]) @ vs @ drop (Suc c + length vs) (data[c := v])"
    and "xfer [] (length vs) s1 s'"
    and "r = NO_ERROR \<and> length vs = n \<or> r = TIME_OUT \<and> length vs < n \<and> \<not> rx_live env"
    and "answers env resp \<longrightarrow>
           vs = map (resp (tx s1)) [rx_count s1..<rx_count s1 + length vs]"
    by (auto simp: block_read_post_def)
  moreover have "data' = take c data @ (v # vs) @ drop (c + length (v # vs)) data"
    using d assms(4) by (simp add: take_Suc_conv_app_nth)
  moreover have "[rx_count s..<Suc (rx_count s + k)]
      = rx_count s # [Suc (rx_count s)..<Suc (rx_count s + k)]" for k
    by (simp add: upt_conv_Cons)
  ultimately show ?thesis
    using assms(2,3) unfolding block_read_post_def
    by (intro exI [of _ "v # vs"]) (auto simp: got_def xfer_def)
qed

lemma read_loop_wp:
  assumes "tx_live env" and "usart_inv s" and "c + n \<le> length data"
  shows "wp (read_loop env data c n s)
    (\<lambda>((r, data'), s'). block_read_post env resp [] data c n s r data' s')"
  using assms(2,3)
proof (induction n arbitrary: c data s)
  case 0
  then show ?case by (auto simp: block_read_post_def xfer_def)
next
  case (Suc n)
  have "wp (if rc \<noteq> 0 then Some ((TIME_OUT, data), s1)
         else if c < length data then read_loop env (data[c := v]) (Suc c) n s1 else None)
      (\<lambda>((r, data'), s'). block_read_post env resp [] data c (Suc n) s r data' s')"
    if a: "answers env resp \<longrightarrow> rc = 0 \<longrightarrow> v = resp (tx s) (rx_count s)"
      and l: "rx_live env \<longrightarrow> rc = 0"
      and g: "rc = 0 \<and> got 1 s s1 \<or> rc = 1 \<and> v = 0 \<and> got 0 s s1" for rc :: u8 and v s1
  proof (cases "rc = 0")
    case True
    then have "wp (read_loop env (data[c := v]) (Suc c) n s1) (\<lambda>((r, data'), s').
        block_read_post env resp [] (data[c := v]) (Suc c) n s1 r data' s')"
      using Suc.prems g by (intro Suc.IH) (auto simp: got_def)
    moreover from True g have "got 1 s s1" by simp
    ultimately show ?thesis
      using True a Suc.prems by (auto elim!: wp_conseq intro: block_read_post_step)
  next
    case False
    then show ?thesis
      using g l by (auto simp: block_read_post_def got_def xfer_def)
  qed
  note step = this
  show ?case
    unfolding read_loop.simps
    apply (rule wp_bind_conseq [OF read_byte_wp [OF assms(1) Suc.prems(1), where resp = resp]])
    apply (simp only: split_paired_all prod.case)
    apply (rule step; blast)
    done
qed

lemma xfer_block_read_post:
  assumes "sent bs s s1" and "block_read_post env resp [] data c n s1 r data' s'"
  shows "block_read_post env resp bs data c n s r data' s'"
  using assms unfolding block_read_post_def
  by (auto simp: sent_def xfer_def intro!: exI)

lemma pdi_read_bytes_wp:
  assumes "tx_live env" and "usart_inv s" and "pdi_on s \<noteq> 0" and "unat n \<le> length data"
  shows "wp (pdi_read_bytes env a data n s) (\<lambda>((r, data'), s').
     block_read_post env resp (block_bytes a n @ [0x24]) data 0 (unat n) s r data' s')"
proof -
  let ?pre = "do { s \<leftarrow> pdi_set_pointer_repeat env a n s; send_byte env 0x24 s }"
  have "wp ?pre (sent (block_bytes a n @ [0x24]) s)"
    using assms by (intro sent_bind pdi_set_pointer_repeat_sent send_byte_sent) (auto dest: sent_inv)
  moreover have "wp (read_loop env data 0 (unat n) s1) (\<lambda>((r, data'), s').
      block_read_post env resp (block_bytes a n @ [0x24]) data 0 (unat n) s r data' s')"
    if "sent (block_bytes a n @ [0x24]) s s1" for s1
    using read_loop_wp [OF assms(1) sent_inv [OF that], of 0 "unat n" data resp] assms(4)
    by (auto elim!: wp_conseq intro: xfer_block_read_post [OF that])
  ultimately have "wp (Option.bind ?pre (read_loop env data 0 (unat n))) (\<lambda>((r, data'), s').
      block_read_post env resp (block_bytes a n @ [0x24]) data 0 (unat n) s r data' s')"
    by (rule wp_bind_conseq)
  then show ?thesis
    using assms(3) by (simp add: pdi_read_bytes_def pdi_consts bind_assoc del: wp_bind)
qed

subsection \<open>Entering and leaving programming mode\<close>

text \<open>
  The bytes of the entry sequence: guard time, reset, key; then up to 200 status requests. The
  operation ends either way, and programming mode is on exactly if it reports success.
\<close>

definition init_bytes :: "u8 list" where
  "init_bytes = [0xC2, 0x03, 0xC1, 0x59, 0xE0, 0xFF, 0x88, 0xD8, 0xCD, 0x45, 0xAB, 0x89, 0x12]"

text \<open>The enable bit in the answer to the \<open>i\<close>-th status request.\<close>

definition nvm_enabled :: "(u8 list \<Rightarrow> nat \<Rightarrow> u8) \<Rightarrow> u8 list \<Rightarrow> nat \<Rightarrow> nat \<Rightarrow> bool" where
  "nvm_enabled resp bs m i \<longleftrightarrow> resp (bs @ replicate (Suc i) 0x80) (m + i) AND NVMEN_MASK \<noteq> 0"

definition poll_post ::
    "env \<Rightarrow> (u8 list \<Rightarrow> nat \<Rightarrow> u8) \<Rightarrow> nat \<Rightarrow> 'a usart_scheme \<Rightarrow> pdi_result \<Rightarrow> 'a usart_scheme \<Rightarrow> bool"
where
  "poll_post env resp n s r s' \<longleftrightarrow>
     (\<exists>k j. k \<le> n \<and> xfer (replicate k 0x80) j s s') \<and> (r = NO_ERROR \<or> r = TIME_OUT)
     \<and> (answers env resp \<longrightarrow> rx_live env \<longrightarrow>
          (r = NO_ERROR \<longleftrightarrow> (\<exists>i < n. nvm_enabled resp (tx s) (rx_count s) i)))"

lemma poll_post_step:
  assumes "poll_post env resp n s2 r s'" and "xfer [0x80] 1 s s2"
    and "answers env resp \<longrightarrow> \<not> nvm_enabled resp (tx s) (rx_count s) 0"
  shows "poll_post env resp (Suc n) s r s'"
proof -
  have en: "nvm_enabled resp (tx s2) (rx_count s2) i = nvm_enabled resp (tx s) (rx_count s) (Suc i)" for i
    using assms(2) by (simp add: nvm_enabled_def xfer_def)
  from assms(1) obtain k j where "k \<le> n" and "xfer (replicate k 0x80) j s2 s'"
    by (auto simp: poll_post_def)
  then have "Suc k \<le> Suc n \<and> xfer (replicate (Suc k) 0x80) (1 + j) s s'"
    using xfer_trans [OF assms(2), of "replicate k 0x80" j s'] by simp
  then have "\<exists>k j. k \<le> Suc n \<and> xfer (replicate k 0x80) j s s'" by blast
  then show ?thesis
    using assms(1,3) unfolding poll_post_def en Ex_less_Suc2 by blast
qed

lemma nvmen_poll_wp:
  assumes "tx_live env" and "usart_inv s" and "unat (char_us s) \<le> 65525"
  shows "wp (nvmen_poll env n s) (\<lambda>(r, s'). poll_post env resp n s r s')"
  using assms(2,3)
proof (induction n arbitrary: s)
  case 0
  then show ?case by (auto simp: poll_post_def xfer_def)
next
  case (Suc n)
  let ?Q = "\<lambda>(r, s'). poll_post env resp (Suc n) s r s'"
  let ?look = "\<lambda>rc status s. if rc \<noteq> 0 then Some (TIME_OUT, s)
     else if status AND NVMEN_MASK \<noteq> 0 then Some (NO_ERROR, s)
     else do { s \<leftarrow> send_idles env 2 s; nvmen_poll env n s }"
  have look: "wp (?look rc v s2) ?Q"
    if sent: "sent [0x80] s s1"
      and a: "answers env resp \<longrightarrow> rc = 0 \<longrightarrow> v = resp (tx s1) (rx_count s1)"
      and l: "rx_live env \<longrightarrow> rc = 0"
      and g: "rc = 0 \<and> got 1 s1 s2 \<or> rc = 1 \<and> v = 0 \<and> got 0 s1 s2" for rc :: u8 and v s1 s2
  proof (cases "rc = 0")
    case False
    with g have "xfer [0x80] 0 s s2" by (auto intro: sent_got_xfer [OF sent])
    then have "\<exists>k j. k \<le> Suc n \<and> xfer (replicate k 0x80) j s s2"
      by (intro exI [of _ "1 :: nat"] exI [of _ "0 :: nat"]) simp
    with False l show ?thesis by (auto simp: poll_post_def)
  next
    case True
    with g have x: "xfer [0x80] 1 s s2" by (auto intro: sent_got_xfer [OF sent])
    have v: "answers env resp \<longrightarrow>
        (v AND NVMEN_MASK \<noteq> 0) = nvm_enabled resp (tx s) (rx_count s) 0"
      using a True sent by (simp add: nvm_enabled_def sent_def)
    show ?thesis
    proof (cases "v AND NVMEN_MASK = 0")
      case False
      have "\<exists>k j. k \<le> Suc n \<and> xfer (replicate k 0x80) j s s2"
        using x by (intro exI [of _ "1 :: nat"]) simp
      with True False v show ?thesis by (auto simp: poll_post_def)
    next
      case set: True
      have "wp (nvmen_poll env n s3) ?Q" if "sent [] s2 s3" for s3
      proof -
        have "xfer ([0x80] @ []) (1 + 0) s s3" using x that by (blast intro: xfer_trans sent_xfer)
        moreover have "wp (nvmen_poll env n s3) (\<lambda>(r, s'). poll_post env resp n s3 r s')"
          using Suc.prems that sent_inv [OF that] sent_char_us [OF that] xfer_char_us [OF x]
          by (intro Suc.IH) simp_all
        ultimately show ?thesis
          using set v by (auto elim!: wp_conseq intro: poll_post_step)
      qed
      then show ?thesis
        using True set Suc.prems xfer_inv [OF x] xfer_char_us [OF x]
        by (auto intro!: wp_conseq [OF send_idles_sent [OF assms(1)]])
    qed
  qed
  have "wp (do { ((rc, status), s) \<leftarrow> read_byte env 0 s1; ?look rc status s }) ?Q"
    if "sent [0x80] s s1" for s1
    apply (rule wp_bind_conseq [OF read_byte_wp [OF assms(1) sent_inv [OF that], where resp = resp]])
    apply (simp only: split_paired_all prod.case)
    apply (rule look [OF that]; blast)
    done
  then have "wp (do { s \<leftarrow> send_byte env 0x80 s; ((rc, status), s) \<leftarrow> read_byte env 0 s;
      ?look rc status s }) ?Q"
    by (rule wp_bind_conseq [OF send_byte_sent [OF assms(1) Suc.prems(1)]])
  then show ?case
    by (simp add: pdi_consts del: wp_bind)
qed

lemma char_us_bound: "unat ((12000 :: u16) div f) \<le> 65525"
proof -
  have "unat ((12000 :: u16) div f) \<le> unat (12000 :: u16)"
    by (simp only: unat_div div_le_dividend)
  then show ?thesis by simp
qed

text \<open>The line as the entry sequence finds it, before its first byte.\<close>

definition init_line :: "env \<Rightarrow> u16 \<Rightarrow> 'a pdi_scheme \<Rightarrow> 'a pdi_scheme" where
  "init_line env f s = pin_default_state env (usart_tx_mode (set_bits env PORTD TX
     (delay_us 10 (usart_setup (ucast ((8000 :: u32) div ucast f))
       (set_bits env DDRD (CLK OR TX) (clear_bits env DDRD RX
         (clear_bits env PORTD (TX OR RX OR CLK) (s\<lparr>char_us := 12000 div f\<rparr>))))))))"

lemma init_line_simps:
  "tx (init_line env f s) = tx s" "rx_count (init_line env f s) = rx_count s"
  "ustate (init_line env f s) = UTX" "usart_inv (init_line env f s)"
  "char_us (init_line env f s) = 12000 div f" "pdi_on (init_line env f s) = pdi_on s"
  "pdi.more (init_line env f s) = pdi.more s"
  by (simp_all add: init_line_def pin_default_state_def usart_setup_def usart_tx_mode_def hw_defs
      tx_def rx_count_def ep_def usb_events_append usart_inv_def Let_def)

lemma init_seq_sent:
  assumes "tx_live env" and "usart_inv s" and "unat (char_us s) \<le> 65525"
  shows "wp (do {
        s \<leftarrow> send_idles env 2 s;
        s \<leftarrow> send_byte env (PDI_STORE_CONTROL_REG OR PDI_CTRL_REG) s;
        s \<leftarrow> send_byte env 0x03 s;
        s \<leftarrow> send_idle env s;
        s \<leftarrow> send_byte env (PDI_STORE_CONTROL_REG OR PDI_RESET_REG) s;
        s \<leftarrow> send_byte env PDI_RESET_SIGNATURE s;
        s \<leftarrow> send_idle env s;
        s \<leftarrow> pdi_write_raw env pdi_key_bytes 9 s;
        send_idles env 2 s }) (sent init_bytes s)"
proof -
  have bytes: "init_bytes = [] @ [0xC2] @ [0x03] @ [] @ [0xC1] @ [0x59] @ [] @ take 9 pdi_key_bytes @ []"
    by (simp add: init_bytes_def pdi_key_bytes_def pdi_consts)
  show ?thesis
    unfolding bytes
    by (intro sent_bind send_idles_sent send_idle_sent send_byte_sent pdi_write_raw_sent)
      (insert assms, auto simp: sent_inv sent_char_us pdi_consts pdi_key_bytes_def
        intro!: send_byte_sent dest: sent_inv)
qed

lemma pdi_init_eq:
  assumes "f \<noteq> 0"
  shows "pdi_init env f s = Option.bind (do {
        s \<leftarrow> send_idles env 2 (init_line env f s);
        s \<leftarrow> send_byte env (PDI_STORE_CONTROL_REG OR PDI_CTRL_REG) s;
        s \<leftarrow> send_byte env 0x03 s;
        s \<leftarrow> send_idle env s;
        s \<leftarrow> send_byte env (PDI_STORE_CONTROL_REG OR PDI_RESET_REG) s;
        s \<leftarrow> send_byte env PDI_RESET_SIGNATURE s;
        s \<leftarrow> send_idle env s;
        s \<leftarrow> pdi_write_raw env pdi_key_bytes 9 s;
        send_idles env 2 s })
      (\<lambda>s. do { (r, s) \<leftarrow> nvmen_poll env 200 s;
         if r = NO_ERROR then Some (NO_ERROR, s\<lparr>pdi_on := 1\<rparr>) else Some (TIME_OUT, s) })"
  using assms by (simp add: pdi_init_def init_line_def Let_def bind_assoc)

definition init_post ::
    "env \<Rightarrow> (u8 list \<Rightarrow> nat \<Rightarrow> u8) \<Rightarrow> u16 \<Rightarrow> 'a pdi_scheme \<Rightarrow> pdi_result \<Rightarrow> 'a pdi_scheme \<Rightarrow> bool" where
  "init_post env resp f s r s' \<longleftrightarrow>
     (\<exists>k j. k \<le> 200 \<and> tx s' = tx s @ init_bytes @ replicate k 0x80 \<and> rx_count s' = rx_count s + j)
     \<and> usart_inv s' \<and> char_us s' = 12000 div f \<and> pdi.more s' = pdi.more s
     \<and> pdi_on s' = (if r = NO_ERROR then 1 else pdi_on s) \<and> (r = NO_ERROR \<or> r = TIME_OUT)
     \<and> (answers env resp \<longrightarrow> rx_live env \<longrightarrow>
         (r = NO_ERROR \<longleftrightarrow> (\<exists>i < 200. nvm_enabled resp (tx s @ init_bytes) (rx_count s) i)))"

lemma init_postI:
  assumes "sent init_bytes (init_line env f s) s1" and "poll_post env resp 200 s1 r s2"
  shows "init_post env resp f s r
    (if r = NO_ERROR then s2\<lparr>pdi_on := 1\<rparr> else s2)"
proof -
  have s1: "tx s1 = tx s @ init_bytes" "rx_count s1 = rx_count s" "pdi_on s1 = pdi_on s"
    "char_us s1 = 12000 div f" "pdi.more s1 = pdi.more s"
    using assms(1) more_pdi [of s1 "init_line env f s"] by (simp_all add: sent_def init_line_simps)
  from assms(2) obtain k j where k: "k \<le> 200" and x: "xfer (replicate k 0x80) j s1 s2"
    by (auto simp: poll_post_def)
  have s2: "pdi_on s2 = pdi_on s" "char_us s2 = 12000 div f" "pdi.more s2 = pdi.more s"
    using x more_pdi [of s2 s1] s1 by (simp_all add: xfer_def)
  have tx2: "tx s2 = tx s @ init_bytes @ replicate k 0x80" "rx_count s2 = rx_count s + j" "usart_inv s2"
    using x s1 by (simp_all add: xfer_def)
  have on: "tx (s2\<lparr>pdi_on := 1\<rparr>) = tx s2" "rx_count (s2\<lparr>pdi_on := 1\<rparr>) = rx_count s2"
    "usart_inv (s2\<lparr>pdi_on := 1\<rparr>) = usart_inv s2"
    by (simp_all add: tx_def rx_count_def ep_def usb_events_append usart_inv_def)
  let ?s3 = "if r = NO_ERROR then s2\<lparr>pdi_on := 1\<rparr> else s2"
  have s3: "tx ?s3 = tx s @ init_bytes @ replicate k 0x80" "rx_count ?s3 = rx_count s + j"
    "usart_inv ?s3" "char_us ?s3 = 12000 div f" "pdi.more ?s3 = pdi.more s"
    "pdi_on ?s3 = (if r = NO_ERROR then 1 else pdi_on s)"
    using s2 tx2 on by simp_all
  have r: "r = NO_ERROR \<or> r = TIME_OUT" "answers env resp \<longrightarrow> rx_live env \<longrightarrow>
      (r = NO_ERROR \<longleftrightarrow> (\<exists>i < 200. nvm_enabled resp (tx s @ init_bytes) (rx_count s) i))"
    using assms(2) s1 by (auto simp: poll_post_def)
  show ?thesis
    unfolding init_post_def using s3 r k by blast
qed

lemma pdi_init_wp:
  assumes "tx_live env" and "f \<noteq> 0"
  shows "wp (pdi_init env f s) (\<lambda>(r, s'). init_post env resp f s r s')"
proof -
  let ?l = "init_line env f s"
  have l: "usart_inv ?l" "unat (char_us ?l) \<le> 65525"
    by (simp_all add: init_line_simps char_us_bound)
  have poll: "wp (do { (r, s) \<leftarrow> nvmen_poll env 200 s1;
         if r = NO_ERROR then Some (NO_ERROR, s\<lparr>pdi_on := 1\<rparr>) else Some (TIME_OUT, s) })
       (\<lambda>(r, s'). init_post env resp f s r s')"
    if "sent init_bytes ?l s1" for s1
    apply (rule wp_bind_conseq [OF nvmen_poll_wp [where resp = resp, OF assms(1) sent_inv [OF that]]])
    using l sent_char_us [OF that] init_postI [OF that, of resp]
    by (auto simp: poll_post_def split: if_splits) fastforce+
  show ?thesis
    unfolding pdi_init_eq [OF assms(2)]
    by (rule wp_bind_conseq [OF init_seq_sent [OF assms(1) l]]) (rule poll)
qed

lemma send_break_quiet:
  assumes "unat (char_us s) \<le> 65525"
  shows "wp (send_break env s) (sent [] s)"
proof -
  let ?s = "usart_rx_mode (set_bits env DDRD TX s)"
  have c: "char_us ?s = char_us s"
    using more_pdi [of ?s s] by simp
  show ?thesis
    unfolding send_break_def Let_def
    by (rule wp_bind_conseq [OF char_wait_quiet])
      (insert assms, auto simp: c sent_def tx_def rx_count_def ep_def usb_events_append usart_inv_def)
qed

lemma exit_seq_sent:
  assumes "tx_live env" and "unat (char_us s) \<le> 65525"
  shows "wp (do {
     s \<leftarrow> send_break env s;
     s \<leftarrow> send_break env s;
     s \<leftarrow> send_idle env s;
     s \<leftarrow> send_idle env s;
     s \<leftarrow> send_byte env (PDI_STORE_CONTROL_REG OR PDI_RESET_REG) s;
     s \<leftarrow> send_byte env 0 s;
     send_idles env 4 s }) (sent [0xC1, 0] s)"
proof -
  have bytes: "[0xC1, 0] = [] @ [] @ [] @ [] @ [PDI_STORE_CONTROL_REG OR PDI_RESET_REG] @ [0 :: u8] @ []"
    by (simp add: pdi_consts)
  show ?thesis
    unfolding bytes
    by (intro sent_bind send_break_quiet send_idles_sent send_idle_sent send_byte_sent)
      (insert assms, auto simp: sent_inv sent_char_us)
qed

text \<open>
  Leaving: the reset is released and the transmitter switched off; nothing else is sent, and
  the operation ends whatever the target does.
\<close>

lemma pdi_exit_wp:
  assumes "tx_live env" and "unat (char_us s) \<le> 65525"
  shows "wp (pdi_exit env s) (\<lambda>s'. tx s' = tx s @ [0xC1, 0] \<and> rx_count s' = rx_count s
     \<and> pdi_on s' = 0 \<and> char_us s' = char_us s \<and> pdi.more s' = pdi.more s
     \<and> last (writes UCSR1B (trace s')) = 0)"
proof -
  let ?off = "\<lambda>s. (clear_bits env DDRD (CLK OR TX OR RX)
     (clear_bits env PORTD (CLK OR TX OR RX) (usart_disconnect s)))\<lparr>pdi_on := 0\<rparr>"
  have eq: "pdi_exit env s = Option.bind (do {
     s \<leftarrow> send_break env s;
     s \<leftarrow> send_break env s;
     s \<leftarrow> send_idle env s;
     s \<leftarrow> send_idle env s;
     s \<leftarrow> send_byte env (PDI_STORE_CONTROL_REG OR PDI_RESET_REG) s;
     s \<leftarrow> send_byte env 0 s;
     send_idles env 4 s }) (\<lambda>s. Some (?off s))"
    by (simp add: pdi_exit_def Let_def bind_assoc)
  have off: "tx (?off s1) = tx s1 \<and> rx_count (?off s1) = rx_count s1 \<and> pdi_on (?off s1) = 0
     \<and> char_us (?off s1) = char_us s1 \<and> pdi.more (?off s1) = pdi.more s1
     \<and> last (writes UCSR1B (trace (?off s1))) = 0" for s1 :: "'a pdi_scheme"
    by (simp add: usart_disconnect_def hw_defs tx_def rx_count_def ep_def usb_events_append Let_def)
  show ?thesis
    unfolding eq
    by (rule wp_bind_conseq [OF exit_seq_sent [OF assms]])
      (simp only: wp_Some sent_def append_assoc off, use more_pdi in blast)
qed

subsection \<open>Properties\<close>

definition pdi_state :: pdi where
  "pdi_state = \<lparr>trace = [Wr UCSR1B TXEN1], ustate = UTX, pending = 0, pdi_on = 1, char_us = 60\<rparr>"

lemma pdi_state_simps [simp]:
  "usart_inv pdi_state" "pdi_on pdi_state = 1" "char_us pdi_state = 60" "tx pdi_state = []"
  "rx_count pdi_state = 0" "ustate pdi_state = UTX"
  by (simp_all add: pdi_state_def usart_inv_def tx_def rx_count_def ep_def usb_events_append)

text \<open>C7: Entering programming mode ends for every nonzero clock and every behaviour of the
  target. It sends the reset, guard-time and key sequence and then at most 200 status requests; it
  reports success or a time-out, switches the PDI flag on exactly with success and otherwise leaves
  it, and, when the target answers in time, it succeeds exactly if one of the first 200 status
  answers has the NVM-enable bit.\<close>

theorem pdi_init_outcome:
  assumes "tx_live env" and "f \<noteq> 0"
  shows "wp (pdi_init env f s) (\<lambda>(r, s').
     (\<exists>k j. k \<le> 200 \<and> tx s' = tx s @ init_bytes @ replicate k 0x80 \<and> rx_count s' = rx_count s + j)
     \<and> usart_inv s' \<and> char_us s' = 12000 div f
     \<and> pdi_on s' = (if r = NO_ERROR then 1 else pdi_on s) \<and> (r = NO_ERROR \<or> r = TIME_OUT)
     \<and> (answers env resp \<longrightarrow> rx_live env \<longrightarrow>
         (r = NO_ERROR \<longleftrightarrow> (\<exists>i < 200. nvm_enabled resp (tx s @ init_bytes) (rx_count s) i))))"
  using pdi_init_wp [OF assms, of s resp]
  by (elim wp_conseq) (simp only: init_post_def split_paired_all prod.case, blast)

theorem pdi_init_outcome_witness:
  "wp (pdi_init (ready_env (\<lambda>bs n. if n < 3 then 0 else 2)) 200 (pdi_state\<lparr>pdi_on := 0\<rparr>))
     (\<lambda>(r, s'). r = NO_ERROR \<and> pdi_on s' = 1 \<and> char_us s' = 60)"
proof -
  let ?resp = "\<lambda>(bs :: u8 list) (n :: nat). if n < 3 then 0 else 2 :: u8"
  have "nvm_enabled ?resp (tx (pdi_state\<lparr>pdi_on := 0\<rparr>) @ init_bytes) (rx_count (pdi_state\<lparr>pdi_on := 0\<rparr>)) 3"
    by (simp add: nvm_enabled_def NVMEN_MASK_def)
  moreover have "(3 :: nat) < 200" "(12000 :: u16) div 200 = 60" by simp_all
  moreover have "rx_live (ready_env ?resp)" "answers (ready_env ?resp) ?resp" by simp_all
  moreover have "(200 :: u16) \<noteq> 0" by simp
  note pdi_init_outcome [OF ready_env_live(1) this, of ?resp "pdi_state\<lparr>pdi_on := 0\<rparr>" ?resp]
  ultimately show ?thesis
    by (elim wp_conseq) (simp only: split_paired_all prod.case, metis)
qed

text \<open>C23: A block read sends the pointer, the repeat count and one indirect load, and stores what
  the target answers, byte after byte and in order, at the start of the caller's buffer; bytes
  behind the requested count keep their values. It reports success exactly if all bytes arrived; on
  a time-out the bytes before it are stored.\<close>

theorem pdi_read_bytes_outcome:
  assumes "tx_live env" and "answers env resp" and "usart_inv s" and "pdi_on s \<noteq> 0"
    and "unat n \<le> length data"
  shows "wp (pdi_read_bytes env a data n s) (\<lambda>((r, data'), s').
     \<exists>k \<le> unat n. data' = map (resp (tx s @ block_bytes a n @ [0x24])) [rx_count s..<rx_count s + k]
         @ drop k data
       \<and> tx s' = tx s @ block_bytes a n @ [0x24] \<and> rx_count s' = rx_count s + k
       \<and> r = (if k = unat n then NO_ERROR else TIME_OUT) \<and> (rx_live env \<longrightarrow> k = unat n)
       \<and> pdi_on s' = pdi_on s)"
  using pdi_read_bytes_wp [OF assms(1,3,4,5), of a resp]
proof (rule wp_conseq, clarify)
  fix r data' s'
  assume post: "block_read_post env resp (block_bytes a n @ [0x24]) data 0 (unat n) s r data' s'"
  then obtain vs where "length vs \<le> unat n" "data' = vs @ drop (length vs) data"
    and x: "xfer (block_bytes a n @ [0x24]) (length vs) s s'"
    and "r = NO_ERROR \<and> length vs = unat n \<or> r = TIME_OUT \<and> length vs < unat n \<and> \<not> rx_live env"
    and "vs = map (resp (tx s @ block_bytes a n @ [0x24])) [rx_count s..<rx_count s + length vs]"
    using assms(2) by (auto simp: block_read_post_def)
  then show "\<exists>k \<le> unat n.
       data' = map (resp (tx s @ block_bytes a n @ [0x24])) [rx_count s..<rx_count s + k] @ drop k data
       \<and> tx s' = tx s @ block_bytes a n @ [0x24] \<and> rx_count s' = rx_count s + k
       \<and> r = (if k = unat n then NO_ERROR else TIME_OUT) \<and> (rx_live env \<longrightarrow> k = unat n)
       \<and> pdi_on s' = pdi_on s"
    by (intro exI [of _ "length vs"]) (auto simp: xfer_def xfer_pdi_on [OF x])
qed

theorem pdi_read_bytes_outcome_witness:
  "wp (pdi_read_bytes (ready_env (\<lambda>bs n. of_nat n)) 0x800000 (replicate 5 9) 3 pdi_state)
     (\<lambda>((r, data'), s'). r = NO_ERROR \<and> data' = [0, 1, 2, 9, 9])"
proof -
  let ?resp = "\<lambda>(bs :: u8 list) n. of_nat n :: u8"
  have u: "unat (3 :: u16) = 3" by simp
  have r: "replicate 2 (9 :: u8) = [9, 9]" "[0..<3] = [0, 1, 2]"
    by (simp_all add: numeral_2_eq_2 numeral_3_eq_3)
  have "wp (pdi_read_bytes (ready_env ?resp) 0x800000 (replicate 5 9) 3 pdi_state) (\<lambda>((r, data'), s').
     \<exists>k \<le> unat (3 :: u16). data' = map (?resp (tx pdi_state @ block_bytes 0x800000 3 @ [0x24]))
         [rx_count pdi_state..<rx_count pdi_state + k] @ drop k (replicate 5 9)
       \<and> tx s' = tx pdi_state @ block_bytes 0x800000 3 @ [0x24] \<and> rx_count s' = rx_count pdi_state + k
       \<and> r = (if k = unat (3 :: u16) then NO_ERROR else TIME_OUT)
       \<and> (rx_live (ready_env ?resp) \<longrightarrow> k = unat (3 :: u16)) \<and> pdi_on s' = pdi_on pdi_state)"
    by (rule pdi_read_bytes_outcome) (simp_all add: u)
  then show ?thesis
    by (rule wp_conseq) (auto simp: u r)
qed

text \<open>Leaving programming mode ends, sends exactly the release of the reset register, clears the
  PDI flag and leaves the transmitter and receiver switched off.\<close>

theorem pdi_exit_outcome:
  assumes "tx_live env" and "unat (char_us s) \<le> 65525"
  shows "wp (pdi_exit env s) (\<lambda>s'. tx s' = tx s @ [0xC1, 0] \<and> rx_count s' = rx_count s
     \<and> pdi_on s' = 0 \<and> last (writes UCSR1B (trace s')) = 0)"
  using pdi_exit_wp [OF assms] by (rule wp_conseq) blast

theorem pdi_exit_outcome_witness:
  "wp (pdi_exit (ready_env (\<lambda>bs n. 0)) pdi_state) (\<lambda>s'. tx s' = [0xC1, 0] \<and> pdi_on s' = 0)"
proof -
  have "unat (char_us pdi_state) \<le> 65525" by simp
  from pdi_exit_outcome [OF ready_env_live(1) this] show ?thesis by (rule wp_conseq) simp
qed

end
