(* ===== verification/Nvm.thy ===== *)
theory Nvm
  imports Pdi
begin

text \<open>
  The nonvolatile memory controller of the target, driven over PDI: \<^verbatim>\<open>src/nvm.c\<close> of the
  firmware. Commands are byte writes to the controller's registers, completion is polled in its
  status register, pages are loaded through the block transfers of the link layer.
\<close>

subsection \<open>Constants\<close>

definition PDI_MEMORY_BASE :: u32 where "PDI_MEMORY_BASE = 0x01000000"
definition NVM_BASE :: u32 where "NVM_BASE = 0x01C0"
definition NVM_CMD :: u32 where "NVM_CMD = 0x000A"
definition NVM_CTRLA :: u32 where "NVM_CTRLA = 0x000B"
definition NVM_STATUS :: u32 where "NVM_STATUS = 0x000F"

definition CHIP_ERASE :: u8 where "CHIP_ERASE = 0x40"
definition READ_NVM :: u8 where "READ_NVM = 0x43"
definition LOAD_FLASH_PAGE_BUFFER :: u8 where "LOAD_FLASH_PAGE_BUFFER = 0x23"
definition ERASE_FLASH_PAGE_BUFFER :: u8 where "ERASE_FLASH_PAGE_BUFFER = 0x26"
definition ERASE_WRITE_FLASH_PAGE :: u8 where "ERASE_WRITE_FLASH_PAGE = 0x2F"
definition LOAD_EEPROM_PAGE_BUFFER :: u8 where "LOAD_EEPROM_PAGE_BUFFER = 0x33"
definition ERASE_EEPROM_PAGE_BUFFER :: u8 where "ERASE_EEPROM_PAGE_BUFFER = 0x36"
definition ERASE_WRITE_EEPROM_PAGE :: u8 where "ERASE_WRITE_EEPROM_PAGE = 0x35"
definition WRITE_FUSE :: u8 where "WRITE_FUSE = 0x4C"
definition WRITE_LOCK :: u8 where "WRITE_LOCK = 0x08"

text \<open>The enumerations \<^verbatim>\<open>PagedMemory\<close> and \<^verbatim>\<open>ByteMemory\<close>, whose values arrive as raw bytes.\<close>

definition FLASH :: u8 where "FLASH = 0"
definition LOCK :: u8 where "LOCK = 1"

lemmas nvm_addresses = PDI_MEMORY_BASE_def NVM_BASE_def NVM_CMD_def NVM_CTRLA_def NVM_STATUS_def

lemmas nvm_commands = CHIP_ERASE_def READ_NVM_def LOAD_FLASH_PAGE_BUFFER_def
  ERASE_FLASH_PAGE_BUFFER_def ERASE_WRITE_FLASH_PAGE_def LOAD_EEPROM_PAGE_BUFFER_def
  ERASE_EEPROM_PAGE_BUFFER_def ERASE_WRITE_EEPROM_PAGE_def WRITE_FUSE_def WRITE_LOCK_def
  FLASH_def LOCK_def

subsection \<open>Operations\<close>

definition nvm_pointer :: "env \<Rightarrow> u32 \<Rightarrow> 'a pdi_scheme \<Rightarrow> 'a pdi_scheme option" where
  "nvm_pointer env c s = pdi_write_raw env
     [PDI_STORE_INDIRECT OR push_bit 2 PTR OR LONG, ucast c, ucast (drop_bit 8 c),
      ucast (drop_bit 16 c), ucast (drop_bit 24 c)] 5 s"

definition nvm_cmd :: "env \<Rightarrow> u8 \<Rightarrow> 'a pdi_scheme \<Rightarrow> 'a pdi_scheme option" where
  "nvm_cmd env c s = do {
     (_, s) \<leftarrow> pdi_write_byte env (PDI_MEMORY_BASE + NVM_BASE + NVM_CMD) c s;
     Some s
   }"

definition trig_cmdex :: "env \<Rightarrow> 'a pdi_scheme \<Rightarrow> 'a pdi_scheme option" where
  "trig_cmdex env s = do {
     (_, s) \<leftarrow> pdi_write_byte env (PDI_MEMORY_BASE + NVM_BASE + NVM_CTRLA) 0x01 s;
     Some s
   }"

text \<open>
  \<^verbatim>\<open>while (wait--)\<close> on an unsigned char: the test decrements even when it fails, so a loop
  that runs out leaves \<^verbatim>\<open>wait\<close> at 255. \<open>Inl\<close> is the early return, \<open>Inr\<close> the value of \<^verbatim>\<open>wait\<close>
  after the loop.
\<close>

function wait_nvm_loop ::
    "env \<Rightarrow> u8 \<Rightarrow> 'a pdi_scheme \<Rightarrow> ((pdi_result + u8) \<times> 'a pdi_scheme) option" where
  "wait_nvm_loop env wait s =
     (if wait = 0 then Some (Inr (wait - 1), s)
      else do {
        ((ret, status), s) \<leftarrow> pdi_read_byte env (PDI_MEMORY_BASE + NVM_BASE + NVM_STATUS) 0 s;
        if ret \<noteq> NO_ERROR then Some (Inl ret, s)
        else if status AND push_bit 7 1 = 0 then Some (Inr (wait - 1), s)
        else wait_nvm_loop env (wait - 1) (delay_ms 1 s)
      })"
  by pat_completeness auto
termination
  by (relation "measure (\<lambda>(_, wait, _). unat wait)")
    (simp_all add: unat_minus_one unat_gt_0)

declare wait_nvm_loop.simps [simp del]

definition wait_nvm :: "env \<Rightarrow> 'a pdi_scheme \<Rightarrow> (pdi_result \<times> 'a pdi_scheme) option" where
  "wait_nvm env s = do {
     (r, s) \<leftarrow> wait_nvm_loop env 0xFF s;
     case r of
       Inl ret \<Rightarrow> Some (ret, s)
     | Inr wait \<Rightarrow> if wait = 0 then Some (TIME_OUT, s) else Some (NO_ERROR, s)
   }"

definition nvm_chip_erase :: "env \<Rightarrow> 'a pdi_scheme \<Rightarrow> (pdi_result \<times> 'a pdi_scheme) option" where
  "nvm_chip_erase env s = do {
     s \<leftarrow> nvm_cmd env CHIP_ERASE s;
     s \<leftarrow> trig_cmdex env s;
     wait_nvm env s
   }"

definition nvm_read_byte ::
    "env \<Rightarrow> u32 \<Rightarrow> u8 \<Rightarrow> 'a pdi_scheme \<Rightarrow> ((pdi_result \<times> u8) \<times> 'a pdi_scheme) option" where
  "nvm_read_byte env address data s = do {
     s \<leftarrow> nvm_cmd env READ_NVM s;
     pdi_read_byte env address data s
   }"

definition nvm_read_bytes ::
    "env \<Rightarrow> u32 \<Rightarrow> u8 list \<Rightarrow> u16 \<Rightarrow> 'a pdi_scheme \<Rightarrow> ((pdi_result \<times> u8 list) \<times> 'a pdi_scheme) option"
where
  "nvm_read_bytes env address data count s = do {
     s \<leftarrow> nvm_cmd env READ_NVM s;
     pdi_read_bytes env address data count s
   }"

definition nvm_write_byte ::
    "env \<Rightarrow> u32 \<Rightarrow> u8 \<Rightarrow> u8 \<Rightarrow> 'a pdi_scheme \<Rightarrow> (pdi_result \<times> 'a pdi_scheme) option" where
  "nvm_write_byte env address data mem s = do {
     s \<leftarrow> nvm_cmd env (if mem = LOCK then WRITE_LOCK else WRITE_FUSE) s;
     (_, s) \<leftarrow> pdi_write_byte env address data s;
     s \<leftarrow> (if mem = LOCK then trig_cmdex env s else Some s);
     wait_nvm env s
   }"

definition nvm_paged_write ::
    "env \<Rightarrow> u32 \<Rightarrow> u8 list \<Rightarrow> u16 \<Rightarrow> u8 \<Rightarrow> 'a pdi_scheme \<Rightarrow> (pdi_result \<times> 'a pdi_scheme) option" where
  "nvm_paged_write env address data count mem s = do {
     s \<leftarrow> nvm_pointer env address s;
     s \<leftarrow> nvm_cmd env (if mem = FLASH then ERASE_FLASH_PAGE_BUFFER else ERASE_EEPROM_PAGE_BUFFER) s;
     s \<leftarrow> trig_cmdex env s;
     (_, s) \<leftarrow> wait_nvm env s;
     s \<leftarrow> nvm_cmd env (if mem = FLASH then LOAD_FLASH_PAGE_BUFFER else LOAD_EEPROM_PAGE_BUFFER) s;
     (_, s) \<leftarrow> pdi_write_bytes env address data count s;
     s \<leftarrow> nvm_cmd env (if mem = FLASH then ERASE_WRITE_FLASH_PAGE else ERASE_WRITE_EEPROM_PAGE) s;
     s \<leftarrow> nvm_pointer env address s;
     s \<leftarrow> pdi_write_raw env [PDI_STORE_INDIRECT OR push_bit 2 PTR_DATA_INC, 0x00] 2 s;
     wait_nvm env s
   }"

subsection \<open>Command bytes\<close>

definition cmd_bytes :: "u8 \<Rightarrow> u8 list" where
  "cmd_bytes c = sts_bytes 0x010001CA c"

definition cmdex_bytes :: "u8 list" where
  "cmdex_bytes = sts_bytes 0x010001CB 1"

definition status_bytes :: "u8 list" where
  "status_bytes = lds_bytes 0x010001CF"

definition ptr_bytes :: "u32 \<Rightarrow> u8 list" where
  "ptr_bytes a = 0x6B # le32 a"

lemma sent_keeps: "sent bs s s' \<Longrightarrow> usart_inv s' \<and> pdi_on s' = pdi_on s \<and> ustate s' = UTX"
  by (simp add: sent_inv sent_pdi_on) (simp add: sent_def)

lemma write_byte_bind_sent:
  assumes "tx_live env" and "usart_inv s" and "pdi_on s \<noteq> 0"
  shows "wp (do { (_, s) \<leftarrow> pdi_write_byte env a d s; Some s }) (sent (sts_bytes a d) s)"
  using pdi_write_byte_wp [OF assms, of a d] by (auto elim: wp_conseq)

lemma nvm_cmd_sent:
  "tx_live env \<Longrightarrow> usart_inv s \<Longrightarrow> pdi_on s \<noteq> 0 \<Longrightarrow> wp (nvm_cmd env c s) (sent (cmd_bytes c) s)"
  unfolding nvm_cmd_def cmd_bytes_def nvm_addresses
  using write_byte_bind_sent by simp

lemma trig_cmdex_sent:
  "tx_live env \<Longrightarrow> usart_inv s \<Longrightarrow> pdi_on s \<noteq> 0 \<Longrightarrow> wp (trig_cmdex env s) (sent cmdex_bytes s)"
  unfolding trig_cmdex_def cmdex_bytes_def nvm_addresses
  using write_byte_bind_sent by simp

lemma nvm_pointer_sent:
  assumes "tx_live env" and "usart_inv s"
  shows "wp (nvm_pointer env a s) (sent (ptr_bytes a) s)"
  using pdi_write_raw_sent [OF assms, of 5 "0x6B # le32 a"]
  by (simp add: nvm_pointer_def ptr_bytes_def le32_def pdi_consts)

subsection \<open>Waiting for the controller\<close>

text \<open>The busy flag in the answer to the \<open>i\<close>-th status read.\<close>

definition nvm_busy :: "(u8 list \<Rightarrow> nat \<Rightarrow> u8) \<Rightarrow> u8 list \<Rightarrow> nat \<Rightarrow> nat \<Rightarrow> bool" where
  "nvm_busy resp bs m i \<longleftrightarrow> bit (resp (bs @ concat (replicate (Suc i) status_bytes)) (m + i)) 7"

text \<open>What \<^verbatim>\<open>wait\<close> holds when the first of \<open>n\<close> looks that finds the controller idle is over.\<close>

fun wait_left :: "(nat \<Rightarrow> bool) \<Rightarrow> nat \<Rightarrow> nat option" where
  "wait_left busy 0 = None"
| "wait_left busy (Suc n) = (if busy 0 then wait_left (\<lambda>i. busy (Suc i)) n else Some n)"

lemma wait_left_None: "wait_left busy n = None \<longleftrightarrow> (\<forall>i < n. busy i)"
  by (induction n arbitrary: busy) (auto simp: All_less_Suc2)

lemma wait_left_0: "wait_left busy n = Some 0 \<longleftrightarrow> 0 < n \<and> (\<forall>i < n - 1. busy i) \<and> \<not> busy (n - 1)"
proof (induction n arbitrary: busy)
  case (Suc n)
  show ?case
  proof (cases n)
    case (Suc m)
    have "(\<forall>i < Suc m. busy i) \<longleftrightarrow> busy 0 \<and> (\<forall>i < m. busy (Suc i))"
      by (rule All_less_Suc2)
    with Suc.IH [of "\<lambda>i. busy (Suc i)"] show ?thesis by (auto simp: \<open>n = Suc m\<close>)
  qed simp
qed simp

lemma wait_left_less: "wait_left busy n = Some m \<Longrightarrow> m < n"
  by (induction n arbitrary: busy) (auto split: if_splits simp: less_Suc_eq)

definition wait_post ::
    "env \<Rightarrow> (u8 list \<Rightarrow> nat \<Rightarrow> u8) \<Rightarrow> nat \<Rightarrow> 'a usart_scheme \<Rightarrow> pdi_result + u8 \<Rightarrow> 'a usart_scheme \<Rightarrow> bool"
where
  "wait_post env resp n s r s' \<longleftrightarrow>
     (\<exists>k j. k \<le> n \<and> xfer (concat (replicate k status_bytes)) j s s')
     \<and> (\<forall>e. r = Inl e \<longrightarrow> e = TIME_OUT \<and> \<not> rx_live env)
     \<and> (answers env resp \<longrightarrow> rx_live env \<longrightarrow>
          r = Inr (case wait_left (nvm_busy resp (tx s) (rx_count s)) n of
                     None \<Rightarrow> 255 | Some m \<Rightarrow> of_nat m))"

lemma wait_post_step:
  assumes "wait_post env resp n s2 r s'" and "xfer status_bytes 1 s s2"
    and "answers env resp \<longrightarrow> nvm_busy resp (tx s) (rx_count s) 0"
  shows "wait_post env resp (Suc n) s r s'"
proof -
  have busy: "nvm_busy resp (tx s2) (rx_count s2) i = nvm_busy resp (tx s) (rx_count s) (Suc i)" for i
    using assms(2) by (simp add: nvm_busy_def xfer_def)
  from assms(1) obtain k j where "k \<le> n" and "xfer (concat (replicate k status_bytes)) j s2 s'"
    by (auto simp: wait_post_def)
  then have "Suc k \<le> Suc n \<and> xfer (concat (replicate (Suc k) status_bytes)) (1 + j) s s'"
    using xfer_trans [OF assms(2), of "concat (replicate k status_bytes)" j s'] by simp
  then have "\<exists>k j. k \<le> Suc n \<and> xfer (concat (replicate k status_bytes)) j s s'" by blast
  then show ?thesis
    using assms(1,3) unfolding wait_post_def busy by auto
qed

lemma delay_ms_xfer: "usart_inv s \<Longrightarrow> xfer [] 0 s (delay_ms n s)"
  by (simp add: xfer_def tx_def rx_count_def ep_def usb_events_append usart_inv_def)

lemma and_bit7: "(v :: u8) AND 128 = 0 \<longleftrightarrow> \<not> bit v 7"
  using and_single_bit_eq_0 [of v 7] by simp

lemma status_read_wp:
  assumes "tx_live env" and "usart_inv s" and "pdi_on s \<noteq> 0"
  shows "wp (pdi_read_byte env (PDI_MEMORY_BASE + NVM_BASE + NVM_STATUS) 0 s)
    (\<lambda>((ret, status), s').
      (ret = NO_ERROR \<and> xfer status_bytes 1 s s' \<or> ret = TIME_OUT \<and> \<not> rx_live env \<and> xfer status_bytes 0 s s')
      \<and> (answers env resp \<longrightarrow> ret = NO_ERROR \<longrightarrow>
           (status AND push_bit 7 1 = 0 \<longleftrightarrow> \<not> nvm_busy resp (tx s) (rx_count s) 0)))"
proof -
  have addr: "PDI_MEMORY_BASE + NVM_BASE + NVM_STATUS = 0x010001CF"
    by (simp add: nvm_addresses)
  show ?thesis
    unfolding addr
    by (rule wp_conseq [OF pdi_read_byte_wp [OF assms, where resp = resp]])
      (auto simp: read_post_def status_bytes_def nvm_busy_def and_bit7)
qed

lemma wait_nvm_loop_wp:
  assumes "tx_live env" and "usart_inv s" and "pdi_on s \<noteq> 0"
  shows "wp (wait_nvm_loop env w s) (\<lambda>(r, s'). wait_post env resp (unat w) s r s')"
  using assms(2,3)
proof (induction "unat w" arbitrary: w s)
  case 0
  then have "w = 0" by (simp add: unat_eq_zero)
  with 0 show ?case
    by (subst wait_nvm_loop.simps) (auto simp: wait_post_def xfer_def)
next
  case (Suc n)
  then have "w \<noteq> 0" by auto
  with Suc.hyps(2) have w: "w \<noteq> 0" "unat (w - 1) = n"
    by (simp_all add: unat_minus_one)
  let ?Q = "\<lambda>(r, s'). wait_post env resp (Suc n) s r s'"
  have step: "wp (if ret \<noteq> NO_ERROR then Some (Inl ret, s1)
        else if status AND push_bit 7 1 = 0 then Some (Inr (w - 1), s1)
        else wait_nvm_loop env (w - 1) (delay_ms 1 s1)) ?Q"
    if x: "ret = NO_ERROR \<and> xfer status_bytes 1 s s1
        \<or> ret = TIME_OUT \<and> \<not> rx_live env \<and> xfer status_bytes 0 s s1"
      and a: "answers env resp \<longrightarrow> ret = NO_ERROR \<longrightarrow>
           (status AND push_bit 7 1 = 0 \<longleftrightarrow> \<not> nvm_busy resp (tx s) (rx_count s) 0)"
    for ret and status :: u8 and s1
  proof -
    have x1: "\<exists>k j. k \<le> Suc n \<and> xfer (concat (replicate k status_bytes)) j s s1"
    proof -
      obtain j where "xfer status_bytes j s s1" using x by blast
      then show ?thesis by (intro exI [of _ "Suc 0"] exI [of _ j]) simp
    qed
    show ?thesis
    proof (cases "ret = NO_ERROR \<and> status AND push_bit 7 1 \<noteq> 0")
      case False
      have "of_nat n = w - 1" by (simp flip: w(2))
      with False x x1 a show ?thesis by (auto simp: wait_post_def)
    next
      case True
      with x have x2: "xfer status_bytes 1 s (delay_ms 1 s1)"
        using xfer_trans [of status_bytes 1 s s1 "[]" 0 "delay_ms 1 s1"] by (auto intro: delay_ms_xfer xfer_inv)
      have "wp (wait_nvm_loop env (w - 1) (delay_ms 1 s1))
          (\<lambda>(r, s'). wait_post env resp (unat (w - 1)) (delay_ms 1 s1) r s')"
        using Suc.prems w xfer_inv [OF x2] xfer_pdi_on [OF x2] by (intro Suc.hyps(1)) simp_all
      with True x2 a w show ?thesis by (auto elim!: wp_conseq intro: wait_post_step)
    qed
  qed
  have "wp (wait_nvm_loop env w s) ?Q"
    apply (subst wait_nvm_loop.simps)
    apply (simp only: w if_False)
    apply (rule wp_bind_conseq [OF status_read_wp [OF assms(1) Suc.prems, where resp = resp]])
    apply (simp only: split_paired_all prod.case)
    apply (rule step; blast)
    done
  then show ?case by (simp add: Suc.hyps(2))
qed

text \<open>
  The outcome of a command that was sent as \<open>pre\<close> and then waited for. The wait reports success
  if one of the first 254 looks finds the controller idle, but also if none of the 255 does.
\<close>

definition nvm_post ::
    "env \<Rightarrow> (u8 list \<Rightarrow> nat \<Rightarrow> u8) \<Rightarrow> u8 list \<Rightarrow> 'a usart_scheme \<Rightarrow> pdi_result \<Rightarrow> 'a usart_scheme \<Rightarrow> bool"
where
  "nvm_post env resp pre s r s' \<longleftrightarrow>
     (\<exists>k j. k \<le> 255 \<and> xfer (pre @ concat (replicate k status_bytes)) j s s')
     \<and> (r = NO_ERROR \<or> r = TIME_OUT)
     \<and> (answers env resp \<longrightarrow> rx_live env \<longrightarrow>
          (r = NO_ERROR \<longleftrightarrow> (\<exists>i < 254. \<not> nvm_busy resp (tx s @ pre) (rx_count s) i)
                       \<or> (\<forall>i < 255. nvm_busy resp (tx s @ pre) (rx_count s) i)))"

lemma wait_left_ok:
  "(case wait_left busy 255 of None \<Rightarrow> 255 | Some m \<Rightarrow> of_nat m) \<noteq> (0 :: u8)
     \<longleftrightarrow> (\<exists>i < 254. \<not> busy i) \<or> (\<forall>i < 255. busy i)"
proof -
  have z: "(of_nat m :: u8) = 0 \<longleftrightarrow> m = 0" if "m < 255" for m
    using that nat_dvd_not_less [of m 256] by (auto simp: word_of_nat_eq_0_iff)
  have "(case wait_left busy 255 of None \<Rightarrow> 255 | Some m \<Rightarrow> of_nat m) \<noteq> (0 :: u8)
     \<longleftrightarrow> wait_left busy 255 \<noteq> Some 0"
    using wait_left_less [of busy 255] z by (cases "wait_left busy 255") simp_all
  also have "\<dots> \<longleftrightarrow> (\<exists>i < 254. \<not> busy i) \<or> busy 254"
    using wait_left_0 [of busy 255] by auto
  also have "\<dots> \<longleftrightarrow> (\<exists>i < 254. \<not> busy i) \<or> (\<forall>i < 255. busy i)"
  proof -
    have "i < 254 \<or> i = 254" if "i < 255" for i :: nat using that by linarith
    moreover have "(254 :: nat) < 255" by simp
    ultimately show ?thesis by metis
  qed
  finally show ?thesis .
qed

lemma nvm_postI:
  assumes "sent pre s s1" and "wait_post env resp 255 s1 x s'"
    and "r = (case x of Inl e \<Rightarrow> e | Inr w \<Rightarrow> if w = 0 then TIME_OUT else NO_ERROR)"
  shows "nvm_post env resp pre s r s'"
proof -
  from assms(2) obtain k j where "k \<le> 255" and "xfer (concat (replicate k status_bytes)) j s1 s'"
    by (auto simp: wait_post_def)
  then have "k \<le> 255 \<and> xfer (pre @ concat (replicate k status_bytes)) j s s'"
    using xfer_trans [OF sent_xfer [OF assms(1)]] by fastforce
  then have x: "\<exists>k j. k \<le> 255 \<and> xfer (pre @ concat (replicate k status_bytes)) j s s'" by blast
  have "r = NO_ERROR \<or> r = TIME_OUT"
    using assms(2,3) by (cases x) (auto simp: wait_post_def)
  moreover have "answers env resp \<longrightarrow> rx_live env \<longrightarrow>
          (r = NO_ERROR \<longleftrightarrow> (\<exists>i < 254. \<not> nvm_busy resp (tx s @ pre) (rx_count s) i)
                       \<or> (\<forall>i < 255. nvm_busy resp (tx s @ pre) (rx_count s) i))"
    using assms wait_left_ok [of "nvm_busy resp (tx s @ pre) (rx_count s)"]
    by (auto simp: wait_post_def sent_def)
  ultimately show ?thesis
    using x by (simp add: nvm_post_def)
qed

lemma wait_nvm_after:
  assumes "tx_live env" and "pdi_on s \<noteq> 0" and "sent pre s s1"
  shows "wp (wait_nvm env s1) (\<lambda>(r, s'). nvm_post env resp pre s r s')"
proof -
  have "wp (wait_nvm_loop env 0xFF s1) (\<lambda>(r, s'). wait_post env resp 255 s1 r s')"
    using wait_nvm_loop_wp [OF assms(1) sent_inv [OF assms(3)], where w = 255] sent_pdi_on [OF assms(3)] assms(2)
    by simp
  then show ?thesis
    unfolding wait_nvm_def
  proof (rule wp_bind_conseq, clarify)
    fix x s' assume w: "wait_post env resp 255 s1 x s'"
    show "wp (case x of Inl ret \<Rightarrow> Some (ret, s')
        | Inr wait \<Rightarrow> if wait = 0 then Some (TIME_OUT, s') else Some (NO_ERROR, s'))
      (\<lambda>(r, s'). nvm_post env resp pre s r s')"
      using nvm_postI [OF assms(3) w refl] by (cases x) (simp_all split: if_splits)
  qed
qed

subsection \<open>The operations on the wire\<close>

lemma nvm_post_xfer:
  assumes "xfer pre j s s1" and "nvm_post env resp pre' s1 r s'"
  shows "\<exists>k i. k \<le> 255 \<and> xfer (pre @ pre' @ concat (replicate k status_bytes)) i s s'"
  using assms xfer_trans unfolding nvm_post_def by blast

lemma nvm_chip_erase_wp:
  assumes "tx_live env" and "usart_inv s" and "pdi_on s \<noteq> 0"
  shows "wp (nvm_chip_erase env s) (\<lambda>(r, s').
     nvm_post env resp (cmd_bytes 0x40 @ cmdex_bytes) s r s')"
proof -
  have "wp (do { s \<leftarrow> nvm_cmd env 0x40 s; trig_cmdex env s }) (sent (cmd_bytes 0x40 @ cmdex_bytes) s)"
    using assms by (intro sent_bind nvm_cmd_sent trig_cmdex_sent) (auto dest!: sent_keeps)
  then have "wp (Option.bind (do { s \<leftarrow> nvm_cmd env 0x40 s; trig_cmdex env s }) (wait_nvm env))
      (\<lambda>(r, s'). nvm_post env resp (cmd_bytes 0x40 @ cmdex_bytes) s r s')"
    by (rule wp_bind_conseq) (rule wait_nvm_after [OF assms(1,3)])
  then show ?thesis
    by (simp add: nvm_chip_erase_def nvm_commands bind_assoc del: wp_bind)
qed

lemma nvm_read_bytes_wp:
  assumes "tx_live env" and "usart_inv s" and "pdi_on s \<noteq> 0" and "unat n \<le> length data"
  shows "wp (nvm_read_bytes env a data n s) (\<lambda>((r, data'), s').
     block_read_post env resp (cmd_bytes 0x43 @ block_bytes a n @ [0x24]) data 0 (unat n) s r data' s')"
proof -
  have "block_read_post env resp (cmd_bytes 0x43 @ block_bytes a n @ [0x24]) data 0 (unat n) s r data' s'"
    if "sent (cmd_bytes 0x43) s s1"
      and "block_read_post env resp (block_bytes a n @ [0x24]) data 0 (unat n) s1 r data' s'" for s1 r data' s'
    using that unfolding block_read_post_def by (auto simp: sent_def xfer_def intro!: exI)
  then have "wp (pdi_read_bytes env a data n s1) (\<lambda>((r, data'), s').
     block_read_post env resp (cmd_bytes 0x43 @ block_bytes a n @ [0x24]) data 0 (unat n) s r data' s')"
    if "sent (cmd_bytes 0x43) s s1" for s1
    using that assms sent_inv [OF that] sent_pdi_on [OF that]
    by (intro wp_conseq [OF pdi_read_bytes_wp [where resp = resp]]) auto
  with nvm_cmd_sent [OF assms(1-3), of "0x43"] show ?thesis
    unfolding nvm_read_bytes_def nvm_commands by (rule wp_bind_conseq)
qed

lemma nvm_read_byte_wp:
  assumes "tx_live env" and "usart_inv s" and "pdi_on s \<noteq> 0"
  shows "wp (nvm_read_byte env a d s) (\<lambda>((r, v), s').
     read_post env resp (cmd_bytes 0x43 @ lds_bytes a) d s r v s')"
proof -
  have "read_post env resp (cmd_bytes 0x43 @ lds_bytes a) d s r v s'"
    if "sent (cmd_bytes 0x43) s s1" and "read_post env resp (lds_bytes a) d s1 r v s'" for s1 r v s'
    using that by (auto simp: read_post_def sent_def xfer_def)
  then have "wp (pdi_read_byte env a d s1) (\<lambda>((r, v), s').
     read_post env resp (cmd_bytes 0x43 @ lds_bytes a) d s r v s')"
    if "sent (cmd_bytes 0x43) s s1" for s1
    using that assms sent_inv [OF that] sent_pdi_on [OF that]
    by (intro wp_conseq [OF pdi_read_byte_wp [where resp = resp]]) auto
  with nvm_cmd_sent [OF assms(1-3), of "0x43"] show ?thesis
    unfolding nvm_read_byte_def nvm_commands by (rule wp_bind_conseq)
qed

text \<open>A fuse byte is written directly; the lock byte needs the command-execute bit on top.\<close>

definition byte_write_bytes :: "u32 \<Rightarrow> u8 \<Rightarrow> u8 \<Rightarrow> u8 list" where
  "byte_write_bytes a d mem = cmd_bytes (if mem = 1 then 0x08 else 0x4C) @ sts_bytes a d
     @ (if mem = 1 then cmdex_bytes else [])"

lemma nvm_write_byte_wp:
  fixes s :: "'a pdi_scheme"
  assumes "tx_live env" and "usart_inv s" and "pdi_on s \<noteq> 0"
  shows "wp (nvm_write_byte env a d mem s) (\<lambda>(r, s').
     nvm_post env resp (byte_write_bytes a d mem) s r s')"
proof -
  let ?trig = "\<lambda>s. if mem = 1 then trig_cmdex env s else Some s"
  let ?pre = "do { s \<leftarrow> nvm_cmd env (if mem = 1 then 0x08 else 0x4C) s;
     s \<leftarrow> do { (_, s) \<leftarrow> pdi_write_byte env a d s; Some s }; ?trig s }"
  have "wp (?trig s2) (sent (if mem = 1 then cmdex_bytes else []) s2)"
    if "usart_inv s2" and "ustate s2 = UTX" and "pdi_on s2 \<noteq> 0" for s2 :: "'a pdi_scheme"
    using that assms(1) by (auto simp: sent_def intro!: trig_cmdex_sent)
  then have "wp ?pre (sent (byte_write_bytes a d mem) s)"
    using assms unfolding byte_write_bytes_def
    by (intro sent_bind nvm_cmd_sent write_byte_bind_sent) (auto dest!: sent_keeps)
  then have "wp (Option.bind ?pre (wait_nvm env)) (\<lambda>(r, s').
      nvm_post env resp (byte_write_bytes a d mem) s r s')"
    by (rule wp_bind_conseq) (rule wait_nvm_after [OF assms(1,3)])
  moreover have "nvm_write_byte env a d mem s = Option.bind ?pre (wait_nvm env)"
    by (simp add: nvm_write_byte_def nvm_commands bind_assoc split_def)
  ultimately show ?thesis by simp
qed

text \<open>
  Writing a page: point to it, erase the page buffer, wait, load the buffer with a repeated
  store, then erase and write the page with a dummy store through the pointer, and wait.
\<close>

definition page_erase_bytes :: "u32 \<Rightarrow> u8 \<Rightarrow> u8 list" where
  "page_erase_bytes a mem = ptr_bytes a @ cmd_bytes (if mem = 0 then 0x26 else 0x36) @ cmdex_bytes"

definition page_load_bytes :: "u32 \<Rightarrow> u8 list \<Rightarrow> u16 \<Rightarrow> u8 \<Rightarrow> u8 list" where
  "page_load_bytes a data n mem = cmd_bytes (if mem = 0 then 0x23 else 0x33)
     @ (block_bytes a n @ 0x64 # take (unat n) data)
     @ cmd_bytes (if mem = 0 then 0x2F else 0x35) @ ptr_bytes a @ [0x64, 0x00]"

lemma write_bytes_bind_sent:
  assumes "tx_live env" and "usart_inv s" and "pdi_on s \<noteq> 0" and "unat n \<le> length data"
  shows "wp (do { (_, s) \<leftarrow> pdi_write_bytes env a data n s; Some s })
    (sent (block_bytes a n @ 0x64 # take (unat n) data) s)"
  using pdi_write_bytes_wp [OF assms, of a] by (auto elim: wp_conseq)

lemma dummy_store_sent:
  assumes "tx_live env" and "usart_inv s"
  shows "wp (pdi_write_raw env [0x64, 0x00] 2 s) (sent [0x64, 0x00] s)"
  using pdi_write_raw_sent [OF assms, of 2 "[0x64, 0]"] by simp

lemma page_load_sent:
  assumes "tx_live env" and "usart_inv s" and "pdi_on s \<noteq> 0" and "unat n \<le> length data"
  shows "wp (do {
     s \<leftarrow> nvm_cmd env (if mem = FLASH then LOAD_FLASH_PAGE_BUFFER else LOAD_EEPROM_PAGE_BUFFER) s;
     s \<leftarrow> do { (_, s) \<leftarrow> pdi_write_bytes env a data n s; Some s };
     s \<leftarrow> nvm_cmd env (if mem = FLASH then ERASE_WRITE_FLASH_PAGE else ERASE_WRITE_EEPROM_PAGE) s;
     s \<leftarrow> nvm_pointer env a s;
     pdi_write_raw env [0x64, 0x00] 2 s }) (sent (page_load_bytes a data n mem) s)"
  unfolding page_load_bytes_def nvm_commands
  using assms
  by (intro sent_bind nvm_cmd_sent write_bytes_bind_sent nvm_pointer_sent dummy_store_sent)
    (auto dest!: sent_keeps)

lemma page_erase_sent:
  assumes "tx_live env" and "usart_inv s" and "pdi_on s \<noteq> 0"
  shows "wp (do {
     s \<leftarrow> nvm_pointer env a s;
     s \<leftarrow> nvm_cmd env (if mem = FLASH then ERASE_FLASH_PAGE_BUFFER else ERASE_EEPROM_PAGE_BUFFER) s;
     trig_cmdex env s }) (sent (page_erase_bytes a mem) s)"
  unfolding page_erase_bytes_def nvm_commands
  using assms
  by (intro sent_bind nvm_cmd_sent trig_cmdex_sent nvm_pointer_sent) (auto dest!: sent_keeps)

definition page_post ::
    "env \<Rightarrow> (u8 list \<Rightarrow> nat \<Rightarrow> u8) \<Rightarrow> u32 \<Rightarrow> u8 list \<Rightarrow> u16 \<Rightarrow> u8 \<Rightarrow> 'a usart_scheme \<Rightarrow> pdi_result
      \<Rightarrow> 'a usart_scheme \<Rightarrow> bool" where
  "page_post env resp a data n mem s r s' \<longleftrightarrow>
     (\<exists>k l j. k \<le> 255 \<and> l \<le> 255 \<and> (r = NO_ERROR \<or> r = TIME_OUT) \<and>
        xfer (page_erase_bytes a mem @ concat (replicate k status_bytes) @ page_load_bytes a data n mem
           @ concat (replicate l status_bytes)) j s s')"

lemma page_postI:
  assumes "nvm_post env resp (page_erase_bytes a mem) s r1 s1"
    and "nvm_post env resp (page_load_bytes a data n mem) s1 r s'"
  shows "page_post env resp a data n mem s r s'"
proof -
  from assms(1) obtain k j where k: "k \<le> 255"
    "xfer (page_erase_bytes a mem @ concat (replicate k status_bytes)) j s s1"
    by (auto simp: nvm_post_def)
  from assms(2) obtain l i where "l \<le> 255" "r = NO_ERROR \<or> r = TIME_OUT"
    "xfer (page_load_bytes a data n mem @ concat (replicate l status_bytes)) i s1 s'"
    by (auto simp: nvm_post_def)
  with k xfer_trans [OF k(2)] show ?thesis
    unfolding page_post_def by (metis append_assoc)
qed

lemma nvm_paged_write_wp:
  assumes "tx_live env" and "usart_inv s" and "pdi_on s \<noteq> 0" and "unat n \<le> length data"
  shows "wp (nvm_paged_write env a data n mem s) (\<lambda>(r, s'). page_post env resp a data n mem s r s')"
proof -
  let ?erase = "do { s \<leftarrow> nvm_pointer env a s;
     s \<leftarrow> nvm_cmd env (if mem = FLASH then ERASE_FLASH_PAGE_BUFFER else ERASE_EEPROM_PAGE_BUFFER) s;
     trig_cmdex env s }"
  let ?load = "\<lambda>s. do {
     s \<leftarrow> nvm_cmd env (if mem = FLASH then LOAD_FLASH_PAGE_BUFFER else LOAD_EEPROM_PAGE_BUFFER) s;
     s \<leftarrow> do { (_, s) \<leftarrow> pdi_write_bytes env a data n s; Some s };
     s \<leftarrow> nvm_cmd env (if mem = FLASH then ERASE_WRITE_FLASH_PAGE else ERASE_WRITE_EEPROM_PAGE) s;
     s \<leftarrow> nvm_pointer env a s;
     pdi_write_raw env [0x64, 0x00] 2 s }"
  have eq: "nvm_paged_write env a data n mem s
      = Option.bind (Option.bind ?erase (wait_nvm env)) (\<lambda>(_, s). Option.bind (?load s) (wait_nvm env))"
    by (simp add: nvm_paged_write_def pdi_consts bind_assoc split_def)
  have first: "wp (Option.bind ?erase (wait_nvm env))
      (\<lambda>(r, s1). nvm_post env resp (page_erase_bytes a mem) s r s1)"
    by (rule wp_bind_conseq [OF page_erase_sent [OF assms(1-3)]]) (rule wait_nvm_after [OF assms(1,3)])
  have second: "wp (Option.bind (?load s1) (wait_nvm env)) (\<lambda>(r, s'). page_post env resp a data n mem s r s')"
    if p: "nvm_post env resp (page_erase_bytes a mem) s r1 s1" for r1 s1
  proof -
    from p obtain k j where "xfer (page_erase_bytes a mem @ concat (replicate k status_bytes)) j s s1"
      by (auto simp: nvm_post_def)
    then have s1: "usart_inv s1" "pdi_on s1 \<noteq> 0"
      using assms(3) by (simp_all add: xfer_inv xfer_pdi_on)
    have "wp (Option.bind (?load s1) (wait_nvm env))
        (\<lambda>(r, s'). nvm_post env resp (page_load_bytes a data n mem) s1 r s')"
      by (rule wp_bind_conseq [OF page_load_sent [OF assms(1) s1 assms(4)]])
        (rule wait_nvm_after [OF assms(1) s1(2)])
    then show ?thesis by (rule wp_conseq) (auto intro: page_postI [OF p])
  qed
  show ?thesis
    unfolding eq by (rule wp_bind_conseq [OF first]) (use second in \<open>simp only: split_paired_all prod.case\<close>)
qed

subsection \<open>While PDI is off\<close>

lemma pdi_off:
  assumes "pdi_on s = 0"
  shows "pdi_read_byte env a d s = Some ((PDI_DISABLED, d), s)"
    and "pdi_write_byte env a d s = Some (PDI_DISABLED, s)"
    and "pdi_read_bytes env a data n s = Some ((PDI_DISABLED, data), s)"
    and "pdi_write_bytes env a data n s = Some (PDI_DISABLED, s)"
  using assms
  by (simp_all add: pdi_read_byte_def pdi_write_byte_def pdi_read_bytes_def pdi_write_bytes_def)

lemma wait_nvm_off: "pdi_on s = 0 \<Longrightarrow> wait_nvm env s = Some (PDI_DISABLED, s)"
  by (simp add: wait_nvm_def wait_nvm_loop.simps [of env 255 s] pdi_off)

lemma nvm_off:
  assumes "pdi_on s = 0"
  shows "nvm_cmd env c s = Some s" and "trig_cmdex env s = Some s"
    and "nvm_chip_erase env s = Some (PDI_DISABLED, s)"
    and "nvm_read_byte env a d s = Some ((PDI_DISABLED, d), s)"
    and "nvm_read_bytes env a data n s = Some ((PDI_DISABLED, data), s)"
    and "nvm_write_byte env a d mem s = Some (PDI_DISABLED, s)"
  using assms
  by (simp_all add: nvm_cmd_def trig_cmdex_def nvm_chip_erase_def nvm_read_byte_def
      nvm_read_bytes_def nvm_write_byte_def pdi_off wait_nvm_off)

text \<open>With PDI off, a page write still pushes its unguarded bytes into the transmitter.\<close>

lemma paged_write_off_sent:
  assumes "tx_live env" and "usart_inv s" and "pdi_on s = 0"
  shows "wp (nvm_paged_write env a data n mem s) (\<lambda>(r, s'). r = PDI_DISABLED
     \<and> sent (ptr_bytes a @ ptr_bytes a @ [0x64, 0x00]) s s')"
proof -
  let ?raw = "\<lambda>s. do { s \<leftarrow> nvm_pointer env a s; pdi_write_raw env [0x64, 0x00] 2 s }"
  have raw: "wp (?raw s1) (sent (ptr_bytes a @ [0x64, 0x00]) s1)" if "sent (ptr_bytes a) s s1" for s1
    using assms(1) sent_inv [OF that]
    by (intro sent_bind nvm_pointer_sent dummy_store_sent) (auto dest: sent_inv)
  have skip: "wp (Option.bind (?raw s1) (wait_nvm env))
       (\<lambda>(r, s'). r = PDI_DISABLED \<and> sent (ptr_bytes a @ ptr_bytes a @ [0x64, 0x00]) s s')"
    if "sent (ptr_bytes a) s s1" for s1
  proof (rule wp_bind_conseq [OF raw [OF that]])
    fix s2 assume r: "sent (ptr_bytes a @ [0x64, 0x00]) s1 s2"
    have "pdi_on s2 = 0" using sent_pdi_on [OF r] sent_pdi_on [OF that] assms(3) by simp
    then show "wp (wait_nvm env s2)
        (\<lambda>(r, s'). r = PDI_DISABLED \<and> sent (ptr_bytes a @ ptr_bytes a @ [0x64, 0x00]) s s')"
      using sent_trans [OF that r] by (simp add: wait_nvm_off)
  qed
  obtain s1 where s1: "nvm_pointer env a s = Some s1" "sent (ptr_bytes a) s s1"
    using nvm_pointer_sent [OF assms(1,2)] by (auto simp: wp_ex)
  have "nvm_paged_write env a data n mem s = Option.bind (?raw s1) (wait_nvm env)"
    using s1(1) sent_pdi_on [OF s1(2)] assms(3)
    by (simp add: nvm_paged_write_def nvm_off wait_nvm_off pdi_off pdi_consts bind_assoc)
  then show ?thesis using skip [OF s1(2)] by simp
qed

subsection \<open>Properties\<close>

text \<open>C22: Waiting for the memory controller always ends after at most 255 status reads. When the
  target answers, the result is NO_ERROR if one of the first 254 looks finds the controller idle,
  and also if none of the 255 does: the counter of the loop wraps below zero, so the time-out of
  the code is reported in the one case that the very last look succeeds, and a controller that
  stays busy is reported as finished.\<close>

theorem wait_nvm_outcome:
  assumes "tx_live env" and "answers env resp" and "rx_live env" and "usart_inv s" and "pdi_on s \<noteq> 0"
  shows "\<exists>r s' k. wait_nvm env s = Some (r, s')
     \<and> k \<le> 255 \<and> tx s' = tx s @ concat (replicate k status_bytes)
     \<and> (r = NO_ERROR \<longleftrightarrow> (\<exists>i < 254. \<not> nvm_busy resp (tx s) (rx_count s) i)
                       \<or> (\<forall>i < 255. nvm_busy resp (tx s) (rx_count s) i))
     \<and> (r = TIME_OUT \<longleftrightarrow> (\<forall>i < 254. nvm_busy resp (tx s) (rx_count s) i)
                       \<and> \<not> nvm_busy resp (tx s) (rx_count s) 254)"
proof -
  have "wp (wait_nvm_loop env 0xFF s) (\<lambda>(r, s'). wait_post env resp 255 s r s')"
    using wait_nvm_loop_wp [OF assms(1,4,5), of 255 resp] by simp
  then obtain x s' where x: "wait_nvm_loop env 0xFF s = Some (x, s')" "wait_post env resp 255 s x s'"
    by (auto simp: wp_ex)
  let ?b = "nvm_busy resp (tx s) (rx_count s)"
  from x(2) obtain w where w: "x = Inr w" "w = (case wait_left ?b 255 of None \<Rightarrow> 255 | Some m \<Rightarrow> of_nat m)"
    using assms(2,3) by (auto simp: wait_post_def)
  from x(2) obtain k j where k: "k \<le> 255" "xfer (concat (replicate k status_bytes)) j s s'"
    by (auto simp: wait_post_def)
  have "(\<exists>i < 255. \<not> ?b i) \<longleftrightarrow> (\<exists>i < 254. \<not> ?b i) \<or> \<not> ?b 254"
  proof -
    have "i < 254 \<or> i = 254" if "i < 255" for i :: nat using that by linarith
    moreover have "(254 :: nat) < 255" "\<And>i :: nat. i < 254 \<Longrightarrow> i < 255" by simp_all
    ultimately show ?thesis by metis
  qed
  moreover have "w \<noteq> 0 \<longleftrightarrow> (\<exists>i < 254. \<not> ?b i) \<or> (\<forall>i < 255. ?b i)"
    using wait_left_ok [of ?b] w(2) by simp
  ultimately have "w = 0 \<longleftrightarrow> (\<forall>i < 254. ?b i) \<and> \<not> ?b 254"
    by blast
  moreover have "wait_nvm env s = Some (if w = 0 then TIME_OUT else NO_ERROR, s')"
    using x(1) w(1) by (simp add: wait_nvm_def)
  moreover have "w \<noteq> 0 \<longleftrightarrow> (\<exists>i < 254. \<not> ?b i) \<or> (\<forall>i < 255. ?b i)"
    using wait_left_ok [of ?b] w(2) by simp
  ultimately show ?thesis
    using k by (intro exI [of _ "if w = 0 then TIME_OUT else NO_ERROR"] exI [of _ s'] exI [of _ k])
      (auto simp: xfer_def split: if_splits)
qed

theorem wait_nvm_outcome_witness:
  "\<exists>s'. wait_nvm (ready_env (\<lambda>bs n. 0x80)) pdi_state = Some (NO_ERROR, s')"
proof -
  let ?resp = "\<lambda>(bs :: u8 list) (n :: nat). 0x80 :: u8"
  have "\<forall>i < 255. nvm_busy ?resp (tx pdi_state) (rx_count pdi_state) i"
    by (simp add: nvm_busy_def bit_numeral_rec)
  moreover have "pdi_on pdi_state \<noteq> 0" by simp
  from wait_nvm_outcome [OF ready_env_live(1,3,2) pdi_state_simps(1) this, of ?resp]
  obtain r s' where "wait_nvm (ready_env ?resp) pdi_state = Some (r, s')"
    "r = NO_ERROR \<longleftrightarrow> (\<exists>i < 254. \<not> nvm_busy ?resp (tx pdi_state) (rx_count pdi_state) i)
                       \<or> (\<forall>i < 255. nvm_busy ?resp (tx pdi_state) (rx_count pdi_state) i)"
    by blast
  ultimately show ?thesis by blast
qed

text \<open>C21: A page write ends for every behaviour of the target and puts on the line, in this order and
  nothing else: the pointer, the erase-page-buffer command of the selected memory and its trigger,
  at most 255 status reads, the load-page-buffer command, the repeated store of exactly the
  requested bytes, the erase-write-page command, the pointer again, the dummy store that triggers
  it, and at most 255 status reads. It reports success or a time-out.\<close>

theorem nvm_paged_write_outcome:
  assumes "tx_live env" and "usart_inv s" and "pdi_on s \<noteq> 0" and "unat n \<le> length data"
  shows "\<exists>r s' k l. nvm_paged_write env a data n mem s = Some (r, s')
     \<and> (r = NO_ERROR \<or> r = TIME_OUT) \<and> k \<le> 255 \<and> l \<le> 255 \<and> pdi_on s' = pdi_on s
     \<and> tx s' = tx s
         @ 0x6B # le32 a
         @ sts_bytes 0x010001CA (if mem = FLASH then 0x26 else 0x36) @ sts_bytes 0x010001CB 1
         @ concat (replicate k (lds_bytes 0x010001CF))
         @ sts_bytes 0x010001CA (if mem = FLASH then 0x23 else 0x33)
         @ block_bytes a n @ 0x64 # take (unat n) data
         @ sts_bytes 0x010001CA (if mem = FLASH then 0x2F else 0x35)
         @ 0x6B # le32 a @ [0x64, 0x00]
         @ concat (replicate l (lds_bytes 0x010001CF))"
proof -
  from nvm_paged_write_wp [OF assms, of a mem undefined] obtain r s' where
    run: "nvm_paged_write env a data n mem s = Some (r, s')"
    and post: "page_post env undefined a data n mem s r s'"
    by (auto simp: wp_ex)
  from post obtain k l j where kl: "k \<le> 255" "l \<le> 255" "r = NO_ERROR \<or> r = TIME_OUT"
    and x: "xfer (page_erase_bytes a mem @ concat (replicate k status_bytes) @ page_load_bytes a data n mem
           @ concat (replicate l status_bytes)) j s s'"
    by (auto simp: page_post_def)
  have "tx s' = tx s @ page_erase_bytes a mem @ concat (replicate k status_bytes)
       @ page_load_bytes a data n mem @ concat (replicate l status_bytes)"
    using x by (simp add: xfer_def)
  then show ?thesis
    using run kl xfer_pdi_on [OF x]
    by (intro exI [of _ r] exI [of _ s'] exI [of _ k] exI [of _ l])
      (simp add: page_erase_bytes_def page_load_bytes_def ptr_bytes_def cmd_bytes_def cmdex_bytes_def
        status_bytes_def FLASH_def)
qed

theorem nvm_paged_write_outcome_witness:
  "\<exists>r s' k l. nvm_paged_write (ready_env (\<lambda>bs n. 0)) 0x800000 [1, 2] 2 0 pdi_state = Some (r, s')
     \<and> tx s' = [0x6B, 0, 0, 0x80, 0,
         0x4C, 0xCA, 1, 0, 1, 0x26, 0x4C, 0xCB, 1, 0, 1, 1]
         @ concat (replicate k (lds_bytes 0x010001CF))
         @ [0x4C, 0xCA, 1, 0, 1, 0x23,
            0x6B, 0, 0, 0x80, 0, 0xA1, 1, 0, 0x64, 1, 2,
            0x4C, 0xCA, 1, 0, 1, 0x2F, 0x6B, 0, 0, 0x80, 0, 0x64, 0]
         @ concat (replicate l (lds_bytes 0x010001CF))"
proof -
  have le: "le32 0x800000 = [0, 0, 0x80, 0]" "le32 0x010001CA = [0xCA, 1, 0, 1]"
    "le32 0x010001CB = [0xCB, 1, 0, 1]" "le16 (2 - 1) = [1, 0]"
    by (simp_all add: le32_def le16_def)
  have "pdi_on pdi_state \<noteq> 0" and "unat (2 :: u16) \<le> length [1, 2 :: u8]" by simp_all
  from nvm_paged_write_outcome [OF ready_env_live(1) pdi_state_simps(1) this, of "\<lambda>bs n. 0" "0x800000" 0]
  show ?thesis unfolding sts_bytes_def block_bytes_def le FLASH_def by simp blast
qed

text \<open>C24: While PDI is off, every transfer and every memory operation is refused with PDI_DISABLED.
  All but the page write leave the line and the state untouched; the page write, whose raw writes
  are not guarded, still sends twelve bytes to a target that is not in programming mode.\<close>

theorem pdi_off_refused:
  assumes "pdi_on s = 0"
  shows "pdi_read_byte env a d s = Some ((PDI_DISABLED, d), s)
    \<and> pdi_write_byte env a d s = Some (PDI_DISABLED, s)
    \<and> pdi_read_bytes env a data n s = Some ((PDI_DISABLED, data), s)
    \<and> pdi_write_bytes env a data n s = Some (PDI_DISABLED, s)
    \<and> nvm_chip_erase env s = Some (PDI_DISABLED, s)
    \<and> nvm_read_byte env a d s = Some ((PDI_DISABLED, d), s)
    \<and> nvm_read_bytes env a data n s = Some ((PDI_DISABLED, data), s)
    \<and> nvm_write_byte env a d mem s = Some (PDI_DISABLED, s)
    \<and> (tx_live env \<longrightarrow> usart_inv s \<longrightarrow>
        (\<exists>s'. nvm_paged_write env a data n mem s = Some (PDI_DISABLED, s')
           \<and> tx s' = tx s @ (0x6B # le32 a) @ (0x6B # le32 a) @ [0x64, 0x00]))"
proof -
  have "\<exists>s'. nvm_paged_write env a data n mem s = Some (PDI_DISABLED, s')
      \<and> tx s' = tx s @ (0x6B # le32 a) @ (0x6B # le32 a) @ [0x64, 0x00]"
    if "tx_live env" and "usart_inv s"
    using paged_write_off_sent [OF that assms, of a data n mem]
    by (auto simp: wp_ex sent_def ptr_bytes_def)
  then show ?thesis
    by (simp add: pdi_off [OF assms] nvm_off [OF assms])
qed

theorem pdi_off_refused_witness:
  "nvm_write_byte (ready_env (\<lambda>bs n. 0)) 0x8F0027 0xFF 1 (pdi_state\<lparr>pdi_on := 0\<rparr>)
     = Some (PDI_DISABLED, pdi_state\<lparr>pdi_on := 0\<rparr>)
   \<and> (\<exists>s'. nvm_paged_write (ready_env (\<lambda>bs n. 0)) 0x8F0027 [1] 1 1 (pdi_state\<lparr>pdi_on := 0\<rparr>)
        = Some (PDI_DISABLED, s') \<and> length (tx s') = 12)"
proof -
  have off: "pdi_on (pdi_state\<lparr>pdi_on := 0\<rparr>) = 0" by simp
  have inv: "usart_inv (pdi_state\<lparr>pdi_on := 0\<rparr>)" "tx (pdi_state\<lparr>pdi_on := 0\<rparr>) = []"
    by (simp_all add: pdi_state_def usart_inv_def tx_def)
  from pdi_off_refused [OF off, of "ready_env (\<lambda>bs n. 0)" "0x8F0027" "0xFF" "[1]" 1 1] inv
  show ?thesis by auto
qed

end
