(* ===== verification/Usb.thy ===== *)
theory Usb
  imports Nvm
begin

text \<open>
  The USB side of the firmware: the global state of \<^verbatim>\<open>src/Lucax.c\<close> and the endpoint operations of
  the USB stack it calls (\<^verbatim>\<open>LUFA/Drivers/USB/Core/AVR8\<close>), on the controller's registers. The device
  state is a volatile variable that an interrupt routine changes, so it is read like a register.
\<close>

subsection \<open>State\<close>

record ctrl_request =
  bmRequestType :: u8
  bRequest :: u8
  wValue :: u16
  wIndex :: u16
  wLength :: u16

record lucax = pdi +
  buffer :: "u8 list"
  last_op :: u8
  USB_ControlRequest :: ctrl_request

definition TXINI :: u8 where "TXINI = 0x01"
definition RXOUTI :: u8 where "RXOUTI = 0x04"
definition RXSTPI :: u8 where "RXSTPI = 0x08"
definition RWAL :: u8 where "RWAL = 0x20"
definition FIFOCON :: u8 where "FIFOCON = 0x80"
definition EPEN :: u8 where "EPEN = 0x01"
definition STALLRQ :: u8 where "STALLRQ = 0x20"
definition EPDIR :: u8 where "EPDIR = 0x01"
definition ALLOC :: u8 where "ALLOC = 0x02"
definition EPBK0 :: u8 where "EPBK0 = 0x04"
definition CFGOK :: u8 where "CFGOK = 0x80"
definition ENDPOINT_EPNUM_MASK :: u8 where "ENDPOINT_EPNUM_MASK = 0x0F"
definition ENDPOINT_DIR_IN :: u8 where "ENDPOINT_DIR_IN = 0x80"
definition ENDPOINT_DIR_OUT :: u8 where "ENDPOINT_DIR_OUT = 0x00"
definition REQDIR_DEVICETOHOST :: u8 where "REQDIR_DEVICETOHOST = 0x80"
definition DEVICE_STATE_Unattached :: u8 where "DEVICE_STATE_Unattached = 0"
definition DEVICE_STATE_Suspended :: u8 where "DEVICE_STATE_Suspended = 5"
definition ENDPOINT_TOTAL_ENDPOINTS :: u8 where "ENDPOINT_TOTAL_ENDPOINTS = 7"
definition USB_Device_ControlEndpointSize :: u16 where "USB_Device_ControlEndpointSize = 64"

lemmas usb_consts = TXINI_def RXOUTI_def RXSTPI_def RWAL_def FIFOCON_def EPEN_def STALLRQ_def
  EPDIR_def ALLOC_def EPBK0_def CFGOK_def ENDPOINT_EPNUM_MASK_def ENDPOINT_DIR_IN_def
  ENDPOINT_DIR_OUT_def REQDIR_DEVICETOHOST_def DEVICE_STATE_Unattached_def
  DEVICE_STATE_Suspended_def ENDPOINT_TOTAL_ENDPOINTS_def USB_Device_ControlEndpointSize_def

text \<open>Error codes of \<^verbatim>\<open>Endpoint_WaitUntilReady\<close>, of data streams and of control streams.\<close>

definition READYWAIT_NoError :: u8 where "READYWAIT_NoError = 0"
definition READYWAIT_EndpointStalled :: u8 where "READYWAIT_EndpointStalled = 1"
definition READYWAIT_DeviceDisconnected :: u8 where "READYWAIT_DeviceDisconnected = 2"
definition READYWAIT_BusSuspended :: u8 where "READYWAIT_BusSuspended = 3"
definition READYWAIT_Timeout :: u8 where "READYWAIT_Timeout = 4"
definition RWSTREAM_NoError :: u8 where "RWSTREAM_NoError = 0"
definition RWSTREAM_IncompleteTransfer :: u8 where "RWSTREAM_IncompleteTransfer = 5"
definition RWCSTREAM_NoError :: u8 where "RWCSTREAM_NoError = 0"
definition RWCSTREAM_HostAborted :: u8 where "RWCSTREAM_HostAborted = 1"
definition RWCSTREAM_DeviceDisconnected :: u8 where "RWCSTREAM_DeviceDisconnected = 2"
definition RWCSTREAM_BusSuspended :: u8 where "RWCSTREAM_BusSuspended = 3"

lemmas usb_codes = READYWAIT_NoError_def READYWAIT_EndpointStalled_def
  READYWAIT_DeviceDisconnected_def READYWAIT_BusSuspended_def READYWAIT_Timeout_def
  RWSTREAM_NoError_def RWSTREAM_IncompleteTransfer_def RWCSTREAM_NoError_def
  RWCSTREAM_HostAborted_def RWCSTREAM_DeviceDisconnected_def RWCSTREAM_BusSuspended_def

subsection \<open>Endpoint registers\<close>

definition flag_set :: "env \<Rightarrow> reg \<Rightarrow> u8 \<Rightarrow> 'a hw_scheme \<Rightarrow> bool \<times> 'a hw_scheme" where
  "flag_set env r m s = (let (v, s) = rd env r s in (v AND m \<noteq> 0, s))"

definition Endpoint_SelectEndpoint :: "u8 \<Rightarrow> 'a hw_scheme \<Rightarrow> 'a hw_scheme" where
  "Endpoint_SelectEndpoint Address s = wr UENUM (Address AND ENDPOINT_EPNUM_MASK) s"

definition Endpoint_EnableEndpoint :: "env \<Rightarrow> 'a hw_scheme \<Rightarrow> 'a hw_scheme" where
  "Endpoint_EnableEndpoint env s = set_bits env UECONX EPEN s"

definition Endpoint_DisableEndpoint :: "env \<Rightarrow> 'a hw_scheme \<Rightarrow> 'a hw_scheme" where
  "Endpoint_DisableEndpoint env s = clear_bits env UECONX EPEN s"

definition Endpoint_GetEndpointDirection :: "env \<Rightarrow> 'a hw_scheme \<Rightarrow> u8 \<times> 'a hw_scheme" where
  "Endpoint_GetEndpointDirection env s =
     (let (b, s) = flag_set env UECFG0X EPDIR s
      in (if b then ENDPOINT_DIR_IN else ENDPOINT_DIR_OUT, s))"

definition Endpoint_GetCurrentEndpoint :: "env \<Rightarrow> 'a hw_scheme \<Rightarrow> u8 \<times> 'a hw_scheme" where
  "Endpoint_GetCurrentEndpoint env s =
     (let (v, s) = rd env UENUM s; (d, s) = Endpoint_GetEndpointDirection env s
      in ((v AND ENDPOINT_EPNUM_MASK) OR d, s))"

definition Endpoint_BytesInEndpoint :: "env \<Rightarrow> 'a hw_scheme \<Rightarrow> u16 \<times> 'a hw_scheme" where
  "Endpoint_BytesInEndpoint env s =
     (let (h, s) = rd env UEBCHX s; (l, s) = rd env UEBCLX s
      in (push_bit 8 (ucast h) OR ucast l, s))"

definition Endpoint_IsReadWriteAllowed :: "env \<Rightarrow> 'a hw_scheme \<Rightarrow> bool \<times> 'a hw_scheme" where
  "Endpoint_IsReadWriteAllowed env s = flag_set env UEINTX RWAL s"

definition Endpoint_IsConfigured :: "env \<Rightarrow> 'a hw_scheme \<Rightarrow> bool \<times> 'a hw_scheme" where
  "Endpoint_IsConfigured env s = flag_set env UESTA0X CFGOK s"

definition Endpoint_IsINReady :: "env \<Rightarrow> 'a hw_scheme \<Rightarrow> bool \<times> 'a hw_scheme" where
  "Endpoint_IsINReady env s = flag_set env UEINTX TXINI s"

definition Endpoint_IsOUTReceived :: "env \<Rightarrow> 'a hw_scheme \<Rightarrow> bool \<times> 'a hw_scheme" where
  "Endpoint_IsOUTReceived env s = flag_set env UEINTX RXOUTI s"

definition Endpoint_IsSETUPReceived :: "env \<Rightarrow> 'a hw_scheme \<Rightarrow> bool \<times> 'a hw_scheme" where
  "Endpoint_IsSETUPReceived env s = flag_set env UEINTX RXSTPI s"

definition Endpoint_IsStalled :: "env \<Rightarrow> 'a hw_scheme \<Rightarrow> bool \<times> 'a hw_scheme" where
  "Endpoint_IsStalled env s = flag_set env UECONX STALLRQ s"

definition Endpoint_StallTransaction :: "env \<Rightarrow> 'a hw_scheme \<Rightarrow> 'a hw_scheme" where
  "Endpoint_StallTransaction env s = set_bits env UECONX STALLRQ s"

definition Endpoint_ClearSETUP :: "env \<Rightarrow> 'a hw_scheme \<Rightarrow> 'a hw_scheme" where
  "Endpoint_ClearSETUP env s = clear_bits env UEINTX RXSTPI s"

definition Endpoint_ClearIN :: "env \<Rightarrow> 'a hw_scheme \<Rightarrow> 'a hw_scheme" where
  "Endpoint_ClearIN env s = clear_bits env UEINTX (TXINI OR FIFOCON) s"

definition Endpoint_ClearOUT :: "env \<Rightarrow> 'a hw_scheme \<Rightarrow> 'a hw_scheme" where
  "Endpoint_ClearOUT env s = clear_bits env UEINTX (RXOUTI OR FIFOCON) s"

definition Endpoint_Read_8 :: "env \<Rightarrow> 'a hw_scheme \<Rightarrow> u8 \<times> 'a hw_scheme" where
  "Endpoint_Read_8 env s = rd env UEDATX s"

definition Endpoint_Write_8 :: "u8 \<Rightarrow> 'a hw_scheme \<Rightarrow> 'a hw_scheme" where
  "Endpoint_Write_8 Data s = wr UEDATX Data s"

definition Endpoint_Read_32_LE :: "env \<Rightarrow> 'a hw_scheme \<Rightarrow> u32 \<times> 'a hw_scheme" where
  "Endpoint_Read_32_LE env s =
     (let (b0, s) = rd env UEDATX s; (b1, s) = rd env UEDATX s;
          (b2, s) = rd env UEDATX s; (b3, s) = rd env UEDATX s
      in (of_le [b0, b1, b2, b3], s))"

definition USB_Device_GetFrameNumber :: "env \<Rightarrow> 'a hw_scheme \<Rightarrow> u16 \<times> 'a hw_scheme" where
  "USB_Device_GetFrameNumber env s =
     (let (l, s) = rd env UDFNUML s; (h, s) = rd env UDFNUMH s
      in (push_bit 8 (ucast h) OR ucast l, s))"

lemmas endpoint_defs = flag_set_def Endpoint_SelectEndpoint_def Endpoint_EnableEndpoint_def
  Endpoint_DisableEndpoint_def Endpoint_GetEndpointDirection_def Endpoint_GetCurrentEndpoint_def
  Endpoint_BytesInEndpoint_def Endpoint_IsReadWriteAllowed_def Endpoint_IsConfigured_def
  Endpoint_IsINReady_def Endpoint_IsOUTReceived_def Endpoint_IsSETUPReceived_def
  Endpoint_IsStalled_def Endpoint_StallTransaction_def Endpoint_ClearSETUP_def
  Endpoint_ClearIN_def Endpoint_ClearOUT_def Endpoint_Read_8_def Endpoint_Write_8_def
  Endpoint_Read_32_LE_def USB_Device_GetFrameNumber_def

subsection \<open>Configuring endpoints\<close>

text \<open>\<^verbatim>\<open>while (CheckBytes < Bytes) { MaskVal++; CheckBytes <<= 1; }\<close> on 16 bits.\<close>

partial_function (option) ep_size_loop :: "u16 \<Rightarrow> u16 \<Rightarrow> u8 \<Rightarrow> u8 option" where
  "ep_size_loop Bytes CheckBytes MaskVal =
     (if CheckBytes < Bytes then ep_size_loop Bytes (push_bit 1 CheckBytes) (MaskVal + 1)
      else Some MaskVal)"

definition Endpoint_BytesToEPSizeMask :: "u16 \<Rightarrow> u8 option" where
  "Endpoint_BytesToEPSizeMask Bytes = map_option (push_bit 4) (ep_size_loop Bytes 8 0)"

text \<open>
  Endpoint memory is allocated in order, so configuring an endpoint reconfigures every allocated
  one after it. \<open>n\<close> counts the endpoints from \<open>EPNum\<close> to the last.
\<close>

fun ep_configure_from :: "env \<Rightarrow> u8 \<Rightarrow> u8 \<Rightarrow> u8 \<Rightarrow> nat \<Rightarrow> u8 \<Rightarrow> 'a hw_scheme \<Rightarrow> bool \<times> 'a hw_scheme" where
  "ep_configure_from env Number cfg0 cfg1 0 EPNum s = (True, Endpoint_SelectEndpoint Number s)"
| "ep_configure_from env Number cfg0 cfg1 (Suc n) EPNum s =
     (let s = Endpoint_SelectEndpoint EPNum s;
          (t0, t1, ti, s) =
            (if EPNum = Number then (cfg0, cfg1, 0, s)
             else (let (t0, s) = rd env UECFG0X s; (t1, s) = rd env UECFG1X s; (ti, s) = rd env UEIENX s
                   in (t0, t1, ti, s)))
      in if t1 AND ALLOC = 0 then ep_configure_from env Number cfg0 cfg1 n (EPNum + 1) s
         else (let s = Endpoint_DisableEndpoint env s;
                   s = clear_bits env UECFG1X ALLOC s;
                   s = Endpoint_EnableEndpoint env s;
                   s = wr UECFG0X t0 s;
                   s = wr UECFG1X t1 s;
                   s = wr UEIENX ti s;
                   (ok, s) = Endpoint_IsConfigured env s
               in if \<not> ok then (False, s)
                  else ep_configure_from env Number cfg0 cfg1 n (EPNum + 1) s))"

definition Endpoint_ConfigureEndpoint_Prv ::
    "env \<Rightarrow> u8 \<Rightarrow> u8 \<Rightarrow> u8 \<Rightarrow> 'a hw_scheme \<Rightarrow> bool \<times> 'a hw_scheme" where
  "Endpoint_ConfigureEndpoint_Prv env Number UECFG0XData UECFG1XData s =
     ep_configure_from env Number UECFG0XData UECFG1XData
       (unat ENDPOINT_TOTAL_ENDPOINTS - unat Number) Number s"

definition Endpoint_ConfigureEndpoint ::
    "env \<Rightarrow> u8 \<Rightarrow> u8 \<Rightarrow> u16 \<Rightarrow> u8 \<Rightarrow> 'a hw_scheme \<Rightarrow> (bool \<times> 'a hw_scheme) option" where
  "Endpoint_ConfigureEndpoint env Address Type Size Banks s =
     (let Number = Address AND ENDPOINT_EPNUM_MASK in
      if Number \<ge> ENDPOINT_TOTAL_ENDPOINTS then Some (False, s)
      else do {
        size \<leftarrow> Endpoint_BytesToEPSizeMask Size;
        Some (Endpoint_ConfigureEndpoint_Prv env Number
          (push_bit 6 Type OR (if Address AND ENDPOINT_DIR_IN \<noteq> 0 then EPDIR else 0))
          (ALLOC OR (if Banks > 1 then EPBK0 else 0) OR size) s)
      })"

subsection \<open>Waiting\<close>

text \<open>The status stage of a control transfer, in the direction opposite to the data.\<close>

partial_function (option) wait_out_or_detach :: "env \<Rightarrow> 'a hw_scheme \<Rightarrow> (bool \<times> 'a hw_scheme) option" where
  "wait_out_or_detach env s =
     (let (b, s) = Endpoint_IsOUTReceived env s in
      if b then Some (True, s)
      else (let (st, s) = rd env USB_STATE s in
            if st = DEVICE_STATE_Unattached then Some (False, s) else wait_out_or_detach env s))"

partial_function (option) wait_in_or_detach :: "env \<Rightarrow> 'a hw_scheme \<Rightarrow> (bool \<times> 'a hw_scheme) option" where
  "wait_in_or_detach env s =
     (let (b, s) = Endpoint_IsINReady env s in
      if b then Some (True, s)
      else (let (st, s) = rd env USB_STATE s in
            if st = DEVICE_STATE_Unattached then Some (False, s) else wait_in_or_detach env s))"

definition Endpoint_ClearStatusStage :: "env \<Rightarrow> 'a lucax_scheme \<Rightarrow> 'a lucax_scheme option" where
  "Endpoint_ClearStatusStage env s =
     (if bmRequestType (USB_ControlRequest s) AND REQDIR_DEVICETOHOST \<noteq> 0
      then do { (b, s) \<leftarrow> wait_out_or_detach env s; Some (if b then Endpoint_ClearOUT env s else s) }
      else do { (b, s) \<leftarrow> wait_in_or_detach env s; Some (if b then Endpoint_ClearIN env s else s) })"

text \<open>
  One round of the wait loop either ends with a code or leaves the frame number and the remaining
  milliseconds for the next round.
\<close>

partial_function (option) wait_ready_loop ::
    "env \<Rightarrow> u8 \<Rightarrow> u16 \<Rightarrow> 'a hw_scheme \<Rightarrow> (u8 \<times> 'a hw_scheme) option" where
  "wait_ready_loop env rem prev s =
     (let (d, s) = Endpoint_GetEndpointDirection env s;
          (ready, s) = (if d = ENDPOINT_DIR_IN then Endpoint_IsINReady env s
                        else Endpoint_IsOUTReceived env s)
      in if ready then Some (READYWAIT_NoError, s)
         else (let (st, s) = rd env USB_STATE s in
           if st = DEVICE_STATE_Unattached then Some (READYWAIT_DeviceDisconnected, s)
           else if st = DEVICE_STATE_Suspended then Some (READYWAIT_BusSuspended, s)
           else (let (stalled, s) = Endpoint_IsStalled env s in
             if stalled then Some (READYWAIT_EndpointStalled, s)
             else (let (cur, s) = USB_Device_GetFrameNumber env s in
               if cur \<noteq> prev
               then if rem = 0 then Some (READYWAIT_Timeout, s)
                    else wait_ready_loop env (rem - 1) cur s
               else wait_ready_loop env rem prev s))))"

definition Endpoint_WaitUntilReady :: "env \<Rightarrow> 'a hw_scheme \<Rightarrow> (u8 \<times> 'a hw_scheme) option" where
  "Endpoint_WaitUntilReady env s =
     (let (prev, s) = USB_Device_GetFrameNumber env s in wait_ready_loop env 100 prev s)"

subsection \<open>Data streams\<close>

text \<open>
  The streams of this program all run over the global buffer, from an offset into it. When the
  bank is full (or empty) the stack runs its task, which may handle a whole control request; the
  task is an argument here and is tied to the dispatcher in the next theory. \<open>bp\<close> is
  \<^verbatim>\<open>*BytesProcessed\<close>, \<open>None\<close> for a null pointer. An access outside the buffer has no result.
\<close>

partial_function (option) write_stream_loop ::
    "env \<Rightarrow> ('a lucax_scheme \<Rightarrow> 'a lucax_scheme option) \<Rightarrow> u16 option \<Rightarrow> nat \<Rightarrow> u16 \<Rightarrow> u16
      \<Rightarrow> 'a lucax_scheme \<Rightarrow> ((u8 \<times> u16 option) \<times> 'a lucax_scheme) option" where
  "write_stream_loop env task bp off len moved s =
     (if len = 0 then Some ((RWSTREAM_NoError, bp), s)
      else (let (allowed, s) = Endpoint_IsReadWriteAllowed env s in
        if \<not> allowed then do {
          let s = Endpoint_ClearIN env s;
          s \<leftarrow> task s;
          case bp of
            Some p \<Rightarrow> Some ((RWSTREAM_IncompleteTransfer, Some (p + moved)), s)
          | None \<Rightarrow> do {
              (e, s) \<leftarrow> Endpoint_WaitUntilReady env s;
              if e \<noteq> 0 then Some ((e, bp), s) else write_stream_loop env task bp off len moved s
            }
        }
        else if off < length (buffer s)
        then write_stream_loop env task bp (Suc off) (len - 1) (moved + 1)
               (Endpoint_Write_8 (buffer s ! off) s)
        else None))"

definition Endpoint_Write_Stream_LE ::
    "env \<Rightarrow> ('a lucax_scheme \<Rightarrow> 'a lucax_scheme option) \<Rightarrow> nat \<Rightarrow> u16 \<Rightarrow> u16 option
      \<Rightarrow> 'a lucax_scheme \<Rightarrow> ((u8 \<times> u16 option) \<times> 'a lucax_scheme) option" where
  "Endpoint_Write_Stream_LE env task off Length bp s = do {
     (e, s) \<leftarrow> Endpoint_WaitUntilReady env s;
     if e \<noteq> 0 then Some ((e, bp), s)
     else case bp of
       None \<Rightarrow> write_stream_loop env task bp off Length 0 s
     | Some p \<Rightarrow> write_stream_loop env task bp (off + unat p) (Length - p) 0 s
   }"

partial_function (option) read_stream_loop ::
    "env \<Rightarrow> ('a lucax_scheme \<Rightarrow> 'a lucax_scheme option) \<Rightarrow> u16 option \<Rightarrow> nat \<Rightarrow> u16 \<Rightarrow> u16
      \<Rightarrow> 'a lucax_scheme \<Rightarrow> ((u8 \<times> u16 option) \<times> 'a lucax_scheme) option" where
  "read_stream_loop env task bp off len moved s =
     (if len = 0 then Some ((RWSTREAM_NoError, bp), s)
      else (let (allowed, s) = Endpoint_IsReadWriteAllowed env s in
        if \<not> allowed then do {
          let s = Endpoint_ClearOUT env s;
          s \<leftarrow> task s;
          case bp of
            Some p \<Rightarrow> Some ((RWSTREAM_IncompleteTransfer, Some (p + moved)), s)
          | None \<Rightarrow> do {
              (e, s) \<leftarrow> Endpoint_WaitUntilReady env s;
              if e \<noteq> 0 then Some ((e, bp), s) else read_stream_loop env task bp off len moved s
            }
        }
        else if off < length (buffer s)
        then (let (v, s) = Endpoint_Read_8 env s
              in read_stream_loop env task bp (Suc off) (len - 1) (moved + 1)
                   (s\<lparr>buffer := (buffer s)[off := v]\<rparr>))
        else None))"

definition Endpoint_Read_Stream_LE ::
    "env \<Rightarrow> ('a lucax_scheme \<Rightarrow> 'a lucax_scheme option) \<Rightarrow> nat \<Rightarrow> u16 \<Rightarrow> u16 option
      \<Rightarrow> 'a lucax_scheme \<Rightarrow> ((u8 \<times> u16 option) \<times> 'a lucax_scheme) option" where
  "Endpoint_Read_Stream_LE env task off Length bp s = do {
     (e, s) \<leftarrow> Endpoint_WaitUntilReady env s;
     if e \<noteq> 0 then Some ((e, bp), s)
     else case bp of
       None \<Rightarrow> read_stream_loop env task bp off Length 0 s
     | Some p \<Rightarrow> read_stream_loop env task bp (off + unat p) (Length - p) 0 s
   }"

subsection \<open>Control streams\<close>

text \<open>
  The data stage of a control transfer to the host. The bank is filled while there is data and
  room; a read behind the end of the data has no result. The result is the rest of the data, the
  bytes left to send and the fill level.
\<close>

fun fill_bank :: "u8 list \<Rightarrow> nat \<Rightarrow> u16 \<Rightarrow> 'a hw_scheme \<Rightarrow> ((u8 list \<times> nat \<times> u16) \<times> 'a hw_scheme) option" where
  "fill_bank data 0 fill s = Some ((data, 0, fill), s)"
| "fill_bank data (Suc len) fill s =
     (if fill < USB_Device_ControlEndpointSize
      then case data of
             [] \<Rightarrow> None
           | d # ds \<Rightarrow> fill_bank ds len (fill + 1) (Endpoint_Write_8 d s)
      else Some ((data, Suc len, fill), s))"

partial_function (option) write_control_loop ::
    "env \<Rightarrow> u8 list \<Rightarrow> nat \<Rightarrow> bool \<Rightarrow> 'a hw_scheme \<Rightarrow> (u8 option \<times> 'a hw_scheme) option" where
  "write_control_loop env data len full s =
     (if len = 0 \<and> \<not> full then Some (None, s)
      else (let (st, s) = rd env USB_STATE s in
        if st = DEVICE_STATE_Unattached then Some (Some RWCSTREAM_DeviceDisconnected, s)
        else if st = DEVICE_STATE_Suspended then Some (Some RWCSTREAM_BusSuspended, s)
        else (let (setup, s) = Endpoint_IsSETUPReceived env s in
          if setup then Some (Some RWCSTREAM_HostAborted, s)
          else (let (out, s) = Endpoint_IsOUTReceived env s in
            if out then Some (None, s)
            else (let (rdy, s) = Endpoint_IsINReady env s in
              if rdy then do {
                let (fill, s) = Endpoint_BytesInEndpoint env s;
                ((data, len, fill), s) \<leftarrow> fill_bank data len fill s;
                write_control_loop env data len (fill = USB_Device_ControlEndpointSize)
                  (Endpoint_ClearIN env s)
              }
              else write_control_loop env data len full s)))))"

text \<open>The wait for the host's status packet after the data stage.\<close>

partial_function (option) control_out_wait :: "env \<Rightarrow> 'a hw_scheme \<Rightarrow> (u8 \<times> 'a hw_scheme) option" where
  "control_out_wait env s =
     (let (out, s) = Endpoint_IsOUTReceived env s in
      if out then Some (RWCSTREAM_NoError, s)
      else (let (st, s) = rd env USB_STATE s in
        if st = DEVICE_STATE_Unattached then Some (RWCSTREAM_DeviceDisconnected, s)
        else if st = DEVICE_STATE_Suspended then Some (RWCSTREAM_BusSuspended, s)
        else (let (setup, s) = Endpoint_IsSETUPReceived env s in
          if setup then Some (RWCSTREAM_HostAborted, s) else control_out_wait env s)))"

definition Endpoint_Write_Control_Stream_LE ::
    "env \<Rightarrow> u8 list \<Rightarrow> u16 \<Rightarrow> 'a lucax_scheme \<Rightarrow> (u8 \<times> 'a lucax_scheme) option" where
  "Endpoint_Write_Control_Stream_LE env data Length s = do {
     let (Length, s) =
       (if Length > wLength (USB_ControlRequest s) then (wLength (USB_ControlRequest s), s)
        else if Length = 0 then (Length, Endpoint_ClearIN env s)
        else (Length, s));
     (r, s) \<leftarrow> write_control_loop env data (unat Length) False s;
     case r of Some e \<Rightarrow> Some (e, s) | None \<Rightarrow> control_out_wait env s
   }"

text \<open>
  The data stage of a control transfer from the host, into the global buffer. The bank is emptied
  while bytes are wanted and left in it.
\<close>

partial_function (option) drain_bank ::
    "env \<Rightarrow> nat \<Rightarrow> nat \<Rightarrow> 'a lucax_scheme \<Rightarrow> ((nat \<times> nat) \<times> 'a lucax_scheme) option" where
  "drain_bank env off len s =
     (if len = 0 then Some ((off, len), s)
      else (let (n, s) = Endpoint_BytesInEndpoint env s in
        if n = 0 then Some ((off, len), s)
        else if off < length (buffer s)
        then (let (v, s) = Endpoint_Read_8 env s
              in drain_bank env (Suc off) (len - 1) (s\<lparr>buffer := (buffer s)[off := v]\<rparr>))
        else None))"

partial_function (option) read_control_loop ::
    "env \<Rightarrow> nat \<Rightarrow> nat \<Rightarrow> 'a lucax_scheme \<Rightarrow> (u8 option \<times> 'a lucax_scheme) option" where
  "read_control_loop env off len s =
     (if len = 0 then Some (None, s)
      else (let (st, s) = rd env USB_STATE s in
        if st = DEVICE_STATE_Unattached then Some (Some RWCSTREAM_DeviceDisconnected, s)
        else if st = DEVICE_STATE_Suspended then Some (Some RWCSTREAM_BusSuspended, s)
        else (let (setup, s) = Endpoint_IsSETUPReceived env s in
          if setup then Some (Some RWCSTREAM_HostAborted, s)
          else (let (out, s) = Endpoint_IsOUTReceived env s in
            if out then do {
              ((off, len), s) \<leftarrow> drain_bank env off len s;
              read_control_loop env off len (Endpoint_ClearOUT env s)
            }
            else read_control_loop env off len s))))"

partial_function (option) control_in_wait :: "env \<Rightarrow> 'a hw_scheme \<Rightarrow> (u8 \<times> 'a hw_scheme) option" where
  "control_in_wait env s =
     (let (rdy, s) = Endpoint_IsINReady env s in
      if rdy then Some (RWCSTREAM_NoError, s)
      else (let (st, s) = rd env USB_STATE s in
        if st = DEVICE_STATE_Unattached then Some (RWCSTREAM_DeviceDisconnected, s)
        else if st = DEVICE_STATE_Suspended then Some (RWCSTREAM_BusSuspended, s)
        else control_in_wait env s))"

definition Endpoint_Read_Control_Stream_LE ::
    "env \<Rightarrow> u16 \<Rightarrow> 'a lucax_scheme \<Rightarrow> (u8 \<times> 'a lucax_scheme) option" where
  "Endpoint_Read_Control_Stream_LE env Length s = do {
     let s = (if Length = 0 then Endpoint_ClearOUT env s else s);
     (r, s) \<leftarrow> read_control_loop env 0 (unat Length) s;
     case r of Some e \<Rightarrow> Some (e, s) | None \<Rightarrow> control_in_wait env s
   }"

end
