(* ===== verification/Lucax.thy ===== *)
theory Lucax
  imports Usb
begin

text \<open>
  The firmware's application, \<^verbatim>\<open>src/Lucax.c\<close>: the vendor requests of the host, their dispatch, and
  the device task of the USB stack that receives them. \<open>env\<close> is the hardware; \<open>task\<close> is the stack's
  task as the data streams may run it in the middle of a handler.
\<close>

subsection \<open>Request codes\<close>

definition LUCAX_GET_DESCRIPTOR :: u8 where "LUCAX_GET_DESCRIPTOR = 33"
definition LUCAX_RELEASE_INTERFACE :: u8 where "LUCAX_RELEASE_INTERFACE = 34"
definition LUCAX_REPORT_ERROR :: u8 where "LUCAX_REPORT_ERROR = 42"
definition LUCAX_PDI_INIT :: u8 where "LUCAX_PDI_INIT = 35"
definition LUCAX_PDI_CHIP_ERASE :: u8 where "LUCAX_PDI_CHIP_ERASE = 43"
definition LUCAX_PDI_NVM_READ :: u8 where "LUCAX_PDI_NVM_READ = 36"
definition LUCAX_PDI_NVM_WRITE_BYTE :: u8 where "LUCAX_PDI_NVM_WRITE_BYTE = 38"
definition LUCAX_PDI_NVM_WRITE_PAGE :: u8 where "LUCAX_PDI_NVM_WRITE_PAGE = 39"
definition LUCAX_PDI_RAW_READ :: u8 where "LUCAX_PDI_RAW_READ = 40"
definition LUCAX_PDI_RAW_WRITE :: u8 where "LUCAX_PDI_RAW_WRITE = 41"
definition MAX_BUFFER :: u16 where "MAX_BUFFER = 1024"
definition VENDOR_IN_EPADDR :: u8 where "VENDOR_IN_EPADDR = 0x82"
definition VENDOR_OUT_EPADDR :: u8 where "VENDOR_OUT_EPADDR = 0x01"
definition VENDOR_IO_EPSIZE_IN :: u16 where "VENDOR_IO_EPSIZE_IN = 64"
definition VENDOR_IO_EPSIZE_OUT :: u16 where "VENDOR_IO_EPSIZE_OUT = 64"

lemmas lucax_consts = LUCAX_GET_DESCRIPTOR_def LUCAX_RELEASE_INTERFACE_def LUCAX_REPORT_ERROR_def
  LUCAX_PDI_INIT_def LUCAX_PDI_CHIP_ERASE_def LUCAX_PDI_NVM_READ_def LUCAX_PDI_NVM_WRITE_BYTE_def
  LUCAX_PDI_NVM_WRITE_PAGE_def LUCAX_PDI_RAW_READ_def LUCAX_PDI_RAW_WRITE_def MAX_BUFFER_def
  VENDOR_IN_EPADDR_def VENDOR_OUT_EPADDR_def VENDOR_IO_EPSIZE_IN_def VENDOR_IO_EPSIZE_OUT_def

subsection \<open>Request handlers\<close>

definition lucax_get_descriptor :: "env \<Rightarrow> 'a lucax_scheme \<Rightarrow> 'a lucax_scheme option" where
  "lucax_get_descriptor env s =
     (let s = Endpoint_ClearSETUP env s;
          s = Endpoint_Write_8 0x01 s;
          s = Endpoint_ClearIN env s
      in Endpoint_ClearStatusStage env s)"

definition lucax_report_error :: "env \<Rightarrow> 'a lucax_scheme \<Rightarrow> 'a lucax_scheme option" where
  "lucax_report_error env s =
     (let s = Endpoint_ClearSETUP env s;
          s = Endpoint_Write_8 (last_op s) s;
          s = Endpoint_ClearIN env s
      in Endpoint_ClearStatusStage env s)"

definition lucax_release_interface :: "env \<Rightarrow> 'a lucax_scheme \<Rightarrow> 'a lucax_scheme option" where
  "lucax_release_interface env s = do {
     let s = Endpoint_ClearSETUP env s;
     let s = Endpoint_ClearIN env s;
     s \<leftarrow> pdi_exit env s;
     Some (s\<lparr>last_op := 0\<rparr>)
   }"

definition lucax_pdi_init :: "env \<Rightarrow> 'a lucax_scheme \<Rightarrow> 'a lucax_scheme option" where
  "lucax_pdi_init env s = do {
     (r, s) \<leftarrow> pdi_init env (wValue (USB_ControlRequest s)) s;
     lucax_report_error env (s\<lparr>last_op := pdi_code r\<rparr>)
   }"

definition lucax_pdi_chip_erase :: "env \<Rightarrow> 'a lucax_scheme \<Rightarrow> 'a lucax_scheme option" where
  "lucax_pdi_chip_erase env s = do {
     (r, s) \<leftarrow> nvm_chip_erase env s;
     lucax_report_error env (s\<lparr>last_op := pdi_code r\<rparr>)
   }"

text \<open>The address that precedes a memory request, in the data stage of the control transfer.\<close>

definition receive_address :: "env \<Rightarrow> 'a lucax_scheme \<Rightarrow> (u32 \<times> 'a lucax_scheme) option" where
  "receive_address env s = do {
     let s = Endpoint_ClearSETUP env s;
     s \<leftarrow> wait_set env UEINTX RXOUTI s;
     let (address, s) = Endpoint_Read_32_LE env s;
     Some (address, Endpoint_ClearOUT env s)
   }"

text \<open>\<^verbatim>\<open>while (!INReady) if (time_out++ == 30000) break;\<close>, the counter a 16-bit signed integer.\<close>

fun in_ready_poll :: "env \<Rightarrow> nat \<Rightarrow> 'a hw_scheme \<Rightarrow> 'a hw_scheme" where
  "in_ready_poll env left s =
     (let (b, s) = Endpoint_IsINReady env s in
      if b \<or> left = 0 then s else in_ready_poll env (left - 1) s)"

declare in_ready_poll.simps [simp del]

text \<open>\<^verbatim>\<open>while (!OUTReceived) if (time_out++ == 0xFFFF) return;\<close>\<close>

fun out_received_poll :: "env \<Rightarrow> nat \<Rightarrow> 'a hw_scheme \<Rightarrow> bool \<times> 'a hw_scheme" where
  "out_received_poll env left s =
     (let (b, s) = Endpoint_IsOUTReceived env s in
      if b then (True, s) else if left = 0 then (False, s) else out_received_poll env (left - 1) s)"

declare out_received_poll.simps [simp del]

text \<open>The packets of a block read, at most 64 bytes each, from the buffer to the IN endpoint.\<close>

function send_packets ::
    "env \<Rightarrow> ('a lucax_scheme \<Rightarrow> 'a lucax_scheme option) \<Rightarrow> u16 \<Rightarrow> u16 \<Rightarrow> 'a lucax_scheme
      \<Rightarrow> 'a lucax_scheme option" where
  "send_packets env task count done s =
     (if count = 0 then Some s
      else do {
        let packet = (if count > VENDOR_IO_EPSIZE_IN then VENDOR_IO_EPSIZE_IN else count);
        let s = in_ready_poll env 30000 s;
        (_, s) \<leftarrow> Endpoint_Write_Stream_LE env task (unat done) packet None s;
        let s = Endpoint_ClearIN env s;
        send_packets env task (count - packet) (done + packet) s
      })"
  by pat_completeness auto
termination
  by (relation "measure (\<lambda>(_, _, count, _, _). unat count)")
    (auto simp: VENDOR_IO_EPSIZE_IN_def unat_sub word_less_nat_alt word_le_nat_alt unat_gt_0
      split: if_splits)

declare send_packets.simps [simp del]

definition lucax_pdi_nvm_read ::
    "env \<Rightarrow> ('a lucax_scheme \<Rightarrow> 'a lucax_scheme option) \<Rightarrow> 'a lucax_scheme \<Rightarrow> 'a lucax_scheme option"
where
  "lucax_pdi_nvm_read env task s = do {
     let count = wIndex (USB_ControlRequest s);
     (address, s) \<leftarrow> receive_address env s;
     s \<leftarrow> Endpoint_ClearStatusStage env s;
     let s = Endpoint_SelectEndpoint VENDOR_IN_EPADDR s;
     if count = 1 then do {
       ((r, data), s) \<leftarrow> nvm_read_byte env address 0 s;
       let s = s\<lparr>last_op := pdi_code r\<rparr>;
       let s = Endpoint_Write_8 data s;
       Some (Endpoint_ClearIN env s)
     }
     else do {
       let count = (if count > MAX_BUFFER then MAX_BUFFER else count);
       ((r, buf), s) \<leftarrow> nvm_read_bytes env address (buffer s) count s;
       let s = s\<lparr>buffer := buf, last_op := pdi_code r\<rparr>;
       send_packets env task count 0 s
     }
   }"

text \<open>
  The packets of a page, from the OUT endpoint to the buffer. \<open>None\<close> inside is the early return
  after a time-out; otherwise the number of bytes collected.
\<close>

function receive_packets ::
    "env \<Rightarrow> ('a lucax_scheme \<Rightarrow> 'a lucax_scheme option) \<Rightarrow> u16 \<Rightarrow> u16 \<Rightarrow> 'a lucax_scheme
      \<Rightarrow> (u16 option \<times> 'a lucax_scheme) option" where
  "receive_packets env task count done s =
     (if count = 0 then Some (Some done, s)
      else (let packet = (if count > VENDOR_IO_EPSIZE_OUT then VENDOR_IO_EPSIZE_OUT else count);
                (ok, s) = out_received_poll env 0xFFFF s
            in if \<not> ok then Some (None, s)
               else do {
                 (_, s) \<leftarrow> Endpoint_Read_Stream_LE env task (unat done) packet None s;
                 let s = Endpoint_ClearOUT env s;
                 receive_packets env task (count - packet) (done + packet) s
               }))"
  by pat_completeness auto
termination
  by (relation "measure (\<lambda>(_, _, count, _, _). unat count)")
    (auto simp: VENDOR_IO_EPSIZE_OUT_def unat_sub word_less_nat_alt word_le_nat_alt unat_gt_0
      split: if_splits)

declare receive_packets.simps [simp del]

definition lucax_pdi_nvm_write_page ::
    "env \<Rightarrow> ('a lucax_scheme \<Rightarrow> 'a lucax_scheme option) \<Rightarrow> 'a lucax_scheme \<Rightarrow> 'a lucax_scheme option"
where
  "lucax_pdi_nvm_write_page env task s = do {
     let count = wIndex (USB_ControlRequest s);
     let memory_type = (ucast (wValue (USB_ControlRequest s)) :: u8);
     (address, s) \<leftarrow> receive_address env s;
     s \<leftarrow> Endpoint_ClearStatusStage env s;
     let s = Endpoint_SelectEndpoint VENDOR_OUT_EPADDR s;
     let count = (if count > MAX_BUFFER then MAX_BUFFER else count);
     (r, s) \<leftarrow> receive_packets env task count 0 s;
     case r of
       None \<Rightarrow> Some s
     | Some done \<Rightarrow> do {
         (r, s) \<leftarrow> nvm_paged_write env address (buffer s) done memory_type s;
         Some (s\<lparr>last_op := pdi_code r\<rparr>)
       }
   }"

definition lucax_pdi_nvm_write_byte :: "env \<Rightarrow> 'a lucax_scheme \<Rightarrow> 'a lucax_scheme option" where
  "lucax_pdi_nvm_write_byte env s = do {
     let data = (ucast (wIndex (USB_ControlRequest s)) :: u8);
     let memory_type = (ucast (wValue (USB_ControlRequest s)) :: u8);
     (address, s) \<leftarrow> receive_address env s;
     s \<leftarrow> wait_set env UEINTX TXINI s;
     let s = Endpoint_ClearIN env s;
     (r, s) \<leftarrow> nvm_write_byte env address data memory_type s;
     let s = s\<lparr>last_op := pdi_code r\<rparr>;
     Some (Endpoint_SelectEndpoint 1 s)
   }"

text \<open>
  The raw transfers take the address from the request header and the count from its length field,
  which they do not compare with the size of the buffer.
\<close>

definition raw_address :: "ctrl_request \<Rightarrow> u32" where
  "raw_address r = push_bit 16 (ucast (wIndex r)) OR ucast (wValue r)"

definition lucax_pdi_raw_read :: "env \<Rightarrow> 'a lucax_scheme \<Rightarrow> 'a lucax_scheme option" where
  "lucax_pdi_raw_read env s = do {
     let address = raw_address (USB_ControlRequest s);
     let s = Endpoint_ClearSETUP env s;
     ((r, buf), s) \<leftarrow> pdi_read_bytes env address (buffer s) (wLength (USB_ControlRequest s)) s;
     let s = s\<lparr>buffer := buf, last_op := pdi_code r\<rparr>;
     (_, s) \<leftarrow> Endpoint_Write_Control_Stream_LE env (buffer s) (wLength (USB_ControlRequest s)) s;
     Endpoint_ClearStatusStage env s
   }"

definition lucax_pdi_raw_write :: "env \<Rightarrow> 'a lucax_scheme \<Rightarrow> 'a lucax_scheme option" where
  "lucax_pdi_raw_write env s = do {
     let address = raw_address (USB_ControlRequest s);
     let s = Endpoint_ClearSETUP env s;
     (_, s) \<leftarrow> Endpoint_Read_Control_Stream_LE env (wLength (USB_ControlRequest s)) s;
     s \<leftarrow> Endpoint_ClearStatusStage env s;
     (r, s) \<leftarrow> pdi_write_bytes env address (buffer s) (wLength (USB_ControlRequest s)) s;
     Some (s\<lparr>last_op := pdi_code r\<rparr>)
   }"

subsection \<open>Dispatch\<close>

definition EVENT_USB_Device_ControlRequest ::
    "env \<Rightarrow> ('a lucax_scheme \<Rightarrow> 'a lucax_scheme option) \<Rightarrow> 'a lucax_scheme \<Rightarrow> 'a lucax_scheme option"
where
  "EVENT_USB_Device_ControlRequest env task s =
     (let r = bRequest (USB_ControlRequest s);
          to_host = (bmRequestType (USB_ControlRequest s) AND REQDIR_DEVICETOHOST \<noteq> 0)
      in if r = LUCAX_GET_DESCRIPTOR then (if to_host then lucax_get_descriptor env s else Some s)
         else if r = LUCAX_REPORT_ERROR then (if to_host then lucax_report_error env s else Some s)
         else if r = LUCAX_RELEASE_INTERFACE then (if \<not> to_host then lucax_release_interface env s else Some s)
         else if r = LUCAX_PDI_INIT then (if to_host then lucax_pdi_init env s else Some s)
         else if r = LUCAX_PDI_CHIP_ERASE then (if to_host then lucax_pdi_chip_erase env s else Some s)
         else if r = LUCAX_PDI_NVM_READ then (if \<not> to_host then lucax_pdi_nvm_read env task s else Some s)
         else if r = LUCAX_PDI_NVM_WRITE_PAGE then
           (if \<not> to_host then lucax_pdi_nvm_write_page env task s else Some s)
         else if r = LUCAX_PDI_NVM_WRITE_BYTE then
           (if \<not> to_host then lucax_pdi_nvm_write_byte env s else Some s)
         else if r = LUCAX_PDI_RAW_READ then (if to_host then lucax_pdi_raw_read env s else Some s)
         else if r = LUCAX_PDI_RAW_WRITE then (if \<not> to_host then lucax_pdi_raw_write env s else Some s)
         else Some s)"

definition EVENT_USB_Device_ConfigurationChanged ::
    "env \<Rightarrow> 'a lucax_scheme \<Rightarrow> 'a lucax_scheme option" where
  "EVENT_USB_Device_ConfigurationChanged env s = do {
     (_, s) \<leftarrow> Endpoint_ConfigureEndpoint env VENDOR_IN_EPADDR 0x02 VENDOR_IO_EPSIZE_IN 1 s;
     (_, s) \<leftarrow> Endpoint_ConfigureEndpoint env VENDOR_OUT_EPADDR 0x02 VENDOR_IO_EPSIZE_OUT 1 s;
     Some s
   }"

subsection \<open>The device task\<close>

text \<open>The eight bytes of a SETUP packet, in the order of the structure.\<close>

definition read_setup :: "env \<Rightarrow> 'a lucax_scheme \<Rightarrow> 'a lucax_scheme" where
  "read_setup env s =
     (let (b0, s) = Endpoint_Read_8 env s; (b1, s) = Endpoint_Read_8 env s;
          (b2, s) = Endpoint_Read_8 env s; (b3, s) = Endpoint_Read_8 env s;
          (b4, s) = Endpoint_Read_8 env s; (b5, s) = Endpoint_Read_8 env s;
          (b6, s) = Endpoint_Read_8 env s; (b7, s) = Endpoint_Read_8 env s
      in s\<lparr>USB_ControlRequest := \<lparr>bmRequestType = b0, bRequest = b1, wValue = of_le [b2, b3],
            wIndex = of_le [b4, b5], wLength = of_le [b6, b7]\<rparr>\<rparr>)"

text \<open>\<open>std\<close> is the stack's switch over the standard requests of the USB specification.\<close>

definition USB_Device_ProcessControlRequest ::
    "env \<Rightarrow> ('a lucax_scheme \<Rightarrow> 'a lucax_scheme option) \<Rightarrow> ('a lucax_scheme \<Rightarrow> 'a lucax_scheme option)
      \<Rightarrow> 'a lucax_scheme \<Rightarrow> 'a lucax_scheme option" where
  "USB_Device_ProcessControlRequest env std task s = do {
     let s = read_setup env s;
     s \<leftarrow> EVENT_USB_Device_ControlRequest env task s;
     let (b, s) = Endpoint_IsSETUPReceived env s;
     s \<leftarrow> (if b then std s else Some s);
     let (b, s) = Endpoint_IsSETUPReceived env s;
     Some (if b then Endpoint_StallTransaction env (Endpoint_ClearSETUP env s) else s)
   }"

text \<open>\<open>depth\<close> bounds the nesting of the task inside the streams of a handler.\<close>

fun USB_DeviceTask ::
    "env \<Rightarrow> ('a lucax_scheme \<Rightarrow> 'a lucax_scheme option) \<Rightarrow> nat \<Rightarrow> 'a lucax_scheme \<Rightarrow> 'a lucax_scheme option"
where
  "USB_DeviceTask env std 0 s = None"
| "USB_DeviceTask env std (Suc depth) s =
     (let (st, s) = rd env USB_STATE s in
      if st = DEVICE_STATE_Unattached then Some s
      else do {
        let (prev, s) = Endpoint_GetCurrentEndpoint env s;
        let s = Endpoint_SelectEndpoint 0 s;
        let (b, s) = Endpoint_IsSETUPReceived env s;
        s \<leftarrow> (if b then USB_Device_ProcessControlRequest env std (USB_DeviceTask env std depth) s
             else Some s);
        Some (Endpoint_SelectEndpoint prev s)
      })"

end
