(* ===== verification/UsbStd.thy ===== *)
theory UsbStd
  imports Lucax
begin

text \<open>
  The standard requests of the USB stack (\<^verbatim>\<open>LUFA/Drivers/USB/Core/DeviceStandardReq.c\<close>), with the
  device functions of the controller they use (\<^verbatim>\<open>AVR8/Device_AVR8.h\<close>), and the descriptors of the
  firmware (\<^verbatim>\<open>src/Descriptors.c\<close>) that they hand out. The options are those of
  \<^verbatim>\<open>src/Config/LUFAConfig.h\<close>: descriptors in flash, one configuration, a control endpoint of 64 bytes,
  the internal serial number of the controller. The state of the device is a volatile variable that an
  interrupt routine also writes, so it is written and read like a register; the bytes of the signature
  row are read from a register each.
\<close>

subsection \<open>State\<close>

record usb_device = lucax +
  USB_Device_ConfigurationNumber :: u8
  USB_Device_CurrentlySelfPowered :: bool
  USB_Device_RemoteWakeupEnabled :: bool
  USB_IsInitialized :: bool

definition ADDEN :: u8 where "ADDEN = 0x80"
definition STALLRQC :: u8 where "STALLRQC = 0x10"
definition RSTDT :: u8 where "RSTDT = 0x08"
definition SREG_I :: u8 where "SREG_I = 0x80"
definition DEVICE_STATE_Powered :: u8 where "DEVICE_STATE_Powered = 1"
definition DEVICE_STATE_Default :: u8 where "DEVICE_STATE_Default = 2"
definition DEVICE_STATE_Addressed :: u8 where "DEVICE_STATE_Addressed = 3"
definition DEVICE_STATE_Configured :: u8 where "DEVICE_STATE_Configured = 4"
definition CONTROL_REQTYPE_RECIPIENT :: u8 where "CONTROL_REQTYPE_RECIPIENT = 0x1F"
definition REQDIR_HOSTTODEVICE :: u8 where "REQDIR_HOSTTODEVICE = 0"
definition REQTYPE_STANDARD :: u8 where "REQTYPE_STANDARD = 0"
definition REQREC_DEVICE :: u8 where "REQREC_DEVICE = 0"
definition REQREC_INTERFACE :: u8 where "REQREC_INTERFACE = 1"
definition REQREC_ENDPOINT :: u8 where "REQREC_ENDPOINT = 2"
definition REQ_GetStatus :: u8 where "REQ_GetStatus = 0"
definition REQ_ClearFeature :: u8 where "REQ_ClearFeature = 1"
definition REQ_SetFeature :: u8 where "REQ_SetFeature = 3"
definition REQ_SetAddress :: u8 where "REQ_SetAddress = 5"
definition REQ_GetDescriptor :: u8 where "REQ_GetDescriptor = 6"
definition REQ_GetConfiguration :: u8 where "REQ_GetConfiguration = 8"
definition REQ_SetConfiguration :: u8 where "REQ_SetConfiguration = 9"
definition FEATURE_SEL_EndpointHalt :: u8 where "FEATURE_SEL_EndpointHalt = 0"
definition FEATURE_SEL_DeviceRemoteWakeup :: u8 where "FEATURE_SEL_DeviceRemoteWakeup = 1"
definition FEATURE_SELFPOWERED_ENABLED :: u8 where "FEATURE_SELFPOWERED_ENABLED = 1"
definition FEATURE_REMOTE_WAKEUP_ENABLED :: u8 where "FEATURE_REMOTE_WAKEUP_ENABLED = 2"

lemmas std_consts = ADDEN_def STALLRQC_def RSTDT_def SREG_I_def DEVICE_STATE_Powered_def
  DEVICE_STATE_Default_def DEVICE_STATE_Addressed_def DEVICE_STATE_Configured_def
  CONTROL_REQTYPE_RECIPIENT_def REQDIR_HOSTTODEVICE_def REQTYPE_STANDARD_def REQREC_DEVICE_def
  REQREC_INTERFACE_def REQREC_ENDPOINT_def REQ_GetStatus_def REQ_ClearFeature_def
  REQ_SetFeature_def REQ_SetAddress_def REQ_GetDescriptor_def REQ_GetConfiguration_def
  REQ_SetConfiguration_def FEATURE_SEL_EndpointHalt_def FEATURE_SEL_DeviceRemoteWakeup_def
  FEATURE_SELFPOWERED_ENABLED_def FEATURE_REMOTE_WAKEUP_ENABLED_def

subsection \<open>Descriptors\<close>

text \<open>The structures are packed, and 16-bit fields are stored with the low byte first.\<close>

record USB_Descriptor_Header_t =
  Size :: u8
  Type :: u8

record USB_Descriptor_Device_t = USB_Descriptor_Header_t +
  USBSpecification :: u16
  Class :: u8
  SubClass :: u8
  Protocol :: u8
  Endpoint0Size :: u8
  VendorID :: u16
  ProductID :: u16
  ReleaseNumber :: u16
  ManufacturerStrIndex :: u8
  ProductStrIndex :: u8
  SerialNumStrIndex :: u8
  NumberOfConfigurations :: u8

record USB_Descriptor_Configuration_Header_t = USB_Descriptor_Header_t +
  TotalConfigurationSize :: u16
  TotalInterfaces :: u8
  ConfigurationNumber :: u8
  ConfigurationStrIndex :: u8
  ConfigAttributes :: u8
  MaxPowerConsumption :: u8

record USB_Descriptor_Interface_t = USB_Descriptor_Header_t +
  InterfaceNumber :: u8
  AlternateSetting :: u8
  TotalEndpoints :: u8
  ifClass :: u8
  ifSubClass :: u8
  ifProtocol :: u8
  InterfaceStrIndex :: u8

record USB_Descriptor_Endpoint_t = USB_Descriptor_Header_t +
  EndpointAddress :: u8
  Attributes :: u8
  EndpointSize :: u16
  PollingIntervalMS :: u8

record USB_Descriptor_String_t = USB_Descriptor_Header_t +
  UnicodeString :: "u16 list"

record USB_Descriptor_Configuration_t =
  Config :: USB_Descriptor_Configuration_Header_t
  Vendor_Interface :: USB_Descriptor_Interface_t
  Vendor_DataInEndpoint :: USB_Descriptor_Endpoint_t
  Vendor_DataOutEndpoint :: USB_Descriptor_Endpoint_t

definition header_bytes :: "'a USB_Descriptor_Header_t_scheme \<Rightarrow> u8 list" where
  "header_bytes d = [Size d, Type d]"

definition device_bytes :: "USB_Descriptor_Device_t \<Rightarrow> u8 list" where
  "device_bytes d = header_bytes d @ le16 (USBSpecification d) @
     [Class d, SubClass d, Protocol d, Endpoint0Size d] @
     le16 (VendorID d) @ le16 (ProductID d) @ le16 (ReleaseNumber d) @
     [ManufacturerStrIndex d, ProductStrIndex d, SerialNumStrIndex d, NumberOfConfigurations d]"

definition config_header_bytes :: "USB_Descriptor_Configuration_Header_t \<Rightarrow> u8 list" where
  "config_header_bytes d = header_bytes d @ le16 (TotalConfigurationSize d) @
     [TotalInterfaces d, ConfigurationNumber d, ConfigurationStrIndex d, ConfigAttributes d,
      MaxPowerConsumption d]"

definition interface_bytes :: "USB_Descriptor_Interface_t \<Rightarrow> u8 list" where
  "interface_bytes d = header_bytes d @ [InterfaceNumber d, AlternateSetting d, TotalEndpoints d,
     ifClass d, ifSubClass d, ifProtocol d, InterfaceStrIndex d]"

definition endpoint_bytes :: "USB_Descriptor_Endpoint_t \<Rightarrow> u8 list" where
  "endpoint_bytes d = header_bytes d @ [EndpointAddress d, Attributes d] @ le16 (EndpointSize d) @
     [PollingIntervalMS d]"

definition configuration_bytes :: "USB_Descriptor_Configuration_t \<Rightarrow> u8 list" where
  "configuration_bytes d = config_header_bytes (Config d) @ interface_bytes (Vendor_Interface d) @
     endpoint_bytes (Vendor_DataInEndpoint d) @ endpoint_bytes (Vendor_DataOutEndpoint d)"

text \<open>A string is stored without a terminator being counted in its size, but with it in memory.\<close>

definition string_bytes :: "USB_Descriptor_String_t \<Rightarrow> u8 list" where
  "string_bytes d = header_bytes d @ concat (map le16 (UnicodeString d))"

lemmas descriptor_bytes = header_bytes_def device_bytes_def config_header_bytes_def
  interface_bytes_def endpoint_bytes_def configuration_bytes_def string_bytes_def

text \<open>\<^verbatim>\<open>src/Descriptors.c\<close>.\<close>

definition VERSION_BCD :: "u16 \<Rightarrow> u16 \<Rightarrow> u16 \<Rightarrow> u16" where
  "VERSION_BCD Major Minor Revision =
     push_bit 8 (Major AND 0xFF) OR push_bit 4 (Minor AND 0x0F) OR (Revision AND 0x0F)"

definition DTYPE_Device :: u8 where "DTYPE_Device = 1"
definition DTYPE_Configuration :: u8 where "DTYPE_Configuration = 2"
definition DTYPE_String :: u8 where "DTYPE_String = 3"
definition DTYPE_Interface :: u8 where "DTYPE_Interface = 4"
definition DTYPE_Endpoint :: u8 where "DTYPE_Endpoint = 5"
definition NO_DESCRIPTOR :: u8 where "NO_DESCRIPTOR = 0"
definition STRING_ID_Language :: u8 where "STRING_ID_Language = 0"
definition STRING_ID_Manufacturer :: u8 where "STRING_ID_Manufacturer = 1"
definition STRING_ID_Product :: u8 where "STRING_ID_Product = 2"
definition FIXED_CONTROL_ENDPOINT_SIZE :: u8 where "FIXED_CONTROL_ENDPOINT_SIZE = 64"
definition FIXED_NUM_CONFIGURATIONS :: u8 where "FIXED_NUM_CONFIGURATIONS = 1"
definition LANGUAGE_ID_ENG :: u16 where "LANGUAGE_ID_ENG = 0x0409"
definition USB_CONFIG_ATTR_RESERVED :: u8 where "USB_CONFIG_ATTR_RESERVED = 0x80"
definition EP_TYPE_BULK :: u8 where "EP_TYPE_BULK = 0x02"

lemmas descriptor_consts = DTYPE_Device_def DTYPE_Configuration_def DTYPE_String_def
  DTYPE_Interface_def DTYPE_Endpoint_def NO_DESCRIPTOR_def STRING_ID_Language_def
  STRING_ID_Manufacturer_def STRING_ID_Product_def FIXED_CONTROL_ENDPOINT_SIZE_def
  FIXED_NUM_CONFIGURATIONS_def LANGUAGE_ID_ENG_def USB_CONFIG_ATTR_RESERVED_def EP_TYPE_BULK_def
  VERSION_BCD_def

definition DeviceDescriptor :: USB_Descriptor_Device_t where
  "DeviceDescriptor = \<lparr>Size = 18, Type = DTYPE_Device, USBSpecification = VERSION_BCD 1 1 0,
     Class = 0, SubClass = 0, Protocol = 0, Endpoint0Size = FIXED_CONTROL_ENDPOINT_SIZE,
     VendorID = 0x03EB, ProductID = 0x206C, ReleaseNumber = VERSION_BCD 0 0 1,
     ManufacturerStrIndex = STRING_ID_Manufacturer, ProductStrIndex = STRING_ID_Product,
     SerialNumStrIndex = NO_DESCRIPTOR, NumberOfConfigurations = FIXED_NUM_CONFIGURATIONS\<rparr>"

definition ConfigurationDescriptor :: USB_Descriptor_Configuration_t where
  "ConfigurationDescriptor =
     \<lparr>Config = \<lparr>Size = 9, Type = DTYPE_Configuration, TotalConfigurationSize = 32,
        TotalInterfaces = 1, ConfigurationNumber = 1, ConfigurationStrIndex = NO_DESCRIPTOR,
        ConfigAttributes = USB_CONFIG_ATTR_RESERVED, MaxPowerConsumption = drop_bit 1 100\<rparr>,
      Vendor_Interface = \<lparr>Size = 9, Type = DTYPE_Interface, InterfaceNumber = 0,
        AlternateSetting = 0, TotalEndpoints = 2, ifClass = 0xFF, ifSubClass = 0xFF,
        ifProtocol = 0xFF, InterfaceStrIndex = NO_DESCRIPTOR\<rparr>,
      Vendor_DataInEndpoint = \<lparr>Size = 7, Type = DTYPE_Endpoint,
        EndpointAddress = VENDOR_IN_EPADDR, Attributes = EP_TYPE_BULK,
        EndpointSize = VENDOR_IO_EPSIZE_IN, PollingIntervalMS = 5\<rparr>,
      Vendor_DataOutEndpoint = \<lparr>Size = 7, Type = DTYPE_Endpoint,
        EndpointAddress = VENDOR_OUT_EPADDR, Attributes = EP_TYPE_BULK,
        EndpointSize = VENDOR_IO_EPSIZE_OUT, PollingIntervalMS = 5\<rparr>\<rparr>"

text \<open>The macro for a string literal, whose \<^verbatim>\<open>sizeof\<close> counts the terminator.\<close>

definition USB_STRING_DESCRIPTOR :: "string \<Rightarrow> USB_Descriptor_String_t" where
  "USB_STRING_DESCRIPTOR s = \<lparr>Size = 2 + (of_nat (2 * (length s + 1)) - 2), Type = DTYPE_String,
     UnicodeString = map of_char s @ [0]\<rparr>"

definition LanguageString :: USB_Descriptor_String_t where
  "LanguageString = \<lparr>Size = 2 + 2, Type = DTYPE_String, UnicodeString = [LANGUAGE_ID_ENG]\<rparr>"

definition ManufacturerString :: USB_Descriptor_String_t where
  "ManufacturerString = USB_STRING_DESCRIPTOR ''Luca Ceragioli''"

definition ProductString :: USB_Descriptor_String_t where
  "ProductString = USB_STRING_DESCRIPTOR ''LUFA Luca X programmer''"

text \<open>
  The size of a descriptor and what is stored at its address, \<open>None\<close> for the null pointer.
\<close>

definition CALLBACK_USB_GetDescriptor :: "u16 \<Rightarrow> u8 \<Rightarrow> u16 \<times> u8 list option" where
  "CALLBACK_USB_GetDescriptor wV wI =
     (let DescriptorType = (ucast (drop_bit 8 wV) :: u8);
          DescriptorNumber = (ucast (wV AND 0xFF) :: u8)
      in if DescriptorType = DTYPE_Device then (18, Some (device_bytes DeviceDescriptor))
         else if DescriptorType = DTYPE_Configuration
         then (32, Some (configuration_bytes ConfigurationDescriptor))
         else if DescriptorType = DTYPE_String then
           (if DescriptorNumber = STRING_ID_Language
            then (ucast (Size LanguageString), Some (string_bytes LanguageString))
            else if DescriptorNumber = STRING_ID_Manufacturer
            then (ucast (Size ManufacturerString), Some (string_bytes ManufacturerString))
            else if DescriptorNumber = STRING_ID_Product
            then (ucast (Size ProductString), Some (string_bytes ProductString))
            else (ucast NO_DESCRIPTOR, None))
         else (ucast NO_DESCRIPTOR, None))"

subsection \<open>Device functions of the controller\<close>

definition USB_Device_SetDeviceAddress :: "env \<Rightarrow> u8 \<Rightarrow> 'a hw_scheme \<Rightarrow> 'a hw_scheme" where
  "USB_Device_SetDeviceAddress env Address s =
     (let (v, s) = rd env UDADDR s in wr UDADDR ((v AND ADDEN) OR (Address AND 0x7F)) s)"

definition USB_Device_EnableDeviceAddress :: "env \<Rightarrow> 'a hw_scheme \<Rightarrow> 'a hw_scheme" where
  "USB_Device_EnableDeviceAddress env s = set_bits env UDADDR ADDEN s"

definition USB_Device_IsAddressSet :: "env \<Rightarrow> 'a hw_scheme \<Rightarrow> bool \<times> 'a hw_scheme" where
  "USB_Device_IsAddressSet env s = flag_set env UDADDR ADDEN s"

definition Endpoint_ResetEndpoint :: "u8 \<Rightarrow> 'a hw_scheme \<Rightarrow> 'a hw_scheme" where
  "Endpoint_ResetEndpoint Address s =
     wr UERST 0 (wr UERST (push_bit (unat (Address AND ENDPOINT_EPNUM_MASK)) 1) s)"

definition Endpoint_IsEnabled :: "env \<Rightarrow> 'a hw_scheme \<Rightarrow> bool \<times> 'a hw_scheme" where
  "Endpoint_IsEnabled env s = flag_set env UECONX EPEN s"

definition Endpoint_ClearStall :: "env \<Rightarrow> 'a hw_scheme \<Rightarrow> 'a hw_scheme" where
  "Endpoint_ClearStall env s = set_bits env UECONX STALLRQC s"

definition Endpoint_ResetDataToggle :: "env \<Rightarrow> 'a hw_scheme \<Rightarrow> 'a hw_scheme" where
  "Endpoint_ResetDataToggle env s = set_bits env UECONX RSTDT s"

definition Endpoint_Write_16_LE :: "u16 \<Rightarrow> 'a hw_scheme \<Rightarrow> 'a hw_scheme" where
  "Endpoint_Write_16_LE Data s =
     wr UEDATX (ucast (drop_bit 8 Data)) (wr UEDATX (ucast (Data AND 0xFF)) s)"

text \<open>
  The serial number: two hexadecimal digits for each byte of the signature row, the low one first.
  Interrupts are off in between.
\<close>

fun serial_digits :: "env \<Rightarrow> nat \<Rightarrow> nat \<Rightarrow> u8 \<Rightarrow> 'a hw_scheme \<Rightarrow> u16 list \<times> 'a hw_scheme" where
  "serial_digits env 0 SerialCharNum SigReadAddress s = ([], s)"
| "serial_digits env (Suc n) SerialCharNum SigReadAddress s =
     (let (SerialByte, s) = rd env (SIGROW SigReadAddress) s;
          (SerialByte, SigReadAddress) =
            (if odd SerialCharNum then (drop_bit 4 SerialByte, SigReadAddress + 1)
             else (SerialByte, SigReadAddress));
          SerialByte = SerialByte AND 0x0F;
          c = (if SerialByte \<ge> 10 then (65 - 10) + ucast SerialByte else 48 + ucast SerialByte);
          (cs, s) = serial_digits env n (SerialCharNum + 1) SigReadAddress s
      in (c # cs, s))"

definition USB_Device_GetSerialString :: "env \<Rightarrow> 'a hw_scheme \<Rightarrow> u16 list \<times> 'a hw_scheme" where
  "USB_Device_GetSerialString env s =
     (let (CurrentGlobalInt, s) = rd env SREG s;
          s = wr SREG (CurrentGlobalInt AND NOT SREG_I) s;
          (cs, s) = serial_digits env 20 0 0x0E s
      in (cs, wr SREG CurrentGlobalInt s))"

subsection \<open>The requests\<close>

definition USB_Device_SetAddress :: "env \<Rightarrow> 'a lucax_scheme \<Rightarrow> 'a lucax_scheme option" where
  "USB_Device_SetAddress env s = do {
     let DeviceAddress = (ucast (wValue (USB_ControlRequest s) AND 0x7F) :: u8);
     let s = USB_Device_SetDeviceAddress env DeviceAddress s;
     let s = Endpoint_ClearSETUP env s;
     s \<leftarrow> Endpoint_ClearStatusStage env s;
     s \<leftarrow> wait_set env UEINTX TXINI s;
     let s = USB_Device_EnableDeviceAddress env s;
     Some (wr USB_STATE (if DeviceAddress \<noteq> 0 then DEVICE_STATE_Addressed else DEVICE_STATE_Default) s)
   }"

definition USB_Device_SetConfiguration ::
    "env \<Rightarrow> 'a usb_device_scheme \<Rightarrow> 'a usb_device_scheme option" where
  "USB_Device_SetConfiguration env s =
     (if (ucast (wValue (USB_ControlRequest s)) :: u8) > FIXED_NUM_CONFIGURATIONS then Some s
      else do {
        let s = Endpoint_ClearSETUP env s;
        let s = s\<lparr>USB_Device_ConfigurationNumber := ucast (wValue (USB_ControlRequest s))\<rparr>;
        s \<leftarrow> Endpoint_ClearStatusStage env s;
        let (state, s) =
          (if USB_Device_ConfigurationNumber s \<noteq> 0 then (DEVICE_STATE_Configured, s)
           else (let (b, s) = USB_Device_IsAddressSet env s
                 in (if b then DEVICE_STATE_Configured else DEVICE_STATE_Powered, s)));
        EVENT_USB_Device_ConfigurationChanged env (wr USB_STATE state s)
      })"

definition USB_Device_GetConfiguration ::
    "env \<Rightarrow> 'a usb_device_scheme \<Rightarrow> 'a usb_device_scheme option" where
  "USB_Device_GetConfiguration env s = do {
     let s = Endpoint_ClearSETUP env s;
     let s = Endpoint_Write_8 (USB_Device_ConfigurationNumber s) s;
     let s = Endpoint_ClearIN env s;
     Endpoint_ClearStatusStage env s
   }"

definition USE_INTERNAL_SERIAL :: u16 where "USE_INTERNAL_SERIAL = 0xDC"

definition USB_Device_GetInternalSerialDescriptor ::
    "env \<Rightarrow> 'a lucax_scheme \<Rightarrow> 'a lucax_scheme option" where
  "USB_Device_GetInternalSerialDescriptor env s = do {
     let (cs, s) = USB_Device_GetSerialString env s;
     let SignatureDescriptor = \<lparr>Size = 2 + 2 * 20, Type = DTYPE_String, UnicodeString = cs\<rparr>;
     let s = Endpoint_ClearSETUP env s;
     (_, s) \<leftarrow> Endpoint_Write_Control_Stream_LE env (string_bytes SignatureDescriptor) 42 s;
     Some (Endpoint_ClearOUT env s)
   }"

text \<open>The stream from flash is the one from RAM over another address space.\<close>

definition USB_Device_GetDescriptor :: "env \<Rightarrow> 'a lucax_scheme \<Rightarrow> 'a lucax_scheme option" where
  "USB_Device_GetDescriptor env s =
     (if wValue (USB_ControlRequest s) = (push_bit 8 (ucast DTYPE_String) OR USE_INTERNAL_SERIAL)
      then USB_Device_GetInternalSerialDescriptor env s
      else (case CALLBACK_USB_GetDescriptor (wValue (USB_ControlRequest s))
                   (ucast (wIndex (USB_ControlRequest s))) of
          (DescriptorSize, p) \<Rightarrow>
            if DescriptorSize = ucast NO_DESCRIPTOR then Some s
            else do {
              let s = Endpoint_ClearSETUP env s;
              bytes \<leftarrow> p;
              (_, s) \<leftarrow> Endpoint_Write_Control_Stream_LE env bytes DescriptorSize s;
              Some (Endpoint_ClearOUT env s)
            }))"

definition USB_Device_GetStatus :: "env \<Rightarrow> 'a usb_device_scheme \<Rightarrow> 'a usb_device_scheme option" where
  "USB_Device_GetStatus env s = do {
     let t = bmRequestType (USB_ControlRequest s);
     let answer = (\<lambda>CurrentStatus s. do {
           let s = Endpoint_ClearSETUP env s;
           let s = Endpoint_Write_16_LE (ucast CurrentStatus) s;
           let s = Endpoint_ClearIN env s;
           Endpoint_ClearStatusStage env s
         });
     if t = (REQDIR_DEVICETOHOST OR REQTYPE_STANDARD OR REQREC_DEVICE)
     then answer ((if USB_Device_CurrentlySelfPowered s then FEATURE_SELFPOWERED_ENABLED else 0) OR
            (if USB_Device_RemoteWakeupEnabled s then FEATURE_REMOTE_WAKEUP_ENABLED else (0 :: u8))) s
     else if t = (REQDIR_DEVICETOHOST OR REQTYPE_STANDARD OR REQREC_ENDPOINT)
     then do {
       let s = Endpoint_SelectEndpoint (ucast (wIndex (USB_ControlRequest s)) AND ENDPOINT_EPNUM_MASK) s;
       let (b, s) = Endpoint_IsStalled env s;
       answer (if b then 1 else 0) (Endpoint_SelectEndpoint 0 s)
     }
     else Some s
   }"

definition USB_Device_ClearSetFeature ::
    "env \<Rightarrow> 'a usb_device_scheme \<Rightarrow> 'a usb_device_scheme option" where
  "USB_Device_ClearSetFeature env s = do {
     let q = USB_ControlRequest s;
     let recipient = bmRequestType q AND CONTROL_REQTYPE_RECIPIENT;
     let feature = (ucast (wValue q) :: u8);
     let acknowledge = (\<lambda>s. Endpoint_ClearStatusStage env (Endpoint_ClearSETUP env (Endpoint_SelectEndpoint 0 s)));
     if recipient = REQREC_DEVICE then
       (if feature = FEATURE_SEL_DeviceRemoteWakeup
        then acknowledge (s\<lparr>USB_Device_RemoteWakeupEnabled := (bRequest q = REQ_SetFeature)\<rparr>)
        else Some s)
     else if recipient = REQREC_ENDPOINT then
       (if feature = FEATURE_SEL_EndpointHalt then
          (let EndpointIndex = (ucast (wIndex q) :: u8) AND ENDPOINT_EPNUM_MASK in
           if EndpointIndex = 0 then Some s
           else (let s = Endpoint_SelectEndpoint EndpointIndex s;
                     (b, s) = Endpoint_IsEnabled env s
                 in acknowledge
                   (if b then
                      (if bRequest q = REQ_SetFeature then Endpoint_StallTransaction env s
                       else Endpoint_ResetDataToggle env (Endpoint_ResetEndpoint EndpointIndex
                              (Endpoint_ClearStall env s)))
                    else s)))
        else acknowledge s)
     else Some s
   }"

text \<open>The switch of \<^verbatim>\<open>USB_Device_ProcessControlRequest\<close>.\<close>

definition standard_request :: "env \<Rightarrow> 'a usb_device_scheme \<Rightarrow> 'a usb_device_scheme option" where
  "standard_request env s =
     (let t = bmRequestType (USB_ControlRequest s); r = bRequest (USB_ControlRequest s)
      in if r = REQ_GetStatus then
           (if t = (REQDIR_DEVICETOHOST OR REQTYPE_STANDARD OR REQREC_DEVICE) \<or>
               t = (REQDIR_DEVICETOHOST OR REQTYPE_STANDARD OR REQREC_ENDPOINT)
            then USB_Device_GetStatus env s else Some s)
         else if r = REQ_ClearFeature \<or> r = REQ_SetFeature then
           (if t = (REQDIR_HOSTTODEVICE OR REQTYPE_STANDARD OR REQREC_DEVICE) \<or>
               t = (REQDIR_HOSTTODEVICE OR REQTYPE_STANDARD OR REQREC_ENDPOINT)
            then USB_Device_ClearSetFeature env s else Some s)
         else if r = REQ_SetAddress then
           (if t = (REQDIR_HOSTTODEVICE OR REQTYPE_STANDARD OR REQREC_DEVICE)
            then USB_Device_SetAddress env s else Some s)
         else if r = REQ_GetDescriptor then
           (if t = (REQDIR_DEVICETOHOST OR REQTYPE_STANDARD OR REQREC_DEVICE) \<or>
               t = (REQDIR_DEVICETOHOST OR REQTYPE_STANDARD OR REQREC_INTERFACE)
            then USB_Device_GetDescriptor env s else Some s)
         else if r = REQ_GetConfiguration then
           (if t = (REQDIR_DEVICETOHOST OR REQTYPE_STANDARD OR REQREC_DEVICE)
            then USB_Device_GetConfiguration env s else Some s)
         else if r = REQ_SetConfiguration then
           (if t = (REQDIR_HOSTTODEVICE OR REQTYPE_STANDARD OR REQREC_DEVICE)
            then USB_Device_SetConfiguration env s else Some s)
         else Some s)"

subsection \<open>Descriptors and their sizes\<close>

text \<open>What the callback returns: a descriptor of the size that is reported, or nothing.\<close>

lemma descriptor_size:
  "CALLBACK_USB_GetDescriptor w i = (n, p) \<Longrightarrow>
   (case p of None \<Rightarrow> n = 0 | Some bs \<Rightarrow> 0 < unat n \<and> unat n \<le> length bs \<and> unat n \<le> 46)"
  by (auto simp: CALLBACK_USB_GetDescriptor_def descriptor_consts DeviceDescriptor_def
      ConfigurationDescriptor_def LanguageString_def ManufacturerString_def ProductString_def
      USB_STRING_DESCRIPTOR_def descriptor_bytes le16_def Let_def split: if_splits)

subsection \<open>The data stage towards a cooperative host\<close>

text \<open>
  A host that wants \<open>N\<close> bytes in all: the bus stays up, no new SETUP packet comes, a bank is free and
  empty whenever it is asked for, and the status packet follows the last byte.
\<close>

definition host_takes :: "env \<Rightarrow> nat \<Rightarrow> bool" where
  "host_takes env N \<longleftrightarrow> (\<forall>tr.
     env tr USB_STATE \<noteq> DEVICE_STATE_Unattached \<and> env tr USB_STATE \<noteq> DEVICE_STATE_Suspended \<and>
     env tr UEINTX AND RXSTPI = 0 \<and> env tr UEINTX AND TXINI \<noteq> 0 \<and>
     env tr UEBCHX = 0 \<and> env tr UEBCLX = 0 \<and>
     (env tr UEINTX AND RXOUTI \<noteq> 0 \<longleftrightarrow> N \<le> length (writes UEDATX tr)))"

lemma host_takesD:
  assumes "host_takes env N"
  shows "env tr USB_STATE \<noteq> DEVICE_STATE_Unattached" "env tr USB_STATE \<noteq> DEVICE_STATE_Suspended"
    "env tr UEINTX AND RXSTPI = 0" "env tr UEINTX AND TXINI \<noteq> 0"
    "env tr UEBCHX = 0" "env tr UEBCLX = 0"
    "env tr UEINTX AND RXOUTI = 0 \<longleftrightarrow> length (writes UEDATX tr) < N"
  using assms by (auto simp: host_takes_def not_le [symmetric])

lemma fill_bank_result:
  assumes "len \<le> length data" "unat fill \<le> 64"
  shows "\<exists>s' k. fill_bank data len fill s = Some ((drop k data, len - k, fill + of_nat k), s') \<and>
    k = min len (64 - unat fill) \<and> writes UEDATX (trace s') = writes UEDATX (trace s) @ take k data"
  using assms
proof (induction data len fill s rule: fill_bank.induct)
  case (1 data fill s)
  then show ?case by simp
next
  case (2 data len fill s)
  show ?case
  proof (cases "fill < USB_Device_ControlEndpointSize")
    case False
    then have "unat fill = 64" using 2(3) by (simp add: USB_Device_ControlEndpointSize_def word_less_nat_alt)
    with False show ?thesis by simp
  next
    case True
    then have lt: "unat fill < 64" by (simp add: USB_Device_ControlEndpointSize_def word_less_nat_alt)
    then have u: "unat (fill + 1) = Suc (unat fill)" by (simp add: unat_word_ariths)
    obtain d ds where data: "data = d # ds" using 2(2) by (cases data) auto
    from 2(1) [OF True data] 2(2) lt obtain s' k where
      "fill_bank ds len (fill + 1) (Endpoint_Write_8 d s) = Some ((drop k ds, len - k, fill + 1 + of_nat k), s')"
      and k: "k = min len (63 - unat fill)"
      and w: "writes UEDATX (trace s') = writes UEDATX (trace (Endpoint_Write_8 d s)) @ take k ds"
      by (auto simp: u data)
    moreover have "writes UEDATX (trace (Endpoint_Write_8 d s)) = writes UEDATX (trace s) @ [d]"
      by (simp add: Endpoint_Write_8_def wr_def)
    ultimately show ?thesis
      using True lt by (intro exI [of _ s'] exI [of _ "Suc k"]) (auto simp: data algebra_simps)
  qed
qed

lemma reads_keep_writes [simp]:
  "writes r (trace (snd (rd env q s))) = writes r (trace s)"
  "writes UEDATX (trace (Endpoint_ClearIN env s)) = writes UEDATX (trace s)"
  "writes UEDATX (trace (Endpoint_ClearOUT env s)) = writes UEDATX (trace s)"
  "writes UEDATX (trace (Endpoint_ClearSETUP env s)) = writes UEDATX (trace s)"
  by (simp_all add: endpoint_defs rd_def wr_def clear_bits_def Let_def)

lemma write_control_takes:
  assumes "host_takes env N" "len \<le> length data" "length (writes UEDATX (trace s)) + len = N"
  shows "wp (write_control_loop env data len full s) (\<lambda>(r, s'). r = None \<and>
    writes UEDATX (trace s') = writes UEDATX (trace s) @ take len data)"
  using assms
proof (induction len arbitrary: data full s rule: less_induct)
  case (less len)
  note h = host_takesD [OF less.prems(1)]
  show ?case
  proof (cases "len = 0")
    case True
    then show ?thesis
      using less.prems(3) by (subst write_control_loop.simps) (simp add: endpoint_defs rd_def Let_def h)
  next
    case False
    define s1 where "s1 = emit (Rd UEBCLX) (emit (Rd UEBCHX) (emit (Rd UEINTX) (emit (Rd UEINTX)
      (emit (Rd UEINTX) (emit (Rd USB_STATE) s)))))"
    have w1: "writes UEDATX (trace s1) = writes UEDATX (trace s)" by (simp add: s1_def)
    obtain s2 k where f: "fill_bank data len 0 s1 = Some ((drop k data, len - k, of_nat k), s2)"
      and k: "k = min len 64" and w: "writes UEDATX (trace s2) = writes UEDATX (trace s) @ take k data"
      using fill_bank_result [OF less.prems(2), of 0 s1] by (auto simp: w1)
    have eq: "write_control_loop env data len full s =
        write_control_loop env (drop k data) (len - k) (of_nat k = USB_Device_ControlEndpointSize)
          (Endpoint_ClearIN env s2)"
      using False less.prems(3) f
      by (subst write_control_loop.simps) (simp add: endpoint_defs rd_def Let_def h s1_def)
    have "wp (write_control_loop env (drop k data) (len - k) (of_nat k = USB_Device_ControlEndpointSize)
        (Endpoint_ClearIN env s2)) (\<lambda>(r, s'). r = None \<and> writes UEDATX (trace s') =
          writes UEDATX (trace (Endpoint_ClearIN env s2)) @ take (len - k) (drop k data))"
      using False k less.prems w by (intro less.IH) auto
    moreover have "take k data @ take (len - k) (drop k data) = take len data"
      using k by (metis le_add_diff_inverse min.cobounded1 take_add)
    ultimately show ?thesis unfolding eq by (auto simp: w elim!: wp_conseq)
  qed
qed

lemma write_control_stream_takes:
  assumes "host_takes env N" "0 < unat n" "unat n \<le> length data"
    and "N = length (writes UEDATX (trace s)) + min (unat n) (unat (wLength (USB_ControlRequest s)))"
  shows "wp (Endpoint_Write_Control_Stream_LE env data n s) (\<lambda>(r, s'). r = RWCSTREAM_NoError \<and>
    writes UEDATX (trace s') = writes UEDATX (trace s) @
      take (min (unat n) (unat (wLength (USB_ControlRequest s)))) data)"
proof -
  define m where "m = min (unat n) (unat (wLength (USB_ControlRequest s)))"
  have m: "(if n > wLength (USB_ControlRequest s) then (wLength (USB_ControlRequest s), s)
      else if n = 0 then (n, Endpoint_ClearIN env s) else (n, s)) = (word_of_nat m, s)" "unat (word_of_nat m :: u16) = m"
    using assms(2) by (auto simp: m_def min_def word_less_nat_alt word_le_nat_alt)
  have "wp (write_control_loop env data m False s) (\<lambda>(r, s'). r = None \<and>
      writes UEDATX (trace s') = writes UEDATX (trace s) @ take m data)"
    by (rule write_control_takes [OF assms(1)]) (use assms in \<open>simp_all add: m_def\<close>)
  moreover have "Endpoint_Write_Control_Stream_LE env data n s = Option.bind (write_control_loop env data m False s)
      (\<lambda>(r, s). case r of Some e \<Rightarrow> Some (e, s) | None \<Rightarrow> control_out_wait env s)"
    unfolding Endpoint_Write_Control_Stream_LE_def m(1) by (simp add: m(2))
  ultimately show ?thesis
    unfolding m_def [symmetric]
  proof (simp only:, elim wp_bind_conseq)
    fix z :: "u8 option \<times> 'a lucax_scheme"
    assume "case z of (r, s') \<Rightarrow> r = None \<and> writes UEDATX (trace s') = writes UEDATX (trace s) @ take m data"
    then obtain s1 where z: "z = (None, s1)" "writes UEDATX (trace s1) = writes UEDATX (trace s) @ take m data"
      by auto
    have "length (take m data) = m" using assms(3) by (simp add: m_def)
    then have "env (trace s1) UEINTX AND RXOUTI \<noteq> 0"
      using host_takesD(7) [OF assms(1), of "trace s1"] assms(4) z(2) by (simp add: m_def)
    then show "wp (case z of (r, s) \<Rightarrow> case r of Some e \<Rightarrow> Some (e, s) | None \<Rightarrow> control_out_wait env s)
        (\<lambda>(r, s'). r = RWCSTREAM_NoError \<and> writes UEDATX (trace s') = writes UEDATX (trace s) @ take m data)"
      using z by (subst control_out_wait.simps) (simp add: endpoint_defs rd_def Let_def)
  qed
qed


definition taking_env :: "nat \<Rightarrow> env" where
  "taking_env N tr r = (case r of USB_STATE \<Rightarrow> DEVICE_STATE_Addressed
     | UEINTX \<Rightarrow> TXINI OR (if N \<le> length (writes UEDATX tr) then RXOUTI else 0) | _ \<Rightarrow> 0)"

lemma taking_env: "host_takes (taking_env N) N"
  by (simp add: host_takes_def taking_env_def std_consts usb_consts)

definition first_request :: usb_device where
  "first_request = \<lparr>trace = [], ustate = UTX, pending = 0, pdi_on = 0, char_us = 0,
     buffer = [], last_op = 0, USB_ControlRequest = \<lparr>bmRequestType = 0x80, bRequest = 6,
       wValue = 0x100, wIndex = 0, wLength = 8\<rparr>,
     USB_Device_ConfigurationNumber = 0, USB_Device_CurrentlySelfPowered = False,
     USB_Device_RemoteWakeupEnabled = False, USB_IsInitialized = True\<rparr>"


subsection \<open>What standard requests leave alone\<close>

text \<open>
  A predicate on the state that looks neither at the registers of the endpoints nor at the state of
  the stack survives every standard request.
\<close>

locale usb_frame =
  fixes P :: "'a usb_device_scheme \<Rightarrow> bool"
  assumes read: "r \<noteq> UDR1 \<Longrightarrow> P (emit (Rd r) s) = P s"
    and wrote: "r \<noteq> UDR1 \<Longrightarrow> r \<noteq> UCSR1B \<Longrightarrow> P (emit (Wr r v) s) = P s"
    and numbered: "P (s\<lparr>USB_Device_ConfigurationNumber := x\<rparr>) = P s"
    and wakes: "P (s\<lparr>USB_Device_RemoteWakeupEnabled := w\<rparr>) = P s"
    and selves: "P (s\<lparr>USB_Device_CurrentlySelfPowered := w\<rparr>) = P s"
    and starts: "P (s\<lparr>USB_IsInitialized := w\<rparr>) = P s"
begin

lemma register_frame:
  "r \<noteq> UDR1 \<Longrightarrow> P (snd (rd env r s)) = P s"
  "r \<noteq> UDR1 \<Longrightarrow> r \<noteq> UCSR1B \<Longrightarrow> P (wr r v s) = P s"
  "r \<noteq> UDR1 \<Longrightarrow> r \<noteq> UCSR1B \<Longrightarrow> P (set_bits env r m s) = P s"
  "r \<noteq> UDR1 \<Longrightarrow> r \<noteq> UCSR1B \<Longrightarrow> P (clear_bits env r m s) = P s"
  "r \<noteq> UDR1 \<Longrightarrow> P (snd (flag_set env r m s)) = P s"
  by (simp_all add: rd_def wr_def set_bits_def clear_bits_def flag_set_def Let_def read wrote)

lemma endpoint_frame:
  "P (Endpoint_SelectEndpoint n s) = P s" "P (Endpoint_EnableEndpoint env s) = P s"
  "P (Endpoint_DisableEndpoint env s) = P s" "P (Endpoint_StallTransaction env s) = P s"
  "P (Endpoint_ClearSETUP env s) = P s" "P (Endpoint_ClearIN env s) = P s"
  "P (Endpoint_ClearOUT env s) = P s" "P (Endpoint_Write_8 d s) = P s"
  "P (snd (Endpoint_BytesInEndpoint env s)) = P s" "P (snd (Endpoint_IsConfigured env s)) = P s"
  "P (snd (Endpoint_IsINReady env s)) = P s" "P (snd (Endpoint_IsOUTReceived env s)) = P s"
  "P (snd (Endpoint_IsSETUPReceived env s)) = P s" "P (snd (Endpoint_IsStalled env s)) = P s"
  "P (snd (Endpoint_IsEnabled env s)) = P s" "P (Endpoint_ClearStall env s) = P s"
  "P (Endpoint_ResetDataToggle env s) = P s" "P (Endpoint_ResetEndpoint n s) = P s"
  "P (Endpoint_Write_16_LE w s) = P s" "P (USB_Device_SetDeviceAddress env a s) = P s"
  "P (USB_Device_EnableDeviceAddress env s) = P s" "P (snd (USB_Device_IsAddressSet env s)) = P s"
  by (simp_all add: register_frame endpoint_defs Endpoint_IsEnabled_def Endpoint_ClearStall_def
      Endpoint_ResetDataToggle_def Endpoint_ResetEndpoint_def Endpoint_Write_16_LE_def Let_def split_def
      USB_Device_SetDeviceAddress_def USB_Device_EnableDeviceAddress_def USB_Device_IsAddressSet_def)

lemmas frames = register_frame endpoint_frame numbered wakes selves starts

lemma wait_set_frame:
  "wait_set env r m s = Some s' \<Longrightarrow> r \<noteq> UDR1 \<Longrightarrow> P s' = P s"
  by (induction rule: wait_set.raw_induct [rotated, consumes 1]) (auto simp: frames split: if_splits)

lemma wait_out_frame: "wait_out_or_detach env s = Some x \<Longrightarrow> P (snd x) = P s"
  by (induction rule: wait_out_or_detach.raw_induct [rotated, consumes 1])
    (auto simp: frames Let_def split_def split: if_splits)

lemma wait_in_frame: "wait_in_or_detach env s = Some x \<Longrightarrow> P (snd x) = P s"
  by (induction rule: wait_in_or_detach.raw_induct [rotated, consumes 1])
    (auto simp: frames Let_def split_def split: if_splits)

lemma control_out_frame: "control_out_wait env s = Some x \<Longrightarrow> P (snd x) = P s"
  by (induction rule: control_out_wait.raw_induct [rotated, consumes 1])
    (auto simp: frames Let_def split_def split: if_splits)

lemma fill_bank_frame: "fill_bank d n f s = Some x \<Longrightarrow> P (snd x) = P s"
  by (induction d n f s rule: fill_bank.induct) (auto simp: frames split: if_splits list.splits)

lemma write_control_frame: "write_control_loop env d n f s = Some x \<Longrightarrow> P (snd x) = P s"
proof (induction rule: write_control_loop.raw_induct [rotated, consumes 1])
  case (1 loop env d n f s x)
  show ?case
    using 1(2)
    by (auto simp: frames Let_def split_def bind_eq_Some_conv split: if_splits dest!: fill_bank_frame 1(1))
qed

lemma status_stage_frame: "Endpoint_ClearStatusStage env s = Some s' \<Longrightarrow> P s' = P s"
  unfolding Endpoint_ClearStatusStage_def
  by (auto simp: frames bind_eq_Some_conv split: if_splits dest!: wait_out_frame wait_in_frame)

lemma control_stream_frame:
  assumes "Endpoint_Write_Control_Stream_LE env d n s = Some x"
  shows "P (snd x) = P s"
proof -
  have rest: "P (snd y) = P s1"
    if "Option.bind (write_control_loop env d k False s1)
      (\<lambda>(r, s). case r of Some e \<Rightarrow> Some (e, s) | None \<Rightarrow> control_out_wait env s) = Some y" for k s1 y
    using that by (auto simp: bind_eq_Some_conv split: option.splits dest!: write_control_frame control_out_frame)
  show ?thesis
    using assms unfolding Endpoint_Write_Control_Stream_LE_def Let_def
    by (auto simp: frames split: if_splits dest!: rest)
qed

lemma configure_frame: "P (snd (ep_configure_from env n c0 c1 k e s)) = P s"
proof (induction k arbitrary: e s)
  case (Suc k)
  then show ?case by (auto simp: Let_def split_def frames)
qed (simp add: frames)

lemma endpoint_configured_frame:
  "Endpoint_ConfigureEndpoint env a t sz k s = Some x \<Longrightarrow> P (snd x) = P s"
  by (auto simp: Endpoint_ConfigureEndpoint_def Endpoint_ConfigureEndpoint_Prv_def configure_frame Let_def
      bind_eq_Some_conv split: if_splits)

lemma configuration_changed_frame:
  "EVENT_USB_Device_ConfigurationChanged env s = Some s' \<Longrightarrow> P s' = P s"
  by (auto simp: EVENT_USB_Device_ConfigurationChanged_def bind_eq_Some_conv dest!: endpoint_configured_frame)

lemma serial_frame: "P (snd (serial_digits env n i a s)) = P s"
  by (induction n arbitrary: i a s) (simp_all add: frames Let_def split_def)

lemmas stage_frames = status_stage_frame control_stream_frame configuration_changed_frame

lemma standard_request_frame:
  assumes "standard_request env s = Some s'"
  shows "P s' = P s"
proof -
  have "P s' = P s" if "USB_Device_GetStatus env s = Some s'"
    using that by (auto simp: USB_Device_GetStatus_def Let_def split_def frames split: if_splits dest!: stage_frames)
  moreover have "P s' = P s" if "USB_Device_ClearSetFeature env s = Some s'"
    using that by (auto simp: USB_Device_ClearSetFeature_def Let_def split_def frames split: if_splits dest!: stage_frames)
  moreover have "P s' = P s" if "USB_Device_SetAddress env s = Some s'"
    using that by (auto simp: USB_Device_SetAddress_def Let_def bind_eq_Some_conv frames
        dest!: stage_frames wait_set_frame)
  moreover have "P s' = P s" if "USB_Device_GetConfiguration env s = Some s'"
    using that by (auto simp: USB_Device_GetConfiguration_def Let_def frames dest!: stage_frames)
  moreover have "P s' = P s" if "USB_Device_SetConfiguration env s = Some s'"
    using that by (auto simp: USB_Device_SetConfiguration_def Let_def split_def bind_eq_Some_conv frames
        split: if_splits dest!: stage_frames)
  moreover have "P s' = P s" if "USB_Device_GetDescriptor env s = Some s'"
    using that by (auto simp: USB_Device_GetDescriptor_def USB_Device_GetInternalSerialDescriptor_def
        USB_Device_GetSerialString_def Let_def split_def bind_eq_Some_conv frames serial_frame
        split: if_splits prod.splits dest!: stage_frames)
  ultimately show ?thesis
    using assms unfolding standard_request_def Let_def by (auto split: if_splits)
qed

end

end
