(* ===== verification/UsbBus.thy ===== *)
theory UsbBus
  imports Lucax
begin

text \<open>
  The endpoints of the USB controller during one request of the host that carries data to the device
  (the data sheet of the ATmega32U4, chapter 22, and the USB specification): which endpoint is
  selected, how far the control transfer is, what lies in the banks, which packets went to the host and
  which were taken from it. All of it is computed from the firmware's accesses to the registers;
  \<open>usb_request\<close> says which flags and bytes the registers then show. Endpoint 0 is the control
  endpoint, 1 the OUT endpoint and 2 the IN endpoint of the programmer, with one bank of 64 bytes each.
\<close>

subsection \<open>The controller\<close>

datatype stage = Setup_Stage | Data_Stage | Status_Stage | Complete

record controller =
  selected :: u8
  ctrl_stage :: stage
  ctrl_taken :: nat
  in_bank :: "u8 list"
  in_sent :: "u8 list list"
  out_taken :: nat
  out_freed :: nat

text \<open>At the start of a request the control endpoint is selected and holds the SETUP packet.\<close>

definition controller0 :: controller where
  "controller0 = \<lparr>selected = 0, ctrl_stage = Setup_Stage, ctrl_taken = 0, in_bank = [], in_sent = [],
     out_taken = 0, out_freed = 0\<rparr>"

definition flag :: "env \<Rightarrow> u8 \<Rightarrow> io list \<Rightarrow> bool" where
  "flag env m tr \<longleftrightarrow> env tr UEINTX AND m \<noteq> 0"

text \<open>
  A write to the flags acts by the bits it clears, if they are set: the control endpoint goes on to
  the next stage, the OUT endpoint frees its bank for the next packet, the IN endpoint gives its bank to the
  host. A byte written to an IN bank that is not free is lost.
\<close>

fun controller_step :: "env \<Rightarrow> controller \<Rightarrow> io list \<times> io \<Rightarrow> controller" where
  "controller_step env c (tr, Wr r v) =
     (if r = UENUM then c\<lparr>selected := v\<rparr>
      else if r = UEDATX then
        (if selected c = 2 \<and> flag env TXINI tr then c\<lparr>in_bank := in_bank c @ [v]\<rparr> else c)
      else if r = UEINTX then
        (if selected c = 0 then
           (case ctrl_stage c of
              Setup_Stage \<Rightarrow> if flag env RXSTPI tr \<and> v AND RXSTPI = 0 then c\<lparr>ctrl_stage := Data_Stage\<rparr> else c
            | Data_Stage \<Rightarrow> if flag env RXOUTI tr \<and> v AND RXOUTI = 0 then c\<lparr>ctrl_stage := Status_Stage\<rparr> else c
            | Status_Stage \<Rightarrow> if flag env TXINI tr \<and> v AND TXINI = 0 then c\<lparr>ctrl_stage := Complete\<rparr> else c
            | Complete \<Rightarrow> c)
         else if selected c = 1 then
           (if flag env RXOUTI tr \<and> v AND (RXOUTI OR FIFOCON) = 0
            then c\<lparr>out_taken := 0, out_freed := Suc (out_freed c)\<rparr> else c)
         else if selected c = 2 then
           (if flag env TXINI tr \<and> v AND (TXINI OR FIFOCON) = 0
            then c\<lparr>in_bank := [], in_sent := in_sent c @ [in_bank c]\<rparr> else c)
         else c)
      else c)"
| "controller_step env c (tr, Rd r) =
     (if r = UEDATX then
        (if selected c = 0 then c\<lparr>ctrl_taken := Suc (ctrl_taken c)\<rparr>
         else if selected c = 1 then c\<lparr>out_taken := Suc (out_taken c)\<rparr> else c)
      else c)"
| "controller_step env c (tr, e) = c"

text \<open>\<open>bus env h c tr\<close>: after \<open>tr\<close>, which begins with the history \<open>h\<close>, the controller is in state \<open>c\<close>.\<close>

definition bus :: "env \<Rightarrow> usb_history \<Rightarrow> controller \<Rightarrow> io list \<Rightarrow> bool" where
  "bus env h c tr \<longleftrightarrow> take (length h) (usb_events [] tr) = h
     \<and> foldl (controller_step env) controller0 (drop (length h) (usb_events [] tr)) = c"

subsection \<open>What the registers show\<close>

text \<open>
  \<open>comes_up env m n tr\<close>: \<open>n\<close> looks at the flags are enough to see the flag, whatever else is done
  between them that does not concern the endpoints. \<open>stays env m tr\<close>: a flag that is set stays set until
  the flags are written or another endpoint is selected.
\<close>

definition comes_up :: "env \<Rightarrow> u8 \<Rightarrow> nat \<Rightarrow> io list \<Rightarrow> bool" where
  "comes_up env m n tr \<longleftrightarrow>
     (\<forall>es. (\<forall>e \<in> set es. \<not> usb_event e) \<longrightarrow> n \<le> reads UEINTX es \<longrightarrow> flag env m (tr @ es))"

definition stays :: "env \<Rightarrow> u8 \<Rightarrow> io list \<Rightarrow> bool" where
  "stays env m tr \<longleftrightarrow> (flag env m tr \<longrightarrow>
     (\<forall>e. (\<forall>v. e \<noteq> Wr UENUM v \<and> e \<noteq> Wr UEINTX v) \<longrightarrow> flag env m (tr @ [e])))"

text \<open>
  The control endpoint: the SETUP flag until it is cleared, then the host's packet \<open>dat\<close> of the data stage,
  sooner or later, and a free bank for the packet of the status stage.
\<close>

definition control_endpoint :: "env \<Rightarrow> u8 list \<Rightarrow> controller \<Rightarrow> io list \<Rightarrow> bool" where
  "control_endpoint env dat c tr \<longleftrightarrow>
     (ctrl_stage c = Setup_Stage \<longrightarrow> flag env RXSTPI tr)
   \<and> (ctrl_stage c = Data_Stage \<longrightarrow> (\<exists>n. comes_up env RXOUTI n tr) \<and> stays env RXOUTI tr
        \<and> (flag env RXOUTI tr \<longrightarrow> ctrl_taken c < length dat \<longrightarrow> env tr UEDATX = dat ! ctrl_taken c))
   \<and> (ctrl_stage c = Status_Stage \<longrightarrow> (\<exists>n. comes_up env TXINI n tr) \<and> stays env TXINI tr)"

text \<open>
  The IN endpoint: its bank is free at the start of the request and again at the latest after 30000 looks
  (the host fetches each packet in that time), and a free bank takes bytes up to its size.
\<close>

definition in_endpoint :: "env \<Rightarrow> controller \<Rightarrow> io list \<Rightarrow> bool" where
  "in_endpoint env c tr \<longleftrightarrow> env tr UECFG0X AND EPDIR \<noteq> 0
     \<and> comes_up env TXINI 30000 tr \<and> stays env TXINI tr \<and> (in_sent c = [] \<longrightarrow> flag env TXINI tr)
     \<and> (flag env TXINI tr \<longrightarrow> (flag env RWAL tr \<longleftrightarrow> length (in_bank c) < 64))"

text \<open>
  The OUT endpoint: the host's packets \<open>outs\<close> one after the other, each at the latest after 65535 looks,
  and of a packet its bytes in order until none is left.
\<close>

definition out_endpoint :: "env \<Rightarrow> u8 list list \<Rightarrow> controller \<Rightarrow> io list \<Rightarrow> bool" where
  "out_endpoint env outs c tr \<longleftrightarrow> env tr UECFG0X AND EPDIR = 0
     \<and> (out_freed c < length outs \<longrightarrow> comes_up env RXOUTI 0xFFFF tr \<and> stays env RXOUTI tr
        \<and> (flag env RXOUTI tr \<longrightarrow> (flag env RWAL tr \<longleftrightarrow> out_taken c < length (outs ! out_freed c))
             \<and> (out_taken c < length (outs ! out_freed c) \<longrightarrow> env tr UEDATX = outs ! out_freed c ! out_taken c)))"

text \<open>
  A request of the host after the history \<open>h\<close>, on a device that stays attached, with the packet \<open>dat\<close> in
  its data stage and the packets \<open>outs\<close> for the OUT endpoint.
\<close>

definition usb_request :: "env \<Rightarrow> usb_history \<Rightarrow> u8 list \<Rightarrow> u8 list list \<Rightarrow> bool" where
  "usb_request env h dat outs \<longleftrightarrow> (\<forall>tr c. bus env h c tr \<longrightarrow>
     env tr USB_STATE \<noteq> DEVICE_STATE_Unattached
     \<and> (selected c = 0 \<longrightarrow> control_endpoint env dat c tr)
     \<and> (selected c = 1 \<longrightarrow> out_endpoint env outs c tr)
     \<and> (selected c = 2 \<longrightarrow> in_endpoint env c tr))"

text \<open>The host's and the firmware's way to cut a stream of bytes into packets.\<close>

function chunks :: "nat \<Rightarrow> 'a list \<Rightarrow> 'a list list" where
  "chunks k xs = (if xs = [] then [] else if k = 0 then [xs] else take k xs # chunks k (drop k xs))"
  by pat_completeness auto
termination by (relation "measure (\<lambda>(_, xs). length xs)") auto

declare chunks.simps [simp del]

lemma chunks_Nil [simp]: "chunks k [] = []"
  by (simp add: chunks.simps)

lemma chunks_cut: "0 < k \<Longrightarrow> xs \<noteq> [] \<Longrightarrow> chunks k xs = take k xs # chunks k (drop k xs)"
  by (subst chunks.simps) simp

lemma concat_chunks [simp]: "concat (chunks k xs) = xs"
  by (induction k xs rule: chunks.induct) (subst chunks.simps, simp)

lemma chunks_size: "0 < k \<Longrightarrow> p \<in> set (chunks k xs) \<Longrightarrow> p \<noteq> [] \<and> length p \<le> k"
proof (induction k xs rule: chunks.induct)
  case (1 k xs)
  then show ?case by (cases "xs = []") (auto simp: chunks_cut)
qed

subsection \<open>The state of the controller under the accesses\<close>

lemma usb_event_emit: "usb_events [] (trace (emit e s)) = usb_events [] (trace s) @ (if usb_event e then [(trace s, e)] else [])"
  using ep_emit [of e s] by (simp add: ep_def)

lemma bus_le: "bus env h c tr \<Longrightarrow> length h \<le> length (usb_events [] tr)"
  unfolding bus_def by (metis length_take min.cobounded1)

lemma bus_event: "usb_event e \<Longrightarrow> bus env h c tr \<Longrightarrow> bus env h (controller_step env c (tr, e)) (tr @ [e])"
  using bus_le [of env h c tr] by (auto simp: bus_def usb_events_append)

lemma bus_silent: "\<not> usb_event e \<Longrightarrow> bus env h c tr \<Longrightarrow> bus env h c (tr @ [e])"
  by (simp add: bus_def usb_events_append)

lemma bus_keep: "ep s' = ep s \<Longrightarrow> bus env h c (trace s) \<Longrightarrow> bus env h c (trace s')"
  by (simp add: bus_def ep_def)

lemma bus_start: "bus env (ep s) controller0 (trace s)"
  by (simp add: bus_def ep_def)

lemma controller_silent: "\<not> usb_event e \<Longrightarrow> controller_step env c (tr, e) = c"
  by (cases e) simp_all

subsection \<open>Looking at registers\<close>

text \<open>\<open>keeps s s'\<close>: nothing but the endpoints was touched. \<open>looks s s'\<close>: registers were only looked at.\<close>

definition keeps :: "'a hw_scheme \<Rightarrow> 'a hw_scheme \<Rightarrow> bool" where
  "keeps s s' \<longleftrightarrow> tx s' = tx s \<and> rx_count s' = rx_count s \<and> writes UCSR1B (trace s') = writes UCSR1B (trace s)
     \<and> hw.more s' = hw.more s"

definition looks :: "'a hw_scheme \<Rightarrow> 'a hw_scheme \<Rightarrow> bool" where
  "looks s s' \<longleftrightarrow> hw.more s' = hw.more s
     \<and> (\<exists>rs. trace s' = trace s @ map Rd rs \<and> UEDATX \<notin> set rs \<and> UDR1 \<notin> set rs)"

lemma keeps_refl [simp]: "keeps s s"
  by (simp add: keeps_def)

lemma keeps_trans: "keeps s s' \<Longrightarrow> keeps s' s'' \<Longrightarrow> keeps s s''"
  by (simp add: keeps_def)

lemma looks_refl [simp]: "looks s s"
  by (simp add: looks_def)

lemma looks_trans: "looks s s' \<Longrightarrow> looks s' s'' \<Longrightarrow> looks s s''"
  unfolding looks_def by (metis (no_types, lifting) Un_iff append_assoc map_append set_append)

lemma looks_rd [simp]: "r \<noteq> UEDATX \<Longrightarrow> r \<noteq> UDR1 \<Longrightarrow> looks s (emit (Rd r) s)"
  by (auto simp: looks_def intro!: exI [of _ "[r]"])

lemma writes_map_Rd [simp]: "writes r (map Rd rs) = []" and reads_map_Rd: "r \<notin> set rs \<Longrightarrow> reads r (map Rd rs) = 0"
  by (induction rs) auto

lemma looks_keeps: "looks s s' \<Longrightarrow> keeps s s'"
  by (auto simp: looks_def keeps_def tx_def rx_count_def reads_map_Rd)

lemma looks_ep: "looks s s' \<Longrightarrow> ep s' = ep s"
  by (auto simp: looks_def ep_def usb_events_append intro!: usb_events_silent)

lemma looks_bus: "looks s s' \<Longrightarrow> bus env h c (trace s) \<Longrightarrow> bus env h c (trace s')"
  using bus_keep looks_ep by blast

text \<open>A flag that stays set whatever is looked at.\<close>

lemma looks_flag:
  assumes "\<And>s1 :: 'a hw_scheme. looks s s1 \<Longrightarrow> stays env m (trace s1)" and "flag env m (trace s)" and "looks s (s' :: 'a hw_scheme)"
  shows "flag env m (trace s')"
proof -
  have "flag env m (trace s @ map Rd rs)" if "UEDATX \<notin> set rs" "UDR1 \<notin> set rs" for rs
    using that
  proof (induction rs rule: rev_induct)
    case (snoc r rs)
    have "looks s (s\<lparr>trace := trace s @ map Rd rs\<rparr>)"
      using snoc.prems by (auto simp: looks_def)
    from assms(1) [OF this] show ?case
      using snoc by (simp add: stays_def)
  qed (simp add: assms(2))
  then show ?thesis using assms(3) by (auto simp: looks_def)
qed

lemma comes_up_0: "comes_up env m 0 tr \<Longrightarrow> flag env m tr"
  by (auto simp: comes_up_def dest: spec [of _ "[]"])

lemma comes_up_Suc: "comes_up env m (Suc n) tr \<Longrightarrow> comes_up env m n (tr @ [Rd UEINTX])"
  unfolding comes_up_def
  by (intro allI impI, drule_tac x = "Rd UEINTX # es" in spec) simp

lemma comes_up_silent: "comes_up env m n tr \<Longrightarrow> \<not> usb_event e \<Longrightarrow> comes_up env m n (tr @ [e])"
  unfolding comes_up_def
  by (intro allI impI, drule_tac x = "e # es" in spec) (cases e; auto)

lemma comes_up_mono: "comes_up env m n tr \<Longrightarrow> n \<le> k \<Longrightarrow> comes_up env m k tr"
  by (auto simp: comes_up_def)

lemma flag_rd: "(env (trace s) UEINTX AND m \<noteq> 0) = flag env m (trace s)"
  by (simp add: flag_def)

lemma flag_eqs:
  "Endpoint_IsINReady env s = (flag env TXINI (trace s), emit (Rd UEINTX) s)"
  "Endpoint_IsOUTReceived env s = (flag env RXOUTI (trace s), emit (Rd UEINTX) s)"
  "Endpoint_IsReadWriteAllowed env s = (flag env RWAL (trace s), emit (Rd UEINTX) s)"
  by (simp_all add: Endpoint_IsINReady_def Endpoint_IsOUTReceived_def
      Endpoint_IsReadWriteAllowed_def flag_set_def rd_def flag_def)

text \<open>\<open>sees env m s s'\<close>: the registers were looked at until the flag was set.\<close>

definition sees :: "env \<Rightarrow> u8 \<Rightarrow> 'a hw_scheme \<Rightarrow> 'a hw_scheme \<Rightarrow> bool" where
  "sees env m s s' \<longleftrightarrow> looks s s' \<and> flag env m (trace s')"

lemma sees_trans: "looks s s' \<Longrightarrow> sees env m s' s'' \<Longrightarrow> sees env m s s''"
  using looks_trans by (auto simp: sees_def)

lemma sees_now:
  assumes "\<And>s1 :: 'a hw_scheme. looks s s1 \<Longrightarrow> stays env m (trace s1)" and "flag env m (trace s)"
  shows "sees env m s (emit (Rd UEINTX) s :: 'a hw_scheme)"
  using looks_flag [OF assms, of "emit (Rd UEINTX) s"] by (simp add: sees_def)

subsection \<open>Waiting for a flag\<close>

text \<open>
  Every wait of the handlers ends with the flag set, if the flag comes up within its looks and then
  stays.
\<close>

lemma looks_closed:
  assumes "\<And>s1 :: 'a hw_scheme. looks s s1 \<Longrightarrow> stays env m (trace s1)" and "looks s s'" and "looks s' (s2 :: 'a hw_scheme)"
  shows "stays env m (trace s2)"
  by (rule assms(1) [OF looks_trans [OF assms(2,3)]])

lemma wait_set_up:
  fixes s :: "'a hw_scheme"
  assumes "\<And>s1 :: 'a hw_scheme. looks s s1 \<Longrightarrow> stays env m (trace s1)" and "comes_up env m n (trace s)"
  shows "wp (wait_set env UEINTX m s) (sees env m s)"
  using assms
proof (induction n arbitrary: s)
  case 0
  then have "flag env m (trace s)" by (intro comes_up_0)
  then show ?case
    using sees_now [OF "0.prems"(1)] by (subst wait_set.simps) (auto simp: rd_def flag_def)
next
  case (Suc n)
  show ?case
  proof (cases "flag env m (trace s)")
    case True
    then show ?thesis
      using sees_now [OF Suc.prems(1)] by (subst wait_set.simps) (auto simp: rd_def flag_def)
  next
    case False
    let ?s = "emit (Rd UEINTX) s"
    have "wp (wait_set env UEINTX m ?s) (sees env m ?s)"
      by (rule Suc.IH [OF looks_closed [OF Suc.prems(1) looks_rd]]) (use comes_up_Suc [OF Suc.prems(2)] in simp_all)
    then have "wp (wait_set env UEINTX m ?s) (sees env m s)"
      by (rule wp_conseq) (auto intro: sees_trans [of s ?s])
    then show ?thesis
      using False by (subst wait_set.simps) (simp add: rd_def flag_def)
  qed
qed

lemma in_ready_poll_up:
  fixes s :: "'a hw_scheme"
  assumes "\<And>s1 :: 'a hw_scheme. looks s s1 \<Longrightarrow> stays env TXINI (trace s1)" and "comes_up env TXINI n (trace s)"
  shows "sees env TXINI s (in_ready_poll env n s)"
  using assms
proof (induction n arbitrary: s)
  case 0
  then show ?case
    using sees_now [OF "0.prems"(1)] comes_up_0 by (subst in_ready_poll.simps) (simp add: flag_eqs)
next
  case (Suc n)
  let ?s = "emit (Rd UEINTX) s"
  have "sees env TXINI ?s (in_ready_poll env n ?s)"
    by (rule Suc.IH [OF looks_closed [OF Suc.prems(1) looks_rd]]) (use comes_up_Suc [OF Suc.prems(2)] in simp_all)
  then have "sees env TXINI s (in_ready_poll env n ?s)"
    by (rule sees_trans [rotated]) simp
  then show ?case
    using sees_now [OF Suc.prems(1)] by (subst in_ready_poll.simps) (auto simp: flag_eqs)
qed

lemma out_received_poll_up:
  fixes s :: "'a hw_scheme"
  assumes "\<And>s1 :: 'a hw_scheme. looks s s1 \<Longrightarrow> stays env RXOUTI (trace s1)" and "comes_up env RXOUTI n (trace s)"
  shows "fst (out_received_poll env n s) \<and> sees env RXOUTI s (snd (out_received_poll env n s))"
  using assms
proof (induction n arbitrary: s)
  case 0
  then show ?case
    using sees_now [OF "0.prems"(1)] comes_up_0 by (subst (1 2) out_received_poll.simps) (simp add: flag_eqs)
next
  case (Suc n)
  let ?s = "emit (Rd UEINTX) s"
  have "fst (out_received_poll env n ?s) \<and> sees env RXOUTI ?s (snd (out_received_poll env n ?s))"
    by (rule Suc.IH [OF looks_closed [OF Suc.prems(1) looks_rd]]) (use comes_up_Suc [OF Suc.prems(2)] in simp_all)
  then have "fst (out_received_poll env n ?s) \<and> sees env RXOUTI s (snd (out_received_poll env n ?s))"
    using sees_trans [of s ?s] by simp
  then show ?case
    using sees_now [OF Suc.prems(1)] by (subst (1 2) out_received_poll.simps) (auto simp: flag_eqs)
qed

lemma wait_in_up:
  fixes s :: "'a hw_scheme"
  assumes "\<And>s1 :: 'a hw_scheme. looks s s1 \<Longrightarrow> stays env TXINI (trace s1) \<and> env (trace s1) USB_STATE \<noteq> DEVICE_STATE_Unattached"
    and "comes_up env TXINI n (trace s)"
  shows "wp (wait_in_or_detach env s) (\<lambda>(b, s'). b \<and> sees env TXINI s s')"
  using assms
proof (induction n arbitrary: s)
  case 0
  then have "flag env TXINI (trace s)" by (intro comes_up_0)
  then show ?case
    using sees_now [of s env TXINI] "0.prems"(1) by (subst wait_in_or_detach.simps) (simp add: flag_eqs)
next
  case (Suc n)
  let ?s = "emit (Rd USB_STATE) (emit (Rd UEINTX) s)"
  have l: "looks s ?s" by (rule looks_trans [OF looks_rd looks_rd]) simp_all
  have st: "env (trace s @ [Rd UEINTX]) USB_STATE \<noteq> DEVICE_STATE_Unattached"
    using Suc.prems(1) [of "emit (Rd UEINTX) s"] by simp
  have up: "comes_up env TXINI n (trace ?s)"
    using comes_up_silent [OF comes_up_Suc [OF Suc.prems(2)], of "Rd USB_STATE"] by simp
  have "wp (wait_in_or_detach env ?s) (\<lambda>(b, s'). b \<and> sees env TXINI ?s s')"
    using Suc.prems(1) [OF looks_trans [OF l]] by (intro Suc.IH [OF _ up])
  then have "wp (wait_in_or_detach env ?s) (\<lambda>(b, s'). b \<and> sees env TXINI s s')"
    by (rule wp_conseq) (auto intro: sees_trans [OF l])
  then show ?case
    using sees_now [of s env TXINI] Suc.prems(1) st
    by (subst wait_in_or_detach.simps) (auto simp: flag_eqs rd_def)
qed

text \<open>The stack's wait finds a flag that is already set at its first look.\<close>

lemma wait_ready_sees:
  fixes s :: "'a hw_scheme"
  assumes "\<And>s1 :: 'a hw_scheme. looks s s1 \<Longrightarrow> stays env m (trace s1)" and "flag env m (trace s)"
    and "\<And>s1 :: 'a hw_scheme. looks s s1 \<Longrightarrow>
       m = (if env (trace s1) UECFG0X AND EPDIR \<noteq> 0 then TXINI else RXOUTI)"
  shows "wp (Endpoint_WaitUntilReady env s) (\<lambda>(e, s'). e = 0 \<and> sees env m s s')"
proof -
  define s1 where "s1 = emit (Rd UDFNUMH) (emit (Rd UDFNUML) s)"
  define s2 where "s2 = emit (Rd UECFG0X) s1"
  have l1: "looks s s1" unfolding s1_def by (rule looks_trans [OF looks_rd looks_rd]) simp_all
  then have l2: "looks s s2" unfolding s2_def by (rule looks_trans [OF _ looks_rd]) simp_all
  have f: "flag env m (trace s2)" by (rule looks_flag [OF assms(1,2) l2])
  have l3: "looks s (emit (Rd UEINTX) s2)" by (rule looks_trans [OF l2]) simp
  have "sees env m s (emit (Rd UEINTX) s2)"
    using l3 looks_flag [OF assms(1,2) l3] by (simp add: sees_def)
  moreover have "Endpoint_GetEndpointDirection env s1
      = (if env (trace s1) UECFG0X AND EPDIR \<noteq> 0 then ENDPOINT_DIR_IN else ENDPOINT_DIR_OUT, s2)"
    by (simp add: Endpoint_GetEndpointDirection_def flag_set_def rd_def s2_def)
  then have "wait_ready_loop env 100 p s1 = Some (0, emit (Rd UEINTX) s2)" for p
    using assms(3) [OF l1] f
    by (subst wait_ready_loop.simps)
      (auto simp: flag_eqs READYWAIT_NoError_def ENDPOINT_DIR_IN_def ENDPOINT_DIR_OUT_def split: if_splits)
  moreover obtain p where "USB_Device_GetFrameNumber env s = (p, s1)"
    by (simp add: USB_Device_GetFrameNumber_def rd_def s1_def)
  ultimately show ?thesis
    by (simp add: Endpoint_WaitUntilReady_def)
qed

subsection \<open>The operations on the endpoints\<close>

lemma keeps_ops [simp]:
  "keeps s (Endpoint_ClearSETUP env s)" "keeps s (Endpoint_ClearIN env s)" "keeps s (Endpoint_ClearOUT env s)"
  "keeps s (Endpoint_SelectEndpoint a s)" "keeps s (Endpoint_Write_8 d s)"
  by (simp_all add: keeps_def tx_def rx_count_def Endpoint_ClearSETUP_def Endpoint_ClearIN_def
      Endpoint_ClearOUT_def Endpoint_SelectEndpoint_def Endpoint_Write_8_def)

lemma cleared: "(v AND NOT m) AND m = 0" "(v AND NOT (m OR k)) AND m = 0"
  "(v AND NOT m AND NOT k) AND (m OR k) = 0" for v :: u8
  by (auto intro!: bit_word_eqI simp: bit_simps)

lemma usb_request_at:
  assumes "usb_request env h dat outs" and "bus env h c tr"
  shows "env tr USB_STATE \<noteq> DEVICE_STATE_Unattached" "selected c = 0 \<Longrightarrow> control_endpoint env dat c tr"
    "selected c = 1 \<Longrightarrow> out_endpoint env outs c tr" "selected c = 2 \<Longrightarrow> in_endpoint env c tr"
  using assms unfolding usb_request_def by blast+

text \<open>A write to the flags after the look that every read-modify-write begins with.\<close>

lemma bus_clear_bits:
  assumes "bus env h c (trace s)"
  shows "bus env h (controller_step env c (trace s @ [Rd UEINTX], Wr UEINTX (env (trace s) UEINTX AND NOT m)))
    (trace (clear_bits env UEINTX m s))"
proof -
  have "bus env h c (trace s @ [Rd UEINTX])" using assms by (intro bus_silent) simp_all
  from bus_event [OF _ this, of "Wr UEINTX (env (trace s) UEINTX AND NOT m)"] show ?thesis by simp
qed

lemma stays_rd: "stays env m tr \<Longrightarrow> flag env m tr \<Longrightarrow> flag env m (tr @ [Rd r])"
  by (simp add: stays_def)

lemma clear_setup_bus:
  assumes "usb_request env h dat outs" and "bus env h c (trace s)" and "selected c = 0" and "ctrl_stage c = Setup_Stage"
  shows "bus env h (c\<lparr>ctrl_stage := Data_Stage\<rparr>) (trace (Endpoint_ClearSETUP env s))"
proof -
  have "bus env h c (trace s @ [Rd UEINTX])" using assms(2) by (intro bus_silent) simp_all
  then have "flag env RXSTPI (trace s @ [Rd UEINTX])"
    using usb_request_at(2) [OF assms(1)] assms(3,4) by (simp add: control_endpoint_def)
  then show ?thesis
    using bus_clear_bits [OF assms(2), of RXSTPI] assms(3,4) cleared by (simp add: Endpoint_ClearSETUP_def)
qed

lemma clear_out_control_bus:
  assumes "usb_request env h dat outs" and "bus env h c (trace s)" and "selected c = 0" and "ctrl_stage c = Data_Stage"
    and "flag env RXOUTI (trace s)"
  shows "bus env h (c\<lparr>ctrl_stage := Status_Stage\<rparr>) (trace (Endpoint_ClearOUT env s))"
proof -
  have "flag env RXOUTI (trace s @ [Rd UEINTX])"
    using usb_request_at(2) [OF assms(1,2)] assms(3-5) stays_rd by (simp add: control_endpoint_def)
  then show ?thesis
    using bus_clear_bits [OF assms(2), of "RXOUTI OR FIFOCON"] assms(3,4) cleared by (simp add: Endpoint_ClearOUT_def)
qed

lemma clear_in_control_bus:
  assumes "usb_request env h dat outs" and "bus env h c (trace s)" and "selected c = 0" and "ctrl_stage c = Status_Stage"
    and "flag env TXINI (trace s)"
  shows "bus env h (c\<lparr>ctrl_stage := Complete\<rparr>) (trace (Endpoint_ClearIN env s))"
proof -
  have "flag env TXINI (trace s @ [Rd UEINTX])"
    using usb_request_at(2) [OF assms(1,2)] assms(3-5) stays_rd by (simp add: control_endpoint_def)
  then show ?thesis
    using bus_clear_bits [OF assms(2), of "TXINI OR FIFOCON"] assms(3,4) cleared by (simp add: Endpoint_ClearIN_def)
qed

lemma clear_in_bus:
  assumes "usb_request env h dat outs" and "bus env h c (trace s)" and "selected c = 2" and "flag env TXINI (trace s)"
  shows "bus env h (c\<lparr>in_bank := [], in_sent := in_sent c @ [in_bank c]\<rparr>) (trace (Endpoint_ClearIN env s))"
proof -
  have "flag env TXINI (trace s @ [Rd UEINTX])"
    using usb_request_at(4) [OF assms(1-3)] assms(4) stays_rd by (simp add: in_endpoint_def)
  then show ?thesis
    using bus_clear_bits [OF assms(2), of "TXINI OR FIFOCON"] assms(3) cleared by (simp add: Endpoint_ClearIN_def)
qed

lemma clear_out_bus:
  assumes "usb_request env h dat outs" and "bus env h c (trace s)" and "selected c = 1"
    and "out_freed c < length outs" and "flag env RXOUTI (trace s)"
  shows "bus env h (c\<lparr>out_taken := 0, out_freed := Suc (out_freed c)\<rparr>) (trace (Endpoint_ClearOUT env s))"
proof -
  have "flag env RXOUTI (trace s @ [Rd UEINTX])"
    using usb_request_at(3) [OF assms(1-3)] assms(4,5) stays_rd by (simp add: out_endpoint_def)
  then show ?thesis
    using bus_clear_bits [OF assms(2), of "RXOUTI OR FIFOCON"] assms(3) cleared by (simp add: Endpoint_ClearOUT_def)
qed

lemma select_bus:
  "bus env h c (trace s) \<Longrightarrow> bus env h (c\<lparr>selected := a AND ENDPOINT_EPNUM_MASK\<rparr>) (trace (Endpoint_SelectEndpoint a s))"
  using bus_event [of "Wr UENUM (a AND ENDPOINT_EPNUM_MASK)" env h c "trace s"]
  by (simp add: Endpoint_SelectEndpoint_def)

text \<open>Registers that are looked at leave the flags of the control endpoint up.\<close>

lemma control_stays:
  assumes "usb_request env h dat outs" and "bus env h c (trace s)" and "selected c = 0" and "looks s s1"
  shows "ctrl_stage c = Data_Stage \<Longrightarrow> stays env RXOUTI (trace s1)"
    and "ctrl_stage c = Status_Stage \<Longrightarrow> stays env TXINI (trace s1)"
    and "env (trace s1) USB_STATE \<noteq> DEVICE_STATE_Unattached"
  using usb_request_at [OF assms(1) looks_bus [OF assms(4,2)]] assms(3) by (simp_all add: control_endpoint_def)

lemma in_stays:
  assumes "usb_request env h dat outs" and "bus env h c (trace s)" and "selected c = 2" and "looks s s1"
  shows "stays env TXINI (trace s1)" "env (trace s1) UECFG0X AND EPDIR \<noteq> 0"
  using usb_request_at(4) [OF assms(1) looks_bus [OF assms(4,2)] assms(3)] by (simp_all add: in_endpoint_def)

lemma out_stays:
  assumes "usb_request env h dat outs" and "bus env h c (trace s)" and "selected c = 1" and "out_freed c < length outs"
    and "looks s s1"
  shows "stays env RXOUTI (trace s1)" "env (trace s1) UECFG0X AND EPDIR = 0"
  using usb_request_at(3) [OF assms(1) looks_bus [OF assms(5,2)] assms(3)] assms(4) by (simp_all add: out_endpoint_def)

subsection \<open>The control transfer\<close>

lemma keepsI: "looks s s' \<Longrightarrow> keeps s' s'' \<Longrightarrow> keeps s s''"
  using looks_keeps keeps_trans by blast

lemma control_byte:
  assumes "usb_request env h dat outs" and "bus env h c (trace s)" and "selected c = 0" and "ctrl_stage c = Data_Stage"
    and "flag env RXOUTI (trace s)" and "ctrl_taken c < length dat"
  shows "rd env UEDATX s = (dat ! ctrl_taken c, emit (Rd UEDATX) s)"
    and "bus env h (c\<lparr>ctrl_taken := Suc (ctrl_taken c)\<rparr>) (trace (emit (Rd UEDATX) s))"
    and "flag env RXOUTI (trace (emit (Rd UEDATX) s))"
proof -
  have e: "control_endpoint env dat c (trace s)" by (rule usb_request_at(2) [OF assms(1-3)])
  then show "rd env UEDATX s = (dat ! ctrl_taken c, emit (Rd UEDATX) s)"
    using assms(4-6) by (simp add: rd_def control_endpoint_def)
  show "bus env h (c\<lparr>ctrl_taken := Suc (ctrl_taken c)\<rparr>) (trace (emit (Rd UEDATX) s))"
    using bus_event [OF _ assms(2), of "Rd UEDATX"] assms(3) by simp
  show "flag env RXOUTI (trace (emit (Rd UEDATX) s))"
    using e assms(4,5) stays_rd by (simp add: control_endpoint_def)
qed

lemma keeps_rd_data [simp]: "keeps s (emit (Rd UEDATX) s)"
  by (simp add: keeps_def tx_def rx_count_def)

lemma read_32_bus:
  assumes "usb_request env h dat outs" and "bus env h c (trace s)" and "selected c = 0" and "ctrl_stage c = Data_Stage"
    and "flag env RXOUTI (trace s)" and "ctrl_taken c = 0" and "length dat = 4"
  shows "\<exists>s'. Endpoint_Read_32_LE env s = (of_le dat, s') \<and> keeps s s'
    \<and> bus env h (c\<lparr>ctrl_taken := 4\<rparr>) (trace s') \<and> flag env RXOUTI (trace s')"
proof -
  let ?e = "emit (Rd UEDATX)" and ?c = "\<lambda>n. c\<lparr>ctrl_taken := n\<rparr>"
  have c0: "bus env h (?c 0) (trace s)" using assms(2,6) by (cases c) simp
  have b: "rd env UEDATX t = (dat ! n, ?e t) \<and> bus env h (?c m) (trace (?e t)) \<and> flag env RXOUTI (trace (?e t))"
    if "bus env h (?c n) (trace t)" "flag env RXOUTI (trace t)" "n < 4" "m = Suc n" for t :: "'a hw_scheme" and n m
    using control_byte [OF assms(1) that(1) _ _ that(2)] assms(3,4,7) that(3,4) by simp
  let ?s1 = "?e s" and ?s2 = "?e (?e s)" and ?s3 = "?e (?e (?e s))" and ?s4 = "?e (?e (?e (?e s)))"
  have b0: "rd env UEDATX s = (dat ! 0, ?s1) \<and> bus env h (?c 1) (trace ?s1) \<and> flag env RXOUTI (trace ?s1)"
    by (rule b [OF c0 assms(5)]) simp_all
  have b1: "rd env UEDATX ?s1 = (dat ! 1, ?s2) \<and> bus env h (?c 2) (trace ?s2) \<and> flag env RXOUTI (trace ?s2)"
    by (rule b [OF b0 [THEN conjunct2, THEN conjunct1] b0 [THEN conjunct2, THEN conjunct2]]) simp_all
  have b2: "rd env UEDATX ?s2 = (dat ! 2, ?s3) \<and> bus env h (?c 3) (trace ?s3) \<and> flag env RXOUTI (trace ?s3)"
    by (rule b [OF b1 [THEN conjunct2, THEN conjunct1] b1 [THEN conjunct2, THEN conjunct2]]) simp_all
  have b3: "rd env UEDATX ?s3 = (dat ! 3, ?s4) \<and> bus env h (?c 4) (trace ?s4) \<and> flag env RXOUTI (trace ?s4)"
    by (rule b [OF b2 [THEN conjunct2, THEN conjunct1] b2 [THEN conjunct2, THEN conjunct2]]) simp_all
  have dat: "[dat ! 0, dat ! 1, dat ! 2, dat ! 3] = dat"
    using assms(7) by (auto simp: numeral_eq_Suc length_Suc_conv)
  have "Endpoint_Read_32_LE env s = (of_le [dat ! 0, dat ! 1, dat ! 2, dat ! 3], ?s4)"
    unfolding Endpoint_Read_32_LE_def Let_def b0 [THEN conjunct1] b1 [THEN conjunct1] b2 [THEN conjunct1]
      b3 [THEN conjunct1] prod.case ..
  then have "Endpoint_Read_32_LE env s = (of_le dat, ?s4)"
    by (simp only: dat)
  moreover have "keeps s ?s4"
    by (simp add: keeps_def tx_def rx_count_def)
  ultimately show ?thesis
    using b3 by blast
qed

lemma receive_address_bus:
  assumes "usb_request env h dat outs" and "bus env h c (trace s)" and "selected c = 0" and "ctrl_stage c = Setup_Stage"
    and "ctrl_taken c = 0" and "length dat = 4"
  shows "wp (receive_address env s) (\<lambda>(a, s'). a = of_le dat \<and> keeps s s'
    \<and> bus env h (c\<lparr>ctrl_taken := 4, ctrl_stage := Status_Stage\<rparr>) (trace s'))"
proof -
  let ?s = "Endpoint_ClearSETUP env s" and ?c = "c\<lparr>ctrl_stage := Data_Stage\<rparr>"
  have bs: "bus env h ?c (trace ?s)" by (rule clear_setup_bus [OF assms(1-4)])
  from usb_request_at(2) [OF assms(1) bs] assms(3) obtain n where n: "comes_up env RXOUTI n (trace ?s)"
    by (auto simp: control_endpoint_def)
  have "wp (wait_set env UEINTX RXOUTI ?s) (sees env RXOUTI ?s)"
    using control_stays(1) [OF assms(1) bs] assms(3) by (intro wait_set_up [OF _ n]) simp
  then show ?thesis
    unfolding receive_address_def Let_def
  proof (rule wp_bind_conseq)
    fix s2 assume "sees env RXOUTI ?s s2"
    then have l: "looks ?s s2" and f: "flag env RXOUTI (trace s2)" by (simp_all add: sees_def)
    have b2: "bus env h ?c (trace s2)" by (rule looks_bus [OF l bs])
    from read_32_bus [OF assms(1) b2 _ _ f] assms(3-6) obtain s3 where r: "Endpoint_Read_32_LE env s2 = (of_le dat, s3)"
      and k: "keeps s2 s3" and b3: "bus env h (?c\<lparr>ctrl_taken := 4\<rparr>) (trace s3)" and f3: "flag env RXOUTI (trace s3)"
      by auto
    have "bus env h (c\<lparr>ctrl_taken := 4, ctrl_stage := Status_Stage\<rparr>) (trace (Endpoint_ClearOUT env s3))"
      using clear_out_control_bus [OF assms(1) b3 _ _ f3] assms(3) by simp
    moreover have "keeps s (Endpoint_ClearOUT env s3)"
      using keeps_trans [OF keeps_ops(1) keepsI [OF l keeps_trans [OF k keeps_ops(3)]]] .
    ultimately show "wp (case Endpoint_Read_32_LE env s2 of (address, s) \<Rightarrow> Some (address, Endpoint_ClearOUT env s))
        (\<lambda>(a, s'). a = of_le dat \<and> keeps s s' \<and> bus env h (c\<lparr>ctrl_taken := 4, ctrl_stage := Status_Stage\<rparr>) (trace s'))"
      by (simp add: r)
  qed
qed

lemma status_stage_bus:
  assumes "usb_request env h dat outs" and "bus env h c (trace s)" and "selected c = 0" and "ctrl_stage c = Status_Stage"
    and "bmRequestType (USB_ControlRequest s) AND REQDIR_DEVICETOHOST = 0"
  shows "wp (Endpoint_ClearStatusStage env s) (\<lambda>s'. keeps s s' \<and> bus env h (c\<lparr>ctrl_stage := Complete\<rparr>) (trace s'))"
proof -
  from usb_request_at(2) [OF assms(1-3)] assms(4) obtain n where n: "comes_up env TXINI n (trace s)"
    by (auto simp: control_endpoint_def)
  have "wp (wait_in_or_detach env s) (\<lambda>(b, s'). b \<and> sees env TXINI s s')"
    using control_stays(2,3) [OF assms(1-3)] assms(4) by (intro wait_in_up [OF _ n]) simp
  moreover have "keeps s (Endpoint_ClearIN env s1) \<and> bus env h (c\<lparr>ctrl_stage := Complete\<rparr>) (trace (Endpoint_ClearIN env s1))"
    if "sees env TXINI s s1" for s1
    using that clear_in_control_bus [OF assms(1) looks_bus [OF _ assms(2)] assms(3,4)]
    by (simp add: sees_def keepsI [OF _ keeps_ops(2)])
  ultimately show ?thesis
    using assms(5) unfolding Endpoint_ClearStatusStage_def
    by (auto elim!: wp_conseq)
qed

subsection \<open>Streams to the host\<close>

lemma write_data_bus:
  assumes "usb_request env h dat outs" and "bus env h c (trace s)" and "selected c = 2" and "flag env TXINI (trace s)"
  shows "bus env h (c\<lparr>in_bank := in_bank c @ [d]\<rparr>) (trace (Endpoint_Write_8 d s))"
    and "flag env TXINI (trace (Endpoint_Write_8 d s))"
  using bus_event [OF _ assms(2), of "Wr UEDATX d"] usb_request_at(4) [OF assms(1-3)] assms(3,4)
  by (simp_all add: Endpoint_Write_8_def in_endpoint_def stays_def)

lemma more_lucax:
  assumes "hw.more s' = hw.more s"
  shows "buffer s' = buffer s \<and> last_op s' = last_op s \<and> USB_ControlRequest s' = USB_ControlRequest s
    \<and> pdi_on s' = pdi_on s \<and> char_us s' = char_us s \<and> ustate s' = ustate s"
  using assms by (cases s; cases s') simp

lemma keeps_buffer: "keeps s s' \<Longrightarrow> buffer s' = buffer s"
  using more_lucax by (auto simp: keeps_def)

text \<open>\<open>filled\<close>: the bytes \<open>bs\<close> were put into the bank of the IN endpoint, which is still the firmware's.\<close>

definition filled :: "env \<Rightarrow> usb_history \<Rightarrow> controller \<Rightarrow> u8 list \<Rightarrow> 'a hw_scheme \<Rightarrow> 'a hw_scheme \<Rightarrow> bool" where
  "filled env h c bs s s' \<longleftrightarrow> keeps s s' \<and> bus env h (c\<lparr>in_bank := in_bank c @ bs\<rparr>) (trace s') \<and> flag env TXINI (trace s')"

lemma write_stream_loop_bus:
  fixes s :: "'a lucax_scheme"
  assumes "usb_request env h dat outs"
  shows "bus env h c (trace s) \<Longrightarrow> selected c = 2 \<Longrightarrow> flag env TXINI (trace s) \<Longrightarrow>
    off + unat len \<le> length (buffer s) \<Longrightarrow> length (in_bank c) + unat len \<le> 64 \<Longrightarrow>
    wp (write_stream_loop env task None off len m s) (\<lambda>(r, s'). filled env h c (take (unat len) (drop off (buffer s))) s s')"
proof (induction "unat len" arbitrary: len off m s c)
  case 0
  then have "len = 0" by (simp add: unat_eq_zero)
  moreover have "c\<lparr>in_bank := in_bank c\<rparr> = c" by simp
  ultimately show ?case using 0 by (subst write_stream_loop.simps) (simp add: filled_def)
next
  case (Suc n)
  then have len: "len \<noteq> 0" by auto
  with Suc.hyps(2) have n: "unat (len - 1) = n" by (simp add: unat_minus_one)
  have off: "off < length (buffer s)" using Suc by simp
  let ?e = "emit (Rd UEINTX) s" and ?d = "buffer s ! off"
  let ?s = "Endpoint_Write_8 ?d ?e" and ?c = "c\<lparr>in_bank := in_bank c @ [?d]\<rparr>"
  have allowed: "flag env RWAL (trace s)"
    using usb_request_at(4) [OF assms Suc.prems(1,2)] Suc.prems(3,5) Suc.hyps(2) by (simp add: in_endpoint_def)
  have be: "bus env h c (trace ?e)" using Suc.prems(1) by (intro looks_bus [OF looks_rd]) simp_all
  have "flag env TXINI (trace ?e)"
    using usb_request_at(4) [OF assms Suc.prems(1,2)] Suc.prems(3) stays_rd by (simp add: in_endpoint_def)
  note w = write_data_bus [OF assms be Suc.prems(2) this, of ?d]
  have k: "keeps s ?s" by (rule keepsI [OF looks_rd keeps_ops(5)]) simp_all
  have b: "buffer ?s = buffer s" "buffer ?e = buffer s" using keeps_buffer [OF k] by (simp_all add: emit_def)
  have "wp (write_stream_loop env task None (Suc off) (len - 1) (m + 1) ?s)
     (\<lambda>(r, s'). filled env h ?c (take (unat (len - 1)) (drop (Suc off) (buffer ?s))) ?s s')"
    by (rule Suc.hyps(1) [OF n [symmetric] w(1) _ w(2)]) (use Suc.prems Suc.hyps(2) n b in simp_all)
  moreover have "take (Suc n) (drop off (buffer s)) = ?d # take n (drop (Suc off) (buffer s))"
    using off by (metis Cons_nth_drop_Suc take_Suc_Cons)
  ultimately have "wp (write_stream_loop env task None (Suc off) (len - 1) (m + 1) ?s)
     (\<lambda>(r, s'). filled env h c (take (Suc n) (drop off (buffer s))) s s')"
    using keeps_trans [OF k] n b by (auto simp: filled_def elim!: wp_conseq)
  then show ?case
    using len off Suc.hyps(2) b allowed by (subst write_stream_loop.simps) (simp add: flag_eqs)
qed

lemma write_stream_bus:
  fixes s :: "'a lucax_scheme"
  assumes "usb_request env h dat outs" and "bus env h c (trace s)" and "selected c = 2" and "flag env TXINI (trace s)"
    and "off + unat len \<le> length (buffer s)" and "length (in_bank c) + unat len \<le> 64"
  shows "wp (Endpoint_Write_Stream_LE env task off len None s)
     (\<lambda>(r, s'). filled env h c (take (unat len) (drop off (buffer s))) s s')"
proof -
  have "wp (Endpoint_WaitUntilReady env s) (\<lambda>(e, s'). e = 0 \<and> sees env TXINI s s')"
    using in_stays [OF assms(1-3)] by (intro wait_ready_sees [OF _ assms(4)]) simp_all
  then show ?thesis
    unfolding Endpoint_Write_Stream_LE_def
  proof (rule wp_bind_conseq)
    fix es :: "u8 \<times> 'a lucax_scheme" assume es: "case es of (e, s') \<Rightarrow> e = 0 \<and> sees env TXINI s s'"
    then obtain s1 where "es = (0, s1)" and l: "looks s s1" and f: "flag env TXINI (trace s1)"
      by (cases es) (auto simp: sees_def)
    moreover have "wp (write_stream_loop env task None off len 0 s1)
        (\<lambda>(r, s'). filled env h c (take (unat len) (drop off (buffer s))) s s')"
      using write_stream_loop_bus [OF assms(1) looks_bus [OF l assms(2)] assms(3) f _ assms(6), of off task 0] assms(5)
        keeps_buffer [OF looks_keeps [OF l]] keepsI [OF l]
      by (auto simp: filled_def elim!: wp_conseq)
    ultimately show "wp (case es of (e, s) \<Rightarrow> if e \<noteq> 0 then Some ((e, None), s)
        else (case None of None \<Rightarrow> write_stream_loop env task None off len 0 s
          | Some p \<Rightarrow> write_stream_loop env task None (off + unat p) (len - p) 0 s))
        (\<lambda>(r, s'). filled env h c (take (unat len) (drop off (buffer s))) s s')"
      by simp
  qed
qed

lemma unat_sub_le: "(b :: u16) \<le> a \<Longrightarrow> unat (a - b) = unat a - unat b"
  by (simp add: unat_sub word_le_nat_alt)

lemma chunks_take:
  assumes "p = min 64 n" and "0 < n" and "off + n \<le> length xs"
  shows "chunks 64 (take n (drop off xs)) = take p (drop off xs) # chunks 64 (take (n - p) (drop (off + p) xs))"
proof -
  have "take n (drop off xs) \<noteq> []" using assms(2,3) by simp
  moreover have "take 64 (take n (drop off xs)) = take p (drop off xs)" using assms(1) by simp
  moreover have "drop 64 (take n (drop off xs)) = take (n - p) (drop (off + p) xs)"
    using assms(1) by (cases "n \<le> 64") (auto simp: drop_take add.commute)
  ultimately show ?thesis by (simp add: chunks_cut)
qed

text \<open>A block goes to the host in packets of 64 bytes, a last one with the rest.\<close>

lemma send_packets_bus:
  fixes s :: "'a lucax_scheme"
  assumes "usb_request env h dat outs"
  shows "bus env h c (trace s) \<Longrightarrow> selected c = 2 \<Longrightarrow> in_bank c = [] \<Longrightarrow>
    unat don + unat count \<le> length (buffer s) \<Longrightarrow> unat don + unat count < 65536 \<Longrightarrow>
    wp (send_packets env task count don s) (\<lambda>s'. keeps s s'
      \<and> bus env h (c\<lparr>in_sent := in_sent c @ chunks 64 (take (unat count) (drop (unat don) (buffer s)))\<rparr>) (trace s'))"
proof (induction "unat count" arbitrary: count don s c rule: less_induct)
  case less
  let ?bs = "take (unat count) (drop (unat don) (buffer s))"
  show ?case
  proof (cases "count = 0")
    case True
    then show ?thesis using less.prems(1) by (subst send_packets.simps) simp
  next
    case False
    define p where "p = (if count > VENDOR_IO_EPSIZE_IN then VENDOR_IO_EPSIZE_IN else count)"
    have p: "p \<le> count" "0 < unat p" and p64: "unat p = min 64 (unat count)"
      using False by (auto simp: p_def VENDOR_IO_EPSIZE_IN_def unat_gt_0 less_imp_le word_less_nat_alt)
    then have p2: "unat p \<le> unat count" by (simp add: word_le_nat_alt)
    have c: "unat (count - p) = unat count - unat p" by (rule unat_sub_le [OF p(1)])
    have d: "unat (don + p) = unat don + unat p"
      using less.prems(5) p2 by (simp add: unat_word_ariths)
    let ?s1 = "in_ready_poll env 30000 s"
    have "comes_up env TXINI 30000 (trace s)"
      using usb_request_at(4) [OF assms less.prems(1,2)] by (simp add: in_endpoint_def)
    then have "sees env TXINI s ?s1"
      using in_stays(1) [OF assms less.prems(1,2)] by (intro in_ready_poll_up)
    then have l1: "looks s ?s1" and f1: "flag env TXINI (trace ?s1)" by (simp_all add: sees_def)
    have b1: "buffer ?s1 = buffer s" by (rule keeps_buffer [OF looks_keeps [OF l1]])
    define q where "q = take (unat p) (drop (unat don) (buffer s))"
    have "0 < unat count" using False by (simp add: unat_gt_0)
    then have cut: "chunks 64 ?bs = q # chunks 64 (take (unat count - unat p) (drop (unat don + unat p) (buffer s)))"
      unfolding q_def using chunks_take [OF p64] less.prems(4) by blast
    have rest: "wp (send_packets env task (count - p) (don + p) (Endpoint_ClearIN env s2))
        (\<lambda>s'. keeps s s' \<and> bus env h (c\<lparr>in_sent := in_sent c @ chunks 64 ?bs\<rparr>) (trace s'))"
      if "filled env h c q ?s1 s2" for s2
    proof -
      let ?s3 = "Endpoint_ClearIN env s2" and ?c = "c\<lparr>in_sent := in_sent c @ [q]\<rparr>"
      have k: "keeps ?s1 s2" and b2: "bus env h (c\<lparr>in_bank := in_bank c @ q\<rparr>) (trace s2)" and f2: "flag env TXINI (trace s2)"
        using that by (simp_all add: filled_def)
      have k3: "keeps s ?s3" by (rule keepsI [OF l1 keeps_trans [OF k keeps_ops(2)]])
      have "c\<lparr>in_bank := [], in_sent := in_sent c @ [q]\<rparr> = ?c" using less.prems(3) by (cases c) simp
      moreover have "bus env h (c\<lparr>in_bank := [], in_sent := in_sent c @ [q]\<rparr>) (trace ?s3)"
        using clear_in_bus [OF assms b2 _ f2] less.prems(2,3) by simp
      ultimately have "bus env h ?c (trace ?s3)" by (simp only:)
      moreover have "unat (count - p) < unat count" using c p p2 by simp
      ultimately have "wp (send_packets env task (count - p) (don + p) ?s3) (\<lambda>s'. keeps ?s3 s' \<and>
          bus env h (?c\<lparr>in_sent := in_sent ?c @ chunks 64 (take (unat (count - p)) (drop (unat (don + p)) (buffer ?s3)))\<rparr>) (trace s'))"
        by (intro less.hyps) (use less.prems p2 c d keeps_buffer [OF k3] in simp_all)
      then show ?thesis
        using keeps_trans [OF k3] cut c d keeps_buffer [OF k3] by (auto elim!: wp_conseq)
    qed
    have "wp (Endpoint_Write_Stream_LE env task (unat don) p None ?s1) (\<lambda>(r, s'). filled env h c q ?s1 s')"
      using write_stream_bus [OF assms looks_bus [OF l1 less.prems(1)] less.prems(2) f1, of "unat don" p task]
        less.prems(3,4) p2 p64 b1 by (simp add: q_def)
    then have "wp (do { (_, s) \<leftarrow> Endpoint_Write_Stream_LE env task (unat don) p None ?s1;
          send_packets env task (count - p) (don + p) (Endpoint_ClearIN env s) })
        (\<lambda>s'. keeps s s' \<and> bus env h (c\<lparr>in_sent := in_sent c @ chunks 64 ?bs\<rparr>) (trace s'))"
      by (rule wp_bind_conseq) (use rest in \<open>simp only: split_paired_all prod.case\<close>)
    then show ?thesis
      using False by (subst send_packets.simps) (simp only: Let_def p_def if_False)
  qed
qed

subsection \<open>Streams from the host\<close>

text \<open>\<open>stores b s s'\<close>: the buffer is now \<open>b\<close>, nothing else but the endpoints was touched.\<close>

definition stores :: "u8 list \<Rightarrow> 'a lucax_scheme \<Rightarrow> 'a lucax_scheme \<Rightarrow> bool" where
  "stores b s s' \<longleftrightarrow> tx s' = tx s \<and> rx_count s' = rx_count s \<and> writes UCSR1B (trace s') = writes UCSR1B (trace s)
     \<and> hw.more s' = hw.more (s\<lparr>buffer := b\<rparr>)"

lemma stores_fields:
  assumes "stores b s s'"
  shows "buffer s' = b" "USB_ControlRequest s' = USB_ControlRequest s" "pdi_on s' = pdi_on s"
    "usart_inv s' = usart_inv s" "last_op s' = last_op s"
  using assms more_lucax [of s' "s\<lparr>buffer := b\<rparr>"] by (simp_all add: stores_def usart_inv_def)

lemma keeps_stores: "keeps s s' \<Longrightarrow> stores (buffer s) s s'"
  by (simp add: keeps_def stores_def)

lemma stores_trans: "stores b s s' \<Longrightarrow> stores d s' s'' \<Longrightarrow> stores d s s''"
  by (cases s; cases s'; cases s'') (simp add: stores_def)

lemma keeps_stores_trans: "keeps s s' \<Longrightarrow> stores d s' s'' \<Longrightarrow> stores d s s''"
  using stores_trans keeps_stores by blast

lemma stores_keeps_trans: "stores b s s' \<Longrightarrow> keeps s' s'' \<Longrightarrow> stores b s s''"
  using stores_trans [of b s s'] keeps_stores [of s' s''] stores_fields(1) [of b s s'] by simp

definition put_at :: "nat \<Rightarrow> u8 list \<Rightarrow> u8 list \<Rightarrow> u8 list" where
  "put_at off bs b = take off b @ bs @ drop (off + length bs) b"

lemma put_at_Nil [simp]: "put_at off [] b = b"
  by (simp add: put_at_def)

lemma length_put_at [simp]: "off + length bs \<le> length b \<Longrightarrow> length (put_at off bs b) = length b"
  by (simp add: put_at_def)

lemma put_at_Cons: "off < length b \<Longrightarrow> put_at (Suc off) bs (b[off := v]) = put_at off (v # bs) b"
  by (simp add: put_at_def take_Suc_conv_app_nth)

lemma put_at_append:
  "off + length bs + length cs \<le> length b \<Longrightarrow> put_at (off + length bs) cs (put_at off bs b) = put_at off (bs @ cs) b"
  by (cases bs) (auto simp: put_at_def min_def add.assoc add.commute add.left_commute)

text \<open>\<open>drained\<close>: \<open>n\<close> bytes were taken from the bank of the OUT endpoint, which is still the firmware's.\<close>

definition drained :: "env \<Rightarrow> usb_history \<Rightarrow> controller \<Rightarrow> nat \<Rightarrow> 'a hw_scheme \<Rightarrow> bool" where
  "drained env h c n s' \<longleftrightarrow> bus env h (c\<lparr>out_taken := out_taken c + n\<rparr>) (trace s') \<and> flag env RXOUTI (trace s')"

lemma read_data_bus:
  assumes "usb_request env h dat outs" and "bus env h c (trace s)" and "selected c = 1" and "out_freed c < length outs"
    and "flag env RXOUTI (trace s)" and "out_taken c < length (outs ! out_freed c)"
  shows "Endpoint_Read_8 env s = (outs ! out_freed c ! out_taken c, emit (Rd UEDATX) s)"
    and "bus env h (c\<lparr>out_taken := Suc (out_taken c)\<rparr>) (trace (emit (Rd UEDATX) s))"
    and "flag env RXOUTI (trace (emit (Rd UEDATX) s))" and "flag env RWAL (trace s)"
proof -
  have e: "out_endpoint env outs c (trace s)" by (rule usb_request_at(3) [OF assms(1-3)])
  then show "Endpoint_Read_8 env s = (outs ! out_freed c ! out_taken c, emit (Rd UEDATX) s)" "flag env RWAL (trace s)"
    using assms(4-6) by (simp_all add: Endpoint_Read_8_def rd_def out_endpoint_def)
  show "bus env h (c\<lparr>out_taken := Suc (out_taken c)\<rparr>) (trace (emit (Rd UEDATX) s))"
    using bus_event [OF _ assms(2), of "Rd UEDATX"] assms(3) by simp
  show "flag env RXOUTI (trace (emit (Rd UEDATX) s))"
    using e assms(4,5) stays_rd by (simp add: out_endpoint_def)
qed

lemma read_stream_loop_bus:
  fixes s :: "'a lucax_scheme"
  assumes "usb_request env h dat outs"
  shows "bus env h c (trace s) \<Longrightarrow> selected c = 1 \<Longrightarrow> out_freed c < length outs \<Longrightarrow> flag env RXOUTI (trace s) \<Longrightarrow>
    out_taken c + unat len \<le> length (outs ! out_freed c) \<Longrightarrow> off + unat len \<le> length (buffer s) \<Longrightarrow>
    wp (read_stream_loop env task None off len m s) (\<lambda>(r, s'). drained env h c (unat len) s'
      \<and> stores (put_at off (take (unat len) (drop (out_taken c) (outs ! out_freed c))) (buffer s)) s s')"
proof (induction "unat len" arbitrary: len off m s c)
  case 0
  then have "len = 0" by (simp add: unat_eq_zero)
  moreover have "c\<lparr>out_taken := out_taken c\<rparr> = c" by simp
  ultimately show ?case
    using 0 keeps_stores [OF keeps_refl] by (subst read_stream_loop.simps) (simp add: drained_def)
next
  case (Suc n)
  then have len: "len \<noteq> 0" by auto
  with Suc.hyps(2) have n: "unat (len - 1) = n" by (simp add: unat_minus_one)
  let ?p = "outs ! out_freed c" and ?k = "out_taken c"
  have off: "off < length (buffer s)" and k: "?k < length ?p" using Suc by simp_all
  let ?e = "emit (Rd UEINTX) s" and ?v = "?p ! ?k"
  let ?s = "(emit (Rd UEDATX) ?e)\<lparr>buffer := (buffer s)[off := ?v]\<rparr>" and ?c = "c\<lparr>out_taken := Suc ?k\<rparr>"
  have l: "looks s ?e" by simp
  have be: "bus env h c (trace ?e)" by (rule looks_bus [OF l Suc.prems(1)])
  have "flag env RXOUTI (trace ?e)"
    using usb_request_at(3) [OF assms Suc.prems(1,2)] Suc.prems(3,4) stays_rd by (simp add: out_endpoint_def)
  note r = read_data_bus [OF assms be Suc.prems(2,3) this k]
  have allowed: "flag env RWAL (trace s)" by (rule read_data_bus(4) [OF assms Suc.prems(1-4) k])
  have b: "buffer ?e = buffer s" "buffer (emit (Rd UEDATX) ?e) = buffer s" by (simp_all add: emit_def)
  have st: "stores ((buffer s)[off := ?v]) s ?s"
    by (cases s) (simp add: stores_def emit_def tx_def rx_count_def)
  have bs: "bus env h ?c (trace ?s)" "flag env RXOUTI (trace ?s)" using r(2,3) by simp_all
  have "wp (read_stream_loop env task None (Suc off) (len - 1) (m + 1) ?s)
     (\<lambda>(r, s'). drained env h ?c (unat (len - 1)) s'
      \<and> stores (put_at (Suc off) (take (unat (len - 1)) (drop (out_taken ?c) (outs ! out_freed ?c))) (buffer ?s)) ?s s')"
    by (rule Suc.hyps(1) [OF n [symmetric] bs(1) _ _ bs(2)]) (use Suc.prems Suc.hyps(2) n in simp_all)
  moreover have "take (Suc n) (drop ?k ?p) = ?v # take n (drop (Suc ?k) ?p)"
    using k by (metis Cons_nth_drop_Suc take_Suc_Cons)
  ultimately have "wp (read_stream_loop env task None (Suc off) (len - 1) (m + 1) ?s)
     (\<lambda>(r, s'). drained env h c (Suc n) s' \<and> stores (put_at off (take (Suc n) (drop ?k ?p)) (buffer s)) s s')"
    using stores_trans [OF st] n put_at_Cons [OF off] by (auto simp: drained_def elim!: wp_conseq)
  then show ?case
    using len off Suc.hyps(2) b allowed r(1)
    by (subst read_stream_loop.simps) (simp add: flag_eqs)
qed

lemma read_stream_bus:
  fixes s :: "'a lucax_scheme"
  assumes "usb_request env h dat outs" and "bus env h c (trace s)" and "selected c = 1" and "out_freed c < length outs"
    and "flag env RXOUTI (trace s)" and "out_taken c = 0" and "unat len = length (outs ! out_freed c)"
    and "off + unat len \<le> length (buffer s)"
  shows "wp (Endpoint_Read_Stream_LE env task off len None s) (\<lambda>(r, s'). drained env h c (unat len) s'
     \<and> stores (put_at off (outs ! out_freed c) (buffer s)) s s')"
proof -
  let ?Q = "\<lambda>(r, s'). drained env h c (unat len) s' \<and> stores (put_at off (outs ! out_freed c) (buffer s)) s s'"
  have "wp (Endpoint_WaitUntilReady env s) (\<lambda>(e, s'). e = 0 \<and> sees env RXOUTI s s')"
    using out_stays [OF assms(1-4)] by (intro wait_ready_sees [OF _ assms(5)]) simp_all
  then show ?thesis
    unfolding Endpoint_Read_Stream_LE_def
  proof (rule wp_bind_conseq)
    fix es :: "u8 \<times> 'a lucax_scheme" assume es: "case es of (e, s') \<Rightarrow> e = 0 \<and> sees env RXOUTI s s'"
    then obtain s1 where "es = (0, s1)" and l: "looks s s1" and f: "flag env RXOUTI (trace s1)"
      by (cases es) (auto simp: sees_def)
    moreover have "wp (read_stream_loop env task None off len 0 s1) ?Q"
      using read_stream_loop_bus [OF assms(1) looks_bus [OF l assms(2)] assms(3,4) f, of len off task 0] assms(6-8)
        keeps_buffer [OF looks_keeps [OF l]] keeps_stores_trans [OF looks_keeps [OF l]]
      by (auto elim!: wp_conseq)
    ultimately show "wp (case es of (e, s) \<Rightarrow> if e \<noteq> 0 then Some ((e, None), s)
        else (case None of None \<Rightarrow> read_stream_loop env task None off len 0 s
          | Some p \<Rightarrow> read_stream_loop env task None (off + unat p) (len - p) 0 s)) ?Q"
      by simp
  qed
qed

text \<open>
  A page that the host sends in packets of 64 bytes, a last one with the rest, is collected packet by
  packet, and each is freed.
\<close>

lemma receive_packets_bus:
  fixes s :: "'a lucax_scheme"
  assumes "usb_request env h dat outs"
  shows "bus env h c (trace s) \<Longrightarrow> selected c = 1 \<Longrightarrow> out_taken c = 0 \<Longrightarrow>
    drop (out_freed c) outs = chunks 64 xs @ later \<Longrightarrow> length xs = unat count \<Longrightarrow>
    unat don + unat count \<le> length (buffer s) \<Longrightarrow> unat don + unat count < 65536 \<Longrightarrow>
    wp (receive_packets env task count don s) (\<lambda>(r, s'). r = Some (don + count)
      \<and> stores (put_at (unat don) xs (buffer s)) s s'
      \<and> bus env h (c\<lparr>out_freed := out_freed c + length (chunks 64 xs)\<rparr>) (trace s'))"
proof (induction "unat count" arbitrary: count don s c xs rule: less_induct)
  case less
  let ?Q = "\<lambda>(r, s'). r = Some (don + count) \<and> stores (put_at (unat don) xs (buffer s)) s s'
      \<and> bus env h (c\<lparr>out_freed := out_freed c + length (chunks 64 xs)\<rparr>) (trace s')"
  show ?case
  proof (cases "count = 0")
    case True
    then have "xs = []" using less.prems(5) by simp
    moreover have "c\<lparr>out_freed := out_freed c\<rparr> = c" by simp
    ultimately show ?thesis
      using True less.prems(1) keeps_stores [OF keeps_refl] by (subst receive_packets.simps) simp
  next
    case False
    define p where "p = (if count > VENDOR_IO_EPSIZE_OUT then VENDOR_IO_EPSIZE_OUT else count)"
    have p: "p \<le> count" "0 < unat p" and p64: "unat p = min 64 (unat count)"
      using False by (auto simp: p_def VENDOR_IO_EPSIZE_OUT_def unat_gt_0 less_imp_le word_less_nat_alt)
    then have p2: "unat p \<le> unat count" by (simp add: word_le_nat_alt)
    have c: "unat (count - p) = unat count - unat p" by (rule unat_sub_le [OF p(1)])
    have d: "unat (don + p) = unat don + unat p"
      using less.prems(7) p2 by (simp add: unat_word_ariths)
    define q where "q = take (unat p) xs"
    have q: "length q = unat p" "xs = q @ drop (unat p) xs" using less.prems(5) p2 by (simp_all add: q_def)
    have "0 < unat count" using False by (simp add: unat_gt_0)
    then have cut: "chunks 64 xs = q # chunks 64 (drop (unat p) xs)"
      using chunks_take [OF p64, of 0 xs] less.prems(5) by (simp add: q_def)
    have next_packet: "drop (out_freed c) outs = q # chunks 64 (drop (unat p) xs) @ later"
      using less.prems(4) cut by simp
    have here: "out_freed c < length outs" "outs ! out_freed c = q"
      "drop (Suc (out_freed c)) outs = chunks 64 (drop (unat p) xs) @ later"
      using next_packet by (auto simp: nth_via_drop drop_Suc tl_drop [symmetric] intro: ccontr)
    let ?o = "out_received_poll env 0xFFFF s"
    have "comes_up env RXOUTI 0xFFFF (trace s)"
      using usb_request_at(3) [OF assms less.prems(1,2)] here(1) by (simp add: out_endpoint_def)
    then have "fst ?o \<and> sees env RXOUTI s (snd ?o)"
      using out_stays(1) [OF assms less.prems(1,2) here(1)] by (intro out_received_poll_up)
    then obtain s1 where o: "?o = (True, s1)" and l1: "looks s s1" and f1: "flag env RXOUTI (trace s1)"
      by (cases ?o) (auto simp: sees_def)
    have b1: "buffer s1 = buffer s" by (rule keeps_buffer [OF looks_keeps [OF l1]])
    define b where "b = put_at (unat don) q (buffer s)"
    have rest: "wp (receive_packets env task (count - p) (don + p) (Endpoint_ClearOUT env s2)) ?Q"
      if x: "drained env h c (unat p) s2" and y: "stores b s1 s2" for s2
    proof -
      let ?s3 = "Endpoint_ClearOUT env s2" and ?c = "c\<lparr>out_freed := Suc (out_freed c)\<rparr>"
      have st: "stores b s ?s3" by (rule keeps_stores_trans [OF looks_keeps [OF l1] stores_keeps_trans [OF y keeps_ops(3)]])
      have "c\<lparr>out_taken := 0, out_freed := Suc (out_freed c)\<rparr> = ?c" using less.prems(3) by (cases c) simp
      moreover have "bus env h (c\<lparr>out_taken := 0, out_freed := Suc (out_freed c)\<rparr>) (trace ?s3)"
        using clear_out_bus [OF assms, of "c\<lparr>out_taken := out_taken c + unat p\<rparr>" s2] x less.prems(2) here(1)
        by (simp add: drained_def)
      ultimately have bus3: "bus env h ?c (trace ?s3)" by (simp only:)
      have len: "length b = length (buffer s)" using less.prems(6) p2 q(1) by (simp add: b_def)
      have "wp (receive_packets env task (count - p) (don + p) ?s3) (\<lambda>(r, s'). r = Some (don + p + (count - p))
          \<and> stores (put_at (unat (don + p)) (drop (unat p) xs) (buffer ?s3)) ?s3 s'
          \<and> bus env h (?c\<lparr>out_freed := out_freed ?c + length (chunks 64 (drop (unat p) xs))\<rparr>) (trace s'))"
        by (rule less.hyps [OF _ bus3])
          (use less.prems here p p2 c d len stores_fields(1) [OF st] in simp_all)
      moreover have "put_at (unat (don + p)) (drop (unat p) xs) (buffer ?s3) = put_at (unat don) xs (buffer s)"
        using put_at_append [of "unat don" q "drop (unat p) xs" "buffer s"] q less.prems(5,6) d p2 stores_fields(1) [OF st]
        by (simp add: b_def)
      ultimately show ?thesis
        using cut stores_trans [OF st] by (auto elim!: wp_conseq)
    qed
    have "wp (Endpoint_Read_Stream_LE env task (unat don) p None s1) (\<lambda>(r, s'). drained env h c (unat p) s' \<and> stores b s1 s')"
      using read_stream_bus [OF assms looks_bus [OF l1 less.prems(1)] less.prems(2) here(1) f1 less.prems(3), of p "unat don" task]
        here(2) q(1) less.prems(6) p2 b1 by (simp add: b_def)
    then have "wp (do { (_, s) \<leftarrow> Endpoint_Read_Stream_LE env task (unat don) p None s1;
          receive_packets env task (count - p) (don + p) (Endpoint_ClearOUT env s) }) ?Q"
      by (rule wp_bind_conseq) (use rest in \<open>simp only: split_paired_all prod.case\<close>)
    then show ?thesis
      using False o
      by (subst receive_packets.simps) (simp only: Let_def p_def if_False prod.case not_True_eq_False)
  qed
qed

subsection \<open>A controller whose host is always there\<close>

text \<open>
  The registers of a controller that shows each flag as soon as it may, computed from the accesses so
  far; on the line to the target, \<open>resp\<close> answers.
\<close>

definition flags_of :: "u8 list list \<Rightarrow> controller \<Rightarrow> u8" where
  "flags_of outs c =
     (if selected c = 0 then
        (case ctrl_stage c of Setup_Stage \<Rightarrow> RXSTPI | Data_Stage \<Rightarrow> RXOUTI | Status_Stage \<Rightarrow> TXINI | Complete \<Rightarrow> 0)
      else if selected c = 1 \<and> out_freed c < length outs then
        (if out_taken c < length (outs ! out_freed c) then RXOUTI OR FIFOCON OR RWAL else RXOUTI OR FIFOCON)
      else if selected c = 2 then (if length (in_bank c) < 64 then TXINI OR FIFOCON OR RWAL else TXINI OR FIFOCON)
      else 0)"

definition data_of :: "u8 list \<Rightarrow> u8 list list \<Rightarrow> controller \<Rightarrow> u8" where
  "data_of dat outs c =
     (if selected c = 0 then (if ctrl_taken c < length dat then dat ! ctrl_taken c else 0)
      else if selected c = 1 \<and> out_freed c < length outs \<and> out_taken c < length (outs ! out_freed c)
      then outs ! out_freed c ! out_taken c else 0)"

definition controller_after :: "u8 list list \<Rightarrow> io list \<Rightarrow> controller" where
  "controller_after outs = foldl (\<lambda>c e. controller_step (\<lambda>_ _. flags_of outs c) c ([], e)) controller0"

definition quick_env :: "u8 list \<Rightarrow> u8 list list \<Rightarrow> (u8 list \<Rightarrow> nat \<Rightarrow> u8) \<Rightarrow> env" where
  "quick_env dat outs resp tr r =
     (let c = controller_after outs tr in
      if r = UEINTX then flags_of outs c
      else if r = UEDATX then data_of dat outs c
      else if r = UECFG0X then (if selected c = 2 then EPDIR else 0)
      else ready_env resp tr r)"

lemma controller_step_flags:
  "env tr UEINTX = v \<Longrightarrow> controller_step env c (tr, e) = controller_step (\<lambda>_ _. v) c ([], e)"
  by (cases e) (simp_all add: flag_def cong: if_cong stage.case_cong)

lemma quick_bus: "bus (quick_env dat outs resp) [] c tr \<longleftrightarrow> c = controller_after outs tr"
proof -
  let ?env = "quick_env dat outs resp"
  have "foldl (controller_step ?env) controller0 (usb_events [] tr) = controller_after outs tr"
  proof (induction tr rule: rev_induct)
    case (snoc e tr)
    have "controller_step ?env (controller_after outs tr) (tr, e)
        = controller_step (\<lambda>_ _. flags_of outs (controller_after outs tr)) (controller_after outs tr) ([], e)"
      by (rule controller_step_flags) (simp add: quick_env_def)
    with snoc show ?case
      using controller_silent [of e] by (simp add: usb_events_append controller_after_def)
  qed (simp add: controller_after_def)
  then show ?thesis by (auto simp: bus_def)
qed

lemma flags_of_bits:
  "(TXINI OR FIFOCON) AND TXINI \<noteq> 0" "(TXINI OR FIFOCON OR RWAL) AND TXINI \<noteq> 0"
  "(RXOUTI OR FIFOCON) AND RXOUTI \<noteq> 0" "(RXOUTI OR FIFOCON OR RWAL) AND RXOUTI \<noteq> 0"
  "(RXOUTI OR FIFOCON OR RWAL) AND RWAL \<noteq> 0" "(TXINI OR FIFOCON OR RWAL) AND RWAL \<noteq> 0"
  "(RXOUTI OR FIFOCON) AND RWAL = 0" "(TXINI OR FIFOCON) AND RWAL = 0" "RXOUTI \<noteq> 0" "RXSTPI \<noteq> 0" "TXINI \<noteq> 0"
  by (simp_all add: usb_consts)

lemma controller_after_snoc:
  "controller_after outs (tr @ [e]) =
     controller_step (\<lambda>_ _. flags_of outs (controller_after outs tr)) (controller_after outs tr) ([], e)"
  by (simp add: controller_after_def)

lemma controller_after_silent: "\<forall>e \<in> set es. \<not> usb_event e \<Longrightarrow> controller_after outs (tr @ es) = controller_after outs tr"
  by (induction es rule: rev_induct) (simp_all add: controller_after_snoc controller_silent flip: append_assoc)

lemma quick_flag: "flag (quick_env dat outs resp) m tr \<longleftrightarrow> flags_of outs (controller_after outs tr) AND m \<noteq> 0"
  by (simp add: flag_def quick_env_def)

lemma quick_comes_up:
  "flags_of outs (controller_after outs tr) AND m \<noteq> 0 \<Longrightarrow> comes_up (quick_env dat outs resp) m n tr"
  by (simp add: comes_up_def quick_flag controller_after_silent)

text \<open>What is done with a bank does not change the flags of an endpoint that has it.\<close>

lemma data_access:
  assumes "\<forall>v. e \<noteq> Wr UENUM v \<and> e \<noteq> Wr UEINTX v"
  shows "selected (controller_step f c (tr, e)) = selected c" "ctrl_stage (controller_step f c (tr, e)) = ctrl_stage c"
    "out_freed (controller_step f c (tr, e)) = out_freed c" "in_sent (controller_step f c (tr, e)) = in_sent c"
  using assms by (cases e; auto)+

lemma quick_stays: "m = RXOUTI \<or> m = TXINI \<Longrightarrow> stays (quick_env dat outs resp) m tr"
  unfolding stays_def quick_flag controller_after_snoc
proof (intro impI allI)
  fix e
  let ?c = "controller_after outs tr"
  let ?c' = "controller_step (\<lambda>_ _. flags_of outs ?c) ?c ([], e)"
  assume m: "m = RXOUTI \<or> m = TXINI" and f: "flags_of outs ?c AND m \<noteq> 0" and e: "\<forall>v. e \<noteq> Wr UENUM v \<and> e \<noteq> Wr UEINTX v"
  note d = data_access [OF e, of "\<lambda>_ _. flags_of outs ?c" ?c "[]"]
  have "flags_of outs c2 AND m \<noteq> 0" if "selected c2 = selected c1" "ctrl_stage c2 = ctrl_stage c1"
    "out_freed c2 = out_freed c1" "flags_of outs c1 AND m \<noteq> 0" for c1 c2
    using that m unfolding flags_of_def by (auto simp: usb_consts split: if_splits stage.splits)
  from this [OF d(1,2,3) f] show "flags_of outs ?c' AND m \<noteq> 0" .
qed

lemma quick_request: "usb_request (quick_env dat outs resp) [] dat outs"
proof -
  let ?env = "quick_env dat outs resp"
  have state: "?env tr USB_STATE \<noteq> DEVICE_STATE_Unattached" for tr
    by (simp add: quick_env_def ready_env_def DEVICE_STATE_Unattached_def)
  have data: "?env tr UEDATX = data_of dat outs (controller_after outs tr)"
    "?env tr UECFG0X = (if selected (controller_after outs tr) = 2 then EPDIR else 0)" for tr
    by (simp_all add: quick_env_def)
  have "control_endpoint ?env dat (controller_after outs tr) tr" if "selected (controller_after outs tr) = 0" for tr
    using that unfolding control_endpoint_def quick_flag data
    by (auto simp: flags_of_def data_of_def flags_of_bits quick_stays intro!: exI quick_comes_up)
  moreover have "out_endpoint ?env outs (controller_after outs tr) tr" if "selected (controller_after outs tr) = 1" for tr
    using that unfolding out_endpoint_def quick_flag data
    by (auto simp: flags_of_def data_of_def flags_of_bits quick_stays intro!: quick_comes_up split: if_splits)
  moreover have "in_endpoint ?env (controller_after outs tr) tr" if "selected (controller_after outs tr) = 2" for tr
    using that unfolding in_endpoint_def quick_flag data
    by (auto simp: flags_of_def flags_of_bits quick_stays EPDIR_def intro!: quick_comes_up split: if_splits)
  ultimately show ?thesis
    unfolding usb_request_def quick_bus using state by blast
qed

lemma quick_env_live [simp]:
  "tx_live (quick_env dat outs resp)" "rx_live (quick_env dat outs resp)" "answers (quick_env dat outs resp) resp"
  by (auto simp: tx_live_def shows_up_def rx_live_def answers_def quick_env_def ready_env_def UDRE1_def TXC1_def RXC1_def
      intro!: exI [of _ 0])

end
