(* ===== verification/LucaxIo.thy ===== *)
theory LucaxIo
  imports UsbStd UsbBus
begin

text \<open>
  What the request handlers of the firmware do between the host and the target: the packets they get
  from the endpoints and the packets they send, on the controller of \<open>UsbBus\<close>.
\<close>

lemma usart_more_lucax:
  assumes "usart.more s' = usart.more s"
  shows "buffer s' = buffer s \<and> last_op s' = last_op s \<and> USB_ControlRequest s' = USB_ControlRequest s
    \<and> pdi_on s' = pdi_on s \<and> char_us s' = char_us s"
  using assms by (cases s; cases s') simp

lemma keeps_fields:
  assumes "keeps s s'"
  shows "tx s' = tx s" "rx_count s' = rx_count s" "usart_inv s' = usart_inv s" "pdi_on s' = pdi_on s"
    "buffer s' = buffer s" "USB_ControlRequest s' = USB_ControlRequest s"
  using assms more_lucax [of s' s] by (simp_all add: keeps_def usart_inv_def)

definition clamp :: "u16 \<Rightarrow> u16" where
  "clamp n = (if n > MAX_BUFFER then MAX_BUFFER else n)"

lemma unat_clamp: "unat (clamp n) = min (unat n) 1024"
  by (auto simp: clamp_def MAX_BUFFER_def word_less_nat_alt)

text \<open>The request phase shared by the memory requests: address and status stage of the control transfer.\<close>

definition request_done :: controller where
  "request_done = controller0\<lparr>ctrl_taken := 4, ctrl_stage := Complete\<rparr>"

lemma request_phase:
  fixes s :: "'a lucax_scheme"
  assumes "usb_request env (ep s) (le32 a) outs" and "bmRequestType (USB_ControlRequest s) AND REQDIR_DEVICETOHOST = 0"
  shows "wp (do { (a, s) \<leftarrow> receive_address env s; s \<leftarrow> Endpoint_ClearStatusStage env s; Some (a, s) })
    (\<lambda>(a', s'). a' = a \<and> keeps s s' \<and> bus env (ep s) request_done (trace s'))"
proof -
  let ?c = "controller0\<lparr>ctrl_taken := 4, ctrl_stage := Status_Stage\<rparr>"
  have rest: "wp (do { s2 \<leftarrow> Endpoint_ClearStatusStage env s1; Some (a, s2) })
      (\<lambda>(a', s'). a' = a \<and> keeps s s' \<and> bus env (ep s) request_done (trace s'))"
    if k: "keeps s s1" and b: "bus env (ep s) ?c (trace s1)" for s1
  proof -
    have "wp (Endpoint_ClearStatusStage env s1)
        (\<lambda>s'. keeps s1 s' \<and> bus env (ep s) (?c\<lparr>ctrl_stage := Complete\<rparr>) (trace s'))"
      by (rule status_stage_bus [OF assms(1) b]) (simp_all add: controller0_def keeps_fields(6) [OF k] assms(2))
    then show ?thesis
      using keeps_trans [OF k] by (auto simp: request_done_def elim!: wp_conseq)
  qed
  have "wp (receive_address env s) (\<lambda>(a', s'). a' = of_le (le32 a) \<and> keeps s s' \<and> bus env (ep s) ?c (trace s'))"
    by (rule receive_address_bus [OF assms(1) bus_start]) (simp_all add: controller0_def)
  then show ?thesis
    by (rule wp_bind_conseq) (use rest in \<open>auto simp only: split_paired_all prod.case of_le_le32\<close>)
qed

subsection \<open>Reading a block\<close>

text \<open>The commands that the firmware sends for one byte and for a block of another length.\<close>

definition read_command :: "u32 \<Rightarrow> nat \<Rightarrow> u8 list" where
  "read_command a n = cmd_bytes 0x43 @ (if n = 1 then lds_bytes a else block_bytes a (of_nat n) @ [0x24])"

definition block_request_post ::
    "env \<Rightarrow> usb_history \<Rightarrow> (u8 list \<Rightarrow> nat \<Rightarrow> u8) \<Rightarrow> u32 \<Rightarrow> nat \<Rightarrow> 'a lucax_scheme \<Rightarrow> 'a lucax_scheme \<Rightarrow> bool" where
  "block_request_post env h resp a n s s' \<longleftrightarrow> last_op s' = 0 \<and> tx s' = tx s @ read_command a n
     \<and> length (buffer s') = length (buffer s)
     \<and> (\<exists>c. bus env h c (trace s') \<and> ctrl_stage c = Complete \<and> in_bank c = []
       \<and> in_sent c = chunks 64 (map (resp (tx s @ read_command a n)) [rx_count s..<rx_count s + n]))"

lemma read_and_send:
  fixes s :: "'a lucax_scheme"
  assumes "tx_live env" and "rx_live env" and "answers env resp" and "usb_request env h dat outs"
    and "bus env h c (trace s)" and "selected c = 2" and "in_bank c = []" and "in_sent c = []" and "ctrl_stage c = Complete"
    and "usart_inv s" and "pdi_on s \<noteq> 0" and "unat n \<le> length (buffer s)" and "unat n \<noteq> 1"
  shows "wp (do { ((r, buf), s) \<leftarrow> nvm_read_bytes env a (buffer s) n s;
       send_packets env task n 0 (s\<lparr>buffer := buf, last_op := pdi_code r\<rparr>) })
     (block_request_post env h resp a (unat n) s)"
proof (rule wp_bind_conseq [OF nvm_read_bytes_wp [OF assms(1,10,11,12), of a resp]], clarify)
  fix r buf s1
  have cmd: "read_command a (unat n) = cmd_bytes 0x43 @ block_bytes a n @ [0x24]"
    using assms(13) by (simp add: read_command_def)
  assume post: "block_read_post env resp (cmd_bytes 0x43 @ block_bytes a n @ [0x24]) (buffer s) 0 (unat n)
      s r buf s1"
  define vs where "vs = map (resp (tx s @ read_command a (unat n))) [rx_count s..<rx_count s + unat n]"
  have buf: "buf = vs @ drop (unat n) (buffer s)" and r: "r = NO_ERROR"
    and x: "xfer (read_command a (unat n)) (unat n) s s1"
    using post assms(2,3) by (auto simp: block_read_post_def vs_def cmd)
  let ?s2 = "s1\<lparr>buffer := buf, last_op := pdi_code r\<rparr>"
  have len: "length buf = length (buffer s)" and take: "take (unat n) buf = vs"
    using buf assms(12) by (simp_all add: vs_def)
  have "bus env h c (trace ?s2)"
    using bus_keep [OF _ assms(5), of s1] x by (simp add: xfer_def)
  from send_packets_bus [OF assms(4) this assms(6,7), of 0 n task] len assms(12) take unsigned_less [of n]
  have "wp (send_packets env task n 0 ?s2)
      (\<lambda>s'. keeps ?s2 s' \<and> bus env h (c\<lparr>in_sent := in_sent c @ chunks 64 vs\<rparr>) (trace s'))"
    by simp
  moreover have "block_request_post env h resp a (unat n) s s'"
    if k: "keeps ?s2 s'" and b: "bus env h (c\<lparr>in_sent := in_sent c @ chunks 64 vs\<rparr>) (trace s')" for s'
  proof -
    have "buffer s' = buf" "last_op s' = 0"
      using k more_lucax [of s' ?s2] r by (simp_all add: keeps_def)
    moreover have "tx s' = tx s @ read_command a (unat n)"
      using keeps_fields(1) [OF k] x by (simp add: xfer_def tx_def)
    ultimately show ?thesis
      using b len assms(7-9) unfolding block_request_post_def vs_def by (intro conjI exI [of _ "c\<lparr>in_sent := in_sent c @ chunks 64 vs\<rparr>"]) (simp_all add: vs_def)
  qed
  ultimately show "wp (send_packets env task n 0 ?s2) (block_request_post env h resp a (unat n) s)"
    by (auto elim!: wp_conseq)
qed

text \<open>One byte goes straight from the target to the bank of the endpoint.\<close>

lemma read_and_send_byte:
  fixes s :: "'a lucax_scheme"
  assumes "tx_live env" and "rx_live env" and "answers env resp" and "usb_request env h dat outs"
    and "bus env h c (trace s)" and "selected c = 2" and "in_bank c = []" and "in_sent c = []" and "ctrl_stage c = Complete"
    and "usart_inv s" and "pdi_on s \<noteq> 0"
  shows "wp (do { ((r, v), s) \<leftarrow> nvm_read_byte env a 0 s;
       Some (Endpoint_ClearIN env (Endpoint_Write_8 v (s\<lparr>last_op := pdi_code r\<rparr>))) })
     (block_request_post env h resp a 1 s)"
proof (rule wp_bind_conseq [OF nvm_read_byte_wp [OF assms(1,10,11), of a 0 resp]], clarify)
  fix r v s1
  have cmd: "read_command a 1 = cmd_bytes 0x43 @ lds_bytes a"
    by (simp add: read_command_def)
  assume post: "read_post env resp (cmd_bytes 0x43 @ lds_bytes a) 0 s r v s1"
  have v: "v = resp (tx s @ read_command a 1) (rx_count s)" and r: "r = NO_ERROR"
    and x: "xfer (read_command a 1) 1 s s1"
    using post assms(2,3) unfolding read_post_def cmd by auto
  let ?s2 = "s1\<lparr>last_op := pdi_code r\<rparr>"
  let ?s3 = "Endpoint_Write_8 v ?s2"
  let ?c = "c\<lparr>in_bank := [], in_sent := [[v]]\<rparr>"
  have b: "bus env h c (trace ?s2)"
    using bus_keep [OF _ assms(5), of s1] x by (simp add: xfer_def)
  have "flag env TXINI (trace ?s2)"
    using usb_request_at(4) [OF assms(4) b assms(6)] assms(8) by (simp add: in_endpoint_def)
  note w = write_data_bus [OF assms(4) b assms(6) this, of v]
  have "bus env h ?c (trace (Endpoint_ClearIN env ?s3))"
    using clear_in_bus [OF assms(4) w(1) _ w(2)] assms(6-8) by simp
  moreover have "keeps ?s2 (Endpoint_ClearIN env ?s3)"
    by (rule keeps_trans [OF keeps_ops(5) keeps_ops(2)])
  then have "buffer (Endpoint_ClearIN env ?s3) = buffer s" "last_op (Endpoint_ClearIN env ?s3) = 0"
    "tx (Endpoint_ClearIN env ?s3) = tx s @ read_command a 1"
    using more_lucax [of "Endpoint_ClearIN env ?s3" ?s2] usart_more_lucax [of s1 s] r x
    by (simp_all add: keeps_def xfer_def tx_def)
  moreover have "chunks 64 [v] = [[v]]"
    by (simp add: chunks_cut)
  ultimately show "wp (Some (Endpoint_ClearIN env ?s3)) (block_request_post env h resp a 1 s)"
    using assms(9) v unfolding block_request_post_def wp_Some
    by (intro conjI exI [of _ ?c]) simp_all
qed

lemma nvm_read_block_eq:
  "lucax_pdi_nvm_read env task s =
    Option.bind (do { (a, s) \<leftarrow> receive_address env s; s \<leftarrow> Endpoint_ClearStatusStage env s; Some (a, s) })
      (\<lambda>(a, s1). let s2 = Endpoint_SelectEndpoint VENDOR_IN_EPADDR s1; n = clamp (wIndex (USB_ControlRequest s))
        in if wIndex (USB_ControlRequest s) = 1
           then do { ((r, v), s) \<leftarrow> nvm_read_byte env a 0 s2;
               Some (Endpoint_ClearIN env (Endpoint_Write_8 v (s\<lparr>last_op := pdi_code r\<rparr>))) }
           else do { ((r, buf), s) \<leftarrow> nvm_read_bytes env a (buffer s2) n s2;
               send_packets env task n 0 (s\<lparr>buffer := buf, last_op := pdi_code r\<rparr>) })"
  by (simp add: lucax_pdi_nvm_read_def clamp_def Let_def bind_assoc split_def cong: if_cong)

lemma nvm_read_serves:
  fixes s :: "'a lucax_scheme"
  assumes "tx_live env" and "rx_live env" and "answers env resp" and "usb_request env (ep s) (le32 a) outs"
    and "usart_inv s" and "pdi_on s \<noteq> 0" and "length (buffer s) = 1024"
    and "bmRequestType (USB_ControlRequest s) AND REQDIR_DEVICETOHOST = 0"
  shows "wp (lucax_pdi_nvm_read env task s)
    (block_request_post env (ep s) resp a (min (unat (wIndex (USB_ControlRequest s))) 1024) s)"
proof -
  let ?w = "wIndex (USB_ControlRequest s)"
  let ?Q = "block_request_post env (ep s) resp a (min (unat ?w) 1024) s"
  have rest: "wp (let s2 = Endpoint_SelectEndpoint VENDOR_IN_EPADDR s1; n = clamp ?w
        in if ?w = 1
           then do { ((r, v), s) \<leftarrow> nvm_read_byte env a 0 s2;
               Some (Endpoint_ClearIN env (Endpoint_Write_8 v (s\<lparr>last_op := pdi_code r\<rparr>))) }
           else do { ((r, buf), s) \<leftarrow> nvm_read_bytes env a (buffer s2) n s2;
               send_packets env task n 0 (s\<lparr>buffer := buf, last_op := pdi_code r\<rparr>) }) ?Q"
    if k: "keeps s s1" and b: "bus env (ep s) request_done (trace s1)" for s1
  proof -
    define s2 where "s2 = Endpoint_SelectEndpoint VENDOR_IN_EPADDR s1"
    let ?c = "request_done\<lparr>selected := 2\<rparr>"
    have k2: "keeps s s2" unfolding s2_def by (rule keeps_trans [OF k keeps_ops(4)])
    have b2: "bus env (ep s) ?c (trace s2)"
      using select_bus [OF b, of VENDOR_IN_EPADDR] by (simp add: s2_def VENDOR_IN_EPADDR_def ENDPOINT_EPNUM_MASK_def)
    have c: "selected ?c = 2" "in_bank ?c = []" "in_sent ?c = []" "ctrl_stage ?c = Complete"
      by (simp_all add: request_done_def controller0_def)
    have pre: "usart_inv s2" "pdi_on s2 \<noteq> 0" using keeps_fields [OF k2] assms(5,6) by simp_all
    have carry: "block_request_post env (ep s) resp a n s s'" if "block_request_post env (ep s) resp a n s2 s'" for n s'
      using that keeps_fields [OF k2] by (simp add: block_request_post_def)
    show ?thesis
    proof (cases "?w = 1")
      case True
      then show ?thesis
        using wp_conseq [OF read_and_send_byte [OF assms(1-4) b2 c pre] carry] by (simp add: s2_def Let_def)
    next
      case False
      then have "unat ?w \<noteq> unat (1 :: u16)" using unsigned_word_eqI by blast
      then have "unat (clamp ?w) \<noteq> 1" by (simp add: unat_clamp min_def)
      moreover have "unat (clamp ?w) \<le> length (buffer s2)"
        using keeps_fields(5) [OF k2] assms(7) by (simp add: unat_clamp)
      ultimately have "wp (do { ((r, buf), s) \<leftarrow> nvm_read_bytes env a (buffer s2) (clamp ?w) s2;
               send_packets env task (clamp ?w) 0 (s\<lparr>buffer := buf, last_op := pdi_code r\<rparr>) })
             (block_request_post env (ep s) resp a (unat (clamp ?w)) s2)"
        by (intro read_and_send [OF assms(1-4) b2 c pre])
      then show ?thesis
        using False carry unfolding s2_def [symmetric] Let_def if_not_P [OF False] unat_clamp
        by (elim wp_conseq)
    qed
  qed
  show ?thesis
    unfolding nvm_read_block_eq
    by (rule wp_bind_conseq [OF request_phase [OF assms(4,8)]]) (use rest in \<open>auto simp only: split_paired_all prod.case\<close>)
qed

text \<open>C8: The read request answers the host with the target's memory. The handler takes the address
  from the four bytes of the control transfer and finishes that transfer, limits the count to its
  1024-byte buffer, has the target read one byte, or that many in one block transfer, and gives the
  host, as packets of the IN endpoint, exactly the bytes that the target answered, in order, in packets of
  64 bytes and a last one with the rest; nothing is left in the bank. The hypotheses: the target
  answers, and the controller and the host serve the request as the data sheet says (\<open>usb_request\<close>: a
  device that stays attached, a packet is fetched at the latest after 30000 looks).\<close>

theorem nvm_read_request:
  fixes s :: "'a lucax_scheme"
  assumes "tx_live env" and "rx_live env" and "answers env resp" and "usb_request env (ep s) (le32 a) outs"
    and "usart_inv s" and "pdi_on s \<noteq> 0" and "length (buffer s) = 1024"
    and "bmRequestType (USB_ControlRequest s) AND REQDIR_DEVICETOHOST = 0"
    and "n = min (unat (wIndex (USB_ControlRequest s))) 1024"
  shows "\<exists>s' c. lucax_pdi_nvm_read env task s = Some s'
     \<and> tx s' = tx s @ cmd_bytes 0x43 @ (if n = 1 then lds_bytes a else block_bytes a (of_nat n) @ [0x24])
     \<and> bus env (ep s) c (trace s') \<and> ctrl_stage c = Complete \<and> in_bank c = []
     \<and> in_sent c = chunks 64 (map (resp (tx s')) [rx_count s..<rx_count s + n])
     \<and> last_op s' = 0 \<and> length (buffer s') = 1024"
  using nvm_read_serves [OF assms(1-8), of task] assms(7)
  unfolding wp_ex block_request_post_def read_command_def assms(9) [symmetric] by auto

definition lucax_state :: "ctrl_request \<Rightarrow> lucax" where
  "lucax_state r = \<lparr>trace = [Wr UCSR1B TXEN1], ustate = UTX, pending = 0, pdi_on = 1, char_us = 60,
     buffer = replicate 1024 0, last_op = 7, USB_ControlRequest = r\<rparr>"

lemma lucax_state_simps [simp]:
  "usart_inv (lucax_state r)" "pdi_on (lucax_state r) = 1" "buffer (lucax_state r) = replicate 1024 0"
  "USB_ControlRequest (lucax_state r) = r" "tx (lucax_state r) = []" "rx_count (lucax_state r) = 0"
  "ep (lucax_state r) = []" "last_op (lucax_state r) = 7"
  by (simp_all add: lucax_state_def usart_inv_def tx_def rx_count_def ep_def)

lemma quick_lucax [simp]: "usb_request (quick_env (le32 a) outs resp) (ep (lucax_state r)) (le32 a) outs"
  using quick_request by simp

text \<open>Three bytes and one byte of a target that answers its number of bytes so far.\<close>

theorem nvm_read_request_witness:
  "\<exists>s' c. lucax_pdi_nvm_read (quick_env (le32 0x800123) [] (\<lambda>bs n. of_nat n)) Some
       (lucax_state \<lparr>bmRequestType = 0x40, bRequest = 36, wValue = 0, wIndex = 70, wLength = 4\<rparr>) = Some s'
     \<and> bus (quick_env (le32 0x800123) [] (\<lambda>bs n. of_nat n)) [] c (trace s')
     \<and> in_sent c = [map of_nat [0..<64], map of_nat [64..<70]] \<and> last_op s' = 0"
proof -
  let ?r = "\<lparr>bmRequestType = 0x40, bRequest = 36, wValue = 0, wIndex = 70, wLength = 4\<rparr>"
  let ?resp = "\<lambda>(bs :: u8 list) (n :: nat). of_nat n :: u8" and ?a = "0x800123 :: u32"
  have pre: "pdi_on (lucax_state ?r) \<noteq> 0" "length (buffer (lucax_state ?r)) = 1024"
    "bmRequestType (USB_ControlRequest (lucax_state ?r)) AND REQDIR_DEVICETOHOST = 0"
    "(70 :: nat) = min (unat (wIndex (USB_ControlRequest (lucax_state ?r)))) 1024"
    by (simp_all add: REQDIR_DEVICETOHOST_def)
  from nvm_read_request [OF quick_env_live(1,2,3) quick_lucax lucax_state_simps(1) pre, of ?a "[]" ?resp Some]
  obtain s' c where "lucax_pdi_nvm_read (quick_env (le32 ?a) [] ?resp) Some (lucax_state ?r) = Some s'"
    and "bus (quick_env (le32 ?a) [] ?resp) [] c (trace s')" and "last_op s' = 0"
    and sent: "in_sent c = chunks 64 (map of_nat [0..<70])" by auto
  moreover have "chunks 64 (map of_nat [0..<70]) = [map of_nat [0..<64], map of_nat [64..<70] :: u8 list]"
    by (simp add: chunks_cut take_map drop_map)
  ultimately show ?thesis by (intro exI [of _ s'] exI [of _ c]) simp
qed

subsection \<open>Writing a page\<close>

lemma nvm_write_page_eq:
  "lucax_pdi_nvm_write_page env task s =
    Option.bind (do { (a, s) \<leftarrow> receive_address env s; s \<leftarrow> Endpoint_ClearStatusStage env s; Some (a, s) })
      (\<lambda>(a, s1). do {
         (r, s2) \<leftarrow> receive_packets env task (clamp (wIndex (USB_ControlRequest s))) 0
           (Endpoint_SelectEndpoint VENDOR_OUT_EPADDR s1);
         case r of
           None \<Rightarrow> Some s2
         | Some don \<Rightarrow> do {
             (r, s3) \<leftarrow> nvm_paged_write env a (buffer s2) don (ucast (wValue (USB_ControlRequest s))) s2;
             Some (s3\<lparr>last_op := pdi_code r\<rparr>) } })"
  by (simp add: lucax_pdi_nvm_write_page_def clamp_def Let_def bind_assoc split_def cong: option.case_cong)

definition page_request_post ::
    "env \<Rightarrow> usb_history \<Rightarrow> u32 \<Rightarrow> u8 list \<Rightarrow> u8 \<Rightarrow> 'a lucax_scheme \<Rightarrow> 'a lucax_scheme \<Rightarrow> bool" where
  "page_request_post env h a page mem s s' \<longleftrightarrow> (last_op s' = 0 \<or> last_op s' = 2) \<and>
     (\<exists>k l. k \<le> 255 \<and> l \<le> 255 \<and>
        tx s' = tx s @ page_erase_bytes a mem @ concat (replicate k status_bytes)
          @ page_load_bytes a page (of_nat (length page)) mem @ concat (replicate l status_bytes))
     \<and> (\<exists>c. bus env h c (trace s') \<and> ctrl_stage c = Complete \<and> out_freed c = length (chunks 64 page))
     \<and> take (length page) (buffer s') = page \<and> length (buffer s') = length (buffer s)"

lemma receive_and_write:
  fixes s :: "'a lucax_scheme"
  assumes "tx_live env" and "usb_request env h dat (chunks 64 page @ later)" and "bus env h c (trace s)"
    and "selected c = 1" and "out_taken c = 0" and "out_freed c = 0" and "ctrl_stage c = Complete"
    and "usart_inv s" and "pdi_on s \<noteq> 0" and "unat n = length page" and "unat n \<le> length (buffer s)"
  shows "wp (do { (r, s2) \<leftarrow> receive_packets env task n 0 s;
         case r of
           None \<Rightarrow> Some s2
         | Some don \<Rightarrow> do {
             (r, s3) \<leftarrow> nvm_paged_write env a (buffer s2) don mem s2;
             Some (s3\<lparr>last_op := pdi_code r\<rparr>) } })
     (page_request_post env h a page mem s)"
proof -
  let ?c = "c\<lparr>out_freed := out_freed c + length (chunks 64 page)\<rparr>"
  have program: "wp (nvm_paged_write env a (buffer s2) n mem s2)
      (\<lambda>(r, s3). page_request_post env h a page mem s (s3\<lparr>last_op := pdi_code r\<rparr>))"
    if x: "stores (put_at 0 page (buffer s)) s s2" and b: "bus env h ?c (trace s2)" for s2
  proof -
    have buf: "buffer s2 = page @ drop (unat n) (buffer s)"
      using stores_fields(1) [OF x] assms(10) by (simp add: put_at_def)
    have pre: "usart_inv s2" "pdi_on s2 \<noteq> 0" "unat n \<le> length (buffer s2)"
      using stores_fields [OF x] assms(8-11) by (simp_all add: put_at_def)
    show ?thesis
    proof (rule wp_conseq [OF nvm_paged_write_wp [OF assms(1) pre, of a mem undefined]], clarify)
      fix r s3 assume "page_post env undefined a (buffer s2) n mem s2 r s3"
      then obtain k l j where kl: "k \<le> 255" "l \<le> 255" "r = NO_ERROR \<or> r = TIME_OUT"
        and y: "xfer (page_erase_bytes a mem @ concat (replicate k status_bytes)
             @ page_load_bytes a (buffer s2) n mem @ concat (replicate l status_bytes)) j s2 s3"
        by (auto simp: page_post_def)
      have n: "of_nat (length page) = n" by (simp flip: assms(10))
      have load: "page_load_bytes a (buffer s2) n mem = page_load_bytes a page (of_nat (length page)) mem"
        by (simp add: page_load_bytes_def buf n assms(10))
      have "buffer s3 = buffer s2" using y usart_more_lucax [of s3 s2] by (simp add: xfer_def)
      then have "take (length page) (buffer s3) = page" "length (buffer s3) = length (buffer s)"
        using buf assms(10,11) by simp_all
      moreover have "tx (s3\<lparr>last_op := pdi_code r\<rparr>) = tx s @ page_erase_bytes a mem
          @ concat (replicate k status_bytes) @ page_load_bytes a page (of_nat (length page)) mem @ concat (replicate l status_bytes)"
        using x y load by (simp add: stores_def xfer_def tx_def)
      moreover have "bus env h ?c (trace (s3\<lparr>last_op := pdi_code r\<rparr>))"
        using bus_keep [OF _ b, of s3] y by (simp add: xfer_def)
      then have "\<exists>c. bus env h c (trace (s3\<lparr>last_op := pdi_code r\<rparr>)) \<and> ctrl_stage c = Complete
          \<and> out_freed c = length (chunks 64 page)"
        using assms(6,7) by (intro exI [of _ ?c]) simp
      ultimately show "page_request_post env h a page mem s (s3\<lparr>last_op := pdi_code r\<rparr>)"
        unfolding page_request_post_def using kl by auto
    qed
  qed
  have lt: "length page < 65536" using unsigned_less [where 'a = nat, of n] assms(10) by simp
  have "wp (receive_packets env task n 0 s) (\<lambda>(r, s'). r = Some (0 + n) \<and> stores (put_at (unat (0 :: u16)) page (buffer s)) s s'
      \<and> bus env h ?c (trace s'))"
    using assms(10,11) lt by (intro receive_packets_bus [OF assms(2,3,4,5), where later = later]) (simp_all add: assms(6))
  then show ?thesis
  proof (rule wp_bind_conseq)
    fix rs :: "u16 option \<times> 'a lucax_scheme"
    assume rs: "case rs of (r, s') \<Rightarrow> r = Some (0 + n) \<and> stores (put_at (unat (0 :: u16)) page (buffer s)) s s' \<and> bus env h ?c (trace s')"
    obtain s2 where "rs = (Some n, s2)" and x: "stores (put_at 0 page (buffer s)) s s2" and b: "bus env h ?c (trace s2)"
      using rs by (cases rs) auto
    then show "wp (case rs of (r, s2) \<Rightarrow> case r of None \<Rightarrow> Some s2
         | Some don \<Rightarrow> do {
             (r, s3) \<leftarrow> nvm_paged_write env a (buffer s2) don mem s2;
             Some (s3\<lparr>last_op := pdi_code r\<rparr>) }) (page_request_post env h a page mem s)"
      using program [OF x b] by (auto elim!: wp_conseq)
  qed
qed

lemma nvm_write_page_serves:
  fixes s :: "'a lucax_scheme"
  assumes "tx_live env" and "usb_request env (ep s) (le32 a) (chunks 64 page @ later)"
    and "usart_inv s" and "pdi_on s \<noteq> 0" and "length (buffer s) = 1024"
    and "bmRequestType (USB_ControlRequest s) AND REQDIR_DEVICETOHOST = 0"
    and "length page = min (unat (wIndex (USB_ControlRequest s))) 1024"
  shows "wp (lucax_pdi_nvm_write_page env task s)
    (page_request_post env (ep s) a page (ucast (wValue (USB_ControlRequest s))) s)"
proof -
  let ?n = "clamp (wIndex (USB_ControlRequest s))" and ?mem = "ucast (wValue (USB_ControlRequest s)) :: u8"
  have rest: "wp (do {
         (r, s2) \<leftarrow> receive_packets env task ?n 0 (Endpoint_SelectEndpoint VENDOR_OUT_EPADDR s1);
         case r of
           None \<Rightarrow> Some s2
         | Some don \<Rightarrow> do {
             (r, s3) \<leftarrow> nvm_paged_write env a (buffer s2) don ?mem s2;
             Some (s3\<lparr>last_op := pdi_code r\<rparr>) } }) (page_request_post env (ep s) a page ?mem s)"
    if k: "keeps s s1" and b: "bus env (ep s) request_done (trace s1)" for s1
  proof -
    define s2 where "s2 = Endpoint_SelectEndpoint VENDOR_OUT_EPADDR s1"
    let ?c = "request_done\<lparr>selected := 1\<rparr>"
    have k2: "keeps s s2" unfolding s2_def by (rule keeps_trans [OF k keeps_ops(4)])
    have b2: "bus env (ep s) ?c (trace s2)"
      using select_bus [OF b, of VENDOR_OUT_EPADDR] by (simp add: s2_def VENDOR_OUT_EPADDR_def ENDPOINT_EPNUM_MASK_def)
    have c: "selected ?c = 1" "out_taken ?c = 0" "out_freed ?c = 0" "ctrl_stage ?c = Complete"
      by (simp_all add: request_done_def controller0_def)
    have pre: "usart_inv s2" "pdi_on s2 \<noteq> 0" "unat ?n = length page" "unat ?n \<le> length (buffer s2)"
      using keeps_fields [OF k2] assms(3-5,7) by (simp_all add: unat_clamp)
    have "page_request_post env (ep s) a page ?mem s s'" if "page_request_post env (ep s) a page ?mem s2 s'" for s'
      using that keeps_fields [OF k2] by (simp add: page_request_post_def)
    then show ?thesis
      unfolding s2_def [symmetric]
      by (rule wp_conseq [OF receive_and_write [OF assms(1,2) b2 c pre, of task a ?mem]])
  qed
  show ?thesis
    unfolding nvm_write_page_eq
    by (rule wp_bind_conseq [OF request_phase [OF assms(2,6)]]) (use rest in \<open>auto simp only: split_paired_all prod.case\<close>)
qed

text \<open>C9: The page-write request programs exactly the host's bytes. The handler takes the address from
  the control transfer and finishes that transfer, limits the count to its 1024-byte buffer, takes that many bytes from
  the packets that the host sends to the OUT endpoint, 64 bytes each and a last one with the rest, frees
  each of these packets and no other, and runs one page write of the selected memory with the bytes, in order.
  It ends, and records success or a time-out of the target. The hypotheses: the line to the target
  works, and the controller and the host serve the request as the data sheet says (\<open>usb_request\<close>: a device
  that stays attached, a packet comes at the latest after 65535 looks).\<close>

theorem nvm_write_page_request:
  fixes s :: "'a lucax_scheme"
  assumes "tx_live env" and "usb_request env (ep s) (le32 a) (chunks 64 page @ later)"
    and "usart_inv s" and "pdi_on s \<noteq> 0" and "length (buffer s) = 1024"
    and "bmRequestType (USB_ControlRequest s) AND REQDIR_DEVICETOHOST = 0"
    and "length page = min (unat (wIndex (USB_ControlRequest s))) 1024"
  shows "\<exists>s' c k l. lucax_pdi_nvm_write_page env task s = Some s'
     \<and> k \<le> 255 \<and> l \<le> 255
     \<and> tx s' = tx s @ page_erase_bytes a (ucast (wValue (USB_ControlRequest s)))
         @ concat (replicate k status_bytes)
         @ page_load_bytes a page (of_nat (length page)) (ucast (wValue (USB_ControlRequest s)))
         @ concat (replicate l status_bytes)
     \<and> bus env (ep s) c (trace s') \<and> ctrl_stage c = Complete \<and> out_freed c = length (chunks 64 page)
     \<and> (last_op s' = 0 \<or> last_op s' = 2) \<and> length (buffer s') = 1024"
proof -
  obtain s' where "lucax_pdi_nvm_write_page env task s = Some s'"
    and p: "page_request_post env (ep s) a page (ucast (wValue (USB_ControlRequest s))) s s'"
    using nvm_write_page_serves [OF assms, of task] by (auto simp: wp_ex)
  then show ?thesis
    using assms(5) unfolding page_request_post_def by (elim exE conjE) (intro exI [of _ s'] exI conjI, simp_all)
qed

theorem nvm_write_page_request_witness:
  "\<exists>s' c k l. lucax_pdi_nvm_write_page (quick_env (le32 0x800123) (chunks 64 (replicate 70 0xA5) @ [[1, 2]]) (\<lambda>bs n. 0)) Some
       (lucax_state \<lparr>bmRequestType = 0x40, bRequest = 39, wValue = 0, wIndex = 70, wLength = 4\<rparr>) = Some s'
     \<and> tx s' = page_erase_bytes 0x800123 0 @ concat (replicate k status_bytes)
         @ page_load_bytes 0x800123 (replicate 70 0xA5) 70 0 @ concat (replicate l status_bytes)
     \<and> bus (quick_env (le32 0x800123) (chunks 64 (replicate 70 0xA5) @ [[1, 2]]) (\<lambda>bs n. 0)) [] c (trace s') \<and> out_freed c = 2"
proof -
  let ?r = "\<lparr>bmRequestType = 0x40, bRequest = 39, wValue = 0, wIndex = 70, wLength = 4\<rparr>"
  let ?page = "replicate 70 (0xA5 :: u8)" and ?a = "0x800123 :: u32"
  let ?env = "quick_env (le32 ?a) (chunks 64 ?page @ [[1, 2]]) (\<lambda>bs n. 0)"
  have pre: "pdi_on (lucax_state ?r) \<noteq> 0" "length (buffer (lucax_state ?r)) = 1024"
    "bmRequestType (USB_ControlRequest (lucax_state ?r)) AND REQDIR_DEVICETOHOST = 0"
    "length ?page = min (unat (wIndex (USB_ControlRequest (lucax_state ?r)))) 1024"
    by (simp_all add: REQDIR_DEVICETOHOST_def)
  from nvm_write_page_request [OF quick_env_live(1) quick_lucax lucax_state_simps(1) pre, of ?a "[[1, 2]]" "\<lambda>bs n. 0" Some]
  obtain s' c k l where "lucax_pdi_nvm_write_page ?env Some (lucax_state ?r) = Some s'"
    and "tx s' = page_erase_bytes ?a 0 @ concat (replicate k status_bytes)
         @ page_load_bytes ?a ?page 70 0 @ concat (replicate l status_bytes)"
    and "bus ?env [] c (trace s')" and "out_freed c = length (chunks 64 ?page)" by auto
  moreover have "length (chunks 64 ?page) = 2"
    by (simp add: chunks_cut)
  ultimately show ?thesis by (intro exI conjI) simp_all
qed

subsection \<open>Raw transfers\<close>

lemma read_loop_overflow:
  assumes "tx_live env" and "rx_live env" and "usart_inv s" and "length data < c + n" and "c \<le> length data"
  shows "read_loop env data c n s = None"
  using assms(3-5)
proof (induction n arbitrary: c data s)
  case (Suc n)
  from read_byte_wp [OF assms(1) Suc.prems(1), of 0 "\<lambda>bs n. 0"] assms(2)
  obtain v s1 where r: "read_byte env 0 s = Some ((0, v), s1)" and g: "got 1 s s1"
    by (auto simp: wp_ex)
  have "read_loop env (data[c := v]) (Suc c) n s1 = None" if "c < length data"
    using Suc.prems that got_inv [OF g] by (intro Suc.IH) simp_all
  then show ?case by (simp add: r)
qed simp

text \<open>C26: The raw read does not check the length of the request against its 1024-byte buffer: asked
  for more by the host, with a target that answers, it stores behind the end of the buffer and has
  no defined result.\<close>

theorem raw_read_overflow:
  assumes "tx_live env" and "rx_live env" and "usart_inv s" and "pdi_on s \<noteq> 0"
    and "length (buffer s) = 1024" and "unat (wLength (USB_ControlRequest s)) > 1024"
  shows "lucax_pdi_raw_read env s = None"
proof -
  let ?s = "Endpoint_ClearSETUP env s" and ?a = "raw_address (USB_ControlRequest s)"
  let ?n = "wLength (USB_ControlRequest s)"
  have k: "keeps s ?s" by simp
  have pre: "usart_inv ?s" "pdi_on ?s \<noteq> 0" "buffer ?s = buffer s" "USB_ControlRequest ?s = USB_ControlRequest s"
    using keeps_fields [OF k] assms by simp_all
  have "pdi_read_bytes env ?a (buffer s) ?n ?s = None"
  proof (rule ccontr)
    assume "pdi_read_bytes env ?a (buffer s) ?n ?s \<noteq> None"
    then obtain s1 s2 where p: "pdi_set_pointer_repeat env ?a ?n ?s = Some s1" "send_byte env 0x24 s1 = Some s2"
      and r: "read_loop env (buffer s) 0 (unat ?n) s2 \<noteq> None"
      using pre(2) by (auto simp: pdi_read_bytes_def pdi_consts bind_eq_Some_conv)
    have "usart_inv s1"
      using wp_SomeD [OF pdi_set_pointer_repeat_sent [OF assms(1) pre(1)] p(1)] sent_inv by blast
    then have "usart_inv s2"
      using wp_SomeD [OF send_byte_sent [OF assms(1)] p(2)] sent_inv by blast
    then show False
      using r read_loop_overflow [OF assms(1,2), of s2 "buffer s" 0 "unat ?n"] assms(5,6) by simp
  qed
  then show ?thesis by (simp add: lucax_pdi_raw_read_def pre)
qed

theorem raw_read_overflow_witness:
  "lucax_pdi_raw_read (ready_env (\<lambda>bs n. 0))
     (lucax_state \<lparr>bmRequestType = 0xC0, bRequest = 40, wValue = 0, wIndex = 0x80, wLength = 1025\<rparr>) = None"
  by (rule raw_read_overflow) simp_all

subsection \<open>Requests that are not the programmer's\<close>

text \<open>The codes and directions the dispatcher serves.\<close>

definition vendor_request :: "ctrl_request \<Rightarrow> bool" where
  "vendor_request r \<longleftrightarrow>
     (if bit (bmRequestType r) 7 then bRequest r \<in> {33, 42, 35, 43, 40}
      else bRequest r \<in> {34, 36, 39, 38, 41})"

lemma dispatch_other:
  assumes "\<not> vendor_request (USB_ControlRequest s)"
  shows "EVENT_USB_Device_ControlRequest env task s = Some s"
proof -
  let ?b = "bmRequestType (USB_ControlRequest s)"
  have "?b AND REQDIR_DEVICETOHOST \<noteq> 0 \<longleftrightarrow> bit ?b 7"
    using and_bit7 [of ?b] by (simp add: REQDIR_DEVICETOHOST_def)
  then show ?thesis
    using assms
    unfolding EVENT_USB_Device_ControlRequest_def vendor_request_def lucax_consts Let_def
    by (cases "bit ?b 7") simp_all
qed

text \<open>The bytes that the endpoints' data register delivers, by how many were read before.\<close>

definition host_sends :: "env \<Rightarrow> (nat \<Rightarrow> u8) \<Rightarrow> bool" where
  "host_sends env hb \<longleftrightarrow> (\<forall>tr. env tr UEDATX = hb (reads UEDATX tr))"

lemma ready_env_host [simp]: "host_sends (ready_env resp) (\<lambda>n. 0xFF)"
  by (simp add: host_sends_def ready_env_def)

text \<open>The part of the state that belongs to the target and to the programmer.\<close>

definition target_side :: "'a lucax_scheme \<Rightarrow> u8 list \<times> nat \<times> u8 \<times> u8 list \<times> u8" where
  "target_side s = (tx s, rx_count s, pdi_on s, buffer s, last_op s)"

lemma target_side_emit [simp]: "r \<noteq> UDR1 \<Longrightarrow> target_side (emit (Rd r) s) = target_side s"
  "r \<noteq> UDR1 \<Longrightarrow> target_side (emit (Wr r v) s) = target_side s"
  by (simp_all add: target_side_def tx_def rx_count_def emit_def)

lemma target_side_rw [simp]:
  "r \<noteq> UDR1 \<Longrightarrow> target_side (snd (rd env r s)) = target_side s"
  "r \<noteq> UDR1 \<Longrightarrow> target_side (wr r v s) = target_side s"
  by (simp_all add: rd_def wr_def)

lemma target_side_ctrl [simp]: "target_side (s\<lparr>USB_ControlRequest := r\<rparr>) = target_side s"
  by (simp add: target_side_def tx_def rx_count_def)

text \<open>One run of the device task that decodes a foreign request.\<close>

lemma foreign_request:
  fixes s :: "'a lucax_scheme"
  assumes "host_sends env hb"
    and "\<And>s s'. std s = Some s' \<Longrightarrow> target_side s' = target_side s"
    and "\<not> vendor_request \<lparr>bmRequestType = hb n, bRequest = hb (n + 1), wValue = of_le [hb (n + 2), hb (n + 3)],
        wIndex = of_le [hb (n + 4), hb (n + 5)], wLength = of_le [hb (n + 6), hb (n + 7)]\<rparr>"
    and "n = reads UEDATX (trace s)"
    and "USB_DeviceTask env std (Suc depth) s = Some s'"
  shows "target_side s' = target_side s"
proof -
  let ?r = "\<lparr>bmRequestType = hb n, bRequest = hb (n + 1), wValue = of_le [hb (n + 2), hb (n + 3)],
        wIndex = of_le [hb (n + 4), hb (n + 5)], wLength = of_le [hb (n + 6), hb (n + 7)]\<rparr>"
  have hdr: "target_side (read_setup env s1) = target_side s1 \<and> USB_ControlRequest (read_setup env s1) = ?r"
    if "reads UEDATX (trace s1) = n" for s1 :: "'a lucax_scheme"
    using assms(1) that
    by (simp add: read_setup_def Endpoint_Read_8_def rd_def host_sends_def numeral_eq_Suc)
  have flag: "target_side (snd (Endpoint_IsSETUPReceived env s1)) = target_side s1" for s1 :: "'a lucax_scheme"
    by (simp add: Endpoint_IsSETUPReceived_def flag_set_def rd_def)
  have stall: "target_side (Endpoint_StallTransaction env (Endpoint_ClearSETUP env s1)) = target_side s1"
    for s1 :: "'a lucax_scheme"
    by (simp add: Endpoint_StallTransaction_def Endpoint_ClearSETUP_def set_bits_def clear_bits_def rd_def Let_def)
  have proc: "target_side s2 = target_side s1"
    if "USB_Device_ProcessControlRequest env std task s1 = Some s2" and "reads UEDATX (trace s1) = n"
    for s1 s2 :: "'a lucax_scheme" and task
    using that(1) hdr [OF that(2)] dispatch_other [of "read_setup env s1" env task] assms(3)
      flag stall assms(2)
    by (auto simp: USB_Device_ProcessControlRequest_def bind_eq_Some_conv Let_def split_def split: if_splits)
  define s1 where "s1 = snd (Endpoint_IsSETUPReceived env (Endpoint_SelectEndpoint 0
     (snd (Endpoint_GetCurrentEndpoint env (emit (Rd USB_STATE) s)))))"
  have s1: "target_side s1 = target_side s \<and> reads UEDATX (trace s1) = n"
    using assms(4)
    by (simp add: s1_def Endpoint_IsSETUPReceived_def Endpoint_GetCurrentEndpoint_def
        Endpoint_GetEndpointDirection_def Endpoint_SelectEndpoint_def flag_set_def rd_def split_def Let_def)
  have sel: "target_side (Endpoint_SelectEndpoint a s2) = target_side s2" for a and s2 :: "'a lucax_scheme"
    by (simp add: Endpoint_SelectEndpoint_def)
  show ?thesis
    using assms(5) s1 proc [of _ s1] sel
    by (auto simp: rd_def Let_def split_def bind_eq_Some_conv s1_def [symmetric] split: if_splits)
qed

interpretation target_frame: usb_frame "\<lambda>s. target_side s = t" for t
  by unfold_locales (simp_all add: target_side_def tx_def rx_count_def emit_def)

text \<open>C25: A control request that is none of the programmer's, by its code or by its direction bit,
  never reaches the target: whatever the hardware does, one run of the device task that decodes it
  from the bytes of the SETUP packet, and answers it if it is a standard request, leaves the line to the
  target, the PDI flag, the buffer and the recorded result as they were.\<close>

theorem foreign_request_ignored:
  fixes s :: "'a usb_device_scheme"
  assumes "host_sends env hb"
    and "\<not> vendor_request \<lparr>bmRequestType = hb n, bRequest = hb (n + 1), wValue = of_le [hb (n + 2), hb (n + 3)],
        wIndex = of_le [hb (n + 4), hb (n + 5)], wLength = of_le [hb (n + 6), hb (n + 7)]\<rparr>"
    and "n = reads UEDATX (trace s)"
    and "USB_DeviceTask env (standard_request env) (Suc depth) s = Some s'"
  shows "target_side s' = target_side s"
  using target_frame.standard_request_frame [of env] by (intro foreign_request [OF assms(1) _ assms(2-4)]) blast

lemma read_setup_ready:
  "USB_ControlRequest (read_setup (ready_env resp) s) = \<lparr>bmRequestType = 0xFF, bRequest = 0xFF,
     wValue = of_le [0xFF, 0xFF], wIndex = of_le [0xFF, 0xFF], wLength = of_le [0xFF, 0xFF]\<rparr>"
  by (simp add: read_setup_def Endpoint_Read_8_def rd_def ready_env_def)

lemma ready_task_defined:
  "\<exists>s'. USB_DeviceTask (ready_env resp) (standard_request (ready_env resp)) (Suc d) s = Some s'"
proof -
  have q: "USB_ControlRequest (emit e s1) = USB_ControlRequest s1" for e and s1 :: "'a usb_device_scheme"
    by (simp add: emit_def)
  have "standard_request env s1 = Some s1" if "bRequest (USB_ControlRequest s1) = 0xFF" for env and s1 :: "'a usb_device_scheme"
    using that by (simp add: standard_request_def std_consts)
  moreover have "\<not> vendor_request (USB_ControlRequest (read_setup (ready_env resp) s1))" for s1 :: "'a usb_device_scheme"
    by (simp add: read_setup_ready vendor_request_def)
  ultimately show ?thesis
    by (simp add: USB_Device_ProcessControlRequest_def dispatch_other Let_def split_def read_setup_ready q
        Endpoint_IsSETUPReceived_def flag_set_def rd_def)
qed

text \<open>A request with the code 255.\<close>

theorem foreign_request_ignored_witness:
  "\<exists>s'. USB_DeviceTask (ready_env (\<lambda>bs n. 0)) (standard_request (ready_env (\<lambda>bs n. 0))) (Suc 0) first_request = Some s'
     \<and> target_side s' = target_side first_request"
proof -
  let ?env = "ready_env (\<lambda>bs n. 0)"
  obtain s' where run: "USB_DeviceTask ?env (standard_request ?env) (Suc 0) first_request = Some s'"
    using ready_task_defined [of "\<lambda>bs n. 0" 0 first_request] by blast
  have "target_side s' = target_side first_request"
    by (rule foreign_request_ignored [OF ready_env_host _ refl run]) (simp add: vendor_request_def)
  with run show ?thesis by blast
qed

end
