(* ===== verification/LucaxLink.thy ===== *)
theory LucaxLink
  imports LucaxHost LucaxIo
begin

text \<open>
  The host driver and the firmware together: the requests that \<^verbatim>\<open>lucax.c\<close> sends are those that
  \<^verbatim>\<open>Lucax.c\<close> understands, and the bytes of a memory's buffer get to the target and back. The USB library
  and the bus are described by what they do for a successful transfer.
\<close>

subsection \<open>The bus\<close>

text \<open>
  Transfers to the device that succeed: \<open>requests\<close> are the control transfers so far, each with its header
  and the data of its data stage, \<open>packets\<close> what went to the OUT endpoint. A bulk transfer of at most 64 bytes is
  one packet.
\<close>

definition usb_log :: "'d libusb \<Rightarrow> ('d \<Rightarrow> (ctrl_request \<times> u8 list) list) \<Rightarrow> ('d \<Rightarrow> u8 list list) \<Rightarrow> bool" where
  "usb_log usb requests packets \<longleftrightarrow>
     (\<forall>r v i bs d rc bs' d'. control_transfer usb USB_HOSTTODEVICE r v i bs d = (rc, bs', d') \<longrightarrow>
        0 \<le> rc \<and> packets d' = packets d
        \<and> requests d' = requests d @ [(\<lparr>bmRequestType = USB_HOSTTODEVICE, bRequest = r, wValue = v, wIndex = i, wLength = of_nat (length bs)\<rparr>, bs)])
     \<and> (\<forall>bs d rc k d'. bs \<noteq> [] \<and> length bs \<le> 64 \<longrightarrow> bulk_out usb LUCAX_OUT bs d = (rc, k, d') \<longrightarrow>
        0 \<le> rc \<and> k = length bs \<and> packets d' = packets d @ [bs] \<and> requests d' = requests d)"

text \<open>
  Transfers from the device: \<open>inbox\<close> are the packets of the IN endpoint that the host did not fetch yet. A
  transfer that asks for at most 64 bytes, and for no less than the packet has, gets one packet; when there is none, it
  ends with the negative code of a time-out.
\<close>

definition usb_stream :: "'d libusb \<Rightarrow> ('d \<Rightarrow> u8 list list) \<Rightarrow> bool" where
  "usb_stream usb inbox \<longleftrightarrow>
     (\<forall>n d rc bs d'. n \<le> 64 \<longrightarrow> bulk_in usb LUCAX_IN n d = (rc, bs, d') \<longrightarrow>
        (case inbox d of
           [] \<Rightarrow> rc < 0 \<and> bs = []
         | p # ps \<Rightarrow> length p \<le> n \<longrightarrow> rc = 0 \<and> bs = p \<and> inbox d' = ps))"

lemma adr_bytes_le32: "adr_bytes a = le32 a"
proof -
  have m: "(0xFF :: u32) = mask 8" by (simp add: mask_eq_exp_minus_1)
  have "(ucast (x AND 0xFF) :: u8) = ucast x" for x :: u32
    unfolding m by (rule bit_word_eqI) (auto simp: bit_simps)
  then show ?thesis by (simp add: adr_bytes_def le32_def)
qed

lemma store_loop_sends:
  assumes "usb_log usb requests packets" and "addr + n \<le> length b"
  shows "n - t = k \<Longrightarrow> t \<le> n \<Longrightarrow> \<exists>d'. store_loop usb b addr n t d = Some (0, d')
    \<and> packets d' = packets d @ chunks 64 (take (n - t) (drop (addr + t) b)) \<and> requests d' = requests d"
proof (induction k arbitrary: t d rule: less_induct)
  case (less k)
  show ?case
  proof (cases "t < n")
    case False
    then have "t = n" using less.prems by simp
    then show ?thesis by (subst store_loop.simps) simp
  next
    case True
    define len where "len = (if n - t > 64 then 64 else n - t)"
    define bs where "bs = take len (drop (addr + t) b)"
    have len: "0 < len" "len \<le> n - t" "len = min 64 (n - t)" using True by (auto simp: len_def)
    have fit: "\<not> length b < addr + t + len" using assms(2) len by simp
    then have bs: "length bs = len" "bs \<noteq> []" "length bs \<le> 64" using len by (auto simp: bs_def)
    obtain rc k' d1 where o: "bulk_out usb LUCAX_OUT bs d = (rc, k', d1)" by (rule prod_cases3)
    have out: "\<not> rc < 0" "k' = len" "packets d1 = packets d @ [bs]" "requests d1 = requests d"
      using assms(1) bs o unfolding usb_log_def by (auto simp: not_less)
    have "n - (t + len) < k" "t + len \<le> n" using len less.prems True by auto
    from less.IH [OF this(1) refl this(2), of d1] obtain d' where d': "store_loop usb b addr n (t + len) d1 = Some (0, d')"
      "packets d' = packets d1 @ chunks 64 (take (n - (t + len)) (drop (addr + (t + len)) b))" "requests d' = requests d1" by blast
    have "chunks 64 (take (n - t) (drop (addr + t) b)) = bs # chunks 64 (take (n - (t + len)) (drop (addr + (t + len)) b))"
      using chunks_take [OF len(3), of "addr + t" b] True assms(2) by (simp add: bs_def add.assoc)
    moreover have "store_loop usb b addr n t d = Some (0, d')"
      using True fit out(1,2) len(1) d'(1) o
      by (subst store_loop.simps) (simp add: len_def [symmetric] bs_def [symmetric] Let_def del: not_less)
    ultimately show ?thesis using d'(2,3) out(3,4) by auto
  qed
qed

text \<open>The host stores one packet after the other and goes on with what is left.\<close>

lemma load_loop_receives:
  assumes "usb_stream usb inbox"
  shows "(\<And>p. p \<in> set ps \<Longrightarrow> p \<noteq> [] \<and> length p \<le> 64) \<Longrightarrow> inbox d = ps @ zs \<Longrightarrow> t + length (concat ps) \<le> n \<Longrightarrow>
    base + n \<le> length b \<Longrightarrow> \<exists>d'. inbox d' = zs
    \<and> load_loop usb base n t b d = load_loop usb base n (t + length (concat ps)) (patch (base + t) (concat ps) b) d'"
proof (induction ps arbitrary: t b d)
  case Nil
  then show ?case by (intro exI [of _ d]) (simp add: patch_def)
next
  case (Cons p ps)
  obtain rc bs d1 where r: "bulk_in usb LUCAX_IN 64 d = (rc, bs, d1)" by (rule prod_cases3)
  have p: "p \<noteq> []" "length p \<le> 64" using Cons.prems(1) by auto
  have e: "rc = 0" "bs = p" "inbox d1 = ps @ zs"
    using assms [unfolded usb_stream_def, rule_format, OF _ r] Cons.prems(2) p by simp_all
  have "0 < length p" using p(1) by simp
  moreover have tot: "t + length p + length (concat ps) \<le> n" using Cons.prems(3) by simp
  ultimately have fit: "\<not> length b < base + t + length p" "t < n" using Cons.prems(4) by linarith+
  let ?b = "patch (base + t) p b"
  have len: "length ?b = length b" using fit(1) by simp
  obtain d' where d': "inbox d' = zs" "load_loop usb base n (t + length p) ?b d1
      = load_loop usb base n (t + length p + length (concat ps)) (patch (base + (t + length p)) (concat ps) ?b) d'"
    using Cons.IH [OF _ e(3), of "t + length p" ?b] Cons.prems(1,3,4) len by (auto simp: ac_simps)
  have "patch (base + (t + length p)) (concat ps) ?b = patch (base + t) (concat (p # ps)) b"
    using fit(1) Cons.prems(3,4) by (simp add: patch_def min_absorb2 ac_simps)
  moreover have "load_loop usb base n t b d = load_loop usb base n (t + length p) ?b d1"
    using fit e p r by (subst load_loop.simps) (simp add: Let_def)
  ultimately show ?case
    using d' by (intro exI [of _ d']) (simp add: ac_simps)
qed


subsection \<open>A page from the host to the target\<close>

definition page_memory :: "avrmem \<Rightarrow> u8" where
  "page_memory m = (if m_desc m = ''flash'' then 0 else 1)"

definition page_header :: "avrmem \<Rightarrow> nat \<Rightarrow> ctrl_request" where
  "page_header m n = \<lparr>bmRequestType = USB_HOSTTODEVICE, bRequest = HOST_PDI_NVM_WRITE_PAGE,
     wValue = ucast (page_memory m), wIndex = of_nat n, wLength = 4\<rparr>"

lemma paged_write_sends:
  assumes "usb_log usb reqs packets" and "m_desc m = ''flash'' \<or> m_desc m = ''eeprom''" and "addr + n \<le> length (buf m)"
  shows "\<exists>d'. lucax_paged_write usb m addr n d = Some (0, d') \<and> reqs d' = reqs d @ [(page_header m n, le32 (host_address m (of_nat addr)))]
    \<and> packets d' = packets d @ chunks 64 (take n (drop addr (buf m)))"
proof -
  let ?mem = "if m_desc m = ''flash'' then HOST_PDI_FLASH else HOST_PDI_EEPROM"
  obtain rc bs d1 where c: "control_transfer usb USB_HOSTTODEVICE HOST_PDI_NVM_WRITE_PAGE (of_int ?mem) (of_nat n)
      (le32 (host_address m (of_nat addr))) d = (rc, bs, d1)" by (rule prod_cases3)
  have mem: "(of_int ?mem :: u16) = ucast (page_memory m)"
    by (simp add: page_memory_def HOST_PDI_FLASH_def HOST_PDI_EEPROM_def)
  have d1: "\<not> rc < 0" "packets d1 = packets d" "reqs d1 = reqs d @ [(page_header m n, le32 (host_address m (of_nat addr)))]"
    using assms(1) c unfolding usb_log_def mem by (fastforce simp: page_header_def not_less)+
  obtain d' where "store_loop usb (buf m) addr n 0 d1 = Some (0, d')" "packets d' = packets d1 @ chunks 64 (take n (drop addr (buf m)))" "reqs d' = reqs d1"
    using store_loop_sends [OF assms(1,3), of 0 n d1] by auto
  then show ?thesis
    using assms(2) d1 c by (auto simp: lucax_paged_write_def adr_bytes_le32 Let_def)
qed

text \<open>C1: A page that avrdude writes, of at most 1024 bytes, is programmed into the target. The host driver sends one request
  with the address of the memory plus the offset, and the bytes of the buffer in packets of 64 and a last one with the rest. A
  firmware in programming mode that gets that request and those packets, whatever the host sends to the
  endpoint later, erases the page at that address, loads and writes the bytes there, and has finished the control transfer and
  freed exactly those packets. The hypotheses: the transfers of the host succeed (\<open>usb_log\<close>), the
  controller serves the firmware as the data sheet says (\<open>usb_request\<close>), and the line to the target works.\<close>

theorem page_reaches_target:
  assumes "usb_log usb reqs packets" and "m_desc m = ''flash'' \<or> m_desc m = ''eeprom''" and "addr + n \<le> length (buf m)" and "n \<le> 1024"
    and "tx_live env" and "usart_inv s" and "pdi_on s \<noteq> 0" and "length (buffer s) = 1024"
  shows "\<exists>d' r dat ps. lucax_paged_write usb m addr n d = Some (0, d') \<and> reqs d' = reqs d @ [(r, dat)] \<and> packets d' = packets d @ ps
    \<and> (USB_ControlRequest s = r \<longrightarrow> usb_request env (ep s) dat (ps @ later) \<longrightarrow>
      (\<exists>s' k l a c. EVENT_USB_Device_ControlRequest env task s = Some s' \<and> k \<le> 255 \<and> l \<le> 255
        \<and> a = host_address m (of_nat addr)
        \<and> tx s' = tx s @ page_erase_bytes a (page_memory m) @ concat (replicate k status_bytes)
            @ page_load_bytes a (take n (drop addr (buf m))) (of_nat n) (page_memory m) @ concat (replicate l status_bytes)
        \<and> bus env (ep s) c (trace s') \<and> ctrl_stage c = Complete \<and> out_freed c = length ps))"
proof -
  let ?a = "host_address m (of_nat addr)" and ?page = "take n (drop addr (buf m))"
  obtain d' where d': "lucax_paged_write usb m addr n d = Some (0, d')" "reqs d' = reqs d @ [(page_header m n, le32 ?a)]"
    "packets d' = packets d @ chunks 64 ?page"
    using paged_write_sends [OF assms(1-3)] by blast
  have fw: "\<exists>s' k l c. EVENT_USB_Device_ControlRequest env task s = Some s' \<and> k \<le> 255 \<and> l \<le> 255
        \<and> tx s' = tx s @ page_erase_bytes ?a (page_memory m) @ concat (replicate k status_bytes)
            @ page_load_bytes ?a ?page (of_nat n) (page_memory m) @ concat (replicate l status_bytes)
        \<and> bus env (ep s) c (trace s') \<and> ctrl_stage c = Complete \<and> out_freed c = length (chunks 64 ?page)"
    if r: "USB_ControlRequest s = page_header m n" and u: "usb_request env (ep s) (le32 ?a) (chunks 64 ?page @ later)"
  proof -
    have n: "unat (of_nat n :: u16) = n" using assms(4) by (simp add: unsigned_of_nat take_bit_nat_eq_self)
    have len: "length ?page = n" using assms(3) by simp
    have w: "(ucast (wValue (USB_ControlRequest s)) :: u8) = page_memory m" "wIndex (USB_ControlRequest s) = of_nat n"
      "bmRequestType (USB_ControlRequest s) AND REQDIR_DEVICETOHOST = 0"
      by (simp_all add: r page_header_def page_memory_def USB_HOSTTODEVICE_def)
    have ev: "EVENT_USB_Device_ControlRequest env task s = lucax_pdi_nvm_write_page env task s"
      using r by (simp add: EVENT_USB_Device_ControlRequest_def page_header_def lucax_consts HOST_PDI_NVM_WRITE_PAGE_def
          USB_HOSTTODEVICE_def Let_def)
    have size: "length ?page = min (unat (wIndex (USB_ControlRequest s))) 1024" using len n w(2) assms(4) by simp
    obtain s' where o: "lucax_pdi_nvm_write_page env task s = Some s'"
      "page_request_post env (ep s) ?a ?page (page_memory m) s s'"
      using nvm_write_page_serves [OF assms(5) u assms(6-8) w(3) size, of task] unfolding w(1) wp_ex by blast
    then show ?thesis
      unfolding ev page_request_post_def len by (elim exE conjE) (intro exI [of _ s'] exI conjI)
  qed
  show ?thesis
    using d' fw by (intro exI [of _ d'] exI [of _ "page_header m n"] exI [of _ "le32 ?a"] exI [of _ "chunks 64 ?page"]) blast
qed


subsection \<open>A block from the target to the host\<close>

definition block_header :: "nat \<Rightarrow> ctrl_request" where
  "block_header n = \<lparr>bmRequestType = USB_HOSTTODEVICE, bRequest = HOST_PDI_NVM_READ, wValue = 0, wIndex = of_nat n, wLength = 4\<rparr>"

lemma block_request_serves:
  assumes "tx_live env" and "rx_live env" and "answers env resp" and "usb_request env (ep s) (le32 a) outs" and "usart_inv s"
    and "pdi_on s \<noteq> 0" and "length (buffer s) = 1024" and "USB_ControlRequest s = block_header n" and "n \<le> 1024"
  shows "\<exists>s' c. EVENT_USB_Device_ControlRequest env task s = Some s' \<and> bus env (ep s) c (trace s')
    \<and> in_sent c = chunks 64 (map (resp (tx s @ read_command a n)) [rx_count s..<rx_count s + n])"
proof -
  have n: "unat (of_nat n :: u16) = n" using assms(9) by (simp add: unsigned_of_nat take_bit_nat_eq_self)
  have w: "bmRequestType (USB_ControlRequest s) AND REQDIR_DEVICETOHOST = 0"
    "min (unat (wIndex (USB_ControlRequest s))) 1024 = n"
    using n assms(9) by (simp_all add: assms(8) block_header_def USB_HOSTTODEVICE_def)
  have ev: "EVENT_USB_Device_ControlRequest env task s = lucax_pdi_nvm_read env task s"
    by (simp add: EVENT_USB_Device_ControlRequest_def assms(8) block_header_def lucax_consts HOST_PDI_NVM_READ_def
        USB_HOSTTODEVICE_def Let_def)
  from nvm_read_serves [OF assms(1-7) w(1), of task] show ?thesis
    unfolding ev w(2) wp_ex block_request_post_def by blast
qed

lemma bus_unique: "bus env h c tr \<Longrightarrow> bus env h c' tr \<Longrightarrow> c = c'"
  by (simp add: bus_def)

text \<open>C2: A block that avrdude reads, of at most 1024 bytes, is the target's memory. Let the firmware, in programming mode, get the
  request of the host driver with its four bytes of address, and let the bus hold for the host the packets that the
  firmware gave to its IN endpoint, and no more: then the driver succeeds, and the buffer
  holds, from the offset on, the bytes that the target answers to a read of one byte, or to a block read of any other length, at the address of the
  memory plus the offset; the rest of the buffer is as before. The hypotheses: a transfer of the host gets one packet, or the
  code of a time-out when there is none (\<open>usb_stream\<close>), the controller serves the firmware as the data sheet says
  (\<open>usb_request\<close>), and the target answers.\<close>

theorem block_reaches_host:
  assumes "usb_stream usb inbox" and "base + n \<le> length (buf m)" and "n \<le> 1024" and "a = host_address m (of_nat base)"
    and "tx_live env" and "rx_live env" and "answers env resp" and "usb_request env (ep s) (le32 a) outs" and "usart_inv s"
    and "pdi_on s \<noteq> 0" and "length (buffer s) = 1024" and "USB_ControlRequest s = block_header n"
    and "control_transfer usb USB_HOSTTODEVICE HOST_PDI_NVM_READ 0 (of_nat n) (le32 a) d = (rc, bs, d1)" and "0 \<le> rc"
    and "\<And>s' c. EVENT_USB_Device_ControlRequest env task s = Some s' \<Longrightarrow> bus env (ep s) c (trace s') \<Longrightarrow> inbox d1 = in_sent c"
  shows "\<exists>d'. lucax_paged_load usb m base n d = Some (0, patch base (map
    (resp (tx s @ cmd_bytes 0x43 @ (if n = 1 then lds_bytes a else block_bytes a (of_nat n) @ [0x24])))
      [rx_count s..<rx_count s + n]) (buf m), d')"
proof -
  let ?bs = "map (resp (tx s @ read_command a n)) [rx_count s..<rx_count s + n]"
  have inbox: "inbox d1 = chunks 64 ?bs @ []"
    using block_request_serves [OF assms(5-12,3), of task] assms(15) by auto
  have "p \<noteq> [] \<and> length p \<le> 64" if "p \<in> set (chunks 64 ?bs)" for p
    using chunks_size [of 64 p ?bs] that by simp
  from load_loop_receives [OF assms(1) this inbox, of 0 n base "buf m"] assms(2)
  obtain d' where "load_loop usb base n 0 (buf m) d1 = load_loop usb base n n (patch base ?bs (buf m)) d'" by auto
  moreover have "load_loop usb base n n b d' = Some (0, b, d')" for b
    by (subst load_loop.simps) simp
  ultimately show ?thesis
    using assms(14) unfolding read_command_def [symmetric]
    by (simp add: lucax_paged_load_def adr_bytes_le32 assms(4) [symmetric] assms(13))
qed

text \<open>
  What becomes of a block when the device sends less: the driver keeps what came and waits for more; the time-out
  makes the read fail, but an empty packet makes it a success.
\<close>

lemma short_block_outcome:
  assumes "usb_stream usb inbox" and "base + n \<le> length (buf m)" and "0 \<le> rc"
    and "control_transfer usb USB_HOSTTODEVICE HOST_PDI_NVM_READ 0 (of_nat n) (le32 (host_address m (of_nat base))) d = (rc, bs, d1)"
    and "inbox d1 = ps @ zs" and "\<And>p. p \<in> set ps \<Longrightarrow> p \<noteq> [] \<and> length p \<le> 64" and "length (concat ps) < n"
    and "zs = [] \<or> hd zs = []"
  shows "\<exists>d'. lucax_paged_load usb m base n d = Some (if zs = [] then -1 else 0, patch base (concat ps) (buf m), d')"
proof -
  let ?b = "patch base (concat ps) (buf m)"
  have len: "base + length (concat ps) \<le> length ?b" using assms(2,7) by simp
  obtain d' where d': "inbox d' = zs" "load_loop usb base n 0 (buf m) d1 = load_loop usb base n (length (concat ps)) ?b d'"
    using load_loop_receives [OF assms(1,6,5), of 0 n base "buf m"] assms(2,7) by auto
  obtain rc' bs' d2 where r: "bulk_in usb LUCAX_IN 64 d' = (rc', bs', d2)" by (rule prod_cases3)
  have "bs' = [] \<and> (if zs = [] then rc' < 0 else rc' = 0)"
    using assms(1) [unfolded usb_stream_def, rule_format, OF _ r] d'(1) assms(8) by (cases zs) auto
  then have "load_loop usb base n (length (concat ps)) ?b d' = Some (if zs = [] then -1 else 0, ?b, d2)"
    using assms(7) len r by (subst load_loop.simps) (auto simp: Let_def patch_def)
  with d'(2) show ?thesis
    using assms(3) by (simp add: lucax_paged_load_def adr_bytes_le32 assms(4))
qed

subsection \<open>Examples\<close>

text \<open>
  A bus that notes what it is sent and delivers the packets it holds; a memory request puts the packets of a device
  there that answers 0x42.
\<close>

type_synonym bus_notes = "(ctrl_request \<times> u8 list) list \<times> u8 list list \<times> u8 list list"

definition note_usb :: "bus_notes libusb" where
  "note_usb = \<lparr>libusb_init = \<lambda>d. (0, d), libusb_open_device_with_vid_pid = \<lambda>_ _ d. (True, d), libusb_close = \<lambda>d. d,
     libusb_exit = \<lambda>d. d,
     control_transfer = \<lambda>ty r v i bs (rs, out, inp). (int (length bs), bs,
       rs @ [(\<lparr>bmRequestType = ty, bRequest = r, wValue = v, wIndex = i, wLength = of_nat (length bs)\<rparr>, bs)], out,
       inp @ chunks 64 (replicate (unat i) 0x42)),
     bulk_in = \<lambda>_ n (rs, out, inp). (case inp of [] \<Rightarrow> (-7, [], rs, out, []) | p # ps \<Rightarrow> (0, p, rs, out, ps)),
     bulk_out = \<lambda>_ bs (rs, out, inp). (0, length bs, rs, out @ [bs], inp)\<rparr>"

lemma note_usb_log: "usb_log note_usb fst (\<lambda>d. fst (snd d))"
  by (auto simp: usb_log_def note_usb_def)

lemma note_usb_stream: "usb_stream note_usb (\<lambda>d. snd (snd d))"
  by (auto simp: usb_stream_def note_usb_def split: list.splits)

definition two_mem :: avrmem where
  "two_mem = avr_new_memtype\<lparr>m_desc := ''flash'', m_size := 2, m_offset := 0x800000, buf := [7, 9], tags := [1, 1]\<rparr>"

lemma two_mem_simps [simp]: "m_desc two_mem = ''flash''" "buf two_mem = [7, 9]"
  "host_address two_mem 0 = 0x800000" "page_memory two_mem = 0"
  by (simp_all add: two_mem_def host_address_def page_memory_def)

theorem page_reaches_target_witness:
  "\<exists>d' s' k l. lucax_paged_write note_usb two_mem 0 2 ([], [], []) = Some (0, d') \<and> fst (snd d') = [[7, 9]]
     \<and> EVENT_USB_Device_ControlRequest (quick_env (le32 0x800000) [[7, 9]] (\<lambda>_ _. 0)) Some (lucax_state (page_header two_mem 2)) = Some s'
     \<and> tx s' = page_erase_bytes 0x800000 0 @ concat (replicate k status_bytes)
         @ page_load_bytes 0x800000 [7, 9] 2 0 @ concat (replicate l status_bytes)"
proof -
  let ?s = "lucax_state (page_header two_mem 2)" and ?d = "([], [], []) :: bus_notes"
    and ?env = "quick_env (le32 0x800000) [[7, 9]] (\<lambda>_ _. 0)"
  have pre: "(0 :: nat) + 2 \<le> length (buf two_mem)" "(2 :: nat) \<le> 1024" "m_desc two_mem = ''flash'' \<or> m_desc two_mem = ''eeprom''"
    "pdi_on ?s \<noteq> 0" "length (buffer ?s) = 1024" by simp_all
  have one: "chunks 64 [7, 9 :: u8] = [[7, 9]]" by (simp add: chunks_cut)
  from paged_write_sends [OF note_usb_log pre(3,1), of ?d]
  obtain d2 where d2: "lucax_paged_write note_usb two_mem 0 2 ?d = Some (0, d2)" "fst d2 = [(page_header two_mem 2, le32 0x800000)]"
    "fst (snd d2) = [[7, 9]]" by (auto simp: one)
  from page_reaches_target [OF note_usb_log pre(3,1,2) quick_env_live(1) [of "le32 0x800000" "[[7, 9]]" "\<lambda>_ _. 0"]
      lucax_state_simps(1) pre(4,5), where d = ?d and later = "[]" and task = Some]
  obtain d' r dat ps where d': "lucax_paged_write note_usb two_mem 0 2 ?d = Some (0, d')" "fst d' = fst ?d @ [(r, dat)]"
    "fst (snd d') = fst (snd ?d) @ ps" and fw: "USB_ControlRequest ?s = r \<longrightarrow> usb_request ?env (ep ?s) dat (ps @ []) \<longrightarrow>
      (\<exists>s' k l a c. EVENT_USB_Device_ControlRequest ?env Some ?s = Some s' \<and> k \<le> 255 \<and> l \<le> 255
        \<and> a = host_address two_mem (of_nat 0)
        \<and> tx s' = tx ?s @ page_erase_bytes a (page_memory two_mem) @ concat (replicate k status_bytes)
            @ page_load_bytes a (take 2 (drop 0 (buf two_mem))) (of_nat 2) (page_memory two_mem) @ concat (replicate l status_bytes)
        \<and> bus ?env (ep ?s) c (trace s') \<and> ctrl_stage c = Complete \<and> out_freed c = length ps)"
    by (elim exE conjE) (rule that, assumption+)
  have "d2 = d'" using d'(1) d2(1) by simp
  then have "r = page_header two_mem 2" "dat = le32 0x800000" "ps = [[7, 9]]" using d' d2 by simp_all
  then obtain s' k l where "EVENT_USB_Device_ControlRequest ?env Some ?s = Some s'"
    "tx s' = page_erase_bytes 0x800000 0 @ concat (replicate k status_bytes)
       @ page_load_bytes 0x800000 [7, 9] 2 0 @ concat (replicate l status_bytes)"
    using fw quick_request [of "le32 0x800000" "[[7, 9]]" "\<lambda>_ _. 0"] by auto
  then show ?thesis
    using d2(1,3) by (intro exI [of _ d2] exI [of _ s'] exI [of _ k] exI [of _ l]) simp
qed

theorem block_reaches_host_witness:
  "(\<exists>d'. lucax_paged_load note_usb two_mem 0 1 ([], [], []) = Some (0, [0x42, 9], d'))
   \<and> (\<exists>d'. lucax_paged_load note_usb two_mem 0 2 ([], [], []) = Some (0, [0x42, 0x42], d'))"
proof -
  let ?resp = "\<lambda>_ _. 0x42 :: u8" and ?d = "([], [], []) :: bus_notes" and ?a = "0x800000 :: u32"
  let ?env = "quick_env (le32 ?a) [] ?resp"
  have "\<exists>d'. lucax_paged_load note_usb two_mem 0 n ?d = Some (0, patch 0 (replicate n 0x42) [7, 9], d')" if n: "n \<le> 2" for n
  proof -
    let ?s = "lucax_state (block_header n)"
    have n16: "unat (of_nat n :: u16) = n" using n by (simp add: unsigned_of_nat take_bit_nat_eq_self)
    have ct: "control_transfer note_usb USB_HOSTTODEVICE HOST_PDI_NVM_READ 0 (of_nat n) (le32 ?a) ?d
        = (4, le32 ?a, [(block_header n, le32 ?a)], [], chunks 64 (replicate n 0x42))"
      by (simp add: note_usb_def block_header_def n16)
    have pre: "0 + n \<le> length (buf two_mem)" "n \<le> 1024" "?a = host_address two_mem (of_nat 0)" "pdi_on ?s \<noteq> 0"
      "length (buffer ?s) = 1024" "USB_ControlRequest ?s = block_header n" using n by simp_all
    have bs: "map (?resp q) [0..<0 + n] = replicate n 0x42" for q :: "u8 list"
      by (simp add: map_replicate_const)
    have out: "snd (snd ([(block_header n, le32 ?a)], [], chunks 64 (replicate n 0x42))) = in_sent c"
      if run: "EVENT_USB_Device_ControlRequest ?env Some ?s = Some s'" and c: "bus ?env (ep ?s) c (trace s')" for s' c
    proof -
      obtain s2 c2 where "EVENT_USB_Device_ControlRequest ?env Some ?s = Some s2" "bus ?env (ep ?s) c2 (trace s2)"
        "in_sent c2 = chunks 64 (replicate n 0x42)"
        using block_request_serves [OF quick_env_live(1,2,3) quick_lucax lucax_state_simps(1) pre(4-6,2), of ?a "[]" ?resp Some]
        unfolding lucax_state_simps(6) bs by blast
      then show ?thesis using run bus_unique [OF c] by simp
    qed
    have "\<exists>d'. lucax_paged_load note_usb two_mem 0 n ?d = Some (0, patch 0 (map (?resp (tx ?s @ cmd_bytes 0x43
        @ (if n = 1 then lds_bytes ?a else block_bytes ?a (of_nat n) @ [0x24]))) [rx_count ?s..<rx_count ?s + n]) (buf two_mem), d')"
      by (rule block_reaches_host [OF note_usb_stream pre(1-3) quick_env_live(1,2,3) quick_lucax lucax_state_simps(1) pre(4-6) ct _ out]) simp_all
    then show ?thesis
      unfolding lucax_state_simps(6) bs two_mem_simps(2) .
  qed
  from this [of 1] this [of 2] show ?thesis
    by (simp add: patch_def numeral_2_eq_2)
qed

end
