(* ===== verification/UsbCtrl.thy ===== *)
theory UsbCtrl
  imports UsbStd
begin

text \<open>
  The controller of the USB stack: its initialisation (\<^verbatim>\<open>AVR8/USBController_AVR8.c\<close>) and the interrupt
  routine that follows the bus (\<^verbatim>\<open>AVR8/USBInterrupt_AVR8.c\<close>), as a device on an ATmega32U4 with the static
  options of \<^verbatim>\<open>src/Config/LUFAConfig.h\<close>. The events of the stack that the firmware does not define
  are stubs, and its own \<^verbatim>\<open>EVENT_USB_Device_Connect\<close> and \<^verbatim>\<open>EVENT_USB_Device_Disconnect\<close> are empty.
\<close>

subsection \<open>Registers\<close>

definition VBUSTE :: u8 where "VBUSTE = 0x01"
definition OTGPADE :: u8 where "OTGPADE = 0x10"
definition FRZCLK :: u8 where "FRZCLK = 0x20"
definition USBE :: u8 where "USBE = 0x80"
definition VBUSTI :: u8 where "VBUSTI = 0x01"
definition VBUS :: u8 where "VBUS = 0x01"
definition SUSPI :: u8 where "SUSPI = 0x01"
definition SOFI :: u8 where "SOFI = 0x04"
definition EORSTI :: u8 where "EORSTI = 0x08"
definition WAKEUPI :: u8 where "WAKEUPI = 0x10"
definition SUSPE :: u8 where "SUSPE = 0x01"
definition SOFE :: u8 where "SOFE = 0x04"
definition EORSTE :: u8 where "EORSTE = 0x08"
definition WAKEUPE :: u8 where "WAKEUPE = 0x10"
definition RXSTPE :: u8 where "RXSTPE = 0x08"
definition DETACH :: u8 where "DETACH = 0x01"
definition LSM :: u8 where "LSM = 0x04"
definition PLOCK :: u8 where "PLOCK = 0x01"
definition PLLE :: u8 where "PLLE = 0x02"
definition USB_PLL_PSC :: u8 where "USB_PLL_PSC = 0x10"
definition PDIV2 :: u8 where "PDIV2 = 0x04"
definition UVREGE :: u8 where "UVREGE = 0x01"
definition USB_Options :: u8 where "USB_Options = 0"
definition USB_DEVICE_OPT_LOWSPEED :: u8 where "USB_DEVICE_OPT_LOWSPEED = 0x01"
definition USB_OPT_REG_DISABLED :: u8 where "USB_OPT_REG_DISABLED = 0x02"
definition USB_OPT_MANUAL_PLL :: u8 where "USB_OPT_MANUAL_PLL = 0x04"
definition USB_OPT_REG_KEEP_ENABLED :: u8 where "USB_OPT_REG_KEEP_ENABLED = 0x08"

lemmas usb_options = USB_Options_def USB_DEVICE_OPT_LOWSPEED_def USB_OPT_REG_DISABLED_def
  USB_OPT_MANUAL_PLL_def USB_OPT_REG_KEEP_ENABLED_def

definition USB_VBUS_GetStatus :: "env \<Rightarrow> 'a hw_scheme \<Rightarrow> bool \<times> 'a hw_scheme" where
  "USB_VBUS_GetStatus env s = flag_set env USBSTA VBUS s"

definition USB_Detach :: "env \<Rightarrow> 'a hw_scheme \<Rightarrow> 'a hw_scheme" where
  "USB_Detach env s = set_bits env UDCON DETACH s"

definition USB_Attach :: "env \<Rightarrow> 'a hw_scheme \<Rightarrow> 'a hw_scheme" where
  "USB_Attach env s = clear_bits env UDCON DETACH s"

definition USB_Device_SetLowSpeed :: "env \<Rightarrow> 'a hw_scheme \<Rightarrow> 'a hw_scheme" where
  "USB_Device_SetLowSpeed env s = set_bits env UDCON LSM s"

definition USB_Device_SetFullSpeed :: "env \<Rightarrow> 'a hw_scheme \<Rightarrow> 'a hw_scheme" where
  "USB_Device_SetFullSpeed env s = clear_bits env UDCON LSM s"

definition USB_PLL_On :: "'a hw_scheme \<Rightarrow> 'a hw_scheme" where
  "USB_PLL_On s = wr PLLCSR (USB_PLL_PSC OR PLLE) (wr PLLCSR USB_PLL_PSC s)"

definition USB_PLL_Off :: "'a hw_scheme \<Rightarrow> 'a hw_scheme" where
  "USB_PLL_Off s = wr PLLCSR 0 s"

definition USB_REG_On :: "env \<Rightarrow> 'a hw_scheme \<Rightarrow> 'a hw_scheme" where
  "USB_REG_On env s = set_bits env UHWCON UVREGE s"

definition USB_REG_Off :: "env \<Rightarrow> 'a hw_scheme \<Rightarrow> 'a hw_scheme" where
  "USB_REG_Off env s = clear_bits env UHWCON UVREGE s"

definition USB_OTGPAD_On :: "env \<Rightarrow> 'a hw_scheme \<Rightarrow> 'a hw_scheme" where
  "USB_OTGPAD_On env s = set_bits env USBCON OTGPADE s"

definition USB_OTGPAD_Off :: "env \<Rightarrow> 'a hw_scheme \<Rightarrow> 'a hw_scheme" where
  "USB_OTGPAD_Off env s = clear_bits env USBCON OTGPADE s"

definition USB_CLK_Freeze :: "env \<Rightarrow> 'a hw_scheme \<Rightarrow> 'a hw_scheme" where
  "USB_CLK_Freeze env s = set_bits env USBCON FRZCLK s"

definition USB_CLK_Unfreeze :: "env \<Rightarrow> 'a hw_scheme \<Rightarrow> 'a hw_scheme" where
  "USB_CLK_Unfreeze env s = clear_bits env USBCON FRZCLK s"

definition USB_Controller_Disable :: "env \<Rightarrow> 'a hw_scheme \<Rightarrow> 'a hw_scheme" where
  "USB_Controller_Disable env s = clear_bits env USBCON USBE s"

definition USB_Controller_Reset :: "env \<Rightarrow> 'a hw_scheme \<Rightarrow> 'a hw_scheme" where
  "USB_Controller_Reset env s = set_bits env USBCON USBE (clear_bits env USBCON USBE s)"

lemmas controller_defs = USB_VBUS_GetStatus_def USB_Detach_def USB_Attach_def USB_Device_SetLowSpeed_def
  USB_Device_SetFullSpeed_def USB_PLL_On_def USB_PLL_Off_def USB_REG_On_def USB_REG_Off_def
  USB_OTGPAD_On_def USB_OTGPAD_Off_def USB_CLK_Freeze_def USB_CLK_Unfreeze_def
  USB_Controller_Disable_def USB_Controller_Reset_def

subsection \<open>Interrupts\<close>

datatype USB_Interrupts_t = USB_INT_VBUSTI | USB_INT_WAKEUPI | USB_INT_SUSPI | USB_INT_EORSTI
  | USB_INT_SOFI | USB_INT_RXSTPI

fun USB_INT_Enable :: "env \<Rightarrow> USB_Interrupts_t \<Rightarrow> 'a hw_scheme \<Rightarrow> 'a hw_scheme" where
  "USB_INT_Enable env USB_INT_VBUSTI s = set_bits env USBCON VBUSTE s"
| "USB_INT_Enable env USB_INT_WAKEUPI s = set_bits env UDIEN WAKEUPE s"
| "USB_INT_Enable env USB_INT_SUSPI s = set_bits env UDIEN SUSPE s"
| "USB_INT_Enable env USB_INT_EORSTI s = set_bits env UDIEN EORSTE s"
| "USB_INT_Enable env USB_INT_SOFI s = set_bits env UDIEN SOFE s"
| "USB_INT_Enable env USB_INT_RXSTPI s = set_bits env UEIENX RXSTPE s"

fun USB_INT_Disable :: "env \<Rightarrow> USB_Interrupts_t \<Rightarrow> 'a hw_scheme \<Rightarrow> 'a hw_scheme" where
  "USB_INT_Disable env USB_INT_VBUSTI s = clear_bits env USBCON VBUSTE s"
| "USB_INT_Disable env USB_INT_WAKEUPI s = clear_bits env UDIEN WAKEUPE s"
| "USB_INT_Disable env USB_INT_SUSPI s = clear_bits env UDIEN SUSPE s"
| "USB_INT_Disable env USB_INT_EORSTI s = clear_bits env UDIEN EORSTE s"
| "USB_INT_Disable env USB_INT_SOFI s = clear_bits env UDIEN SOFE s"
| "USB_INT_Disable env USB_INT_RXSTPI s = clear_bits env UEIENX RXSTPE s"

fun USB_INT_Clear :: "env \<Rightarrow> USB_Interrupts_t \<Rightarrow> 'a hw_scheme \<Rightarrow> 'a hw_scheme" where
  "USB_INT_Clear env USB_INT_VBUSTI s = clear_bits env USBINT VBUSTI s"
| "USB_INT_Clear env USB_INT_WAKEUPI s = clear_bits env UDINT WAKEUPI s"
| "USB_INT_Clear env USB_INT_SUSPI s = clear_bits env UDINT SUSPI s"
| "USB_INT_Clear env USB_INT_EORSTI s = clear_bits env UDINT EORSTI s"
| "USB_INT_Clear env USB_INT_SOFI s = clear_bits env UDINT SOFI s"
| "USB_INT_Clear env USB_INT_RXSTPI s = clear_bits env UEINTX RXSTPI s"

fun USB_INT_IsEnabled :: "env \<Rightarrow> USB_Interrupts_t \<Rightarrow> 'a hw_scheme \<Rightarrow> bool \<times> 'a hw_scheme" where
  "USB_INT_IsEnabled env USB_INT_VBUSTI s = flag_set env USBCON VBUSTE s"
| "USB_INT_IsEnabled env USB_INT_WAKEUPI s = flag_set env UDIEN WAKEUPE s"
| "USB_INT_IsEnabled env USB_INT_SUSPI s = flag_set env UDIEN SUSPE s"
| "USB_INT_IsEnabled env USB_INT_EORSTI s = flag_set env UDIEN EORSTE s"
| "USB_INT_IsEnabled env USB_INT_SOFI s = flag_set env UDIEN SOFE s"
| "USB_INT_IsEnabled env USB_INT_RXSTPI s = flag_set env UEIENX RXSTPE s"

fun USB_INT_HasOccurred :: "env \<Rightarrow> USB_Interrupts_t \<Rightarrow> 'a hw_scheme \<Rightarrow> bool \<times> 'a hw_scheme" where
  "USB_INT_HasOccurred env USB_INT_VBUSTI s = flag_set env USBINT VBUSTI s"
| "USB_INT_HasOccurred env USB_INT_WAKEUPI s = flag_set env UDINT WAKEUPI s"
| "USB_INT_HasOccurred env USB_INT_SUSPI s = flag_set env UDINT SUSPI s"
| "USB_INT_HasOccurred env USB_INT_EORSTI s = flag_set env UDINT EORSTI s"
| "USB_INT_HasOccurred env USB_INT_SOFI s = flag_set env UDINT SOFI s"
| "USB_INT_HasOccurred env USB_INT_RXSTPI s = flag_set env UEINTX RXSTPI s"

definition USB_INT_DisableAllInterrupts :: "env \<Rightarrow> 'a hw_scheme \<Rightarrow> 'a hw_scheme" where
  "USB_INT_DisableAllInterrupts env s = wr UDIEN 0 (clear_bits env USBCON VBUSTE s)"

definition USB_INT_ClearAllInterrupts :: "'a hw_scheme \<Rightarrow> 'a hw_scheme" where
  "USB_INT_ClearAllInterrupts s = wr UDINT 0 (wr USBINT 0 s)"

text \<open>\<^verbatim>\<open>USB_INT_HasOccurred(i) && USB_INT_IsEnabled(i)\<close>.\<close>

definition int_due :: "env \<Rightarrow> USB_Interrupts_t \<Rightarrow> 'a hw_scheme \<Rightarrow> bool \<times> 'a hw_scheme" where
  "int_due env i s =
     (let (b, s) = USB_INT_HasOccurred env i s
      in if b then USB_INT_IsEnabled env i s else (False, s))"

definition auto_pll_on :: "env \<Rightarrow> 'a hw_scheme \<Rightarrow> 'a hw_scheme option" where
  "auto_pll_on env s =
     (if USB_Options AND USB_OPT_MANUAL_PLL = 0 then wait_set env PLLCSR PLOCK (USB_PLL_On s)
      else Some s)"

definition auto_pll_off :: "'a hw_scheme \<Rightarrow> 'a hw_scheme" where
  "auto_pll_off s = (if USB_Options AND USB_OPT_MANUAL_PLL = 0 then USB_PLL_Off s else s)"

text \<open>The sections of the interrupt routine \<^verbatim>\<open>USB_GEN_vect\<close>, in their order.\<close>

definition on_start_of_frame :: "env \<Rightarrow> 'a hw_scheme \<Rightarrow> 'a hw_scheme" where
  "on_start_of_frame env s =
     (let (b, s) = int_due env USB_INT_SOFI s
      in if b then USB_INT_Clear env USB_INT_SOFI s else s)"

definition on_vbus_change :: "env \<Rightarrow> 'a hw_scheme \<Rightarrow> 'a hw_scheme option" where
  "on_vbus_change env s =
     (let (b, s) = int_due env USB_INT_VBUSTI s
      in if \<not> b then Some s
         else (let s = USB_INT_Clear env USB_INT_VBUSTI s; (powered, s) = USB_VBUS_GetStatus env s
           in if powered
              then do { s \<leftarrow> auto_pll_on env s; Some (wr USB_STATE DEVICE_STATE_Powered s) }
              else Some (wr USB_STATE DEVICE_STATE_Unattached (auto_pll_off s))))"

definition on_suspend :: "env \<Rightarrow> 'a hw_scheme \<Rightarrow> 'a hw_scheme" where
  "on_suspend env s =
     (let (b, s) = int_due env USB_INT_SUSPI s
      in if b
         then (let s = USB_INT_Disable env USB_INT_SUSPI s;
                   s = USB_INT_Enable env USB_INT_WAKEUPI s;
                   s = USB_CLK_Freeze env s
               in wr USB_STATE DEVICE_STATE_Suspended (auto_pll_off s))
         else s)"

definition on_wake_up :: "env \<Rightarrow> 'a usb_device_scheme \<Rightarrow> 'a usb_device_scheme option" where
  "on_wake_up env s =
     (let (b, s) = int_due env USB_INT_WAKEUPI s
      in if b
         then do {
           s \<leftarrow> auto_pll_on env s;
           let s = USB_CLK_Unfreeze env s;
           let s = USB_INT_Clear env USB_INT_WAKEUPI s;
           let s = USB_INT_Disable env USB_INT_WAKEUPI s;
           let s = USB_INT_Enable env USB_INT_SUSPI s;
           let (state, s) =
             (if USB_Device_ConfigurationNumber s \<noteq> 0 then (DEVICE_STATE_Configured, s)
              else (let (a, s) = USB_Device_IsAddressSet env s
                    in (if a then DEVICE_STATE_Addressed else DEVICE_STATE_Powered, s)));
           Some (wr USB_STATE state s)
         }
         else Some s)"

definition on_end_of_reset :: "env \<Rightarrow> 'a usb_device_scheme \<Rightarrow> 'a usb_device_scheme option" where
  "on_end_of_reset env s =
     (let (b, s) = int_due env USB_INT_EORSTI s
      in if b
         then do {
           let s = USB_INT_Clear env USB_INT_EORSTI s;
           let s = wr USB_STATE DEVICE_STATE_Default s;
           let s = s\<lparr>USB_Device_ConfigurationNumber := 0\<rparr>;
           let s = USB_INT_Clear env USB_INT_SUSPI s;
           let s = USB_INT_Disable env USB_INT_SUSPI s;
           let s = USB_INT_Enable env USB_INT_WAKEUPI s;
           (_, s) \<leftarrow> Endpoint_ConfigureEndpoint env 0 0 USB_Device_ControlEndpointSize 1 s;
           Some s
         }
         else Some s)"

definition USB_GEN_vect :: "env \<Rightarrow> 'a usb_device_scheme \<Rightarrow> 'a usb_device_scheme option" where
  "USB_GEN_vect env s = do {
     let s = on_start_of_frame env s;
     s \<leftarrow> on_vbus_change env s;
     let s = on_suspend env s;
     s \<leftarrow> on_wake_up env s;
     on_end_of_reset env s
   }"

subsection \<open>Initialisation\<close>

definition USB_Init_Device :: "env \<Rightarrow> 'a usb_device_scheme \<Rightarrow> 'a usb_device_scheme option" where
  "USB_Init_Device env s = do {
     let s = wr USB_STATE DEVICE_STATE_Unattached s;
     let s = s\<lparr>USB_Device_ConfigurationNumber := 0, USB_Device_RemoteWakeupEnabled := False,
               USB_Device_CurrentlySelfPowered := False\<rparr>;
     let s = (if USB_Options AND USB_DEVICE_OPT_LOWSPEED \<noteq> 0 then USB_Device_SetLowSpeed env s
              else USB_Device_SetFullSpeed env s);
     let s = USB_INT_Enable env USB_INT_VBUSTI s;
     (_, s) \<leftarrow> Endpoint_ConfigureEndpoint env 0 0 USB_Device_ControlEndpointSize 1 s;
     let s = USB_INT_Clear env USB_INT_SUSPI s;
     let s = USB_INT_Enable env USB_INT_SUSPI s;
     let s = USB_INT_Enable env USB_INT_EORSTI s;
     Some (USB_Attach env s)
   }"

definition USB_ResetInterface :: "env \<Rightarrow> 'a usb_device_scheme \<Rightarrow> 'a usb_device_scheme option" where
  "USB_ResetInterface env s = do {
     let s = USB_INT_DisableAllInterrupts env s;
     let s = USB_INT_ClearAllInterrupts s;
     let s = USB_Controller_Reset env s;
     let s = USB_CLK_Unfreeze env s;
     let s = auto_pll_off s;
     s \<leftarrow> USB_Init_Device env s;
     Some (USB_OTGPAD_On env s)
   }"

definition USB_Init :: "env \<Rightarrow> 'a usb_device_scheme \<Rightarrow> 'a usb_device_scheme option" where
  "USB_Init env s = do {
     let s = USB_OTGPAD_Off env s;
     let s = (if USB_Options AND USB_OPT_REG_DISABLED = 0 then USB_REG_On env s else USB_REG_Off env s);
     let s = (if USB_Options AND USB_OPT_MANUAL_PLL = 0 then wr PLLFRQ PDIV2 s else s);
     let s = s\<lparr>USB_IsInitialized := True\<rparr>;
     USB_ResetInterface env s
   }"

definition USB_Disable :: "env \<Rightarrow> 'a usb_device_scheme \<Rightarrow> 'a usb_device_scheme" where
  "USB_Disable env s =
     (let s = USB_INT_DisableAllInterrupts env s;
          s = USB_INT_ClearAllInterrupts s;
          s = USB_Detach env s;
          s = USB_Controller_Disable env s;
          s = auto_pll_off s;
          s = (if USB_Options AND USB_OPT_REG_KEEP_ENABLED = 0 then USB_REG_Off env s else s);
          s = USB_OTGPAD_Off env s
      in s\<lparr>USB_IsInitialized := False\<rparr>)"

text \<open>\<^verbatim>\<open>GlobalInterruptEnable\<close>, the instruction \<^verbatim>\<open>sei\<close>.\<close>

definition GlobalInterruptEnable :: "env \<Rightarrow> 'a hw_scheme \<Rightarrow> 'a hw_scheme" where
  "GlobalInterruptEnable env s = set_bits env SREG SREG_I s"


subsection \<open>What the controller leaves alone\<close>

context usb_frame
begin

lemma controller_frame:
  "P (snd (USB_VBUS_GetStatus env s)) = P s" "P (USB_Detach env s) = P s" "P (USB_Attach env s) = P s"
  "P (USB_Device_SetLowSpeed env s) = P s" "P (USB_Device_SetFullSpeed env s) = P s"
  "P (USB_PLL_On s) = P s" "P (USB_PLL_Off s) = P s" "P (USB_REG_On env s) = P s" "P (USB_REG_Off env s) = P s"
  "P (USB_OTGPAD_On env s) = P s" "P (USB_OTGPAD_Off env s) = P s" "P (USB_CLK_Freeze env s) = P s"
  "P (USB_CLK_Unfreeze env s) = P s" "P (USB_Controller_Disable env s) = P s"
  "P (USB_Controller_Reset env s) = P s" "P (auto_pll_off s) = P s"
  by (simp_all add: controller_defs auto_pll_off_def frames)

lemma interrupt_frame:
  "P (USB_INT_Enable env i s) = P s" "P (USB_INT_Disable env i s) = P s" "P (USB_INT_Clear env i s) = P s"
  "P (snd (USB_INT_IsEnabled env i s)) = P s" "P (snd (USB_INT_HasOccurred env i s)) = P s"
  "P (USB_INT_DisableAllInterrupts env s) = P s" "P (USB_INT_ClearAllInterrupts s) = P s"
  by (cases i; simp add: frames USB_INT_DisableAllInterrupts_def USB_INT_ClearAllInterrupts_def)+

lemma int_due_frame: "P (snd (int_due env i s)) = P s"
  by (simp add: int_due_def interrupt_frame Let_def split_def)

lemmas ctrl_frames = controller_frame interrupt_frame int_due_frame frames

lemma auto_pll_on_frame: "auto_pll_on env s = Some s' \<Longrightarrow> P s' = P s"
  by (auto simp: auto_pll_on_def ctrl_frames split: if_splits dest!: wait_set_frame)

lemma interrupt_routine_frame:
  assumes "USB_GEN_vect env s = Some s'"
  shows "P s' = P s"
proof -
  have 1: "P (on_start_of_frame env s) = P s" "P (on_suspend env s) = P s" for s
    by (simp_all add: on_start_of_frame_def on_suspend_def ctrl_frames Let_def split_def)
  have 2: "P s' = P s" if "on_vbus_change env s = Some s'" for s s'
    using that by (auto simp: on_vbus_change_def ctrl_frames Let_def split_def bind_eq_Some_conv
        split: if_splits dest!: auto_pll_on_frame)
  have 3: "P s' = P s" if "on_wake_up env s = Some s'" for s s'
    using that by (auto simp: on_wake_up_def ctrl_frames Let_def split_def bind_eq_Some_conv
        split: if_splits dest!: auto_pll_on_frame)
  have 4: "P s' = P s" if "on_end_of_reset env s = Some s'" for s s'
    using that by (auto simp: on_end_of_reset_def ctrl_frames Let_def split_def bind_eq_Some_conv
        split: if_splits dest!: endpoint_configured_frame)
  show ?thesis
    using assms by (auto simp: USB_GEN_vect_def Let_def bind_eq_Some_conv 1 dest!: 2 3 4)
qed

lemma init_frame:
  assumes "USB_Init env s = Some s'"
  shows "P s' = P s"
proof -
  have 1: "P s' = P s" if "USB_Init_Device env s = Some s'" for s s'
  proof -
    have "P (t\<lparr>USB_Device_ConfigurationNumber := a, USB_Device_RemoteWakeupEnabled := b,
        USB_Device_CurrentlySelfPowered := c\<rparr>) = P t" for t a b c
      using numbered wakes selves by metis
    with that show ?thesis
      by (auto simp: USB_Init_Device_def ctrl_frames Let_def split_def bind_eq_Some_conv
        split: if_splits dest!: endpoint_configured_frame)
  qed
  show ?thesis
    using assms by (auto simp: USB_Init_def USB_ResetInterface_def ctrl_frames Let_def bind_eq_Some_conv
        split: if_splits dest!: 1)
qed

lemma interrupts_on_frame: "P (GlobalInterruptEnable env s) = P s"
  by (simp add: GlobalInterruptEnable_def frames)

end

subsection \<open>Progress\<close>

lemma control_endpoint_size: "Endpoint_BytesToEPSizeMask USB_Device_ControlEndpointSize = Some 0x30"
  by (simp add: Endpoint_BytesToEPSizeMask_def USB_Device_ControlEndpointSize_def ep_size_loop.simps)

lemma control_endpoint_configured:
  "\<exists>b s'. Endpoint_ConfigureEndpoint env 0 0 USB_Device_ControlEndpointSize 1 s = Some (b, s')"
  by (simp add: Endpoint_ConfigureEndpoint_def control_endpoint_size ENDPOINT_EPNUM_MASK_def
      ENDPOINT_TOTAL_ENDPOINTS_def Let_def)

text \<open>Initialisation has no wait in it.\<close>

lemma usb_init_ends: "\<exists>s'. USB_Init env s = Some s'"
proof -
  have "\<exists>s'. USB_Init_Device env s = Some s'" for s :: "'a usb_device_scheme"
  proof -
    obtain b t where "Endpoint_ConfigureEndpoint env 0 0 USB_Device_ControlEndpointSize 1
      (USB_INT_Enable env USB_INT_VBUSTI (USB_Device_SetFullSpeed env ((wr USB_STATE DEVICE_STATE_Unattached s)
        \<lparr>USB_Device_ConfigurationNumber := 0, USB_Device_RemoteWakeupEnabled := False,
         USB_Device_CurrentlySelfPowered := False\<rparr>))) = Some (b, t)"
      using control_endpoint_configured by blast
    then show ?thesis by (simp add: USB_Init_Device_def usb_options)
  qed
  then show ?thesis by (simp add: USB_Init_def USB_ResetInterface_def Let_def bind_eq_Some_conv)
qed

text \<open>What the routine says about the bus: the states it writes, and the configuration.\<close>

definition bus_view :: "'a usb_device_scheme \<Rightarrow> u8 list \<times> u8" where
  "bus_view s = (writes USB_STATE (trace s), USB_Device_ConfigurationNumber s)"

lemma bus_view_register [simp]:
  "bus_view (snd (rd env r s)) = bus_view s" "r \<noteq> USB_STATE \<Longrightarrow> bus_view (wr r v s) = bus_view s"
  "r \<noteq> USB_STATE \<Longrightarrow> bus_view (set_bits env r m s) = bus_view s"
  "r \<noteq> USB_STATE \<Longrightarrow> bus_view (clear_bits env r m s) = bus_view s"
  "bus_view (snd (flag_set env r m s)) = bus_view s"
  by (simp_all add: bus_view_def rd_def wr_def set_bits_def clear_bits_def flag_set_def emit_def Let_def)

lemma bus_view_configure: "bus_view (snd (ep_configure_from env n c0 c1 k e s)) = bus_view s"
proof (induction k arbitrary: e s)
  case (Suc k)
  then show ?case
    by (auto simp: Let_def split_def Endpoint_SelectEndpoint_def Endpoint_DisableEndpoint_def
        Endpoint_EnableEndpoint_def Endpoint_IsConfigured_def)
qed (simp add: Endpoint_SelectEndpoint_def)

lemma bus_view_interrupt [simp]:
  "bus_view (USB_INT_Enable env i s) = bus_view s" "bus_view (USB_INT_Disable env i s) = bus_view s"
  by (cases i; simp)+

lemma end_of_reset_ends: "\<exists>s'. on_end_of_reset env s = Some s' \<and>
    ((\<forall>tr. env tr UDINT AND EORSTI \<noteq> 0 \<and> env tr UDIEN AND EORSTE \<noteq> 0) \<longrightarrow>
      bus_view s' = (writes USB_STATE (trace s) @ [DEVICE_STATE_Default], 0))"
proof -
  define u where "u = USB_INT_Clear env USB_INT_EORSTI (snd (int_due env USB_INT_EORSTI s))"
  define t where "t = USB_INT_Enable env USB_INT_WAKEUPI (USB_INT_Disable env USB_INT_SUSPI
    (USB_INT_Clear env USB_INT_SUSPI ((wr USB_STATE DEVICE_STATE_Default u)\<lparr>USB_Device_ConfigurationNumber := 0\<rparr>)))"
  obtain b s1 where c: "Endpoint_ConfigureEndpoint env 0 0 USB_Device_ControlEndpointSize 1 t = Some (b, s1)"
    using control_endpoint_configured by blast
  have "writes USB_STATE (trace u) = writes USB_STATE (trace s)"
    by (simp add: u_def int_due_def flag_set_def clear_bits_def rd_def wr_def Let_def)
  then have "bus_view t = (writes USB_STATE (trace s) @ [DEVICE_STATE_Default], 0)"
    by (simp add: t_def bus_view_def wr_def clear_bits_def set_bits_def rd_def emit_def Let_def)
  moreover have "bus_view s1 = bus_view t"
    using c by (auto simp: Endpoint_ConfigureEndpoint_def Endpoint_ConfigureEndpoint_Prv_def
        Let_def bind_eq_Some_conv split: if_splits) (metis bus_view_configure snd_conv)
  moreover have "fst (int_due env USB_INT_EORSTI s)" if "\<forall>tr. env tr UDINT AND EORSTI \<noteq> 0 \<and> env tr UDIEN AND EORSTE \<noteq> 0"
    using that by (simp add: int_due_def flag_set_def rd_def Let_def)
  ultimately show ?thesis
    using c by (auto simp: on_end_of_reset_def Let_def split_def u_def t_def)
qed

lemma pll_locks: "shows_up env PLLCSR PLOCK \<Longrightarrow> \<exists>s'. auto_pll_on env s = Some s'"
  using wait_set_wp [of env PLLCSR PLOCK "USB_PLL_On s"] by (auto simp: auto_pll_on_def wp_ex)

text \<open>C29: The interrupt routine of the bus ends if the clock of the controller locks, whatever else the
  registers read; and if the bus was reset, it leaves the device unconfigured and in the default state.\<close>

theorem interrupt_routine_ends:
  assumes "shows_up env PLLCSR PLOCK"
  shows "\<exists>s'. USB_GEN_vect env s = Some s' \<and>
    ((\<forall>tr. env tr UDINT AND EORSTI \<noteq> 0 \<and> env tr UDIEN AND EORSTE \<noteq> 0) \<longrightarrow>
      USB_Device_ConfigurationNumber s' = 0 \<and> last (writes USB_STATE (trace s')) = DEVICE_STATE_Default)"
proof -
  note pll = pll_locks [OF assms]
  have "\<exists>s'. on_vbus_change env t = Some s'" for t :: "'a usb_device_scheme"
  proof -
    obtain u where "auto_pll_on env (snd (USB_VBUS_GetStatus env (USB_INT_Clear env USB_INT_VBUSTI
        (snd (int_due env USB_INT_VBUSTI t))))) = Some u" using pll by blast
    then show ?thesis by (simp add: on_vbus_change_def Let_def split_def)
  qed
  then obtain s1 where 1: "on_vbus_change env (on_start_of_frame env s) = Some s1" by blast
  have "\<exists>s'. on_wake_up env t = Some s'" for t :: "'a usb_device_scheme"
  proof -
    obtain u where "auto_pll_on env (snd (int_due env USB_INT_WAKEUPI t)) = Some u" using pll by blast
    then show ?thesis by (simp add: on_wake_up_def Let_def split_def)
  qed
  then obtain s2 where 2: "on_wake_up env (on_suspend env s1) = Some s2" by blast
  from end_of_reset_ends [of env s2] show ?thesis
    by (auto simp: USB_GEN_vect_def Let_def 1 2 bus_view_def)
qed

text \<open>A bus that was reset, with the clock locked.\<close>

theorem interrupt_routine_ends_witness:
  "\<exists>s'. USB_GEN_vect (\<lambda>_ r. if r = UDINT \<or> r = UDIEN then EORSTI else if r = PLLCSR then PLOCK else 0)
     (first_request\<lparr>USB_Device_ConfigurationNumber := 1\<rparr>) = Some s' \<and>
   USB_Device_ConfigurationNumber s' = 0 \<and> last (writes USB_STATE (trace s')) = DEVICE_STATE_Default"
proof -
  let ?env = "\<lambda>(_ :: io list) r. if r = UDINT \<or> r = UDIEN then EORSTI else if r = PLLCSR then PLOCK else 0"
  have "shows_up ?env PLLCSR PLOCK" by (simp add: shows_up_def PLOCK_def)
  moreover have "\<forall>tr. ?env tr UDINT AND EORSTI \<noteq> 0 \<and> ?env tr UDIEN AND EORSTE \<noteq> 0"
    by (simp add: EORSTI_def EORSTE_def)
  ultimately show ?thesis using interrupt_routine_ends by blast
qed

end
