(* ===== verification/Firmware.thy ===== *)
theory Firmware
  imports UsbCtrl
begin

text \<open>
  The invariant of the firmware and its runs. Whatever the host requests, whatever the target answers
  and whatever the controller's registers read, the buffer keeps its size, and as long as
  programming mode is on the direction the serial driver believes in is the one the hardware was set
  to. The proof is by partial correctness (\<open>wlp\<close>): a wait that never ends and undefined behaviour
  have no result and reach no state.
\<close>

subsection \<open>Partial correctness\<close>

definition wlp :: "'a option \<Rightarrow> ('a \<Rightarrow> bool) \<Rightarrow> bool" where
  "wlp m Q \<longleftrightarrow> (\<forall>x. m = Some x \<longrightarrow> Q x)"

lemma wlp_simps [simp]: "wlp None Q" "wlp (Some a) Q = Q a"
  by (simp_all add: wlp_def)

lemma wlpI: "(\<And>x. m = Some x \<Longrightarrow> Q x) \<Longrightarrow> wlp m Q"
  by (simp add: wlp_def)

lemma wlpD: "wlp m Q \<Longrightarrow> m = Some x \<Longrightarrow> Q x"
  by (simp add: wlp_def)

lemma wlp_bindI: "wlp m P \<Longrightarrow> (\<And>a. P a \<Longrightarrow> wlp (f a) Q) \<Longrightarrow> wlp (Option.bind m f) Q"
  by (cases m) simp_all

lemma wlp_if: "(c \<Longrightarrow> wlp m Q) \<Longrightarrow> (\<not> c \<Longrightarrow> wlp m' Q) \<Longrightarrow> wlp (if c then m else m') Q"
  by simp

subsection \<open>The invariant\<close>

text \<open>With \<open>b\<close> the direction is asked for also while programming mode is off.\<close>

definition fw_inv :: "bool \<Rightarrow> 'a lucax_scheme \<Rightarrow> bool" where
  "fw_inv b s \<longleftrightarrow> length (buffer s) = unat MAX_BUFFER \<and> (pdi_on s = 0 \<or> pdi_on s = 1) \<and> (b \<or> pdi_on s \<noteq> 0 \<longrightarrow> usart_inv s)"

lemma fw_inv_emit [simp]:
  "fw_inv b (emit (Rd r) s) = fw_inv b s" "fw_inv b (emit (DelayUs n) s) = fw_inv b s" "fw_inv b (emit (DelayMs n) s) = fw_inv b s"
  "fw_inv b (emit (Wr16 r w) s) = fw_inv b s" "r \<noteq> UCSR1B \<Longrightarrow> fw_inv b (emit (Wr r v) s) = fw_inv b s"
  by (simp_all add: fw_inv_def emit_def usart_inv_def)

lemma fw_inv_update [simp]:
  "fw_inv b (s\<lparr>pending := x\<rparr>) = fw_inv b s" "fw_inv b (s\<lparr>char_us := y\<rparr>) = fw_inv b s"
  "fw_inv b (s\<lparr>last_op := z\<rparr>) = fw_inv b s" "fw_inv b (s\<lparr>USB_ControlRequest := q\<rparr>) = fw_inv b s"
  "fw_inv b s \<Longrightarrow> length xs = length (buffer s) \<Longrightarrow> fw_inv b (s\<lparr>buffer := xs\<rparr>)"
  by (simp_all add: fw_inv_def usart_inv_def)

lemma fw_inv_set_mode: "fw_inv b s \<Longrightarrow> fw_inv b' (usart_tx_mode s)" "fw_inv b s \<Longrightarrow> fw_inv b' (usart_rx_mode s)"
  by (simp_all add: fw_inv_def usart_inv_def usart_tx_mode_def usart_rx_mode_def wr_def emit_def TXEN1_def RXEN1_def)

lemma fw_inv_mode [simp]: "fw_inv b s \<Longrightarrow> fw_inv b (usart_tx_mode s)" "fw_inv b s \<Longrightarrow> fw_inv b (usart_rx_mode s)"
  by (rule fw_inv_set_mode, assumption)+

lemma fw_inv_weaken: "fw_inv b s \<Longrightarrow> fw_inv False s"
  by (simp add: fw_inv_def)

lemma fw_inv_on: "fw_inv True s \<Longrightarrow> fw_inv b (s\<lparr>pdi_on := 1\<rparr>)"
  by (simp add: fw_inv_def usart_inv_def)

lemma fw_inv_buffer: "fw_inv b s \<Longrightarrow> length (buffer s) = 1024"
  by (simp add: fw_inv_def MAX_BUFFER_def)

lemmas reg_defs = rd_def wr_def delay_us_def delay_ms_def set_bits_def clear_bits_def

text \<open>
  \<open>keeps\<close> collects that the operations keep the invariant, \<open>keeps_bind\<close> the same for an operation
  with a continuation.
\<close>

named_theorems keeps
named_theorems keeps_bind

subsection \<open>The serial driver and the link layer\<close>

lemma wait_set_keeps:
  "wait_set env r m s = Some s' \<Longrightarrow> fw_inv b s \<Longrightarrow> fw_inv b s'"
  by (induction rule: wait_set.raw_induct [rotated, consumes 1]) (auto simp: reg_defs split: if_splits)

lemma wait_set_wlp [keeps, THEN wlp_bindI, keeps_bind]:
  "fw_inv b s \<Longrightarrow> wlp (wait_set env r m s) (fw_inv b)"
  by (rule wlpI) (rule wait_set_keeps)

lemma char_wait_keeps: "char_wait c s = Some s' \<Longrightarrow> fw_inv b s \<Longrightarrow> fw_inv b s'"
  by (induction rule: char_wait.raw_induct [rotated, consumes 1]) (auto simp: reg_defs split: if_splits)

lemma char_wait_wlp [keeps, THEN wlp_bindI, keeps_bind]:
  "fw_inv b s \<Longrightarrow> wlp (char_wait c s) (fw_inv b)"
  by (rule wlpI) (rule char_wait_keeps)

lemma send_byte_wlp [keeps, THEN wlp_bindI, keeps_bind]:
  "fw_inv b s \<Longrightarrow> wlp (send_byte env d s) (fw_inv b)"
  unfolding send_byte_def Let_def reg_defs by (auto intro!: keeps_bind)

lemma rx_poll_keeps: "fw_inv b (snd (rx_poll env n s)) = fw_inv b s"
  by (induction env n s rule: rx_poll.induct) (subst rx_poll.simps, simp add: reg_defs split_def Let_def)

lemma usart_wait_tx_wlp [keeps, THEN wlp_bindI, keeps_bind]:
  "fw_inv b s \<Longrightarrow> wlp (usart_wait_tx env s) (fw_inv b)"
  unfolding usart_wait_tx_def by (auto intro!: keeps_bind)

lemma read_byte_wlp [keeps, THEN wlp_bindI, keeps_bind]:
  assumes "fw_inv b s"
  shows "wlp (read_byte env d s) (\<lambda>(r, s'). fw_inv b s')"
proof -
  have "wlp (if ustate s = UTX then do { s \<leftarrow> wait_set env UCSR1A TXC1 s; Some ((usart_rx_mode s)\<lparr>pending := 0\<rparr>) } else Some s) (fw_inv b)"
    using assms by (auto intro!: keeps_bind)
  then show ?thesis
    unfolding read_byte_def
  proof (rule wlp_bindI)
    fix s1 :: "'a lucax_scheme" assume "fw_inv b s1"
    then have "fw_inv b (snd (rx_poll env 250 s1))" by (simp add: rx_poll_keeps)
    then show "wlp (let (ready, s) = rx_poll env 250 s1 in if \<not> ready then Some ((1, d), s) else let (v, s) = rd env UDR1 s in Some ((0, v), s))
        (\<lambda>(r, s'). fw_inv b s')"
      by (simp add: split_def Let_def reg_defs)
  qed
qed

lemma send_break_wlp [keeps, THEN wlp_bindI, keeps_bind]:
  "fw_inv b s \<Longrightarrow> wlp (send_break env s) (fw_inv b)"
  unfolding send_break_def Let_def reg_defs by (auto intro!: keeps_bind fw_inv_mode)

lemma send_idle_wlp [keeps, THEN wlp_bindI, keeps_bind]:
  "fw_inv b s \<Longrightarrow> wlp (send_idle env s) (fw_inv b)"
  unfolding send_idle_def Let_def by (auto intro!: keeps_bind keeps fw_inv_mode)

lemma send_idles_wlp [keeps, THEN wlp_bindI, keeps_bind]:
  "fw_inv b s \<Longrightarrow> wlp (send_idles env n s) (fw_inv b)"
  by (induction n arbitrary: s) (auto intro!: keeps_bind)

lemma pdi_write_raw_wlp [keeps, THEN wlp_bindI, keeps_bind]:
  "fw_inv b s \<Longrightarrow> wlp (pdi_write_raw env ds n s) (fw_inv b)"
  by (induction n arbitrary: ds s) (auto intro!: keeps_bind split: list.splits)

lemma send_address_wlp [keeps, THEN wlp_bindI, keeps_bind]:
  "fw_inv b s \<Longrightarrow> wlp (send_address env n a s) (fw_inv b)"
  by (induction n arbitrary: a s) (auto intro!: keeps_bind)


lemma pdi_read_byte_wlp [keeps, THEN wlp_bindI, keeps_bind]:
  "fw_inv b s \<Longrightarrow> wlp (pdi_read_byte env a d s) (\<lambda>(r, s'). fw_inv b s')"
  unfolding pdi_read_byte_def by (auto intro!: keeps_bind)

lemma pdi_write_byte_wlp [keeps, THEN wlp_bindI, keeps_bind]:
  "fw_inv b s \<Longrightarrow> wlp (pdi_write_byte env a d s) (\<lambda>(r, s'). fw_inv b s')"
  unfolding pdi_write_byte_def by (auto intro!: keeps_bind)

lemma pdi_set_pointer_repeat_wlp [keeps, THEN wlp_bindI, keeps_bind]:
  "fw_inv b s \<Longrightarrow> wlp (pdi_set_pointer_repeat env a n s) (fw_inv b)"
  unfolding pdi_set_pointer_repeat_def Let_def by (auto intro!: keeps_bind keeps)

lemma read_loop_wlp:
  fixes s :: "'a lucax_scheme"
  shows "fw_inv b s \<Longrightarrow> wlp (read_loop env d c n s) (\<lambda>((r, d'), s'). fw_inv b s' \<and> length d' = length d)"
proof (induction n arbitrary: d c s)
  case (Suc n)
  have "wlp (read_loop env (d[c := v]) (Suc c) n s1) (\<lambda>((r, d'), s'). fw_inv b s' \<and> length d' = length d)" if "fw_inv b s1" for v and s1 :: "'a lucax_scheme"
    using Suc.IH [OF that, of "d[c := v]"] by simp
  with Suc.prems show ?case by (auto intro!: keeps_bind)
qed simp

lemma pdi_read_bytes_wlp [keeps, THEN wlp_bindI, keeps_bind]:
  "fw_inv b s \<Longrightarrow> wlp (pdi_read_bytes env a d n s) (\<lambda>((r, d'), s'). fw_inv b s' \<and> length d' = length d)"
  unfolding pdi_read_bytes_def by (auto intro!: keeps_bind read_loop_wlp)

lemma pdi_write_bytes_wlp [keeps, THEN wlp_bindI, keeps_bind]:
  "fw_inv b s \<Longrightarrow> wlp (pdi_write_bytes env a d n s) (\<lambda>(r, s'). fw_inv b s')"
  unfolding pdi_write_bytes_def by (auto intro!: keeps_bind)

lemma nvmen_poll_wlp [keeps, THEN wlp_bindI, keeps_bind]:
  "fw_inv b s \<Longrightarrow> wlp (nvmen_poll env n s) (\<lambda>(r, s'). fw_inv b s')"
  by (induction n arbitrary: s) (auto intro!: keeps_bind)

text \<open>Entering programming mode sets the direction, whatever it was; leaving it switches the driver off.\<close>

lemma pdi_init_wlp [keeps, THEN wlp_bindI, keeps_bind]:
  assumes "fw_inv b s"
  shows "wlp (pdi_init env f s) (\<lambda>(r, s'). fw_inv False s')"
proof -
  define prep where "prep = (\<lambda>s :: 'a lucax_scheme. set_bits env PORTD TX (delay_us 10 (usart_setup (ucast ((8000 :: u32) div ucast f))
    (set_bits env DDRD (CLK OR TX) (clear_bits env DDRD RX (clear_bits env PORTD (TX OR RX OR CLK) (s\<lparr>char_us := 12000 div f\<rparr>)))))))"
  have start: "fw_inv True (pin_default_state env (usart_tx_mode (prep s)))"
  proof -
    have "fw_inv b (prep s)" using assms by (simp add: prep_def reg_defs usart_setup_def Let_def)
    then have "fw_inv True (usart_tx_mode (prep s))" by (rule fw_inv_set_mode)
    then show ?thesis by (simp add: pin_default_state_def reg_defs Let_def)
  qed
  have fin: "wlp (if r = NO_ERROR then Some (NO_ERROR, s1\<lparr>pdi_on := 1\<rparr>) else Some (TIME_OUT, s1)) (\<lambda>(r, s'). fw_inv False s')"
    if "fw_inv True s1" for r and s1 :: "'a lucax_scheme"
    using fw_inv_on [OF that] fw_inv_weaken [OF that] by simp
  have rest: "wlp (do {
        s \<leftarrow> send_idles env 2 s1; s \<leftarrow> send_byte env (PDI_STORE_CONTROL_REG OR PDI_CTRL_REG) s; s \<leftarrow> send_byte env 0x03 s;
        s \<leftarrow> send_idle env s; s \<leftarrow> send_byte env (PDI_STORE_CONTROL_REG OR PDI_RESET_REG) s;
        s \<leftarrow> send_byte env PDI_RESET_SIGNATURE s; s \<leftarrow> send_idle env s; s \<leftarrow> pdi_write_raw env pdi_key_bytes 9 s;
        s \<leftarrow> send_idles env 2 s; (r, s) \<leftarrow> nvmen_poll env 200 s;
        if r = NO_ERROR then Some (NO_ERROR, s\<lparr>pdi_on := 1\<rparr>) else Some (TIME_OUT, s) }) (\<lambda>(r, s'). fw_inv False s')"
    if "fw_inv True s1" for s1 :: "'a lucax_scheme"
    by (rule keeps_bind, (rule that | assumption))+ (use fin in \<open>simp only: split_paired_all prod.case\<close>)
  show ?thesis
    unfolding pdi_init_def Let_def using rest [OF start] by (simp add: prep_def cong del: if_weak_cong)
qed

lemma pdi_exit_wlp [keeps, THEN wlp_bindI, keeps_bind]:
  assumes "fw_inv b s"
  shows "wlp (pdi_exit env s) (fw_inv False)"
proof -
  have fin: "wlp (let s = usart_disconnect s1; s = clear_bits env PORTD (CLK OR TX OR RX) s; s = clear_bits env DDRD (CLK OR TX OR RX) s
      in Some (s\<lparr>pdi_on := 0\<rparr>)) (fw_inv False)" if "fw_inv b s1" for s1 :: "'a lucax_scheme"
    using that by (simp add: fw_inv_def Let_def reg_defs usart_disconnect_def emit_def)
  show ?thesis
    unfolding pdi_exit_def by (rule keeps_bind, (rule assms | assumption))+ (rule fin)
qed

subsection \<open>The memory controller\<close>

lemma nvm_pointer_wlp [keeps, THEN wlp_bindI, keeps_bind]:
  "fw_inv b s \<Longrightarrow> wlp (nvm_pointer env c s) (fw_inv b)"
  unfolding nvm_pointer_def by (rule keeps)

lemma nvm_cmd_wlp [keeps, THEN wlp_bindI, keeps_bind]:
  "fw_inv b s \<Longrightarrow> wlp (nvm_cmd env c s) (fw_inv b)"
  unfolding nvm_cmd_def by (auto intro!: keeps_bind)

lemma trig_cmdex_wlp [keeps, THEN wlp_bindI, keeps_bind]:
  "fw_inv b s \<Longrightarrow> wlp (trig_cmdex env s) (fw_inv b)"
  unfolding trig_cmdex_def by (auto intro!: keeps_bind)

lemma wait_nvm_loop_wlp [keeps, THEN wlp_bindI, keeps_bind]:
  "fw_inv b s \<Longrightarrow> wlp (wait_nvm_loop env w s) (\<lambda>(r, s'). fw_inv b s')"
proof (induction env w s rule: wait_nvm_loop.induct)
  case (1 env w s)
  have pre: "wlp (pdi_read_byte env (PDI_MEMORY_BASE + NVM_BASE + NVM_STATUS) 0 s) (\<lambda>(r, s'). fw_inv b s')"
    by (rule keeps) (rule "1.prems")
  have "wlp (if status AND push_bit 7 1 = 0 then Some (Inr (w - 1), s1) else wait_nvm_loop env (w - 1) (delay_ms 1 s1)) (\<lambda>(r, s'). fw_inv b s')"
    if "pdi_read_byte env (PDI_MEMORY_BASE + NVM_BASE + NVM_STATUS) 0 s = Some ((NO_ERROR, status), s1)" "w \<noteq> 0" for status s1
  proof -
    have "fw_inv b s1" using wlpD [OF pre that(1)] by simp
    then show ?thesis using "1.IH" [OF that(2,1)] by (auto simp: reg_defs)
  qed
  then show ?case
    using wlpD [OF pre] "1.prems"
    by (subst wait_nvm_loop.simps)
      (cases "pdi_read_byte env (PDI_MEMORY_BASE + NVM_BASE + NVM_STATUS) 0 s", auto simp: split_def split: prod.splits)
qed

lemma wait_nvm_wlp [keeps, THEN wlp_bindI, keeps_bind]:
  "fw_inv b s \<Longrightarrow> wlp (wait_nvm env s) (\<lambda>(r, s'). fw_inv b s')"
  unfolding wait_nvm_def by (auto intro!: keeps_bind split: sum.splits)

lemma nvm_chip_erase_wlp [keeps, THEN wlp_bindI, keeps_bind]:
  "fw_inv b s \<Longrightarrow> wlp (nvm_chip_erase env s) (\<lambda>(r, s'). fw_inv b s')"
  unfolding nvm_chip_erase_def by (auto intro!: keeps_bind keeps)

lemma nvm_read_byte_wlp [keeps, THEN wlp_bindI, keeps_bind]:
  "fw_inv b s \<Longrightarrow> wlp (nvm_read_byte env a d s) (\<lambda>(r, s'). fw_inv b s')"
  unfolding nvm_read_byte_def by (auto intro!: keeps_bind keeps)

lemma nvm_read_bytes_wlp [keeps, THEN wlp_bindI, keeps_bind]:
  "fw_inv b s \<Longrightarrow> wlp (nvm_read_bytes env a d n s) (\<lambda>((r, d'), s'). fw_inv b s' \<and> length d' = length d)"
  unfolding nvm_read_bytes_def by (auto intro!: keeps_bind keeps)

lemma nvm_write_byte_wlp [keeps, THEN wlp_bindI, keeps_bind]:
  assumes "fw_inv b s"
  shows "wlp (nvm_write_byte env a d m s) (\<lambda>(r, s'). fw_inv b s')"
proof -
  have "wlp (if m = LOCK then trig_cmdex env s1 else Some s1) (fw_inv b)" if "fw_inv b s1" for s1 :: "'a lucax_scheme"
    using that by (auto intro!: keeps)
  note [THEN wlp_bindI, keeps_bind] = this
  show ?thesis using assms unfolding nvm_write_byte_def by (auto intro!: keeps_bind keeps)
qed

lemma nvm_paged_write_wlp [keeps, THEN wlp_bindI, keeps_bind]:
  "fw_inv b s \<Longrightarrow> wlp (nvm_paged_write env a d n m s) (\<lambda>(r, s'). fw_inv b s')"
  unfolding nvm_paged_write_def by (rule keeps_bind keeps | assumption | clarify)+

subsection \<open>The endpoints\<close>

lemma endpoint_keeps [simp]:
  "fw_inv b (Endpoint_SelectEndpoint n s) = fw_inv b s" "fw_inv b (Endpoint_EnableEndpoint env s) = fw_inv b s"
  "fw_inv b (Endpoint_DisableEndpoint env s) = fw_inv b s" "fw_inv b (Endpoint_StallTransaction env s) = fw_inv b s"
  "fw_inv b (Endpoint_ClearSETUP env s) = fw_inv b s" "fw_inv b (Endpoint_ClearIN env s) = fw_inv b s"
  "fw_inv b (Endpoint_ClearOUT env s) = fw_inv b s" "fw_inv b (Endpoint_Write_8 d s) = fw_inv b s"
  "fw_inv b (snd (Endpoint_GetEndpointDirection env s)) = fw_inv b s" "fw_inv b (snd (Endpoint_GetCurrentEndpoint env s)) = fw_inv b s"
  "fw_inv b (snd (Endpoint_BytesInEndpoint env s)) = fw_inv b s" "fw_inv b (snd (flag_set env r m s)) = fw_inv b s"
  "fw_inv b (snd (Endpoint_Read_8 env s)) = fw_inv b s" "fw_inv b (snd (Endpoint_Read_32_LE env s)) = fw_inv b s"
  "fw_inv b (snd (USB_Device_GetFrameNumber env s)) = fw_inv b s" "fw_inv b (snd (rd env r s)) = fw_inv b s"
  by (simp_all add: endpoint_defs reg_defs Let_def)

lemma buffer_reads [simp]:
  "buffer (snd (Endpoint_Read_8 env s)) = buffer s"
  by (simp add: Endpoint_Read_8_def rd_def emit_def)

lemmas endpoint_flags = Endpoint_IsReadWriteAllowed_def Endpoint_IsConfigured_def Endpoint_IsINReady_def
  Endpoint_IsOUTReceived_def Endpoint_IsSETUPReceived_def Endpoint_IsStalled_def

lemma flag_keeps [simp]:
  "fw_inv b (snd (Endpoint_IsReadWriteAllowed env s)) = fw_inv b s" "fw_inv b (snd (Endpoint_IsConfigured env s)) = fw_inv b s"
  "fw_inv b (snd (Endpoint_IsINReady env s)) = fw_inv b s" "fw_inv b (snd (Endpoint_IsOUTReceived env s)) = fw_inv b s"
  "fw_inv b (snd (Endpoint_IsSETUPReceived env s)) = fw_inv b s" "fw_inv b (snd (Endpoint_IsStalled env s)) = fw_inv b s"
  by (simp_all add: endpoint_flags)

lemma flag_buffer [simp]:
  "buffer (snd (Endpoint_IsReadWriteAllowed env s)) = buffer s" "buffer (snd (Endpoint_BytesInEndpoint env s)) = buffer s"
  by (simp_all add: endpoint_flags flag_set_def Endpoint_BytesInEndpoint_def reg_defs emit_def Let_def)

lemma ep_configure_keeps [simp]: "fw_inv b (snd (ep_configure_from env n c0 c1 k e s)) = fw_inv b s"
proof (induction k arbitrary: e s)
  case (Suc k)
  then show ?case by (auto simp: Let_def split_def reg_defs)
qed simp

lemma Endpoint_ConfigureEndpoint_wlp [keeps, THEN wlp_bindI, keeps_bind]:
  "fw_inv b s \<Longrightarrow> wlp (Endpoint_ConfigureEndpoint env a t sz k s) (\<lambda>(r, s'). fw_inv b s')"
  unfolding Endpoint_ConfigureEndpoint_def Endpoint_ConfigureEndpoint_Prv_def
  by (cases "Endpoint_BytesToEPSizeMask sz") (simp_all add: Let_def split_def)

text \<open>The loops that wait for the controller.\<close>

lemma wait_out_keeps: "wait_out_or_detach env s = Some x \<Longrightarrow> fw_inv b s \<Longrightarrow> fw_inv b (snd x)"
  by (induction rule: wait_out_or_detach.raw_induct [rotated, consumes 1]) (auto simp: Let_def split_def split: if_splits)

lemma wait_in_keeps: "wait_in_or_detach env s = Some x \<Longrightarrow> fw_inv b s \<Longrightarrow> fw_inv b (snd x)"
  by (induction rule: wait_in_or_detach.raw_induct [rotated, consumes 1]) (auto simp: Let_def split_def split: if_splits)

lemma wait_ready_keeps: "wait_ready_loop env k p s = Some x \<Longrightarrow> fw_inv b s \<Longrightarrow> fw_inv b (snd x)"
  by (induction rule: wait_ready_loop.raw_induct [rotated, consumes 1]) (auto simp: Let_def split_def split: if_splits)

lemma control_out_keeps: "control_out_wait env s = Some x \<Longrightarrow> fw_inv b s \<Longrightarrow> fw_inv b (snd x)"
  by (induction rule: control_out_wait.raw_induct [rotated, consumes 1]) (auto simp: Let_def split_def split: if_splits)

lemma control_in_keeps: "control_in_wait env s = Some x \<Longrightarrow> fw_inv b s \<Longrightarrow> fw_inv b (snd x)"
  by (induction rule: control_in_wait.raw_induct [rotated, consumes 1]) (auto simp: Let_def split_def split: if_splits)

lemma fill_bank_keeps: "fill_bank d n f s = Some x \<Longrightarrow> fw_inv b s \<Longrightarrow> fw_inv b (snd x)"
  by (induction d n f s rule: fill_bank.induct) (auto split: if_splits list.splits)

lemma write_control_keeps: "write_control_loop env d n f s = Some x \<Longrightarrow> fw_inv b s \<Longrightarrow> fw_inv b (snd x)"
proof (induction rule: write_control_loop.raw_induct [rotated, consumes 1])
  case (1 loop env d n f s x)
  have fill: "fw_inv b (snd y)" if "fill_bank d n fl (snd (Endpoint_BytesInEndpoint env s1)) = Some y" "fw_inv b s1" for fl y s1
    using fill_bank_keeps [OF that(1), of b] that(2) by simp
  show ?case
    using 1(2,3) by (auto simp: Let_def split_def bind_eq_Some_conv split: if_splits dest!: fill 1(1))
qed

lemma drain_bank_keeps: "drain_bank env i n s = Some x \<Longrightarrow> fw_inv b s \<Longrightarrow> fw_inv b (snd x)"
  by (induction rule: drain_bank.raw_induct [rotated, consumes 1]) (auto simp: Let_def split_def split: if_splits)

lemma read_control_keeps: "read_control_loop env i n s = Some x \<Longrightarrow> fw_inv b s \<Longrightarrow> fw_inv b (snd x)"
  by (induction rule: read_control_loop.raw_induct [rotated, consumes 1])
    (auto simp: Let_def split_def bind_eq_Some_conv split: if_splits dest!: drain_bank_keeps [where b = b])


text \<open>The streams run the task, which has to keep the invariant too.\<close>

definition task_keeps :: "('a lucax_scheme \<Rightarrow> 'a lucax_scheme option) \<Rightarrow> bool" where
  "task_keeps task \<longleftrightarrow> (\<forall>s s'. fw_inv False s \<longrightarrow> task s = Some s' \<longrightarrow> fw_inv False s')"

lemma task_keepsD: "task_keeps task \<Longrightarrow> task s = Some s' \<Longrightarrow> fw_inv False s \<Longrightarrow> fw_inv False s'"
  by (simp add: task_keeps_def)

lemma wait_until_keeps: "Endpoint_WaitUntilReady env s = Some x \<Longrightarrow> fw_inv b s \<Longrightarrow> fw_inv b (snd x)"
  unfolding Endpoint_WaitUntilReady_def
  by (auto simp: split_def Let_def dest!: wait_ready_keeps [where b = b])

lemma write_stream_keeps:
  "write_stream_loop env task bp i n k s = Some x \<Longrightarrow> task_keeps task \<Longrightarrow> fw_inv False s \<Longrightarrow> fw_inv False (snd x)"
proof (induction rule: write_stream_loop.raw_induct [rotated, consumes 1])
  case (1 loop env task bp i n k s x)
  have t: "fw_inv False s2" if "task (Endpoint_ClearIN env (snd (Endpoint_IsReadWriteAllowed env s))) = Some s2" for s2
    using task_keepsD [OF 1(3) that] 1(4) by simp
  show ?case
    using 1(2,4)
    by (auto simp: Let_def split_def bind_eq_Some_conv split: if_splits option.splits
        dest!: t wait_until_keeps [where b = False] 1(1) [OF _ 1(3)])
qed

lemma read_stream_keeps:
  "read_stream_loop env task bp i n k s = Some x \<Longrightarrow> task_keeps task \<Longrightarrow> fw_inv False s \<Longrightarrow> fw_inv False (snd x)"
proof (induction rule: read_stream_loop.raw_induct [rotated, consumes 1])
  case (1 loop env task bp i n k s x)
  have t: "fw_inv False s2" if "task (Endpoint_ClearOUT env (snd (Endpoint_IsReadWriteAllowed env s))) = Some s2" for s2
    using task_keepsD [OF 1(3) that] 1(4) by simp
  show ?case
    using 1(2,4)
    by (auto simp: Let_def split_def bind_eq_Some_conv split: if_splits option.splits
        dest!: t wait_until_keeps [where b = False] 1(1) [OF _ 1(3)])
qed

lemma snd_wlp: "(\<And>x. m = Some x \<Longrightarrow> P (snd x)) \<Longrightarrow> wlp m (\<lambda>(r, s'). P s')"
  by (auto simp: wlp_def)

lemma Endpoint_Write_Stream_wlp [keeps, THEN wlp_bindI, keeps_bind]:
  "task_keeps task \<Longrightarrow> fw_inv False s \<Longrightarrow> wlp (Endpoint_Write_Stream_LE env task i n bp s) (\<lambda>(r, s'). fw_inv False s')"
  unfolding Endpoint_Write_Stream_LE_def
  by (rule snd_wlp) (auto simp: bind_eq_Some_conv split: if_splits option.splits
      dest!: wait_until_keeps [where b = False] write_stream_keeps)

lemma Endpoint_Read_Stream_wlp [keeps, THEN wlp_bindI, keeps_bind]:
  "task_keeps task \<Longrightarrow> fw_inv False s \<Longrightarrow> wlp (Endpoint_Read_Stream_LE env task i n bp s) (\<lambda>(r, s'). fw_inv False s')"
  unfolding Endpoint_Read_Stream_LE_def
  by (rule snd_wlp) (auto simp: bind_eq_Some_conv split: if_splits option.splits
      dest!: wait_until_keeps [where b = False] read_stream_keeps)

lemma write_control_wlp: "fw_inv b s \<Longrightarrow> wlp (write_control_loop env d n f s) (\<lambda>(r, s'). fw_inv b s')"
  by (rule snd_wlp) (rule write_control_keeps)

lemma read_control_wlp: "fw_inv b s \<Longrightarrow> wlp (read_control_loop env i n s) (\<lambda>(r, s'). fw_inv b s')"
  by (rule snd_wlp) (rule read_control_keeps)

lemma control_wait_wlp:
  "fw_inv b s \<Longrightarrow> wlp (control_out_wait env s) (\<lambda>(r, s'). fw_inv b s')"
  "fw_inv b s \<Longrightarrow> wlp (control_in_wait env s) (\<lambda>(r, s'). fw_inv b s')"
  by (rule snd_wlp, erule (1) control_out_keeps) (rule snd_wlp, erule (1) control_in_keeps)

lemma Endpoint_Write_Control_wlp [keeps, THEN wlp_bindI, keeps_bind]:
  assumes "fw_inv b s"
  shows "wlp (Endpoint_Write_Control_Stream_LE env d n s) (\<lambda>(r, s'). fw_inv b s')"
proof -
  have rest: "wlp (do { (r, s) \<leftarrow> write_control_loop env d k False s1;
      case r of Some e \<Rightarrow> Some (e, s) | None \<Rightarrow> control_out_wait env s }) (\<lambda>(r, s'). fw_inv b s')"
    if "fw_inv b s1" for k and s1 :: "'a lucax_scheme"
    by (rule wlp_bindI [OF write_control_wlp [OF that]]) (auto split: option.splits intro: control_wait_wlp)
  show ?thesis
    using rest assms unfolding Endpoint_Write_Control_Stream_LE_def by simp
qed

lemma Endpoint_Read_Control_wlp [keeps, THEN wlp_bindI, keeps_bind]:
  assumes "fw_inv b s"
  shows "wlp (Endpoint_Read_Control_Stream_LE env n s) (\<lambda>(r, s'). fw_inv b s')"
proof -
  have rest: "wlp (do { (r, s) \<leftarrow> read_control_loop env 0 (unat n) s1;
      case r of Some e \<Rightarrow> Some (e, s) | None \<Rightarrow> control_in_wait env s }) (\<lambda>(r, s'). fw_inv b s')"
    if "fw_inv b s1" for s1 :: "'a lucax_scheme"
    by (rule wlp_bindI [OF read_control_wlp [OF that]]) (auto split: option.splits intro: control_wait_wlp)
  show ?thesis
    using rest assms unfolding Endpoint_Read_Control_Stream_LE_def Let_def by simp
qed

lemma Endpoint_ClearStatusStage_wlp [keeps, THEN wlp_bindI, keeps_bind]:
  "fw_inv b s \<Longrightarrow> wlp (Endpoint_ClearStatusStage env s) (fw_inv b)"
  unfolding Endpoint_ClearStatusStage_def
  by (rule wlpI) (auto simp: bind_eq_Some_conv split: if_splits dest!: wait_out_keeps [where b = b] wait_in_keeps [where b = b])

subsection \<open>The request handlers\<close>

lemma read_32_keeps: "Endpoint_Read_32_LE env s = (a, s') \<Longrightarrow> fw_inv b s' = fw_inv b s"
  using endpoint_keeps(14) [where b = b and env = env and s = s] by simp

lemma receive_address_wlp [keeps, THEN wlp_bindI, keeps_bind]:
  "fw_inv b s \<Longrightarrow> wlp (receive_address env s) (\<lambda>(a, s'). fw_inv b s')"
  unfolding receive_address_def Let_def
  by (auto intro!: keeps_bind simp: read_32_keeps split: prod.splits)

lemma in_ready_keeps [simp]: "fw_inv b (in_ready_poll env n s) = fw_inv b s"
proof (induction env n s rule: in_ready_poll.induct)
  case (1 env n s)
  then show ?case
    by (subst in_ready_poll.simps) (cases "Endpoint_IsINReady env s", use flag_keeps(3) [where b = b and env = env and s = s] in auto)
qed

lemma out_received_keeps: "fw_inv b (snd (out_received_poll env n s)) = fw_inv b s"
proof (induction env n s rule: out_received_poll.induct)
  case (1 env n s)
  then show ?case
    by (subst out_received_poll.simps) (cases "Endpoint_IsOUTReceived env s", use flag_keeps(4) [where b = b and env = env and s = s] in auto)
qed

lemma send_packets_wlp [keeps, THEN wlp_bindI, keeps_bind]:
  assumes "task_keeps task"
  shows "fw_inv False s \<Longrightarrow> wlp (send_packets env task n k s) (fw_inv False)"
proof (induction "unat n" arbitrary: n k s rule: less_induct)
  case less
  define p where "p = (if n > VENDOR_IO_EPSIZE_IN then VENDOR_IO_EPSIZE_IN else n)"
  show ?case
  proof (cases "n = 0")
    case False
    have "unat (n - p) < unat n"
      using False by (auto simp: p_def VENDOR_IO_EPSIZE_IN_def unat_sub word_less_nat_alt word_le_nat_alt unat_gt_0 split: if_splits)
    note ih = less.hyps [OF this]
    have "wlp (do { (_, s) \<leftarrow> Endpoint_Write_Stream_LE env task (unat k) p None (in_ready_poll env 30000 s);
        send_packets env task (n - p) (k + p) (Endpoint_ClearIN env s) }) (fw_inv False)"
      using less.prems assms by (auto intro!: keeps_bind ih)
    with False show ?thesis by (subst send_packets.simps) (simp only: Let_def p_def if_False)
  qed (subst send_packets.simps, simp add: less.prems)
qed

lemma receive_packets_wlp [keeps, THEN wlp_bindI, keeps_bind]:
  assumes "task_keeps task"
  shows "fw_inv False s \<Longrightarrow> wlp (receive_packets env task n k s) (\<lambda>(r, s'). fw_inv False s')"
proof (induction "unat n" arbitrary: n k s rule: less_induct)
  case less
  define p where "p = (if n > VENDOR_IO_EPSIZE_OUT then VENDOR_IO_EPSIZE_OUT else n)"
  obtain ok s1 where o: "out_received_poll env 0xFFFF s = (ok, s1)" by fastforce
  then have s1: "fw_inv False s1" using out_received_keeps [where b = False and env = env and n = "0xFFFF" and s = s] less.prems by simp
  show ?case
  proof (cases "n = 0")
    case False
    have "unat (n - p) < unat n"
      using False by (auto simp: p_def VENDOR_IO_EPSIZE_OUT_def unat_sub word_less_nat_alt word_le_nat_alt unat_gt_0 split: if_splits)
    note ih = less.hyps [OF this]
    have "wlp (do { (_, s) \<leftarrow> Endpoint_Read_Stream_LE env task (unat k) p None s1;
        receive_packets env task (n - p) (k + p) (Endpoint_ClearOUT env s) }) (\<lambda>(r, s'). fw_inv False s')"
      using s1 assms by (auto intro!: keeps_bind ih)
    with False s1 o show ?thesis
      by (subst receive_packets.simps) (simp add: p_def [symmetric] Let_def)
  qed (subst receive_packets.simps, simp add: less.prems)
qed

lemma request_buffer [simp]:
  "buffer (Endpoint_ClearSETUP env s) = buffer s" "buffer (Endpoint_SelectEndpoint n s) = buffer s"
  by (simp_all add: endpoint_defs reg_defs emit_def Let_def)

lemma fw_inv_new_buffer: "fw_inv b s \<Longrightarrow> length xs = length (buffer t) \<Longrightarrow> fw_inv c t \<Longrightarrow> fw_inv b (s\<lparr>buffer := xs\<rparr>)"
  by (simp add: fw_inv_buffer)

lemma lucax_get_descriptor_wlp [keeps]: "fw_inv b s \<Longrightarrow> wlp (lucax_get_descriptor env s) (fw_inv b)"
  unfolding lucax_get_descriptor_def Let_def by (rule keeps) simp

lemma lucax_report_error_wlp [keeps]: "fw_inv b s \<Longrightarrow> wlp (lucax_report_error env s) (fw_inv b)"
  unfolding lucax_report_error_def Let_def by (rule keeps) simp

lemma lucax_release_interface_wlp [keeps]: "fw_inv False s \<Longrightarrow> wlp (lucax_release_interface env s) (fw_inv False)"
  unfolding lucax_release_interface_def Let_def by (auto intro!: keeps_bind)

lemma lucax_pdi_init_wlp [keeps]: "fw_inv False s \<Longrightarrow> wlp (lucax_pdi_init env s) (fw_inv False)"
  unfolding lucax_pdi_init_def by (auto intro!: keeps_bind keeps)

lemma lucax_pdi_chip_erase_wlp [keeps]: "fw_inv False s \<Longrightarrow> wlp (lucax_pdi_chip_erase env s) (fw_inv False)"
  unfolding lucax_pdi_chip_erase_def by (auto intro!: keeps_bind keeps)

lemma lucax_pdi_nvm_read_wlp [keeps]:
  "task_keeps task \<Longrightarrow> fw_inv False s \<Longrightarrow> wlp (lucax_pdi_nvm_read env task s) (fw_inv False)"
  unfolding lucax_pdi_nvm_read_def Let_def by (auto intro!: keeps_bind keeps) (assumption | erule (2) fw_inv_new_buffer)+

lemma lucax_pdi_nvm_write_page_wlp [keeps]:
  "task_keeps task \<Longrightarrow> fw_inv False s \<Longrightarrow> wlp (lucax_pdi_nvm_write_page env task s) (fw_inv False)"
  unfolding lucax_pdi_nvm_write_page_def Let_def by (auto intro!: keeps_bind keeps split: option.splits)

lemma lucax_pdi_nvm_write_byte_wlp [keeps]: "fw_inv False s \<Longrightarrow> wlp (lucax_pdi_nvm_write_byte env s) (fw_inv False)"
  unfolding lucax_pdi_nvm_write_byte_def Let_def by (auto intro!: keeps_bind)

lemma lucax_pdi_raw_read_wlp [keeps]: "fw_inv False s \<Longrightarrow> wlp (lucax_pdi_raw_read env s) (fw_inv False)"
  unfolding lucax_pdi_raw_read_def Let_def by (auto intro!: keeps_bind keeps intro: fw_inv_new_buffer)

lemma lucax_pdi_raw_write_wlp [keeps]: "fw_inv False s \<Longrightarrow> wlp (lucax_pdi_raw_write env s) (fw_inv False)"
  unfolding lucax_pdi_raw_write_def Let_def by (auto intro!: keeps_bind)

lemma control_request_wlp:
  assumes "task_keeps task" and "fw_inv False s"
  shows "wlp (EVENT_USB_Device_ControlRequest env task s) (fw_inv False)"
  unfolding EVENT_USB_Device_ControlRequest_def Let_def
  using assms by (intro wlp_if) (simp_all add: keeps)

lemma configuration_changed_wlp: "fw_inv False s \<Longrightarrow> wlp (EVENT_USB_Device_ConfigurationChanged env s) (fw_inv False)"
  unfolding EVENT_USB_Device_ConfigurationChanged_def by (auto intro!: keeps_bind)


subsection \<open>Runs of the firmware\<close>

text \<open>
  After power-up the buffer is zero and programming mode is off, and the stack is initialised. One step
  is a call of the stack's task in the main loop, or the interrupt routine of the bus between two of
  them, with the registers reading anything. (What the routine does in the middle of a task, other
  than resetting the configuration number, is part of what the task reads.)
\<close>

definition powered_up :: "'a lucax_scheme \<Rightarrow> bool" where
  "powered_up s \<longleftrightarrow> buffer s = replicate (unat MAX_BUFFER) 0 \<and> last_op s = 0 \<and> pdi_on s = 0"

inductive fw_run :: "'a usb_device_scheme \<Rightarrow> bool" where
  fw_start: "powered_up s \<Longrightarrow> USB_Init env s = Some s' \<Longrightarrow> fw_run (GlobalInterruptEnable env s')"
| fw_task: "fw_run s \<Longrightarrow> USB_DeviceTask env (standard_request env) depth s = Some s' \<Longrightarrow> fw_run s'"
| fw_interrupt: "fw_run s \<Longrightarrow> USB_GEN_vect env s = Some s' \<Longrightarrow> fw_run s'"

inductive_cases fw_runE: "fw_run s"

lemma read_setup_keeps [simp]: "fw_inv b (read_setup env s) = fw_inv b s"
  using endpoint_keeps(13) [where b = b and env = env] by (simp add: read_setup_def split_def Let_def)

lemma process_request_keeps:
  fixes s :: "'a lucax_scheme"
  assumes "USB_Device_ProcessControlRequest env std task s = Some s'" and "task_keeps std" and "task_keeps task" and "fw_inv False s"
  shows "fw_inv False s'"
proof -
  obtain s1 where s1: "EVENT_USB_Device_ControlRequest env task (read_setup env s) = Some s1"
    and rest: "(let (b, s) = Endpoint_IsSETUPReceived env s1 in do {
        s \<leftarrow> (if b then std s else Some s);
        let (b, s) = Endpoint_IsSETUPReceived env s;
        Some (if b then Endpoint_StallTransaction env (Endpoint_ClearSETUP env s) else s) }) = Some s'"
    using assms(1) by (auto simp: USB_Device_ProcessControlRequest_def bind_eq_Some_conv)
  have "fw_inv False (snd (Endpoint_IsSETUPReceived env s1))"
    using wlpD [OF control_request_wlp [OF assms(3)] s1] assms(4) by simp
  moreover obtain s2 where "(if fst (Endpoint_IsSETUPReceived env s1) then std (snd (Endpoint_IsSETUPReceived env s1))
      else Some (snd (Endpoint_IsSETUPReceived env s1))) = Some s2"
    "s' = (if fst (Endpoint_IsSETUPReceived env s2) then Endpoint_StallTransaction env (Endpoint_ClearSETUP env (snd (Endpoint_IsSETUPReceived env s2)))
      else snd (Endpoint_IsSETUPReceived env s2))"
    using rest by (auto simp: split_def Let_def bind_eq_Some_conv)
  ultimately show ?thesis
    using task_keepsD [OF assms(2)] by (auto split: if_splits)
qed

lemma device_task_keeps:
  assumes "task_keeps std"
  shows "task_keeps (USB_DeviceTask env std depth)"
proof (induction depth)
  case (Suc depth)
  have "fw_inv False s'" if "USB_DeviceTask env std (Suc depth) s = Some s'" "fw_inv False s" for s s' :: "'a lucax_scheme"
    using that
    by (auto simp: split_def Let_def bind_eq_Some_conv split: if_splits dest!: process_request_keeps [OF _ assms Suc])
  then show ?case by (simp add: task_keeps_def)
qed (simp add: task_keeps_def)

text \<open>The standard requests leave alone what the invariant is about.\<close>

interpretation inv_frame: usb_frame "fw_inv b" for b :: bool
  by unfold_locales (simp_all add: fw_inv_def usart_inv_def emit_def)

lemma standard_request_keeps: "task_keeps (standard_request env)"
  using inv_frame.standard_request_frame by (auto simp: task_keeps_def)

text \<open>C3: In every state the firmware reaches from power-up, whatever the host requests, the target answers
  and the registers read, its buffer has 1024 bytes, and while programming mode is on the direction
  the serial driver believes in is the one last written to the control register.\<close>

theorem firmware_invariant:
  assumes "fw_run s"
  shows "length (buffer s) = 1024 \<and> (pdi_on s \<noteq> 0 \<longrightarrow> usart_inv s)"
proof -
  have "fw_inv False s"
    using assms
  proof (induction rule: fw_run.induct)
    case (fw_start s env s')
    then have "fw_inv False s" by (simp add: powered_up_def fw_inv_def)
    then show ?case
      using inv_frame.init_frame [OF fw_start(2)] inv_frame.interrupts_on_frame by blast
  next
    case (fw_task s env depth s')
    then show ?case using task_keepsD [OF device_task_keeps [OF standard_request_keeps]] by blast
  next
    case (fw_interrupt s env s')
    then show ?case using inv_frame.interrupt_routine_frame by blast
  qed
  then show ?thesis by (simp add: fw_inv_def MAX_BUFFER_def)
qed

definition first_state :: usb_device where
  "first_state = first_request\<lparr>buffer := replicate (unat MAX_BUFFER) 0\<rparr>"

text \<open>Initialisation, and a device task while the bus is not attached.\<close>

theorem firmware_invariant_witness:
  "\<exists>s s'. USB_Init (\<lambda>_ _. 0) first_state = Some s \<and>
     USB_DeviceTask (\<lambda>_ _. 0) (standard_request (\<lambda>_ _. 0)) 1 (GlobalInterruptEnable (\<lambda>_ _. 0) s) = Some s' \<and>
     length (buffer s') = 1024 \<and> (pdi_on s' \<noteq> 0 \<longrightarrow> usart_inv s')"
proof -
  have up: "powered_up first_state" by (simp add: powered_up_def first_state_def first_request_def)
  obtain s where s: "USB_Init (\<lambda>_ _. 0) first_state = Some s" using usb_init_ends by blast
  let ?s = "GlobalInterruptEnable (\<lambda>_ _. 0) s"
  have start: "fw_run ?s" using up s by (rule fw_start)
  have step: "USB_DeviceTask (\<lambda>_ _. 0) (standard_request (\<lambda>_ _. 0)) 1 ?s = Some (emit (Rd USB_STATE) ?s)"
    by (simp add: rd_def DEVICE_STATE_Unattached_def)
  from firmware_invariant [OF fw_task [OF start step]] s step show ?thesis by blast
qed

end
