(* ===== verification/SoftUsart.thy ===== *)
theory SoftUsart
  imports Hw
begin

text \<open>
  The debug output of the firmware (\<^verbatim>\<open>src/SoftUsart.c\<close>): a serial transmitter on a port pin, bit by bit,
  and the printing of strings and hexadecimal numbers over it. The calls are commented out in the
  rest of the firmware.
\<close>

definition SOFT_USART_PIN :: nat where "SOFT_USART_PIN = 4"
definition SOFT_USART_BAUDRATE :: nat where "SOFT_USART_BAUDRATE = 57600"
definition SOFT_USART_STOP_BITS :: nat where "SOFT_USART_STOP_BITS = 1"

definition SOFT_USART_HIGH :: "env \<Rightarrow> 'a hw_scheme \<Rightarrow> 'a hw_scheme" where
  "SOFT_USART_HIGH env s = set_bits env PORTD (push_bit SOFT_USART_PIN 1) s"

definition SOFT_USART_LOW :: "env \<Rightarrow> 'a hw_scheme \<Rightarrow> 'a hw_scheme" where
  "SOFT_USART_LOW env s = clear_bits env PORTD (push_bit SOFT_USART_PIN 1) s"

definition SOFT_USART_BIT_DELAY :: "'a hw_scheme \<Rightarrow> 'a hw_scheme" where
  "SOFT_USART_BIT_DELAY s = delay_us (1000000 div SOFT_USART_BAUDRATE) s"

definition SoftUsart_setup :: "env \<Rightarrow> 'a hw_scheme \<Rightarrow> 'a hw_scheme" where
  "SoftUsart_setup env s =
     delay_ms 100 (SOFT_USART_HIGH env (set_bits env DDRD (push_bit SOFT_USART_PIN 1) s))"

text \<open>The mask loses its lowest bit in every round of the loop, so that it is zero after at most eight.\<close>

definition mask_low :: "u8 \<Rightarrow> nat" where
  "mask_low m = (if m = 0 then 8 else LEAST i. bit m i)"

lemma mask_low_shift:
  assumes "m \<noteq> 0"
  shows "mask_low m < 8" "mask_low m < mask_low (push_bit 1 m)"
proof -
  obtain i where i: "bit m i" using assms by (auto simp: bit_eq_iff)
  have low: "bit m (LEAST i. bit m i)" using i by (rule LeastI)
  then show lt: "mask_low m < 8" using assms bit_imp_le_length [OF low] by (simp add: mask_low_def)
  show "mask_low m < mask_low (push_bit 1 m)"
  proof (cases "push_bit 1 m = 0")
    case True
    then show ?thesis using lt by (simp add: mask_low_def)
  next
    case False
    then obtain j where "bit (push_bit 1 m) j" by (auto simp: bit_eq_iff)
    then have "bit (push_bit 1 m) (LEAST i. bit (push_bit 1 m) i)" by (rule LeastI)
    then have "1 \<le> (LEAST i. bit (push_bit 1 m) i)" "bit m ((LEAST i. bit (push_bit 1 m) i) - 1)"
      unfolding bit_push_bit_iff by blast+
    then have "(LEAST i. bit m i) < (LEAST i. bit (push_bit 1 m) i)"
      using Least_le [of "bit m"] by (metis Suc_pred' le_imp_less_Suc less_eq_Suc_le One_nat_def)
    then show ?thesis using assms False by (simp add: mask_low_def)
  qed
qed

text \<open>\<^verbatim>\<open>for(char bit = 1; bit != 0; bit<<=1)\<close>, with the mask in eight bits.\<close>

function send_bits :: "env \<Rightarrow> u8 \<Rightarrow> u8 \<Rightarrow> 'a hw_scheme \<Rightarrow> 'a hw_scheme" where
  "send_bits env data m s =
     (if m = 0 then s
      else send_bits env data (push_bit 1 m)
        (SOFT_USART_BIT_DELAY
          (if m AND data \<noteq> 0 then SOFT_USART_HIGH env s else SOFT_USART_LOW env s)))"
  by pat_completeness auto
termination
  by (relation "measure (\<lambda>(_, _, m, _). 8 - mask_low m)")
    (use mask_low_shift in \<open>force+\<close>)

declare send_bits.simps [simp del]

definition SoftUsart_send_char :: "env \<Rightarrow> u8 \<Rightarrow> 'a hw_scheme \<Rightarrow> 'a hw_scheme" where
  "SoftUsart_send_char env data s =
     (let s = SOFT_USART_LOW env s;
          s = SOFT_USART_BIT_DELAY s;
          s = send_bits env data 1 s;
          s = SOFT_USART_HIGH env s;
          s = SOFT_USART_BIT_DELAY s
      in if SOFT_USART_STOP_BITS = 2 then SOFT_USART_BIT_DELAY s else s)"

text \<open>A string is its characters up to the terminator.\<close>

fun SoftUsart_send_str :: "env \<Rightarrow> u8 list \<Rightarrow> 'a hw_scheme \<Rightarrow> 'a hw_scheme" where
  "SoftUsart_send_str env [] s = s"
| "SoftUsart_send_str env (c # cs) s = SoftUsart_send_str env cs (SoftUsart_send_char env c s)"

definition SoftUsart_print :: "env \<Rightarrow> u8 list \<Rightarrow> 'a hw_scheme \<Rightarrow> 'a hw_scheme" where
  "SoftUsart_print env c s =
     SoftUsart_send_char env 13 (SoftUsart_send_char env 10 (SoftUsart_send_str env c s))"

text \<open>The switch of \<^verbatim>\<open>print_nibble\<close>.\<close>

definition nibble_digit :: "u8 \<Rightarrow> u8" where
  "nibble_digit n = ([0x30, 0x31, 0x32, 0x33, 0x34, 0x35, 0x36, 0x37, 0x38, 0x39,
     0x41, 0x42, 0x43, 0x44, 0x45, 0x46] ! unat n)"

definition print_nibble :: "env \<Rightarrow> u8 \<Rightarrow> 'a hw_scheme \<Rightarrow> 'a hw_scheme" where
  "print_nibble env n s = SoftUsart_send_char env (nibble_digit (n AND 0x0F)) s"

definition SoftUsart_print_hex :: "env \<Rightarrow> u16 \<Rightarrow> 'a hw_scheme \<Rightarrow> 'a hw_scheme" where
  "SoftUsart_print_hex env h s =
     (let c = (ucast (drop_bit 8 h) :: u8);
          s = (if c \<noteq> 0 then print_nibble env c (print_nibble env (drop_bit 4 c) s) else s);
          c = (ucast (h AND 0xFF) :: u8)
      in print_nibble env c (print_nibble env (drop_bit 4 c) s))"

subsection \<open>What is on the line\<close>

text \<open>
  The level of the line in each bit time: what the pin was set to before each of the delays.
\<close>

fun levels :: "bool \<Rightarrow> io list \<Rightarrow> bool list" where
  "levels l [] = []"
| "levels l (Wr r v # es) = (if r = PORTD then levels (bit v SOFT_USART_PIN) es else levels l es)"
| "levels l (DelayUs n # es) = l # levels l es"
| "levels l (e # es) = levels l es"

text \<open>The level of the line at the end.\<close>

fun line :: "bool \<Rightarrow> io list \<Rightarrow> bool" where
  "line l [] = l"
| "line l (Wr r v # es) = (if r = PORTD then line (bit v SOFT_USART_PIN) es else line l es)"
| "line l (e # es) = line l es"

lemma levels_append: "levels l (xs @ ys) = levels l xs @ levels (line l xs) ys"
  by (induction l xs rule: levels.induct) simp_all

lemma line_append: "line l (xs @ ys) = line (line l xs) ys"
  by (induction l xs rule: line.induct) simp_all

text \<open>A receiver that waits for a start bit and takes eight bits, low bit first, and the stop bit.\<close>

fun receive :: "bool list \<Rightarrow> u8 list option" where
  "receive [] = Some []"
| "receive (False # b0 # b1 # b2 # b3 # b4 # b5 # b6 # b7 # True # bs) =
     map_option ((#) (horner_sum of_bool 2 [b0, b1, b2, b3, b4, b5, b6, b7])) (receive bs)"
| "receive bs = None"

definition frame_bits :: "u8 \<Rightarrow> bool list" where
  "frame_bits c = False # map (bit c) [0..<8] @ [True]"

lemma receive_frame: "receive (frame_bits c @ bs) = map_option ((#) c) (receive bs)"
proof -
  have "horner_sum of_bool 2 (map (bit c) [0..<8]) = c"
    by (rule bit_word_eqI) (simp add: bit_horner_sum_bit_word_iff)
  then show ?thesis by (simp add: frame_bits_def upt_rec)
qed

lemma pin_levels:
  "levels l (trace (SOFT_USART_BIT_DELAY s)) = levels l (trace s) @ [line l (trace s)]"
  "line l (trace (SOFT_USART_BIT_DELAY s)) = line l (trace s)"
  "levels l (trace (SOFT_USART_HIGH env s)) = levels l (trace s)" "line l (trace (SOFT_USART_HIGH env s))"
  "levels l (trace (SOFT_USART_LOW env s)) = levels l (trace s)" "\<not> line l (trace (SOFT_USART_LOW env s))"
  by (simp_all add: SOFT_USART_BIT_DELAY_def SOFT_USART_HIGH_def SOFT_USART_LOW_def hw_defs levels_append
      line_append SOFT_USART_PIN_def bit_or_iff bit_and_iff bit_not_iff bit_push_bit_iff Let_def)

lemma send_bits_levels:
  assumes "i \<le> 8"
  shows "levels l (trace (send_bits env c (push_bit i 1) s)) = levels l (trace s) @ map (bit c) [i..<8]"
  using assms
proof (induction "8 - i" arbitrary: i s)
  case 0
  then have "i = 8" by simp
  then show ?case by (subst send_bits.simps) (simp add: push_bit_eq_mult)
next
  case (Suc k)
  then have i: "i < 8" by simp
  have "bit (push_bit i 1 :: u8) i" using i unfolding bit_push_bit_iff by simp
  then have nz: "push_bit i 1 \<noteq> (0 :: u8)" by (metis bit_0_eq bot_apply bot_bool_def)
  have b: "push_bit i 1 AND c \<noteq> 0 \<longleftrightarrow> bit c i" using and_single_bit_eq_0 [of c i] by (simp add: and.commute)
  let ?s = "SOFT_USART_BIT_DELAY (if bit c i then SOFT_USART_HIGH env s else SOFT_USART_LOW env s)"
  have sh: "push_bit 1 (push_bit i 1) = (push_bit (Suc i) 1 :: u8)" by simp
  have "send_bits env c (push_bit i 1) s = send_bits env c (push_bit (Suc i) 1) ?s"
    using nz b by (subst send_bits.simps) (simp only: sh if_False)
  then have "levels l (trace (send_bits env c (push_bit i 1) s)) = levels l (trace ?s) @ map (bit c) [Suc i..<8]"
    using Suc.hyps(1) [of "Suc i" ?s] Suc.hyps(2) i by simp
  moreover have "[i..<8] = i # [Suc i..<8]" using i by (rule upt_conv_Cons)
  ultimately show ?case by (simp add: pin_levels)
qed

lemma send_char_levels:
  "levels l (trace (SoftUsart_send_char env c s)) = levels l (trace s) @ frame_bits c"
  using send_bits_levels [of 0 l env c "SOFT_USART_BIT_DELAY (SOFT_USART_LOW env s)"]
  by (simp add: SoftUsart_send_char_def SOFT_USART_STOP_BITS_def frame_bits_def pin_levels Let_def)

lemma send_str_levels:
  "levels l (trace (SoftUsart_send_str env cs s)) = levels l (trace s) @ concat (map frame_bits cs)"
  by (induction env cs s rule: SoftUsart_send_str.induct) (simp_all add: send_char_levels)

lemma receive_frames: "receive (concat (map frame_bits cs)) = Some cs"
  by (induction cs) (simp_all add: receive_frame)

text \<open>C30: A receiver that samples the line once per bit time gets the string that is printed, followed
  by line feed and carriage return, whatever the port reads back.\<close>

theorem print_received:
  "\<exists>out. levels l (trace (SoftUsart_print env cs s)) = levels l (trace s) @ out \<and>
     receive out = Some (cs @ [10, 13])"
  using receive_frames [of "cs @ [10, 13]"] by (simp add: SoftUsart_print_def send_char_levels send_str_levels)

text \<open>The digits of a number, without a high byte of zero.\<close>

lemma print_hex_received:
  "\<exists>out. levels l (trace (SoftUsart_print_hex env h s)) = levels l (trace s) @ out \<and>
     receive out = Some (map nibble_digit ((if drop_bit 8 h \<noteq> 0
       then [drop_bit 4 (ucast (drop_bit 8 h)) AND 0x0F, ucast (drop_bit 8 h) AND 0x0F] else []) @
       [drop_bit 4 (ucast (h AND 0xFF)) AND 0x0F, ucast (h AND 0xFF) AND 0x0F]))"
  (is "\<exists>out. ?L = _ @ out \<and> receive out = Some (map nibble_digit ?ns)")
proof -
  have "(ucast (drop_bit 8 h) :: u8) = 0 \<longleftrightarrow> drop_bit 8 h = 0"
  proof
    assume z: "(ucast (drop_bit 8 h) :: u8) = 0"
    show "drop_bit 8 h = 0"
    proof (rule bit_word_eqI)
      fix n assume "n < LENGTH(16)"
      moreover have "\<not> bit (ucast (drop_bit 8 h) :: u8) n" by (simp only: z bit_0_eq) simp
      ultimately show "bit (drop_bit 8 h) n = bit 0 n"
        using bit_imp_le_length [of h "8 + n"] by (auto simp: bit_ucast_iff bit_drop_bit_eq)
    qed
  qed simp
  then have "?L = levels l (trace s) @ concat (map frame_bits (map nibble_digit ?ns))"
    by (simp add: SoftUsart_print_hex_def print_nibble_def send_char_levels Let_def)
  then show ?thesis using receive_frames by blast
qed

end
