(* ===== verification/Safemode.thy ===== *)
theory Safemode
  imports AvrCore
begin

text \<open>
  avrdude's protection of the fuses, \<^verbatim>\<open>safemode.c\<close>: the writing of a fuse until it reads back, and
  the reading of the fuses, each three times. The values that safemode expects are modelled with
  \<open>avr_write_byte\<close>, which changes them.
\<close>

subsection \<open>Writing a fuse\<close>

text \<open>\<open>r\<close> is the variable the fuse is read into. A failed write or read does not count as an attempt.\<close>

partial_function (option) writefuse_loop ::
    "'d programmer \<Rightarrow> avrpart \<Rightarrow> avrmem \<Rightarrow> u8 \<Rightarrow> int \<Rightarrow> u8 \<Rightarrow> fuses \<times> 'd \<Rightarrow> (int \<times> fuses \<times> 'd) option" where
  "writefuse_loop pgm p m fuse tries r sd =
     (if 0 < tries then
        (let (rc, st, d) = avr_write_byte pgm p m 0 fuse sd
         in if rc \<noteq> 0 then writefuse_loop pgm p m fuse tries r (st, d)
            else (let (rc, r, d) = read_byte pgm p m 0 r d
                  in if rc \<noteq> 0 then writefuse_loop pgm p m fuse tries r (st, d)
                     else if fuse = r then Some (0, st, d)
                     else writefuse_loop pgm p m fuse (tries - 1) r (st, d)))
      else Some (-1, sd))"

definition safemode_writefuse ::
    "u8 \<Rightarrow> string \<Rightarrow> 'd programmer \<Rightarrow> avrpart \<Rightarrow> int \<Rightarrow> u8 \<Rightarrow> fuses \<times> 'd \<Rightarrow> (int \<times> fuses \<times> 'd) option" where
  "safemode_writefuse fuse fusename pgm p tries junk sd =
     (case avr_locate_mem p fusename of
        None \<Rightarrow> Some (-1, sd)
      | Some k \<Rightarrow> writefuse_loop pgm p (p_mem p ! k) fuse tries junk sd)"

subsection \<open>Reading the fuses\<close>

text \<open>
  Three readings of a memory: whether none of the calls failed, whether the values agree, the value,
  and the variable of the second and third reading. The third reading is left out if the first two
  differ.
\<close>

definition read_thrice :: "'d programmer \<Rightarrow> avrpart \<Rightarrow> avrmem \<Rightarrow> u8 \<Rightarrow> u8 \<Rightarrow> 'd \<Rightarrow> bool \<times> bool \<times> u8 \<times> u8 \<times> 'd" where
  "read_thrice pgm p m cur value d =
     (let (r1, cur, d) = read_byte pgm p m 0 cur d;
          (r2, value, d) = read_byte pgm p m 0 value d
      in if value = cur
         then (let (r3, value, d) = read_byte pgm p m 0 value d
               in (r1 = 0 \<and> r2 = 0 \<and> r3 = 0, value = cur, cur, value, d))
         else (r1 = 0 \<and> r2 = 0, False, cur, value, d))"

text \<open>A part without the fuse is no error.\<close>

definition read_fuse :: "'d programmer \<Rightarrow> avrpart \<Rightarrow> string \<Rightarrow> int \<Rightarrow> u8 \<Rightarrow> u8 \<Rightarrow> 'd \<Rightarrow> int \<times> u8 \<times> u8 \<times> 'd" where
  "read_fuse pgm p fusename verify_error cur value d =
     (case avr_locate_mem p fusename of
        None \<Rightarrow> (0, cur, value, d)
      | Some k \<Rightarrow>
          (let (allowed, good, cur, value, d) = read_thrice pgm p (p_mem p ! k) cur value d
           in (if \<not> allowed then -5 else if \<not> good then verify_error else 0, cur, value, d)))"

definition safemode_readfuses :: "'d programmer \<Rightarrow> avrpart \<Rightarrow> u8 \<Rightarrow> fuses \<Rightarrow> 'd \<Rightarrow> int \<times> fuses \<times> 'd" where
  "safemode_readfuses pgm p junk f d =
     (let (rc, fu, value, d) = read_fuse pgm p ''fuse'' (-1) (sm_fuse f) junk d
      in if rc \<noteq> 0 then (rc, f, d)
      else (let (rc, lf, value, d) = read_fuse pgm p ''lfuse'' (-1) (sm_lfuse f) value d
      in if rc \<noteq> 0 then (rc, f, d)
      else (let (rc, hf, value, d) = read_fuse pgm p ''hfuse'' (-2) (sm_hfuse f) value d
      in if rc \<noteq> 0 then (rc, f, d)
      else (let (rc, ef, value, d) = read_fuse pgm p ''efuse'' (-3) (sm_efuse f) value d
      in if rc \<noteq> 0 then (rc, f, d)
      else (0, \<lparr>sm_lfuse = lf, sm_hfuse = hf, sm_efuse = ef, sm_fuse = fu\<rparr>, d)))))"

subsection \<open>How the writing of a fuse ends\<close>

text \<open>One attempt, the write and the read: what was read, and the state after it.\<close>

definition attempt :: "'d programmer \<Rightarrow> avrpart \<Rightarrow> avrmem \<Rightarrow> u8 \<Rightarrow> u8 \<times> fuses \<times> 'd \<Rightarrow> u8 \<times> fuses \<times> 'd" where
  "attempt pgm p m fuse = (\<lambda>(r, sd).
     let (_, st, d) = avr_write_byte pgm p m 0 fuse sd; (_, r, d) = read_byte pgm p m 0 r d in (r, st, d))"

definition access_works :: "'d programmer \<Rightarrow> avrpart \<Rightarrow> avrmem \<Rightarrow> bool" where
  "access_works pgm p m \<longleftrightarrow> (\<forall>v d. fst (write_byte pgm p m 0 v d) = 0) \<and> (\<forall>r d. fst (read_byte pgm p m 0 r d) = 0)"

lemma avr_write_byte_code: "fst (avr_write_byte pgm p m a v (st, d)) = fst (write_byte pgm p m a v d)"
  by (simp add: avr_write_byte_def Let_def safemode_memfuses_def split: prod.splits)

lemma writefuse_step:
  assumes "access_works pgm p m" and "0 < tries" and "attempt pgm p m fuse (r, sd) = (r', sd')"
  shows "writefuse_loop pgm p m fuse tries r sd
    = (if fuse = r' then Some (0, sd') else writefuse_loop pgm p m fuse (tries - 1) r' sd')"
proof -
  obtain st d where sd: "sd = (st, d)" by fastforce
  obtain rc st1 d1 where w: "avr_write_byte pgm p m 0 fuse sd = (rc, st1, d1)" by (metis prod_cases3)
  have rc: "rc = 0" using avr_write_byte_code [of pgm p m 0 fuse st d] assms(1) w sd by (simp add: access_works_def)
  obtain rc2 r2 d2 where q: "read_byte pgm p m 0 r d1 = (rc2, r2, d2)" by (metis prod_cases3)
  have "rc2 = 0" using assms(1) q by (metis access_works_def fst_conv)
  then show ?thesis
    using assms(2,3) w rc q by (subst writefuse_loop.simps) (auto simp: attempt_def)
qed

definition attempts :: "'d programmer \<Rightarrow> avrpart \<Rightarrow> avrmem \<Rightarrow> u8 \<Rightarrow> nat \<Rightarrow> u8 \<times> fuses \<times> 'd \<Rightarrow> u8 \<times> fuses \<times> 'd" where
  "attempts pgm p m fuse n = attempt pgm p m fuse ^^ n"

lemma writefuse_loop_outcome:
  assumes "access_works pgm p m"
  shows "nat tries = k \<Longrightarrow> \<exists>n rc sd'. writefuse_loop pgm p m fuse tries r sd = Some (rc, sd')
    \<and> n \<le> k \<and> snd (attempts pgm p m fuse n (r, sd)) = sd'
    \<and> (\<forall>i. 0 < i \<longrightarrow> i < n \<longrightarrow> fst (attempts pgm p m fuse i (r, sd)) \<noteq> fuse)
    \<and> (if rc = 0 then 0 < n \<and> fst (attempts pgm p m fuse n (r, sd)) = fuse
       else rc = -1 \<and> n = k \<and> (0 < n \<longrightarrow> fst (attempts pgm p m fuse n (r, sd)) \<noteq> fuse))"
proof (induction k arbitrary: tries r sd)
  case 0
  then have "writefuse_loop pgm p m fuse tries r sd = Some (-1, sd)" by (subst writefuse_loop.simps) simp
  then show ?case by (intro exI [of _ 0] exI [of _ "-1"] exI [of _ sd]) (simp add: attempts_def)
next
  case (Suc k)
  then have t: "0 < tries" "nat (tries - 1) = k" by auto
  obtain r' sd1 where a: "attempt pgm p m fuse (r, sd) = (r', sd1)" by (rule prod.exhaust)
  note step = writefuse_step [OF assms t(1) a]
  have shift: "attempts pgm p m fuse (Suc i) (r, sd) = attempts pgm p m fuse i (r', sd1)" for i
    by (simp add: attempts_def funpow_swap1 a)
  show ?case
  proof (cases "fuse = r'")
    case True
    have "attempts pgm p m fuse 1 (r, sd) = (r', sd1)" by (simp add: attempts_def a)
    with True step show ?thesis by (intro exI [of _ 1] exI [of _ 0] exI [of _ sd1]) simp
  next
    case False
    obtain n rc sd' where ih: "writefuse_loop pgm p m fuse (tries - 1) r' sd1 = Some (rc, sd')" "n \<le> k"
      "snd (attempts pgm p m fuse n (r', sd1)) = sd'"
      "\<And>i. 0 < i \<Longrightarrow> i < n \<Longrightarrow> fst (attempts pgm p m fuse i (r', sd1)) \<noteq> fuse"
      "if rc = 0 then 0 < n \<and> fst (attempts pgm p m fuse n (r', sd1)) = fuse
       else rc = -1 \<and> n = k \<and> (0 < n \<longrightarrow> fst (attempts pgm p m fuse n (r', sd1)) \<noteq> fuse)"
      using Suc.IH [OF t(2), of r' sd1] by blast
    have z: "fst (attempts pgm p m fuse 0 (r', sd1)) \<noteq> fuse" using False by (simp add: attempts_def)
    have "fst (attempts pgm p m fuse i (r, sd)) \<noteq> fuse" if i: "0 < i" "i < Suc n" for i
    proof -
      obtain j where j: "i = Suc j" "j < n" using i by (cases i) auto
      show ?thesis using ih(4) [of j] z j by (cases "j = 0") (auto simp: shift)
    qed
    moreover have "if rc = 0 then 0 < Suc n \<and> fst (attempts pgm p m fuse (Suc n) (r, sd)) = fuse
       else rc = -1 \<and> Suc n = Suc k \<and> (0 < Suc n \<longrightarrow> fst (attempts pgm p m fuse (Suc n) (r, sd)) \<noteq> fuse)"
      using ih(5) z by (cases "n = 0") (auto simp: shift)
    moreover have "snd (attempts pgm p m fuse (Suc n) (r, sd)) = sd'" using ih(3) by (simp add: shift)
    ultimately show ?thesis
      using step False ih(1,2) by (intro exI [of _ "Suc n"] exI [of _ rc] exI [of _ sd']) (auto split: if_splits)
  qed
qed

text \<open>C14: If the calls of the programmer do not fail, the writing of a fuse ends after at most as many
  attempts as it was given. It returns 0 exactly if a value read back agrees, stopping at the first
  one that does, and -1 after all the attempts have read something else.\<close>

theorem writefuse_outcome:
  assumes "avr_locate_mem p fusename = Some k" and "m = p_mem p ! k" and "access_works pgm p m"
  shows "\<exists>n rc sd'. safemode_writefuse fuse fusename pgm p tries junk sd = Some (rc, sd')
    \<and> n \<le> nat tries \<and> snd (attempts pgm p m fuse n (junk, sd)) = sd'
    \<and> (\<forall>i. 0 < i \<longrightarrow> i < n \<longrightarrow> fst (attempts pgm p m fuse i (junk, sd)) \<noteq> fuse)
    \<and> (if rc = 0 then 0 < n \<and> fst (attempts pgm p m fuse n (junk, sd)) = fuse
       else rc = -1 \<and> n = nat tries \<and> (0 < n \<longrightarrow> fst (attempts pgm p m fuse n (junk, sd)) \<noteq> fuse))"
  using writefuse_loop_outcome [OF assms(3) refl, where tries = tries and fuse = fuse and r = junk and sd = sd]
  by (simp add: safemode_writefuse_def assms(1) assms(2) [symmetric])

lemma writefuse_loop_ends:
  assumes "writefuse_loop pgm p m fuse tries r sd = Some y" and "0 < tries"
  shows "\<exists>d. fst (write_byte pgm p m 0 fuse d) = 0"
proof -
  have "0 < tries \<longrightarrow> (\<exists>d. fst (write_byte pgm p m 0 fuse d) = 0)"
  proof (rule writefuse_loop.raw_induct [where P = "\<lambda>pgm p m fuse tries r sd y.
      0 < tries \<longrightarrow> (\<exists>d. fst (write_byte pgm p m 0 fuse d) = 0)", OF _ assms(1)], intro impI)
    fix loop pgm p m fuse tries r sd y
    assume ih: "\<And>pgm p m fuse tries r sd y. loop pgm p m fuse tries r sd = Some y \<Longrightarrow>
        0 < tries \<longrightarrow> (\<exists>d. fst (write_byte pgm p m 0 fuse d) = 0)"
      and body: "(if 0 < tries then
        (let (rc, st, d) = avr_write_byte pgm p m 0 fuse sd
         in if rc \<noteq> 0 then loop pgm p m fuse tries r (st, d)
            else (let (rc, r, d) = read_byte pgm p m 0 r d
                  in if rc \<noteq> 0 then loop pgm p m fuse tries r (st, d)
                     else if fuse = r then Some (0, st, d)
                     else loop pgm p m fuse (tries - 1) r (st, d)))
      else Some (-1, sd)) = Some y" and t: "0 < tries"
    obtain st d where sd: "sd = (st, d)" by (rule prod.exhaust)
    obtain rc st1 d1 where w: "avr_write_byte pgm p m 0 fuse sd = (rc, st1, d1)" by (rule prod_cases3)
    show "\<exists>d. fst (write_byte pgm p m 0 fuse d) = 0"
    proof (cases "rc = 0")
      case True
      then show ?thesis using avr_write_byte_code [of pgm p m 0 fuse st d] w sd by (metis fst_conv)
    next
      case False
      then have "loop pgm p m fuse tries r (st1, d1) = Some y" using body t w by simp
      from ih [OF this] t show ?thesis by blast
    qed
  qed
  with assms(2) show ?thesis by blast
qed

text \<open>C33: If the programmer cannot write the fuse, the call never returns, whatever number of attempts it
  was given: a failed write does not use one up.\<close>

theorem writefuse_diverges:
  assumes "avr_locate_mem p fusename = Some k" and "\<And>d. fst (write_byte pgm p (p_mem p ! k) 0 fuse d) \<noteq> 0" and "0 < tries"
  shows "safemode_writefuse fuse fusename pgm p tries junk sd = None"
  using writefuse_loop_ends [OF _ assms(3), of pgm p "p_mem p ! k" fuse junk sd] assms(2)
  by (cases "writefuse_loop pgm p (p_mem p ! k) fuse tries junk sd") (auto simp: safemode_writefuse_def assms(1))

subsection \<open>What the reading of the fuses guarantees\<close>

text \<open>\<open>n\<close> readings in a row, none of which fails, all with the value \<open>v\<close>.\<close>

inductive reads_in_row :: "'d programmer \<Rightarrow> avrpart \<Rightarrow> avrmem \<Rightarrow> u8 \<Rightarrow> nat \<Rightarrow> 'd \<Rightarrow> 'd \<Rightarrow> bool"
  for pgm p m v where
  reads_none: "reads_in_row pgm p m v 0 d d"
| reads_more: "read_byte pgm p m 0 old d = (0, v, d') \<Longrightarrow> reads_in_row pgm p m v n d' d'' \<Longrightarrow> reads_in_row pgm p m v (Suc n) d d''"

inductive_cases reads_SucE: "reads_in_row pgm p m v (Suc n) d d''"
inductive_simps reads_0 [simp]: "reads_in_row pgm p m v 0 d d''"

lemma read_thrice_reads:
  assumes "read_thrice pgm p m cur value d = (True, True, v, value', d')"
  shows "reads_in_row pgm p m v 3 d d'"
proof -
  obtain r1 v1 d1 where a: "read_byte pgm p m 0 cur d = (r1, v1, d1)" by (rule prod_cases3)
  obtain r2 v2 d2 where b: "read_byte pgm p m 0 value d1 = (r2, v2, d2)" by (rule prod_cases3)
  obtain r3 v3 d3 where c: "read_byte pgm p m 0 v2 d2 = (r3, v3, d3)" by (rule prod_cases3)
  have eqs: "r1 = 0" "r2 = 0" "r3 = 0" "v1 = v" "v2 = v" "v3 = v" "d3 = d'"
    using assms a b c by (auto simp: read_thrice_def Let_def split: if_splits)
  have "reads_in_row pgm p m v (Suc (Suc (Suc 0))) d d'"
    using a b c unfolding eqs by (auto intro!: reads_more)
  then show ?thesis by (simp add: numeral_eq_Suc)
qed

text \<open>What a successful reading says about one fuse: \<open>old\<close> is the value before the call, \<open>v\<close> after it.\<close>

definition confirmed :: "'d programmer \<Rightarrow> avrpart \<Rightarrow> string \<Rightarrow> u8 \<Rightarrow> u8 \<Rightarrow> bool" where
  "confirmed pgm p fusename old v =
     (case avr_locate_mem p fusename of None \<Rightarrow> v = old | Some k \<Rightarrow> \<exists>d d'. reads_in_row pgm p (p_mem p ! k) v 3 d d')"

lemma read_fuse_confirms:
  assumes "read_fuse pgm p fusename e cur value d = (0, v, value', d')" and "e \<noteq> 0"
  shows "confirmed pgm p fusename cur v"
proof (cases "avr_locate_mem p fusename")
  case None
  then show ?thesis using assms(1) by (simp add: read_fuse_def confirmed_def)
next
  case (Some k)
  obtain a g c u d1 where t: "read_thrice pgm p (p_mem p ! k) cur value d = (a, g, c, u, d1)" by (rule prod_cases5)
  then have "a" "g" "c = v" using assms Some by (auto simp: read_fuse_def split: if_splits)
  with t Some show ?thesis using read_thrice_reads by (fastforce simp: confirmed_def)
qed

lemma read_fuse_codes:
  "read_fuse pgm p fusename e cur value d = (rc, v, value', d') \<Longrightarrow> rc \<in> {0, -5, e}"
  by (auto simp: read_fuse_def split: option.splits prod.splits if_splits)

text \<open>C13: The reading of the fuses never makes values up. If it returns 0, every fuse the part has was read
  three times in a row without a failure and with the same value, which is what is returned, and
  the fuses the part does not have keep their values. Otherwise it returns -1, -2, -3 or -5 and
  leaves all the values as they were.\<close>

theorem readfuses_safe:
  assumes "safemode_readfuses pgm p junk f d = (rc, f', d')"
  shows "if rc = 0
    then confirmed pgm p ''fuse'' (sm_fuse f) (sm_fuse f') \<and> confirmed pgm p ''lfuse'' (sm_lfuse f) (sm_lfuse f')
      \<and> confirmed pgm p ''hfuse'' (sm_hfuse f) (sm_hfuse f') \<and> confirmed pgm p ''efuse'' (sm_efuse f) (sm_efuse f')
    else rc \<in> {-1, -2, -3, -5} \<and> f' = f"
proof -
  obtain r1 v1 u1 d1 where a: "read_fuse pgm p ''fuse'' (-1) (sm_fuse f) junk d = (r1, v1, u1, d1)" by (rule prod_cases4)
  obtain r2 v2 u2 d2 where b: "read_fuse pgm p ''lfuse'' (-1) (sm_lfuse f) u1 d1 = (r2, v2, u2, d2)" by (rule prod_cases4)
  obtain r3 v3 u3 d3 where c: "read_fuse pgm p ''hfuse'' (-2) (sm_hfuse f) u2 d2 = (r3, v3, u3, d3)" by (rule prod_cases4)
  obtain r4 v4 u4 d4 where e: "read_fuse pgm p ''efuse'' (-3) (sm_efuse f) u3 d3 = (r4, v4, u4, d4)" by (rule prod_cases4)
  note codes = read_fuse_codes [OF a] read_fuse_codes [OF b] read_fuse_codes [OF c] read_fuse_codes [OF e]
  note run = assms [unfolded safemode_readfuses_def, simplified a b c e Let_def prod.case]
  consider "r1 \<noteq> 0" | "r1 = 0" "r2 \<noteq> 0" | "r1 = 0" "r2 = 0" "r3 \<noteq> 0" | "r1 = 0" "r2 = 0" "r3 = 0" "r4 \<noteq> 0"
    | "r1 = 0" "r2 = 0" "r3 = 0" "r4 = 0" by blast
  then show ?thesis
  proof cases
    case 5
    have f': "sm_fuse f' = v1" "sm_lfuse f' = v2" "sm_hfuse f' = v3" "sm_efuse f' = v4" "rc = 0"
      using run 5 by auto
    then show ?thesis
      using read_fuse_confirms [OF a [unfolded 5]] read_fuse_confirms [OF b [unfolded 5]]
        read_fuse_confirms [OF c [unfolded 5]] read_fuse_confirms [OF e [unfolded 5]] by simp
  qed (use run codes in auto)
qed

subsection \<open>Examples\<close>

definition fuse_part :: avrpart where
  "fuse_part = avr_new_part\<lparr>p_mem := [avr_new_memtype\<lparr>m_desc := ''lfuse'', m_size := 1, buf := [0], tags := [0]\<rparr>]\<rparr>"

lemma fuse_part_locate:
  "avr_locate_mem fuse_part ''lfuse'' = Some 0" "avr_locate_mem fuse_part ''fuse'' = None"
  "avr_locate_mem fuse_part ''hfuse'' = None" "avr_locate_mem fuse_part ''efuse'' = None"
  by code_simp+

theorem writefuse_outcome_witness:
  "\<exists>sd'. safemode_writefuse 0x5A ''lfuse'' store_pgm fuse_part 3 0 (safemode_init, counting) = Some (0, sd')"
proof -
  have "access_works store_pgm fuse_part (p_mem fuse_part ! 0)" by (simp add: access_works_def store_pgm_def)
  from writefuse_outcome [OF fuse_part_locate(1) refl this, of "0x5A" 3 0 "(safemode_init, counting)"]
  obtain n rc sd' where o: "safemode_writefuse 0x5A ''lfuse'' store_pgm fuse_part 3 0 (safemode_init, counting) = Some (rc, sd')"
    "rc \<noteq> 0 \<longrightarrow> n = 3 \<and> fst (attempts store_pgm fuse_part (p_mem fuse_part ! 0) 0x5A n (0, safemode_init, counting)) \<noteq> 0x5A"
    by (auto split: if_splits)
  have hit: "fst (attempt store_pgm fuse_part (p_mem fuse_part ! 0) 0x5A x) = 0x5A" for x
    by (auto simp: attempt_def avr_write_byte_def safemode_memfuses_def store_pgm_def Let_def split: prod.splits)
  have "fst (attempts store_pgm fuse_part (p_mem fuse_part ! 0) 0x5A 3 (0, safemode_init, counting)) = 0x5A"
    by (simp add: attempts_def numeral_eq_Suc hit)
  with o show ?thesis by auto
qed

theorem writefuse_diverges_witness:
  "safemode_writefuse 0x5A ''lfuse'' broken_pgm fuse_part 10 0 (safemode_init, ()) = None"
  by (rule writefuse_diverges [OF fuse_part_locate(1)]) (simp_all add: broken_pgm_def)

theorem readfuses_safe_witness:
  "\<exists>f' d'. safemode_readfuses store_pgm fuse_part 0 safemode_init (\<lambda>_ _. 0x62) = (0, f', d')
     \<and> confirmed store_pgm fuse_part ''lfuse'' 0xff (sm_lfuse f') \<and> sm_lfuse f' = 0x62"
proof -
  let ?f = "safemode_init\<lparr>sm_lfuse := 0x62\<rparr>"
  have "safemode_readfuses store_pgm fuse_part 0 safemode_init (\<lambda>_ _. 0x62) = (0, ?f, \<lambda>_ _. 0x62)"
    by (simp add: safemode_readfuses_def read_fuse_def fuse_part_locate read_thrice_def store_pgm_def safemode_init_def)
  from this readfuses_safe [OF this] show ?thesis by (simp add: safemode_init_def)
qed

end
