(* ===== verification/IHex.thy ===== *)
theory IHex
  imports HexRec
begin

text \<open>
  Intel hex files in \<^verbatim>\<open>fileio.c\<close>: writing a buffer (\<^verbatim>\<open>b2ihex\<close>), reading one record
  (\<^verbatim>\<open>ihex_readrec\<close>) and reading a file into a memory (\<^verbatim>\<open>ihex2b\<close>). The C result -1 is the number
  -1; \<open>None\<close> is undefined behaviour or an endless loop. Sizes are below \<open>2 ^ 31\<close>, addresses are
  32-bit unsigned integers and wrap.
\<close>

subsection \<open>Writing\<close>

definition ihex_data_line :: "u32 \<Rightarrow> u32 \<Rightarrow> u8 list \<Rightarrow> string" where
  "ihex_data_line n nextaddr bs =
     '':'' @ hex 2 (unat n) @ hex 4 (unat nextaddr) @ ''00'' @ concat (map hex8 bs)
     @ hex8 (- sum8 bs (ucast n + byte_of nextaddr 1 + byte_of nextaddr 0)) @ [NL]"

definition ihex_ext_line :: "u32 \<Rightarrow> string" where
  "ihex_ext_line n_64k =
     (let lo = n_64k AND 0xFF; hi = drop_bit 8 n_64k AND 0xFF
      in '':02000004'' @ hex 2 (unat hi) @ hex 2 (unat lo)
         @ hex8 (- ucast (2 + 0 + 4 + hi + lo)) @ [NL])"

definition ihex_eof_line :: string where
  "ihex_eof_line = '':'' @ hex 2 0 @ hex 4 0 @ ''01'' @ hex8 (- (0 + 0 + 0 + 1)) @ [NL]"

text \<open>
  The loop over the buffer. \<open>inb\<close> is the buffer from the read position on. A record that crosses
  the 64K boundary is cut there; past the boundary an extended address record follows. A negative
  count moves the buffer pointer before its start.
\<close>

partial_function (option) b2ihex_loop ::
    "int \<Rightarrow> u8 list \<Rightarrow> nat \<Rightarrow> u32 \<Rightarrow> int \<Rightarrow> u32 \<Rightarrow> string \<Rightarrow> (int \<times> string) option" where
  "b2ihex_loop recsize inb bufsize nextaddr nbytes n_64k out =
     (if bufsize = 0 then Some (nbytes, out)
      else (let n = (if recsize > int bufsize then int bufsize else recsize);
                n = (if nextaddr + of_int n > 0x10000 then sint (0x10000 - nextaddr) else n)
            in if n < 0 \<or> int (length inb) < n then None
               else (let (nextaddr, nbytes, out) =
                       (if n \<noteq> 0
                        then (nextaddr + of_int n, nbytes + n,
                              out @ ihex_data_line (of_int n) nextaddr (take (nat n) inb))
                        else (nextaddr, nbytes, out));
                         (nextaddr, n_64k, out) =
                       (if nextaddr \<ge> 0x10000
                        then (0, n_64k + 1, out @ ihex_ext_line (n_64k + 1))
                        else (nextaddr, n_64k, out))
                     in b2ihex_loop recsize (drop (nat n) inb) (bufsize - nat n) nextaddr nbytes n_64k out)))"

definition b2ihex :: "u8 list \<Rightarrow> nat \<Rightarrow> int \<Rightarrow> u32 \<Rightarrow> (int \<times> string) option" where
  "b2ihex inbuf bufsize recsize startaddr =
     (if recsize > 255 then Some (-1, [])
      else do {
        (nbytes, out) \<leftarrow> b2ihex_loop recsize inbuf bufsize startaddr 0 0 [];
        Some (nbytes, out @ ihex_eof_line)
      })"

subsection \<open>Reading a record\<close>

text \<open>The computed checksum and the record; \<open>None\<close> is the result -1.\<close>

definition ihex_readrec :: "ihexrec \<Rightarrow> string \<Rightarrow> (int \<times> ihexrec) option" where
  "ihex_readrec ihex rec = do {
     len \<leftarrow> field rec 1 2;
     ofs \<leftarrow> field rec 3 4;
     rty \<leftarrow> field rec 7 2;
     let ihex = ihex\<lparr>reclen := ucast len, loadofs := ucast ofs, rectyp := ucast rty\<rparr>;
     let ck = reclen ihex + byte_of (loadofs ihex) 1 + byte_of (loadofs ihex) 0 + rectyp ihex;
     (d, ck, offset) \<leftarrow> read_data rec 9 0 (unat (reclen ihex)) (data ihex) ck;
     c \<leftarrow> field rec offset 2;
     Some (uint (- ck), ihex\<lparr>data := d, cksum := ucast c\<rparr>)
   }"

subsection \<open>Reading a file\<close>

text \<open>
  The loop over the lines. \<open>baseaddr\<close> and \<open>maxaddr\<close> are its state, \<open>ihex\<close> is the record variable that
  is reused from line to line.
\<close>

function ihex2b_loop ::
    "nat \<Rightarrow> u32 \<Rightarrow> string \<Rightarrow> u32 \<Rightarrow> u32 \<Rightarrow> ihexrec \<Rightarrow> avrmem \<Rightarrow> (int \<times> avrmem) option" where
  "ihex2b_loop bufsize fileoffset f baseaddr maxaddr ihex m =
     (case fgets MAX_LINE_LEN f of
        None \<Rightarrow> Some (if maxaddr = 0 then -1 else sint maxaddr, m)
      | Some (l, f') \<Rightarrow>
          (case chomp l of
             None \<Rightarrow> None
           | Some buffer \<Rightarrow>
               if buffer = [] \<or> hd buffer \<noteq> CHR '':''
               then ihex2b_loop bufsize fileoffset f' baseaddr maxaddr ihex m
               else (case ihex_readrec ihex buffer of
                  None \<Rightarrow> Some (-1, m)
                | Some (rc, ihex) \<Rightarrow>
                    if rc \<noteq> uint (cksum ihex) then Some (-1, m)
                    else if rectyp ihex = 0 then
                      (if fileoffset \<noteq> 0 \<and> baseaddr < fileoffset then Some (-1, m)
                       else (let nextaddr = loadofs ihex + baseaddr - fileoffset;
                                 e = nextaddr + ucast (reclen ihex)
                             in if e > of_nat bufsize then Some (-1, m)
                                else (case store_bytes nextaddr (take (unat (reclen ihex)) (data ihex)) m of
                                   None \<Rightarrow> None
                                 | Some m \<Rightarrow> ihex2b_loop bufsize fileoffset f' baseaddr
                                      (if e > maxaddr then e else maxaddr) ihex m)))
                    else if rectyp ihex = 1 then Some (sint maxaddr, m)
                    else if rectyp ihex = 2 then
                      ihex2b_loop bufsize fileoffset f'
                        (push_bit 4 (push_bit 8 (ucast (data ihex ! 0)) OR ucast (data ihex ! 1))) maxaddr ihex m
                    else if rectyp ihex = 4 then
                      ihex2b_loop bufsize fileoffset f'
                        (push_bit 16 (push_bit 8 (ucast (data ihex ! 0)) OR ucast (data ihex ! 1))) maxaddr ihex m
                    else if rectyp ihex = 3 \<or> rectyp ihex = 5 then
                      ihex2b_loop bufsize fileoffset f' baseaddr maxaddr ihex m
                    else Some (-1, m))))"
  by pat_completeness auto
termination
  by (relation "measure (\<lambda>(_, _, f, _). length f)") (auto simp: MAX_LINE_LEN_def dest: fgets_progress)

declare ihex2b_loop.simps [simp del]

text \<open>\<open>junk\<close> is the content of the uninitialised record variable.\<close>

definition ihex2b :: "ihexrec \<Rightarrow> string \<Rightarrow> avrmem \<Rightarrow> nat \<Rightarrow> u32 \<Rightarrow> (int \<times> avrmem) option" where
  "ihex2b junk f m bufsize fileoffset = ihex2b_loop bufsize fileoffset f 0 0 junk m"

subsection \<open>A printed record is read back\<close>

definition record_text :: "nat \<Rightarrow> nat \<Rightarrow> u8 \<Rightarrow> u8 list \<Rightarrow> u8 \<Rightarrow> string" where
  "record_text n a rty bs ck = '':'' @ hex 2 n @ hex 4 a @ hex8 rty @ concat (map hex8 bs) @ hex8 ck"

definition record_sum :: "nat \<Rightarrow> nat \<Rightarrow> u8 \<Rightarrow> u8 list \<Rightarrow> u8" where
  "record_sum n a rty bs = sum8 bs (of_nat n + byte_of (of_nat a) 1 + byte_of (of_nat a) 0 + rty)"

lemma readrec_text:
  assumes "length bs = n" and "n < 256" and "a < 65536" and "n \<le> length (data ihex)"
  shows "ihex_readrec ihex (record_text n a rty bs ck) = Some (uint (- record_sum n a rty bs),
     ihex\<lparr>reclen := of_nat n, loadofs := of_nat a, rectyp := rty,
        data := bs @ drop n (data ihex), cksum := ck\<rparr>)"
proof -
  let ?r = "record_text n a rty bs ck"
  have len: "length (hex 2 n) = 2" "length (hex 4 a) = 4"
    using assms(2,3) by (simp_all add: length_hex)
  have f1: "field ?r 1 2 = Some (of_nat n)"
    using field_hex [of n 2 "'':''" 1 "hex 4 a @ hex8 rty @ concat (map hex8 bs) @ hex8 ck"] assms(2)
    by (simp add: record_text_def)
  have f2: "field ?r 3 4 = Some (of_nat a)"
    using field_hex [of a 4 "'':'' @ hex 2 n" 3 "hex8 rty @ concat (map hex8 bs) @ hex8 ck"] assms(3) len
    by (simp add: record_text_def)
  have f3: "field ?r 7 2 = Some (ucast rty)"
    using field_hex8 [of "'':'' @ hex 2 n @ hex 4 a" 7 rty "concat (map hex8 bs) @ hex8 ck"] len
    by (simp add: record_text_def)
  have f4: "read_data ?r 9 0 n (data ihex) c = Some (bs @ drop n (data ihex), sum8 bs c, 9 + 2 * n)" for c
    using read_data_hex [of 0 bs "data ihex" "'':'' @ hex 2 n @ hex 4 a @ hex8 rty" 9 "hex8 ck"] assms(1,4) len
    by (simp add: record_text_def)
  have lc: "length (concat (map hex8 bs)) = 2 * length bs" by (induction bs) simp_all
  have f5: "field ?r (9 + 2 * n) 2 = Some (ucast ck)"
    using field_hex8 [of "'':'' @ hex 2 n @ hex 4 a @ hex8 rty @ concat (map hex8 bs)" "9 + 2 * n" ck "[]"]
      len lc assms(1)
    by (simp add: record_text_def)
  have n: "unat (of_nat n :: u8) = n" "(ucast (of_nat n :: u64) :: u8) = of_nat n"
    "(ucast (of_nat a :: u64) :: u32) = of_nat a"
    using assms(2) by (simp_all add: unsigned_of_nat word_of_nat_eq_iff take_bit_nat_eq_self)
  show ?thesis
    by (simp add: ihex_readrec_def f1 f2 f3 f4 f5 n record_sum_def Let_def del: One_nat_def)
qed

lemma record_chars:
  assumes "c \<in> set (record_text n a rty bs ck)" shows "c \<noteq> NL \<and> c \<noteq> NUL"
proof -
  have "c = CHR '':'' \<or> c \<in> set (hex 2 n) \<or> c \<in> set (hex 4 a) \<or> c \<in> set (hex8 rty)
     \<or> (\<exists>b. c \<in> set (hex8 b))"
    using assms by (auto simp: record_text_def)
  moreover have "CHR '':'' \<noteq> NL \<and> CHR '':'' \<noteq> NUL" by (simp add: NL_def NUL_def)
  ultimately show ?thesis unfolding hex8_def by (elim disjE exE) (auto dest: hex_no_control)
qed

lemma length_record:
  assumes "n < 256" and "a < 65536"
  shows "length (record_text n a rty bs ck) = 11 + 2 * length bs"
proof -
  have "length (concat (map hex8 bs)) = 2 * length bs" by (induction bs) simp_all
  then show ?thesis using assms by (simp add: record_text_def length_hex)
qed

lemma chomp_record: "chomp (record_text n a rty bs ck @ [NL]) = Some (record_text n a rty bs ck)"
proof -
  let ?r = "record_text n a rty bs ck"
  have "takeWhile (\<lambda>c. c \<noteq> NUL) (?r @ [NL]) = ?r @ [NL]"
    using record_chars [of _ n a rty bs ck] by (auto simp: takeWhile_eq_all_conv NL_def NUL_def)
  then show ?thesis by (simp add: chomp_def)
qed

lemma fgets_record:
  assumes "n < 256" and "a < 65536" and "length bs \<le> 121"
  shows "fgets MAX_LINE_LEN (record_text n a rty bs ck @ NL # rest) = Some (record_text n a rty bs ck @ [NL], rest)"
  using assms length_record [OF assms(1,2)] record_chars [of NL n a rty bs ck]
  by (intro fgets_line) (auto simp: MAX_LINE_LEN_def)

subsection \<open>The writer prints such records\<close>

lemma data_line_text:
  assumes "length bs = n" and "n < 256" and "a < 65536"
  shows "ihex_data_line (of_nat n) (of_nat a) bs
    = record_text n a 0 bs (- record_sum n a 0 bs) @ [NL]"
proof -
  have "hex8 0 = ''00''" by code_simp
  moreover have "unat (of_nat n :: u32) = n" "unat (of_nat a :: u32) = a"
    "ucast (of_nat n :: u32) = (of_nat n :: u8)"
    using assms by (simp_all add: unsigned_of_nat word_of_nat_eq_iff take_bit_nat_eq_self)
  ultimately show ?thesis
    by (simp add: ihex_data_line_def record_text_def record_sum_def)
qed

lemma eof_line_text: "ihex_eof_line = record_text 0 0 1 [] (- record_sum 0 0 1 []) @ [NL]"
  by code_simp

lemma and_FF: "unat ((w :: u32) AND 0xFF) = unat w mod 256"
proof -
  have "(0xFF :: u32) = mask 8" by (simp add: mask_eq_exp_minus_1)
  then have "unat (w AND 0xFF) = unat (take_bit 8 w)" by (simp only: take_bit_eq_mask)
  also have "\<dots> = take_bit 8 (unat w)" by (rule unsigned_take_bit_eq)
  finally show ?thesis by (simp add: take_bit_eq_mod)
qed

lemma word_unat_inverse: "of_nat (unat w) = (w :: 'a::len word)"
  by simp

lemma ucast_of_nat8: "(ucast (of_nat n :: u32) :: u8) = of_nat n"
  by (simp add: unsigned_of_nat word_of_nat_eq_iff)

lemma ucast_add8: "(ucast ((a :: u32) + b) :: u8) = ucast a + ucast b"
proof -
  have "a + b = of_nat (unat a + unat b)" and "a = of_nat (unat a)" and "b = of_nat (unat b)" by simp_all
  then show ?thesis by (metis ucast_of_nat8 of_nat_add)
qed

lemma ext_line_text:
  assumes "k < 65536"
  shows "ihex_ext_line (of_nat k) = record_text 2 0 4 [of_nat (k div 256), of_nat k]
      (- record_sum 2 0 4 [of_nat (k div 256), of_nat k]) @ [NL]"
proof -
  let ?lo = "(of_nat k :: u32) AND 0xFF" and ?hi = "drop_bit 8 (of_nat k :: u32) AND 0xFF"
  have k: "unat (of_nat k :: u32) = k" using assms by (simp add: unsigned_of_nat take_bit_nat_eq_self)
  have lo: "unat ?lo = k mod 256" by (simp only: and_FF k)
  have hi: "unat ?hi = k div 256"
    using assms by (simp only: and_FF) (simp add: drop_bit_eq_div unat_div k)
  have lo8: "unat (of_nat k :: u8) = k mod 256" "unat (of_nat (k div 256) :: u8) = k div 256"
    using assms by (simp_all add: unsigned_of_nat take_bit_eq_mod)
  have "(ucast ?lo :: u8) = of_nat (k mod 256)"
    using ucast_of_nat8 [of "unat ?lo"] by (simp only: lo [symmetric] word_unat_inverse)
  also have "\<dots> = of_nat k" by (simp add: word_of_nat_eq_iff take_bit_eq_mod)
  finally have ulo: "(ucast ?lo :: u8) = of_nat k" .
  have uhi: "(ucast ?hi :: u8) = of_nat (k div 256)"
    using ucast_of_nat8 [of "unat ?hi"] by (simp only: hi [symmetric] word_unat_inverse)
  have "(ucast (2 + 0 + 4 + ?hi + ?lo) :: u8) = 6 + ucast ?hi + ucast ?lo"
    by (simp only: ucast_add8) simp
  then have sum: "(ucast (2 + 0 + 4 + ?hi + ?lo) :: u8) = record_sum 2 0 4 [of_nat (k div 256), of_nat k]"
    by (simp add: ulo uhi record_sum_def sum8_def byte_of_def)
  have "hex 2 2 @ hex 4 0 @ hex8 4 = ''02000004''" by code_simp
  then show ?thesis
    unfolding ihex_ext_line_def Let_def sum
    by (simp add: record_text_def hex8_def lo hi lo8)
qed

subsection \<open>Reading such records into a memory\<close>

text \<open>One record at the head of the file.\<close>

lemma ihex2b_record:
  assumes "length bs = n" and "n \<le> 121" and "a < 65536" and "length (data ihex) = 256"
    and "ck = - record_sum n a rty bs"
    and "ihex' = ihex\<lparr>reclen := of_nat n, loadofs := of_nat a, rectyp := rty,
        data := bs @ drop n (data ihex), cksum := ck\<rparr>"
  shows "ihex2b_loop sz 0 (record_text n a rty bs ck @ NL # rest) base mx ihex m =
    (if rty = 0 then
       (let nextaddr = of_nat a + base; e = nextaddr + of_nat n
        in if e > of_nat sz then Some (-1, m)
           else (case store_bytes nextaddr bs m of
              None \<Rightarrow> None
            | Some m \<Rightarrow> ihex2b_loop sz 0 rest base (if e > mx then e else mx) ihex' m))
     else if rty = 1 then Some (sint mx, m)
     else if rty = 2 then ihex2b_loop sz 0 rest
        (push_bit 4 (push_bit 8 (ucast (data ihex' ! 0)) OR ucast (data ihex' ! 1))) mx ihex' m
     else if rty = 4 then ihex2b_loop sz 0 rest
        (push_bit 16 (push_bit 8 (ucast (data ihex' ! 0)) OR ucast (data ihex' ! 1))) mx ihex' m
     else if rty = 3 \<or> rty = 5 then ihex2b_loop sz 0 rest base mx ihex' m
     else Some (-1, m))"
proof -
  have g: "fgets MAX_LINE_LEN (record_text n a rty bs ck @ NL # rest) = Some (record_text n a rty bs ck @ [NL], rest)"
    using assms by (intro fgets_record) simp_all
  have hd: "hd (record_text n a rty bs ck) = CHR '':''" "record_text n a rty bs ck \<noteq> []"
    by (simp_all add: record_text_def)
  have r: "ihex_readrec ihex (record_text n a rty bs ck) = Some (uint ck, ihex')"
    using readrec_text [of bs n a ihex rty ck] assms by simp
  have fields: "rectyp ihex' = rty" "cksum ihex' = ck" "loadofs ihex' = of_nat a"
    "ucast (reclen ihex') = (of_nat n :: u32)" "take (unat (reclen ihex')) (data ihex') = bs"
    using assms by (simp_all add: unsigned_of_nat word_of_nat_eq_iff take_bit_nat_eq_self)
  show ?thesis
    by (subst ihex2b_loop.simps) (simp add: g chomp_record hd r fields Let_def cong: if_cong option.case_cong)
qed

lemma ihex2b_data:
  assumes "fits d sz m" and "0 < n" and "n \<le> 121" and "a < 65536" and "length (data ihex) = 256"
    and "pos = 65536 * k + a" and "pos + n \<le> sz"
  shows "\<exists>ihex'. length (data ihex') = 256 \<and> (\<forall>rest.
    ihex2b_loop sz 0 (ihex_data_line (of_nat n) (of_nat a) (take n (drop pos d)) @ rest)
      (of_nat (65536 * k)) (of_nat pos) ihex (filled d pos m)
    = ihex2b_loop sz 0 rest (of_nat (65536 * k)) (of_nat (pos + n)) ihex' (filled d (pos + n) m))"
proof -
  let ?bs = "take n (drop pos d)"
  have bs: "length ?bs = n" using assms(1,7) by (simp add: fits_def)
  have n256: "n + (256 - n) = 256" using assms(3) by simp
  let ?ck = "- record_sum n a 0 ?bs"
  let ?i = "ihex\<lparr>reclen := of_nat n, loadofs := of_nat a, rectyp := 0,
        data := ?bs @ drop n (data ihex), cksum := ?ck\<rparr>"
  have line: "ihex_data_line (of_nat n) (of_nat a) ?bs @ rest = record_text n a 0 ?bs ?ck @ NL # rest" for rest
    using data_line_text [OF bs, of a] assms by simp
  have w: "(of_nat a :: u32) + of_nat (65536 * k) = of_nat pos" "(of_nat pos :: u32) + of_nat n = of_nat (pos + n)"
    using assms(6) by simp_all
  have lt: "(of_nat (pos + n) :: u32) > of_nat pos" "\<not> (of_nat (pos + n) :: u32) > of_nat sz"
    using assms by (simp_all add: fits_def word_less_nat_alt unsigned_of_nat take_bit_nat_eq_self del: of_nat_add)
  show ?thesis
    unfolding line
    using ihex2b_record [OF bs assms(3,4,5) refl refl, where rty = 0 and sz = sz
      and base = "of_nat (65536 * k)" and mx = "of_nat pos" and m = "filled d pos m"]
      filled_store [OF assms(1,7)] bs assms(3,5) lt
    by (intro exI [of _ ?i]) (simp only: w Let_def option.case if_True if_False simp_thms, simp add: fits_def n256)
qed

lemma ihex2b_ext:
  assumes "k < 65536" and "length (data ihex) = 256"
  shows "\<exists>ihex'. length (data ihex') = 256 \<and> (\<forall>rest.
    ihex2b_loop sz 0 (ihex_ext_line (of_nat k) @ rest) base mx ihex m
    = ihex2b_loop sz 0 rest (of_nat (65536 * k)) mx ihex' m)"
proof -
  let ?bs = "[of_nat (k div 256), of_nat k] :: u8 list"
  let ?ck = "- record_sum 2 0 4 ?bs"
  let ?i = "ihex\<lparr>reclen := of_nat 2, loadofs := of_nat 0, rectyp := 4,
        data := ?bs @ drop 2 (data ihex), cksum := ?ck\<rparr>"
  have line: "ihex_ext_line (of_nat k) @ rest = record_text 2 0 4 ?bs ?ck @ NL # rest" for rest
    using ext_line_text [OF assms(1)] by simp
  have "push_bit 8 (ucast (of_nat (k div 256) :: u8)) OR ucast (of_nat k :: u8) = (of_nat k :: u32)"
  proof (rule bit_word_eqI)
    fix i assume i: "i < LENGTH(32)"
    have d: "bit (k div 256) j = bit k (j + 8)" for j
      using bit_drop_bit_eq [of 8 k] by (simp add: drop_bit_eq_div add.commute)
    have z: "\<not> bit k i" if "16 \<le> i"
    proof -
      have "take_bit 16 k = k" using assms(1) by (simp add: take_bit_nat_eq_self)
      then show ?thesis using that by (metis bit_take_bit_iff not_le)
    qed
    show "bit (push_bit 8 (ucast (of_nat (k div 256) :: u8)) OR ucast (of_nat k :: u8) :: u32) i = bit (of_nat k :: u32) i"
      using i z by (cases "i < 8"; cases "i < 16") (auto simp: bit_or_iff bit_push_bit_iff bit_ucast_iff bit_of_nat_iff d)
  qed
  then have base: "push_bit 16 (push_bit 8 (ucast (data ?i ! 0)) OR ucast (data ?i ! 1)) = (of_nat (65536 * k) :: u32)"
    by (simp add: push_bit_eq_mult)
  show ?thesis
    unfolding line
    using ihex2b_record [where bs = ?bs and n = 2 and a = 0 and ihex = ihex and ck = ?ck and rty = 4
      and ihex' = ?i and sz = sz and base = base and mx = mx and m = m] base assms(2)
    by (intro exI [of _ ?i]) simp
qed

lemma ihex2b_eof:
  assumes "length (data ihex) = 256"
  shows "ihex2b_loop sz 0 ihex_eof_line base mx ihex m = Some (sint mx, m)"
  unfolding eof_line_text
  using ihex2b_record [where bs = "[]" and n = 0 and a = 0 and ihex = ihex and ck = "- record_sum 0 0 1 []"
      and rty = 1 and sz = sz and rest = "[]" and base = base and mx = mx and m = m] assms by simp

subsection \<open>The round trip\<close>

lemma b2ihex_loop_next:
  assumes "0 < n" and "n \<le> length inb" and "n \<le> bufsize" and "a < 65536" and "a + n \<le> 65536"
    and "n = min (min rs bufsize) (65536 - a)" and "rs \<le> 255" and "bufsize < 2 ^ 31"
  shows "b2ihex_loop (int rs) inb bufsize (of_nat a) nb (of_nat k) out =
    b2ihex_loop (int rs) (drop n inb) (bufsize - n)
      (of_nat (if a + n = 65536 then 0 else a + n)) (nb + int n)
      (of_nat (if a + n = 65536 then k + 1 else k))
      (out @ ihex_data_line (of_nat n) (of_nat a) (take n inb)
         @ (if a + n = 65536 then ihex_ext_line (of_nat (k + 1)) else []))"
proof -
  define n0 where "n0 = min rs bufsize"
  have n0: "(if int rs > int bufsize then int bufsize else int rs) = int n0"
    by (simp add: n0_def)
  have n0_le: "n0 \<le> 255" using assms(7) by (simp add: n0_def)
  have u: "unat ((of_nat a :: u32) + of_nat n0) = a + n0"
    using assms(4) n0_le by (simp add: unat_word_ariths unsigned_of_nat take_bit_nat_eq_self)
  have cross: "(of_nat a :: u32) + of_int (int n0) > 0x10000 \<longleftrightarrow> a + n0 > 65536"
    using u by (simp add: word_less_nat_alt)
  have rest: "sint (0x10000 - of_nat a :: u32) = 65536 - int a"
  proof -
    have "(0x10000 - of_nat a :: u32) = of_nat (65536 - a)"
      using assms(4) by (simp add: of_nat_diff)
    moreover have "sint (of_nat (65536 - a) :: u32) = int (65536 - a)" by (rule sint_small) simp
    moreover have "int (65536 - a) = 65536 - int a" using assms(4) by simp
    ultimately show ?thesis by metis
  qed
  have n_eq: "(if (of_nat a :: u32) + of_int (int n0) > 0x10000 then sint (0x10000 - of_nat a :: u32) else int n0) = int n"
    unfolding cross rest using assms(4,6) n0_def by auto
  have an: "(of_nat a :: u32) + of_int (int n) = of_nat (a + n)" by simp
  have reach: "(of_nat (a + n) :: u32) \<ge> 0x10000 \<longleftrightarrow> a + n = 65536"
    using assms(5) by (simp add: word_le_nat_alt unsigned_of_nat take_bit_nat_eq_self del: of_nat_add)
  have ok: "(int n < 0 \<or> int (length inb) < int n) = False" "(bufsize = 0) = False" "(int n \<noteq> 0) = True"
    using assms(1-3) by simp_all
  have k1: "(of_nat k :: u32) + 1 = of_nat (k + 1)" by simp
  have w: "(of_int (int n) :: u32) = of_nat n" "nat (int n) = n" by simp_all
  show ?thesis
    apply (subst b2ihex_loop.simps)
    unfolding n0 Let_def n_eq
    apply (simp only: ok if_True if_False prod.case an k1 reach)
    apply (cases "a + n = 65536")
     apply (simp_all only: w if_True if_False simp_thms prod.case append_assoc append_Nil2)
    by simp
qed

text \<open>
  The agreement of the two loops at a position: the writer is at offset \<open>a\<close> of the 64K segment \<open>k\<close>
  and the reader has the base address of that segment.
\<close>

definition ihex_together :: "u8 list \<Rightarrow> avrmem \<Rightarrow> nat \<Rightarrow> nat \<Rightarrow> nat \<times> nat \<times> nat \<times> int
    \<Rightarrow> nat \<times> u32 \<times> u32 \<times> ihexrec \<Rightarrow> bool" where
  "ihex_together d m sz pos = (\<lambda>(rs, a, k, nb) (sz', base, mx, ihex).
     fits d sz m \<and> 0 < rs \<and> rs \<le> 121 \<and> pos = 65536 * k + a \<and> a < 65536 \<and> nb = int pos
     \<and> sz' = sz \<and> base = of_nat (65536 * k) \<and> mx = of_nat pos \<and> length (data ihex) = 256)"

definition ihex_wr :: "u8 list \<Rightarrow> nat \<Rightarrow> nat \<times> nat \<times> nat \<times> int \<Rightarrow> string \<Rightarrow> (int \<times> string) option" where
  "ihex_wr inb n = (\<lambda>(rs, a, k, nb) out. b2ihex_loop (int rs) inb n (of_nat a) nb (of_nat k) out)"

definition ihex_rd :: "string \<Rightarrow> nat \<times> u32 \<times> u32 \<times> ihexrec \<Rightarrow> avrmem \<Rightarrow> (int \<times> avrmem) option" where
  "ihex_rd f = (\<lambda>(sz, base, mx, ihex) m. ihex2b_loop sz 0 f base mx ihex m)"

lemma ihex_step:
  assumes "ihex_together d m sz pos w r" and "pos < sz"
  shows "\<exists>n ls w' r'. 0 < n \<and> pos + n \<le> sz \<and> ihex_together d m sz (pos + n) w' r'
        \<and> (\<forall>out. ihex_wr (drop pos d) (sz - pos) w out = ihex_wr (drop (pos + n) d) (sz - (pos + n)) w' (out @ ls))
        \<and> (\<forall>rest. ihex_rd (ls @ rest) r (filled d pos m) = ihex_rd rest r' (filled d (pos + n) m))"
proof -
  obtain rs a k ihex where wr: "w = (rs, a, k, int pos)" "r = (sz, of_nat (65536 * k), of_nat pos, ihex)"
    and *: "fits d sz m" "0 < rs" "rs \<le> 121" "pos = 65536 * k + a" "a < 65536" "length (data ihex) = 256"
    using assms(1) by (cases w; cases r) (simp add: ihex_together_def)
  have sz: "sz < 2 ^ 31" "length d = sz" using *(1) by (simp_all add: fits_def)
  define n where "n = min (min rs (sz - pos)) (65536 - a)"
  have n: "0 < n" "n \<le> 121" "pos + n \<le> sz" "a + n \<le> 65536"
    using assms(2) * by (auto simp: n_def)
  define a' k' where "a' = (if a + n = 65536 then 0 else a + n)" and "k' = (if a + n = 65536 then k + 1 else k)"
  let ?line = "ihex_data_line (of_nat n) (of_nat a) (take n (drop pos d))"
  let ?ext = "if a + n = 65536 then ihex_ext_line (of_nat (k + 1)) else []"
  have k: "k' < 65536" using *(4) n sz(1) by (auto simp: k'_def)
  have pos': "pos + n = 65536 * k' + a'" "a' < 65536"
    using *(4) n(4) by (auto simp: k'_def a'_def)
  have "b2ihex_loop (int rs) (drop pos d) (sz - pos) (of_nat a) (int pos) (of_nat k) out =
      b2ihex_loop (int rs) (drop n (drop pos d)) (sz - pos - n) (of_nat (if a + n = 65536 then 0 else a + n))
        (int pos + int n) (of_nat (if a + n = 65536 then k + 1 else k)) (out @ ?line @ ?ext)" for out
  proof (rule b2ihex_loop_next [OF n(1) _ _ *(5) n(4) n_def])
    show "n \<le> length (drop pos d)" "n \<le> sz - pos" "rs \<le> 255" "sz - pos < 2 ^ 31"
      using n(3) sz *(3) by simp_all
  qed
  then have wrote: "b2ihex_loop (int rs) (drop pos d) (sz - pos) (of_nat a) (int pos) (of_nat k) out =
      b2ihex_loop (int rs) (drop (pos + n) d) (sz - (pos + n)) (of_nat a') (int (pos + n)) (of_nat k')
        (out @ ?line @ ?ext)" for out
    by (simp add: a'_def k'_def add.commute)
  obtain i1 where i1: "length (data i1) = 256" "\<And>rest. ihex2b_loop sz 0 (?line @ rest)
    (of_nat (65536 * k)) (of_nat pos) ihex (filled d pos m)
      = ihex2b_loop sz 0 rest (of_nat (65536 * k)) (of_nat (pos + n)) i1 (filled d (pos + n) m)"
    using ihex2b_data [OF *(1) n(1,2) *(5,6,4) n(3)] by blast
  obtain i2 where i2: "length (data i2) = 256" "\<And>rest. ihex2b_loop sz 0 (?ext @ rest)
    (of_nat (65536 * k)) (of_nat (pos + n)) i1 (filled d (pos + n) m)
      = ihex2b_loop sz 0 rest (of_nat (65536 * k')) (of_nat (pos + n)) i2 (filled d (pos + n) m)"
  proof (cases "a + n = 65536")
    case True
    then have "k + 1 < 65536" using k by (simp add: k'_def)
    from ihex2b_ext [OF this i1(1), of sz "of_nat (65536 * k)" "of_nat (pos + n)" "filled d (pos + n) m"]
    obtain i2 where "length (data i2) = 256" "\<forall>rest. ihex2b_loop sz 0 (ihex_ext_line (of_nat (k + 1)) @ rest)
      (of_nat (65536 * k)) (of_nat (pos + n)) i1 (filled d (pos + n) m)
        = ihex2b_loop sz 0 rest (of_nat (65536 * (k + 1))) (of_nat (pos + n)) i2 (filled d (pos + n) m)"
      by blast
    with True that [of i2] show ?thesis by (simp add: k'_def del: of_nat_add of_nat_mult of_nat_Suc)
  next
    case False
    with i1(1) that [of i1] show ?thesis by (simp add: k'_def)
  qed
  have "ihex_together d m sz (pos + n) (rs, a', k', int (pos + n)) (sz, of_nat (65536 * k'), of_nat (pos + n), i2)"
    using * pos' i2(1) by (simp add: ihex_together_def)
  then show ?thesis
    using wrote i1(2) i2(2) n(1,3)
    by (intro exI [of _ n] exI [of _ "?line @ ?ext"] exI [of _ "(rs, a', k', int (pos + n))"]
        exI [of _ "(sz, of_nat (65536 * k'), of_nat (pos + n), i2)"])
      (simp only: wr ihex_wr_def ihex_rd_def prod.case append_assoc simp_thms)
qed

lemma ihex_ends:
  assumes "ihex_together d m sz sz w r"
  shows "ihex_wr (drop sz d) 0 w out = Some (int sz, out)"
    "ihex_rd ihex_eof_line r (filled d sz m) = Some (int sz, filled d sz m)"
proof -
  obtain rs a k ihex where wr: "w = (rs, a, k, int sz)" "r = (sz, of_nat (65536 * k), of_nat sz, ihex)"
    and *: "sz < 2 ^ 31" "length (data ihex) = 256"
    using assms by (cases w; cases r) (simp add: ihex_together_def fits_def)
  show "ihex_wr (drop sz d) 0 w out = Some (int sz, out)"
    by (simp add: wr ihex_wr_def b2ihex_loop.simps)
  show "ihex_rd ihex_eof_line r (filled d sz m) = Some (int sz, filled d sz m)"
    using * by (simp only: wr ihex_rd_def prod.case ihex2b_eof sint_small)
qed

interpretation ihex_file: record_codec ihex_wr ihex_rd ihex_eof_line ihex_together
  by unfold_locales (fact ihex_ends, fact ihex_ends, fact ihex_step)

lemma ihex_written_is_read:
  assumes "fits d sz m" and "0 < rs" and "rs \<le> 121" and "length (data junk) = 256"
  shows "\<exists>txt. b2ihex d sz (int rs) 0 = Some (int sz, txt)
    \<and> ihex2b junk txt m sz 0 = Some (int sz, m\<lparr>buf := d, tags := replicate sz TAG_ALLOCATED\<rparr>)"
proof -
  have "ihex_together d m sz 0 (rs, 0, 0, 0) (sz, 0, 0, junk)"
    using assms by (simp add: ihex_together_def)
  from ihex_file.written_is_read [OF this] show ?thesis
    using assms filled_all [OF assms(1)]
    by (fastforce simp: b2ihex_def ihex2b_def ihex_wr_def ihex_rd_def)
qed

text \<open>C15: An Intel hex file written by b2ihex from a buffer with records of at most 121 bytes (avrdude
  uses 32; more do not fit the reader's line buffer), over any number of 64K segments, is read back
  by ihex2b: both report the size of the buffer, the memory holds the buffer and all its bytes are
  marked as allocated.\<close>

theorem ihex_roundtrip:
  assumes "fits d sz m" and "0 < rs" and "rs \<le> 121" and "length (data junk) = 256"
  shows "\<exists>txt. b2ihex d sz (int rs) 0 = Some (int sz, txt)
    \<and> ihex2b junk txt m sz 0 = Some (int sz, m\<lparr>buf := d, tags := replicate sz TAG_ALLOCATED\<rparr>)"
  by (rule ihex_written_is_read [OF assms])

theorem ihex_roundtrip_witness:
  "fits [1, 2, 3] 3 (avr_new_memtype\<lparr>buf := [0, 0, 0], tags := [0, 0, 0]\<rparr>) \<and>
   (\<exists>txt. b2ihex [1, 2, 3] 3 2 0 = Some (3, txt)
    \<and> ihex2b some_ihexrec txt (avr_new_memtype\<lparr>buf := [0, 0, 0], tags := [0, 0, 0]\<rparr>) 3 0
      = Some (3, avr_new_memtype\<lparr>buf := [1, 2, 3], tags := [1, 1, 1]\<rparr>))"
  using ihex_roundtrip [of "[1, 2, 3]" 3 "avr_new_memtype\<lparr>buf := [0, 0, 0], tags := [0, 0, 0]\<rparr>" 2 some_ihexrec]
  by (simp add: fits_def some_ihexrec_def TAG_ALLOCATED_def numeral_3_eq_3)

subsection \<open>Any file\<close>

lemma ihex2b_loop_ends:
  "mx \<le> of_nat sz \<Longrightarrow> sz < 2 ^ 31 \<Longrightarrow> ends_well sz m (ihex2b_loop sz fo f base mx ihex m)"
proof (induction "length f" arbitrary: f fo base mx ihex m rule: less_induct)
  case less
  have mx: "0 \<le> sint mx" "-1 \<le> sint mx" "sint mx \<le> int sz"
    using sint_le_size [OF less.prems] by linarith+
  have rec: "ends_well sz m (ihex2b_loop sz fo' f' base' mx' ihex' m1)"
    if "fgets MAX_LINE_LEN f = Some lf" "lf = (l, f')" "only_marked m m1" "mx' \<le> of_nat sz" for l lf fo' f' base' mx' ihex' m1
  proof -
    have "length f' < length f"
      using that(1,2) by (auto simp: MAX_LINE_LEN_def dest: fgets_progress)
    then show ?thesis using less.hyps that(3,4) less.prems(2) ends_well_trans by blast
  qed
  show ?case
    apply (subst ihex2b_loop.simps)
    by (intro ends_well_rules) (auto simp: mx less.prems intro!: rec dest: store_bytes_marked)
qed

lemma ihex2b_marked:
  assumes "ihex2b junk f m sz fo = Some (r, m')" and "sz < 2 ^ 31"
  shows "only_marked m m' \<and> -1 \<le> r \<and> r \<le> int sz"
  using ihex2b_loop_ends [of 0 sz m fo f 0 junk] assms by (simp add: ihex2b_def)

text \<open>When the reading of a file has a defined result, ihex2b returns a size between -1 (failure) and the buffer size, keeps
  the sizes of the memory's arrays and changes no byte that it does not mark as allocated.\<close>

theorem ihex2b_any_file:
  assumes "ihex2b junk f m sz fo = Some (r, m')" and "sz < 2 ^ 31"
  shows "only_marked m m' \<and> -1 \<le> r \<and> r \<le> int sz"
  by (rule ihex2b_marked [OF assms])

lemma small_file_read:
  "ihex2b some_ihexrec ('':0100010042BC'' @ [NL] @ ihex_eof_line) small_mem 3 0
    = Some (2, small_mem\<lparr>buf := [7, 0x42, 7], tags := [0, 1, 0]\<rparr>)"
proof -
  have t: "'':0100010042BC'' @ [NL] @ ihex_eof_line
      = record_text 1 1 0 [0x42] (- record_sum 1 1 0 [0x42]) @ NL # ihex_eof_line"
    by code_simp
  have "store_bytes 1 [0x42] small_mem = Some (small_mem\<lparr>buf := [7, 0x42, 7], tags := [0, 1, 0]\<rparr>)"
    by (simp add: small_mem_def TAG_ALLOCATED_def)
  then show ?thesis
    unfolding ihex2b_def t
    using ihex2b_eof [of "some_ihexrec\<lparr>reclen := 1, loadofs := 1, data := 0x42 # replicate 255 0,
        cksum := - record_sum 1 1 0 [0x42]\<rparr>" 3 0 2 "small_mem\<lparr>buf := [7, 0x42, 7], tags := [0, 1, 0]\<rparr>"]
    by (subst ihex2b_record [OF _ _ _ _ refl refl]) (simp_all add: some_ihexrec_def)
qed

theorem ihex2b_any_file_witness:
  "ihex2b some_ihexrec ('':0100010042BC'' @ [NL] @ ihex_eof_line) small_mem 3 0
    = Some (2, small_mem\<lparr>buf := [7, 0x42, 7], tags := [0, 1, 0]\<rparr>)
   \<and> only_marked small_mem (small_mem\<lparr>buf := [7, 0x42, 7], tags := [0, 1, 0]\<rparr>)"
  using ihex2b_any_file [OF small_file_read] small_file_read by simp

text \<open>A record whose checksum byte is not the one of its fields ends the reading with -1 and leaves
  the memory as it is.\<close>

theorem ihex_bad_checksum:
  assumes "length bs \<le> 121" and "a < 65536" and "length (data junk) = 256"
    and "ck \<noteq> - record_sum (length bs) a rty bs"
  shows "ihex2b junk (record_text (length bs) a rty bs ck @ NL # rest) m sz fo = Some (-1, m)"
proof -
  let ?t = "record_text (length bs) a rty bs ck"
  have g: "fgets MAX_LINE_LEN (?t @ NL # rest) = Some (?t @ [NL], rest)"
    using assms by (intro fgets_record) simp_all
  have hd: "hd ?t = CHR '':''" "?t \<noteq> []" by (simp_all add: record_text_def)
  have "uint (- record_sum (length bs) a rty bs) \<noteq> uint ck"
    using assms(4) by (metis unsigned_word_eqI)
  then show ?thesis
    using readrec_text [of bs "length bs" a junk rty ck] assms
    by (simp add: ihex2b_def) (subst ihex2b_loop.simps, simp add: g chomp_record hd Let_def)
qed

theorem ihex_bad_checksum_witness:
  "0x43 \<noteq> - record_sum 1 0 0 [0x42] \<and>
   ihex2b some_ihexrec (record_text 1 0 0 [0x42] 0x43 @ NL # []) small_mem 3 0 = Some (-1, small_mem)"
proof -
  have c: "(0x43 :: u8) \<noteq> - record_sum (length [0x42 :: u8]) 0 0 [0x42]" by code_simp
  with ihex_bad_checksum [OF _ _ _ c, of some_ihexrec "[]" small_mem 3 0] show ?thesis
    by (simp add: some_ihexrec_def)
qed

text \<open>The end address of a record is computed modulo 2 ^ 32, so a record of n bytes in the last n - 1
  bytes of the 32-bit address space passes the test against the buffer size and is stored outside the
  memory: reading such a file is undefined, whatever the size of the memory.\<close>

theorem ihex_wrap_overflow:
  assumes "length bs = 2" and "length (data junk) = 256" and "0 < sz" and "sz < 2 ^ 31"
    and "length (buf m) = sz"
  shows "ihex2b junk (ihex_ext_line 0xFFFF @ record_text 2 0xFFFF 0 bs (- record_sum 2 0xFFFF 0 bs) @ NL # rest) m sz 0
    = None"
proof -
  have e: "ihex_ext_line 0xFFFF = ihex_ext_line (of_nat 65535)" by simp
  obtain i where i: "length (data i) = 256" "\<And>rest. ihex2b_loop sz 0 (ihex_ext_line (of_nat 65535) @ rest) 0 0 junk m
    = ihex2b_loop sz 0 rest (of_nat (65536 * 65535)) 0 i m"
    using ihex2b_ext [OF _ assms(2), of 65535 sz 0 0 m] by auto
  have n: "\<not> (1 :: u32) > of_nat sz"
    using assms(3,4) by (simp add: word_less_nat_alt unsigned_of_nat take_bit_nat_eq_self)
  have one: "(4294967297 :: u32) = 1" by simp
  obtain b bs' where bs: "bs = b # bs'" using assms(1) by (cases bs) auto
  have "store_bytes 0xFFFFFFFF bs m = None" using assms(4,5) bs by simp
  then show ?thesis
    unfolding ihex2b_def e i(2)
    using n assms(1) i(1) by (subst ihex2b_record [OF assms(1) _ _ _ refl refl]) (simp_all add: one)
qed

theorem ihex_wrap_overflow_witness:
  "ihex2b some_ihexrec (ihex_ext_line 0xFFFF @ record_text 2 0xFFFF 0 [1, 2] (- record_sum 2 0xFFFF 0 [1, 2]) @ NL # [])
     small_mem 3 0 = None"
  using ihex_wrap_overflow [of "[1, 2]" some_ihexrec 3 small_mem "[]"]
  by (simp add: some_ihexrec_def small_mem_def)

end
