(* ===== verification/SRec.thy ===== *)
theory SRec
  imports HexRec
begin

text \<open>
  Motorola S-records in \<^verbatim>\<open>fileio.c\<close>: writing (\<^verbatim>\<open>b2srec\<close>), reading one record (\<^verbatim>\<open>srec_readrec\<close>) and
  reading a file (\<^verbatim>\<open>srec2b\<close>). As for Intel hex, \<open>None\<close> is undefined behaviour or an endless loop.
\<close>

subsection \<open>Writing\<close>

definition srec_width :: "u32 \<Rightarrow> nat" where
  "srec_width e = (if e \<le> 0xffff then 2 else if e \<le> 0xffffff then 3 else 4)"

text \<open>The address bytes, most significant first, added to a checksum.\<close>

definition sum_addr :: "nat \<Rightarrow> u32 \<Rightarrow> u8 \<Rightarrow> u8" where
  "sum_addr aw a c = foldl (\<lambda>c i. c + byte_of a i) c (rev [0..<aw])"

definition srec_line :: "string \<Rightarrow> nat \<Rightarrow> nat \<Rightarrow> u32 \<Rightarrow> u8 list \<Rightarrow> string" where
  "srec_line typ' aw n a bs =
     typ' @ hex 2 (n + aw + 1) @ hex (2 * aw) (unat a) @ concat (map hex8 bs)
     @ hex8 (0xff - sum8 bs (sum_addr aw a (of_nat (n + aw + 1)))) @ [NL]"

definition srec_data_type :: "nat \<Rightarrow> string" where
  "srec_data_type aw = (if aw = 2 then ''S1'' else if aw = 3 then ''S2'' else ''S3'')"

text \<open>
  The bytes of a record: the buffer is indexed with the address itself. The end of the loop is
  computed on 32 bits, so a record that ends past \<open>2 ^ 32\<close> has no bytes.
\<close>

definition srec_bytes :: "u8 list \<Rightarrow> u32 \<Rightarrow> nat \<Rightarrow> u8 list option" where
  "srec_bytes inb nextaddr n =
     (if nextaddr + of_nat n < nextaddr then Some []
      else if unat nextaddr + n \<le> length inb then Some (take n (drop (unat nextaddr) inb))
      else None)"

text \<open>A record size of zero loops for ever; a negative one overflows the remaining size.\<close>

partial_function (option) b2srec_loop ::
    "u8 list \<Rightarrow> int \<Rightarrow> nat \<Rightarrow> u32 \<Rightarrow> int \<Rightarrow> string \<Rightarrow> (int \<times> string) option" where
  "b2srec_loop inb recsize bufsize nextaddr nbytes out =
     (if bufsize = 0 then Some (nbytes, out)
      else if recsize < 0 then None
      else (let n = min (nat recsize) bufsize
            in if n = 0 then b2srec_loop inb recsize (bufsize - n) nextaddr nbytes out
               else (case srec_bytes inb nextaddr n of
                 None \<Rightarrow> None
               | Some bs \<Rightarrow>
                   (let aw = srec_width (nextaddr + of_nat n)
                    in b2srec_loop inb recsize (bufsize - n) (nextaddr + of_nat n) (nbytes + int n)
                         (out @ srec_line (srec_data_type aw) aw n nextaddr bs)))))"

text \<open>The width of the end record: the start address is a signed integer there.\<close>

definition srec_end_line :: "u32 \<Rightarrow> string" where
  "srec_end_line startaddr =
     (let aw = (if sint startaddr \<le> 0xffff then 2 else if sint startaddr \<le> 0xffffff then 3 else 4)
      in srec_line ''S9'' aw 0 0 [])"

definition b2srec :: "u8 list \<Rightarrow> nat \<Rightarrow> int \<Rightarrow> u32 \<Rightarrow> (int \<times> string) option" where
  "b2srec inbuf bufsize recsize startaddr =
     (if recsize > 255 then Some (-1, [])
      else do {
        (nbytes, out) \<leftarrow> b2srec_loop inbuf recsize bufsize startaddr 0 [];
        Some (nbytes, out @ srec_end_line startaddr)
      })"

subsection \<open>Reading a record\<close>

text \<open>
  The address of a record of four address bytes has eight digits, and its terminating zero is
  written past the local array of eight characters. (A record that ends within its address field
  makes the code look at stale characters after the line; it fails all the same, at the data or the
  checksum.)
\<close>

datatype readrec = Undefined | Invalid | Parsed int ihexrec

definition srec_addr_width :: "u8 \<Rightarrow> nat" where
  "srec_addr_width rty = (if rty = 0x32 \<or> rty = 0x38 then 3 else if rty = 0x33 \<or> rty = 0x37 then 4 else 2)"

definition srec_rest :: "ihexrec \<Rightarrow> string \<Rightarrow> nat \<Rightarrow> u8 \<Rightarrow> readrec" where
  "srec_rest srec rec aw ck =
     (case read_data rec (4 + 2 * aw) 0 (unat (reclen srec)) (data srec) ck of
        None \<Rightarrow> Invalid
      | Some (d, ck, offset) \<Rightarrow>
          (case field rec offset 2 of
             None \<Rightarrow> Invalid
           | Some c \<Rightarrow> Parsed (uint (0xff - ck)) (srec\<lparr>data := d, cksum := ucast c\<rparr>)))"

definition srec_readrec :: "ihexrec \<Rightarrow> string \<Rightarrow> readrec" where
  "srec_readrec srec rec =
     (if 1 + 1 > length rec then Invalid
      else let rty = of_char (rec ! 1); aw = srec_addr_width rty
      in case field rec 2 2 of
           None \<Rightarrow> Invalid
         | Some len \<Rightarrow>
             if 4 + aw > length rec then Invalid
             else if aw = 4 then Undefined
             else (case field rec 4 (2 * aw) of
                None \<Rightarrow> Invalid
              | Some a \<Rightarrow>
                  srec_rest (srec\<lparr>rectyp := rty, reclen := ucast len - of_nat (aw + 1), loadofs := ucast a\<rparr>)
                    rec aw (sum_addr aw (ucast a) (ucast len))))"

subsection \<open>Reading a file\<close>

function srec2b_loop :: "nat \<Rightarrow> u32 \<Rightarrow> string \<Rightarrow> u32 \<Rightarrow> nat \<Rightarrow> ihexrec \<Rightarrow> avrmem \<Rightarrow> (int \<times> avrmem) option" where
  "srec2b_loop bufsize fileoffset f maxaddr reccount srec m =
     (case fgets MAX_LINE_LEN f of
        None \<Rightarrow> Some (sint maxaddr, m)
      | Some (l, f') \<Rightarrow>
          (case chomp l of
             None \<Rightarrow> None
           | Some buffer \<Rightarrow>
               if buffer = [] \<or> hd buffer \<noteq> CHR ''S''
               then srec2b_loop bufsize fileoffset f' maxaddr reccount srec m
               else (case srec_readrec srec buffer of
                  Undefined \<Rightarrow> None
                | Invalid \<Rightarrow> Some (-1, m)
                | Parsed rc srec \<Rightarrow>
                    if rc \<noteq> uint (cksum srec) then Some (-1, m)
                    else if rectyp srec = 0x30 then srec2b_loop bufsize fileoffset f' maxaddr reccount srec m
                    else if rectyp srec = 0x31 \<or> rectyp srec = 0x32 \<or> rectyp srec = 0x33 then
                      (if loadofs srec < fileoffset then Some (-1, m)
                       else (let nextaddr = loadofs srec - fileoffset;
                                 e = nextaddr + ucast (reclen srec)
                             in if e > of_nat bufsize then Some (-1, m)
                                else (case store_bytes nextaddr (take (unat (reclen srec)) (data srec)) m of
                                   None \<Rightarrow> None
                                 | Some m \<Rightarrow> srec2b_loop bufsize fileoffset f'
                                      (if e > maxaddr then e else maxaddr) (reccount + 1) srec m)))
                    else if rectyp srec = 0x35 then
                      (if loadofs srec \<noteq> of_nat reccount then Some (-1, m)
                       else srec2b_loop bufsize fileoffset f' maxaddr reccount srec m)
                    else if rectyp srec = 0x37 \<or> rectyp srec = 0x38 \<or> rectyp srec = 0x39
                    then Some (sint maxaddr, m)
                    else Some (-1, m))))"
  by pat_completeness auto
termination
  by (relation "measure (\<lambda>(_, _, f, _). length f)") (auto simp: MAX_LINE_LEN_def dest: fgets_progress)

declare srec2b_loop.simps [simp del]

definition srec2b :: "ihexrec \<Rightarrow> string \<Rightarrow> avrmem \<Rightarrow> nat \<Rightarrow> u32 \<Rightarrow> (int \<times> avrmem) option" where
  "srec2b junk f m bufsize fileoffset = srec2b_loop bufsize fileoffset f 0 0 junk m"

subsection \<open>A printed record is read back\<close>

lemma length_sline:
  assumes "n + aw + 1 < 256" and "unat a < 16 ^ (2 * aw)" and "0 < aw"
  shows "length (srec_line t aw n a bs) = length t + 2 + 2 * aw + 2 * length bs + 2 + 1"
  using assms by (simp add: srec_line_def length_hex)

text \<open>The line of a record without its newline.\<close>

definition srec_text :: "char \<Rightarrow> nat \<Rightarrow> nat \<Rightarrow> nat \<Rightarrow> u8 list \<Rightarrow> u8 \<Rightarrow> string" where
  "srec_text t aw n a bs ck = [CHR ''S'', t] @ hex 2 (n + aw + 1) @ hex (2 * aw) a @ concat (map hex8 bs) @ hex8 ck"

definition srec_sum :: "nat \<Rightarrow> nat \<Rightarrow> nat \<Rightarrow> u8 list \<Rightarrow> u8" where
  "srec_sum aw n a bs = 0xff - sum8 bs (sum_addr aw (of_nat a) (of_nat (n + aw + 1)))"

lemma srec_line_text:
  assumes "a < 2 ^ 32"
  shows "srec_line [CHR ''S'', t] aw n (of_nat a) bs = srec_text t aw n a bs (srec_sum aw n a bs) @ [NL]"
  using assms by (simp add: srec_line_def srec_text_def srec_sum_def unsigned_of_nat take_bit_nat_eq_self)

lemma srec_text_chars:
  assumes "c \<in> set (srec_text t aw n a bs ck)" and "t \<noteq> NL" and "t \<noteq> NUL"
  shows "c \<noteq> NL \<and> c \<noteq> NUL"
proof -
  have "CHR ''S'' \<noteq> NL \<and> CHR ''S'' \<noteq> NUL" by (simp add: NL_def NUL_def)
  moreover have "c = CHR ''S'' \<or> c = t \<or> (\<exists>w v. c \<in> set (hex w v))"
    using assms(1) unfolding srec_text_def hex8_def by auto
  ultimately show ?thesis
    using assms(2,3) by (elim disjE exE) (auto dest: hex_no_control)
qed

lemma length_srec_text:
  assumes "n + aw + 1 < 256" and "a < 16 ^ (2 * aw)" and "0 < aw"
  shows "length (srec_text t aw n a bs ck) = 6 + 2 * aw + 2 * length bs"
  using assms by (simp add: srec_text_def length_hex)

lemma srec_readrec_text:
  assumes "length bs = n" and "n + aw + 1 < 256" and "a < 16 ^ (2 * aw)" and "n \<le> length (data srec)"
    and "aw = srec_addr_width (of_char t)" and "aw = 2 \<or> aw = 3"
  shows "srec_readrec srec (srec_text t aw n a bs ck) = Parsed (uint (srec_sum aw n a bs))
     (srec\<lparr>rectyp := of_char t, reclen := of_nat n, loadofs := of_nat a,
        data := bs @ drop n (data srec), cksum := ck\<rparr>)"
proof -
  let ?r = "srec_text t aw n a bs ck"
  have len: "length (hex 2 (n + aw + 1)) = 2" "length (hex (2 * aw) a) = 2 * aw"
    using assms by (auto simp add: length_hex)
  have n0: "aw \<noteq> 0" "aw \<noteq> 4" "0 < 2 * aw" "2 * aw \<le> 16" using assms(6) by auto
  have f1: "field ?r 2 2 = Some (of_nat (n + aw + 1))"
    using field_hex [of "n + aw + 1" 2 "[CHR ''S'', t]" 2 "hex (2 * aw) a @ concat (map hex8 bs) @ hex8 ck"] assms(2)
    by (simp add: srec_text_def del: of_nat_add)
  have f2: "field ?r 4 (2 * aw) = Some (of_nat a)"
    using field_hex [of a "2 * aw" "[CHR ''S'', t] @ hex 2 (n + aw + 1)" 4 "concat (map hex8 bs) @ hex8 ck"] assms(3) len n0
    by (simp add: srec_text_def)
  have f3: "read_data ?r (4 + 2 * aw) 0 n (data srec) c
      = Some (bs @ drop n (data srec), sum8 bs c, 4 + 2 * aw + 2 * n)" for c
    using read_data_hex [of 0 bs "data srec" "[CHR ''S'', t] @ hex 2 (n + aw + 1) @ hex (2 * aw) a" "4 + 2 * aw" "hex8 ck"]
      assms(1,4) len
    by (simp add: srec_text_def)
  have f4: "field ?r (4 + 2 * aw + 2 * n) 2 = Some (ucast ck)"
    using field_hex8 [of "[CHR ''S'', t] @ hex 2 (n + aw + 1) @ hex (2 * aw) a @ concat (map hex8 bs)"
        "4 + 2 * aw + 2 * n" ck "[]"] len assms(1)
    by (simp add: srec_text_def)
  have r: "length ?r = 6 + 2 * aw + 2 * n" "?r ! 1 = t"
    using length_srec_text [of n aw a t bs ck] assms n0 by (simp_all add: srec_text_def)
  have "(16 :: nat) ^ (2 * aw) \<le> 16 ^ 8" using assms(6) by (intro power_increasing) auto
  then have a: "a < 2 ^ 32" using assms(3) by simp
  have w8: "(ucast (of_nat x :: u64) :: u8) = of_nat x" for x :: nat
    by (simp add: unsigned_of_nat word_of_nat_eq_iff)
  have w: "(ucast (of_nat a :: u64) :: u32) = of_nat a" "unat (of_nat n :: u8) = n"
    using assms(2) a by (simp_all add: unsigned_of_nat word_of_nat_eq_iff take_bit_nat_eq_self)
  have "(of_nat (n + aw + 1) :: u8) - of_nat (aw + 1) = of_nat n" by simp
  then show ?thesis
    using f1 f2 f3 f4 r n0 assms(5) w w8 [of "n + aw + 1"]
    by (simp add: srec_readrec_def srec_rest_def Let_def srec_sum_def del: of_nat_add One_nat_def)
qed

subsection \<open>Reading such records into a memory\<close>

lemma srec2b_record:
  assumes "length bs = n" and "n \<le> 121" and "a < 16 ^ (2 * aw)" and "length (data srec) = 256"
    and "aw = srec_addr_width (of_char t)" and "aw = 2 \<or> aw = 3" and "t \<noteq> NL" and "t \<noteq> NUL"
    and "srec' = srec\<lparr>rectyp := of_char t, reclen := of_nat n, loadofs := of_nat a,
        data := bs @ drop n (data srec), cksum := srec_sum aw n a bs\<rparr>"
  shows "srec2b_loop sz 0 (srec_text t aw n a bs (srec_sum aw n a bs) @ NL # rest) mx rc srec m =
    (if rectyp srec' = 0x30 then srec2b_loop sz 0 rest mx rc srec' m
     else if rectyp srec' = 0x31 \<or> rectyp srec' = 0x32 \<or> rectyp srec' = 0x33 then
       (let e = of_nat a + of_nat n
        in if e > of_nat sz then Some (-1, m)
           else (case store_bytes (of_nat a) bs m of
              None \<Rightarrow> None
            | Some m \<Rightarrow> srec2b_loop sz 0 rest (if e > mx then e else mx) (rc + 1) srec' m))
     else if rectyp srec' = 0x35 then
       (if of_nat a \<noteq> (of_nat rc :: u32) then Some (-1, m) else srec2b_loop sz 0 rest mx rc srec' m)
     else if rectyp srec' = 0x37 \<or> rectyp srec' = 0x38 \<or> rectyp srec' = 0x39 then Some (sint mx, m)
     else Some (-1, m))"
proof -
  let ?t = "srec_text t aw n a bs (srec_sum aw n a bs)"
  have len: "n + aw + 1 < 256" "0 < aw" "n \<le> length (data srec)" using assms by auto
  have nc: "NL \<notin> set ?t" "NUL \<notin> set ?t" using srec_text_chars assms(7,8) by blast+
  have g: "fgets MAX_LINE_LEN (?t @ NL # rest) = Some (?t @ [NL], rest)"
    using nc(1) length_srec_text [OF len(1) assms(3) len(2), of t bs] assms(1,2,6)
    by (intro fgets_line) (auto simp: MAX_LINE_LEN_def)
  have hd: "hd ?t = CHR ''S''" "?t \<noteq> []" by (simp_all add: srec_text_def)
  have r: "srec_readrec srec ?t = Parsed (uint (srec_sum aw n a bs)) srec'"
    using srec_readrec_text [OF assms(1) len(1) assms(3) len(3) assms(5,6)] assms(9) by simp
  have fields: "cksum srec' = srec_sum aw n a bs" "loadofs srec' = of_nat a"
    "ucast (reclen srec') = (of_nat n :: u32)" "take (unat (reclen srec')) (data srec') = bs"
    using assms by (simp_all add: unsigned_of_nat word_of_nat_eq_iff take_bit_nat_eq_self)
  show ?thesis
    by (subst srec2b_loop.simps)
      (simp add: g chomp_line [OF nc(2)] hd r fields Let_def cong: if_cong option.case_cong)
qed

lemma srec2b_data:
  assumes "fits d sz m" and "0 < n" and "n \<le> 121" and "pos + n \<le> sz" and "length (data srec) = 256"
    and "aw = srec_width (of_nat (pos + n))" and "sz < 2 ^ 24"
  shows "\<exists>srec'. length (data srec') = 256 \<and> (\<forall>rest.
    srec2b_loop sz 0 (srec_line (srec_data_type aw) aw n (of_nat pos) (take n (drop pos d)) @ rest)
      (of_nat pos) rc srec (filled d pos m)
    = srec2b_loop sz 0 rest (of_nat (pos + n)) (rc + 1) srec' (filled d (pos + n) m))"
proof -
  let ?bs = "take n (drop pos d)"
  define t where "t = (if aw = 2 then CHR ''1'' else CHR ''2'')"
  let ?i = "srec\<lparr>rectyp := of_char t, reclen := of_nat n, loadofs := of_nat pos,
        data := ?bs @ drop n (data srec), cksum := srec_sum aw n pos ?bs\<rparr>"
  have u: "unat (of_nat (pos + n) :: u32) = pos + n" "unat (of_nat pos :: u32) = pos" "unat (of_nat sz :: u32) = sz"
    using assms(4,7) by (simp_all add: unsigned_of_nat take_bit_nat_eq_self del: of_nat_add)
  have aw: "aw = (if pos + n \<le> 0xffff then 2 else 3)"
    using assms(4,6,7) u(1) by (simp add: srec_width_def word_le_nat_alt del: of_nat_add)
  have a: "aw = 2 \<or> aw = 3" "pos < 16 ^ (2 * aw)"
    using aw assms(2,4,7) by (auto split: if_splits)
  have t: "srec_data_type aw = [CHR ''S'', t]" "aw = srec_addr_width (of_char t)" "t \<noteq> NL" "t \<noteq> NUL"
    "(of_char t :: u8) = (if aw = 2 then 0x31 else 0x32)"
    using a(1) by (auto simp: t_def srec_data_type_def srec_addr_width_def NL_def NUL_def of_char_def)
  have bs: "length ?bs = n" using assms(1,4) by (simp add: fits_def)
  have line: "srec_line (srec_data_type aw) aw n (of_nat pos) ?bs @ rest
      = srec_text t aw n pos ?bs (srec_sum aw n pos ?bs) @ NL # rest" for rest
    using assms(4,7) by (simp add: t(1) srec_line_text)
  have lt: "(of_nat (pos + n) :: u32) > of_nat pos" "\<not> (of_nat (pos + n) :: u32) > of_nat sz"
    using assms(2,4) u by (simp_all add: word_less_nat_alt del: of_nat_add)
  have w: "(of_nat pos :: u32) + of_nat n = of_nat (pos + n)" by simp
  have n256: "n + (256 - n) = 256" using assms(3) by simp
  show ?thesis
    unfolding line
    using srec2b_record [OF bs assms(3) a(2) assms(5) t(2) a(1) t(3,4) refl, where sz = sz
      and mx = "of_nat pos" and m = "filled d pos m" and rc = rc]
      filled_store [OF assms(1,4)] bs assms(3,5) lt t(5) a(1)
    by (intro exI [of _ ?i]) (simp only: w Let_def option.case if_True if_False simp_thms, simp add: n256)
qed

lemma srec_end_text: "srec_end_line 0 = srec_text CHR ''9'' 2 0 0 [] (srec_sum 2 0 0 []) @ [NL]"
  by code_simp

lemma srec2b_end:
  assumes "length (data srec) = 256"
  shows "srec2b_loop sz 0 (srec_end_line 0) mx rc srec m = Some (sint mx, m)"
proof -
  have c: "(of_char (CHR ''9'') :: u8) = 0x39" by code_simp
  have t: "2 = srec_addr_width (of_char (CHR ''9''))" "CHR ''9'' \<noteq> NL" "CHR ''9'' \<noteq> NUL"
    by (simp_all add: c srec_addr_width_def NL_def NUL_def)
  define srec' where "srec' = srec\<lparr>rectyp := of_char (CHR ''9''), reclen := of_nat 0, loadofs := of_nat 0,
        data := [] @ drop 0 (data srec), cksum := srec_sum 2 0 0 []\<rparr>"
  have r: "rectyp srec' = 0x39" by (simp add: srec'_def c)
  have "srec2b_loop sz 0 (srec_text CHR ''9'' 2 0 0 [] (srec_sum 2 0 0 []) @ NL # []) mx rc srec m
      = Some (sint mx, m)"
    by (subst srec2b_record [OF _ _ _ assms t(1) _ t(2,3) srec'_def]) (simp_all add: r)
  then show ?thesis unfolding srec_end_text .
qed

subsection \<open>The round trip\<close>

lemma b2srec_loop_next:
  assumes "0 < rs" and "pos < sz" and "length d = sz" and "sz < 2 ^ 31" and "n = min rs (sz - pos)"
    and "aw = srec_width (of_nat (pos + n))"
  shows "b2srec_loop d (int rs) (sz - pos) (of_nat pos) nb out =
    b2srec_loop d (int rs) (sz - (pos + n)) (of_nat (pos + n)) (nb + int n)
      (out @ srec_line (srec_data_type aw) aw n (of_nat pos) (take n (drop pos d)))"
proof -
  have n: "min (nat (int rs)) (sz - pos) = n" "0 < n" "n \<noteq> 0" "pos + n \<le> sz" using assms by auto
  have u: "unat (of_nat (pos + n) :: u32) = pos + n" "unat (of_nat pos :: u32) = pos"
    using assms(4) n(4) by (simp_all add: unsigned_of_nat take_bit_nat_eq_self del: of_nat_add)
  have w: "(of_nat pos :: u32) + of_nat n = of_nat (pos + n)" by simp
  have "\<not> (of_nat (pos + n) :: u32) < of_nat pos"
    using u by (simp add: word_less_nat_alt del: of_nat_add)
  then have bs: "srec_bytes d (of_nat pos) n = Some (take n (drop pos d))"
    using u assms(3) n(4) by (simp only: srec_bytes_def w if_False) simp
  have ok: "(sz - pos = 0) = False" "(int rs < 0) = False" "sz - pos - n = sz - (pos + n)" using assms(2) by auto
  show ?thesis
    by (subst b2srec_loop.simps)
      (use n in \<open>simp only: ok n Let_def if_False bs w option.case assms(6)\<close>)
qed

definition srec_together :: "u8 list \<Rightarrow> avrmem \<Rightarrow> nat \<Rightarrow> nat \<Rightarrow> nat \<times> u8 list \<times> nat
    \<Rightarrow> nat \<times> u32 \<times> nat \<times> ihexrec \<Rightarrow> bool" where
  "srec_together d m sz pos = (\<lambda>(rs, inb, p) (sz', mx, rc, srec).
     fits d sz m \<and> sz < 2 ^ 24 \<and> 0 < rs \<and> rs \<le> 121 \<and> inb = d \<and> p = pos \<and> sz' = sz \<and> mx = of_nat pos
     \<and> length (data srec) = 256)"

definition srec_wr :: "u8 list \<Rightarrow> nat \<Rightarrow> nat \<times> u8 list \<times> nat \<Rightarrow> string \<Rightarrow> (int \<times> string) option" where
  "srec_wr _ n = (\<lambda>(rs, inb, p) out. b2srec_loop inb (int rs) n (of_nat p) (int p) out)"

definition srec_rd :: "string \<Rightarrow> nat \<times> u32 \<times> nat \<times> ihexrec \<Rightarrow> avrmem \<Rightarrow> (int \<times> avrmem) option" where
  "srec_rd f = (\<lambda>(sz, mx, rc, srec) m. srec2b_loop sz 0 f mx rc srec m)"

lemma srec_step:
  assumes "srec_together d m sz pos w r" and "pos < sz"
  shows "\<exists>n ls w' r'. 0 < n \<and> pos + n \<le> sz \<and> srec_together d m sz (pos + n) w' r'
        \<and> (\<forall>out. srec_wr (drop pos d) (sz - pos) w out = srec_wr (drop (pos + n) d) (sz - (pos + n)) w' (out @ ls))
        \<and> (\<forall>rest. srec_rd (ls @ rest) r (filled d pos m) = srec_rd rest r' (filled d (pos + n) m))"
proof -
  obtain rs rc srec where wr: "w = (rs, d, pos)" "r = (sz, of_nat pos, rc, srec)"
    and *: "fits d sz m" "sz < 2 ^ 24" "0 < rs" "rs \<le> 121" "length (data srec) = 256"
    using assms(1) by (cases w; cases r) (simp add: srec_together_def)
  have sz: "sz < 2 ^ 31" "length d = sz" using *(1) by (simp_all add: fits_def)
  define n where "n = min rs (sz - pos)"
  have n: "0 < n" "n \<le> 121" "pos + n \<le> sz" using assms(2) * by (auto simp: n_def)
  define aw where "aw = srec_width (of_nat (pos + n))"
  let ?line = "srec_line (srec_data_type aw) aw n (of_nat pos) (take n (drop pos d))"
  obtain i where i: "length (data i) = 256" "\<And>rest. srec2b_loop sz 0 (?line @ rest)
      (of_nat pos) rc srec (filled d pos m)
      = srec2b_loop sz 0 rest (of_nat (pos + n)) (rc + 1) i (filled d (pos + n) m)"
    using srec2b_data [OF *(1) n(1,2,3) *(5) aw_def *(2)] by blast
  have "srec_together d m sz (pos + n) (rs, d, pos + n) (sz, of_nat (pos + n), rc + 1, i)"
    using * i(1) by (simp add: srec_together_def)
  then show ?thesis
    using b2srec_loop_next [OF *(3) assms(2) sz(2,1) n_def aw_def] i(2) n(1,3)
    by (intro exI [of _ n] exI [of _ "?line"] exI [of _ "(rs, d, pos + n)"]
        exI [of _ "(sz, of_nat (pos + n), rc + 1, i)"])
      (simp only: wr srec_wr_def srec_rd_def prod.case of_nat_add simp_thms)
qed

lemma srec_ends:
  assumes "srec_together d m sz sz w r"
  shows "srec_wr (drop sz d) 0 w out = Some (int sz, out)"
    "srec_rd (srec_end_line 0) r (filled d sz m) = Some (int sz, filled d sz m)"
proof -
  obtain rs rc srec where wr: "w = (rs, d, sz)" "r = (sz, of_nat sz, rc, srec)"
    and *: "sz < 2 ^ 31" "length (data srec) = 256"
    using assms by (cases w; cases r) (simp add: srec_together_def fits_def)
  show "srec_wr (drop sz d) 0 w out = Some (int sz, out)"
    by (simp add: wr srec_wr_def b2srec_loop.simps)
  show "srec_rd (srec_end_line 0) r (filled d sz m) = Some (int sz, filled d sz m)"
    using * by (simp only: wr srec_rd_def prod.case srec2b_end sint_small)
qed

interpretation srec_file: record_codec srec_wr srec_rd "srec_end_line 0" srec_together
  by unfold_locales (fact srec_ends, fact srec_ends, fact srec_step)

text \<open>An S-record file written by b2srec from a buffer below 16 MB with records of at most 121 bytes
  (avrdude uses 32), with 16-bit and 24-bit addresses as they are needed, is read back by srec2b:
  both report the size of the buffer, the memory holds it and all its bytes are marked as
  allocated.\<close>

lemma srec_written_is_read:
  assumes "fits d sz m" and "sz < 2 ^ 24" and "0 < rs" and "rs \<le> 121" and "length (data junk) = 256"
  shows "\<exists>txt. b2srec d sz (int rs) 0 = Some (int sz, txt)
    \<and> srec2b junk txt m sz 0 = Some (int sz, m\<lparr>buf := d, tags := replicate sz TAG_ALLOCATED\<rparr>)"
proof -
  have "srec_together d m sz 0 (rs, d, 0) (sz, 0, 0, junk)"
    using assms by (simp add: srec_together_def)
  from srec_file.written_is_read [OF this] show ?thesis
    using assms filled_all [OF assms(1)]
    by (fastforce simp: b2srec_def srec2b_def srec_wr_def srec_rd_def)
qed

subsection \<open>Any file\<close>

lemma ends_well_readrec:
  assumes "r = Undefined \<Longrightarrow> ends_well sz m a" and "r = Invalid \<Longrightarrow> ends_well sz m b"
    and "\<And>x y. r = Parsed x y \<Longrightarrow> ends_well sz m (g x y)"
  shows "ends_well sz m (case r of Undefined \<Rightarrow> a | Invalid \<Rightarrow> b | Parsed x y \<Rightarrow> g x y)"
  using assms by (cases r) simp_all

lemma srec2b_loop_ends:
  "mx \<le> of_nat sz \<Longrightarrow> sz < 2 ^ 31 \<Longrightarrow> ends_well sz m (srec2b_loop sz fo f mx rc srec m)"
proof (induction "length f" arbitrary: f fo mx rc srec m rule: less_induct)
  case less
  have mx: "0 \<le> sint mx" "-1 \<le> sint mx" "sint mx \<le> int sz"
    using sint_le_size [OF less.prems] by linarith+
  have rec: "ends_well sz m (srec2b_loop sz fo' f' mx' rc' srec' m1)"
    if "fgets MAX_LINE_LEN f = Some lf" "lf = (l, f')" "only_marked m m1" "mx' \<le> of_nat sz" for l lf fo' f' mx' rc' srec' m1
  proof -
    have "length f' < length f"
      using that(1,2) by (auto simp: MAX_LINE_LEN_def dest: fgets_progress)
    then show ?thesis using less.hyps that(3,4) less.prems(2) ends_well_trans by blast
  qed
  show ?case
    apply (subst srec2b_loop.simps)
    by (intro ends_well_rules ends_well_readrec) (auto simp: mx less.prems intro!: rec dest: store_bytes_marked)
qed

lemma srec2b_marked:
  assumes "srec2b junk f m sz fo = Some (r, m')" and "sz < 2 ^ 31"
  shows "only_marked m m' \<and> -1 \<le> r \<and> r \<le> int sz"
  using srec2b_loop_ends [of 0 sz m fo f 0 junk] assms by (simp add: srec2b_def)

text \<open>When the reading of a file has a defined result, srec2b returns a size between -1 (failure) and the buffer size, keeps
  the sizes of the memory's arrays and changes no byte that it does not mark as allocated.\<close>

theorem srec2b_any_file:
  assumes "srec2b junk f m sz fo = Some (r, m')" and "sz < 2 ^ 31"
  shows "only_marked m m' \<and> -1 \<le> r \<and> r \<le> int sz"
  by (rule srec2b_marked [OF assms])

lemma srec_small_file: "srec2b some_ihexrec (srec_end_line 0) small_mem 3 0 = Some (0, small_mem)"
  using srec2b_end [of some_ihexrec] by (simp add: srec2b_def some_ihexrec_def)

theorem srec2b_any_file_witness:
  "srec2b some_ihexrec (srec_end_line 0) small_mem 3 0 = Some (0, small_mem) \<and> only_marked small_mem small_mem"
  using srec2b_any_file [OF srec_small_file] srec_small_file by simp

subsection \<open>What goes wrong\<close>

text \<open>b2srec indexes its buffer with the address of the record instead of the position in the buffer:
  with a start address at or past the size of the buffer, whatever the record size, writing a
  non-empty buffer reads outside it.\<close>

theorem b2srec_offset_overflow:
  assumes "0 < sz" and "length d = sz" and "sz < 2 ^ 31" and "0 < rs" and "rs \<le> 255" and "sz \<le> off" and "off < 2 ^ 31"
  shows "b2srec d sz (int rs) (of_nat off) = None"
proof -
  define n where "n = min rs sz"
  have n: "0 < n" "n \<noteq> 0" "n \<le> 255" "min (nat (int rs)) sz = n" using assms by (auto simp: n_def)
  have u: "unat (of_nat (off + n) :: u32) = off + n" "unat (of_nat off :: u32) = off"
    using assms n by (simp_all add: unsigned_of_nat take_bit_nat_eq_self del: of_nat_add)
  have "\<not> (of_nat (off + n) :: u32) < of_nat off"
    using u by (simp add: word_less_nat_alt del: of_nat_add)
  then have "srec_bytes d (of_nat off) n = None"
    using u n assms unfolding srec_bytes_def by simp
  then have "b2srec_loop d (int rs) sz (of_nat off) 0 [] = None"
    using n assms by (subst b2srec_loop.simps) (simp add: Let_def n(4))
  then show ?thesis using assms(5) by (simp add: b2srec_def)
qed

theorem b2srec_offset_overflow_witness: "b2srec [1, 2, 3] 3 2 (of_nat 3) = None"
  using b2srec_offset_overflow [of 3 "[1, 2, 3]" 2 3] by simp

text \<open>A record with a four-byte address (S3 or S7) that is long enough to be looked at overflows the
  local array of the reader: reading the file is undefined.\<close>

theorem srec_wide_address_overflow:
  assumes "t = CHR ''3'' \<or> t = CHR ''7''" and "n < 256" and "NL \<notin> set body" and "NUL \<notin> set body"
    and "4 \<le> length body" and "length body \<le> 250"
  shows "srec2b junk ([CHR ''S'', t] @ hex 2 n @ body @ NL # rest) m sz fo = None"
proof -
  let ?l = "[CHR ''S'', t] @ hex 2 n @ body"
  have t: "t \<noteq> NL" "t \<noteq> NUL" "srec_addr_width (of_char t) = 4"
    using assms(1) by (auto simp: NL_def NUL_def srec_addr_width_def of_char_def)
  have S: "CHR ''S'' \<noteq> NL" "CHR ''S'' \<noteq> NUL" by (simp_all add: NL_def NUL_def)
  have len: "length (hex 2 n) = 2" using assms(2) by (simp add: length_hex)
  have nc: "NL \<notin> set ?l" "NUL \<notin> set ?l" using assms(3,4) t S hex_no_control by auto
  have g: "fgets MAX_LINE_LEN (?l @ NL # rest) = Some (?l @ [NL], rest)"
    using nc(1) len assms(6) by (intro fgets_line) (auto simp: MAX_LINE_LEN_def)
  have f: "field ?l 2 2 = Some (of_nat n)"
    using field_hex [of n 2 "[CHR ''S'', t]" 2 body] assms(2) by simp
  have "srec_readrec junk ?l = Undefined"
    using f len assms(5) t(3) by (simp add: srec_readrec_def Let_def)
  then show ?thesis
    using g chomp_line [OF nc(2)] by (simp add: srec2b_def) (subst srec2b_loop.simps, simp)
qed

theorem srec_wide_address_overflow_witness:
  "srec2b some_ihexrec ([CHR ''S'', CHR ''3''] @ hex 2 6 @ ''0000000042B7'' @ NL # []) small_mem 3 0 = None"
  using srec_wide_address_overflow [of "CHR ''3''" 6 "''0000000042B7''" some_ihexrec "[]" small_mem 3 0]
  by (simp add: NL_def NUL_def)

end
