(* ===== verification/Fileio.thy ===== *)
theory Fileio
  imports IHex SRec
begin

text \<open>
  File input and output of avrdude: the rest of \<^verbatim>\<open>fileio.c\<close>. Raw binary, immediate and number lists,
  the detection of the format, and \<^verbatim>\<open>fileio\<close>, which finds the memory, clears it, opens the file and
  calls the reader or writer of the format. The C result -1 is the number -1 and \<open>None\<close> is undefined
  behaviour. Writing to an open file succeeds; ELF support is the configuration without libelf.
\<close>

subsection \<open>Formats and parameters\<close>

datatype FILEFMT =
  FMT_AUTO | FMT_SREC | FMT_IHEX | FMT_RBIN | FMT_IMM | FMT_HEX | FMT_DEC | FMT_OCT | FMT_BIN | FMT_ELF

datatype fio_op = FIO_READ | FIO_WRITE | FIO_OTHER int

record fioparms =
  fio_op :: fio_op
  fio_mode :: string
  iodesc :: string
  fio_dir :: string
  fio_rw :: string
  fileoffset :: u32

fun fmtstr :: "FILEFMT \<Rightarrow> string" where
  "fmtstr FMT_AUTO = ''auto-detect''"
| "fmtstr FMT_SREC = ''Motorola S-Record''"
| "fmtstr FMT_IHEX = ''Intel Hex''"
| "fmtstr FMT_RBIN = ''raw binary''"
| "fmtstr FMT_ELF = ''ELF''"
| "fmtstr _ = ''invalid format''"

definition fileio_setparms :: "fio_op \<Rightarrow> avrpart \<Rightarrow> avrmem \<Rightarrow> fioparms option" where
  "fileio_setparms op p m =
     (let off = (if flags p AND AVRPART_AVR32 \<noteq> 0 then m_offset m else 0)
      in case op of
        FIO_READ \<Rightarrow> Some \<lparr>fio_op = op, fio_mode = ''r'', iodesc = ''input'', fio_dir = ''from'',
                        fio_rw = ''read'', fileoffset = off\<rparr>
      | FIO_WRITE \<Rightarrow> Some \<lparr>fio_op = op, fio_mode = ''w'', iodesc = ''output'', fio_dir = ''to'',
                        fio_rw = ''wrote'', fileoffset = off\<rparr>
      | FIO_OTHER _ \<Rightarrow> None)"

subsection \<open>The formats\<close>

text \<open>
  Every format takes the text of the file and returns the result, the memory and the text it wrote.
  Characters and bytes are converted one by one.
\<close>

definition chr_of :: "u8 \<Rightarrow> char" where "chr_of b = char_of (unat b)"
definition byte_of_chr :: "char \<Rightarrow> u8" where "byte_of_chr c = of_nat (of_char c)"

definition fileio_rbin :: "fio_op \<Rightarrow> string \<Rightarrow> avrmem \<Rightarrow> nat \<Rightarrow> (int \<times> avrmem \<times> string) option" where
  "fileio_rbin op f mem sz =
     (case op of
        FIO_READ \<Rightarrow>
          (let bs = map byte_of_chr (take sz f); rc = length bs
           in if rc > length (buf mem) then None
              else do {
                t \<leftarrow> (if rc > 0 then fill rc TAG_ALLOCATED (tags mem) else Some (tags mem));
                Some (int rc, mem\<lparr>buf := patch 0 bs (buf mem), tags := t\<rparr>, [])
              })
      | FIO_WRITE \<Rightarrow>
          (if sz > length (buf mem) then None
           else (let rc = sz
                 in if rc < sz then Some (-1, mem, map chr_of (take sz (buf mem)))
                    else Some (int rc, mem, map chr_of (take sz (buf mem)))))
      | FIO_OTHER _ \<Rightarrow> Some (-1, mem, []))"

text \<open>\<^verbatim>\<open>strtok(s, " ,")\<close> until it returns no token.\<close>

definition is_delim :: "char \<Rightarrow> bool" where "is_delim c \<longleftrightarrow> c = CHR '' '' \<or> c = CHR '',''"

function tokens :: "string \<Rightarrow> string list" where
  "tokens s = (let s = dropWhile is_delim s
     in if s = [] then []
        else takeWhile (\<lambda>c. \<not> is_delim c) s # tokens (dropWhile (\<lambda>c. \<not> is_delim c) s))"
  by pat_completeness auto
termination
proof (relation "measure length", simp)
  fix s x :: string assume x: "x = dropWhile is_delim s" "x \<noteq> []"
  then have "\<not> is_delim (hd x)" using hd_dropWhile by metis
  then have "length (dropWhile (\<lambda>c. \<not> is_delim c) x) < length x"
    using x(2) by (cases x) (simp_all add: le_imp_less_Suc length_dropWhile_le)
  moreover have "length x \<le> length s" by (simp add: x(1) length_dropWhile_le)
  ultimately show "(dropWhile (\<lambda>c. \<not> is_delim c) x, s) \<in> measure length" by simp
qed

declare tokens.simps [simp del]

text \<open>The value of a token and the characters that are left over.\<close>

definition imm_number :: "string \<Rightarrow> u64 \<times> string" where
  "imm_number p =
     (let (base, q) = (if take 2 p \<noteq> ''0b'' then (0, p) else (2, drop 2 p))
      in case strtoul base q of None \<Rightarrow> (0, q) | Some r \<Rightarrow> r)"

fun imm_loop :: "string list \<Rightarrow> nat \<Rightarrow> nat \<Rightarrow> avrmem \<Rightarrow> (int \<times> avrmem) option" where
  "imm_loop [] loc sz mem = Some (int loc, mem)"
| "imm_loop (p # ps) loc sz mem =
     (if loc < sz then
        (let (b, e) = imm_number p
         in if e \<noteq> [] then Some (-1, mem)
            else if loc < length (buf mem) \<and> loc < length (tags mem)
            then imm_loop ps (loc + 1) sz
                   (mem\<lparr>buf := (buf mem)[loc := ucast b], tags := (tags mem)[loc := TAG_ALLOCATED]\<rparr>)
            else None)
      else Some (int loc, mem))"

definition fileio_imm :: "fio_op \<Rightarrow> string \<Rightarrow> avrmem \<Rightarrow> nat \<Rightarrow> (int \<times> avrmem \<times> string) option" where
  "fileio_imm op filename mem sz =
     (case op of
        FIO_READ \<Rightarrow> (case imm_loop (tokens filename) 0 sz mem of
            None \<Rightarrow> None
          | Some (rc, mem) \<Rightarrow> Some (rc, mem, []))
      | _ \<Rightarrow> Some (-1, mem, []))"

definition fileio_ihex :: "ihexrec \<Rightarrow> fioparms \<Rightarrow> string \<Rightarrow> avrmem \<Rightarrow> nat \<Rightarrow> (int \<times> avrmem \<times> string) option" where
  "fileio_ihex junk fio f mem sz =
     (case fio_op fio of
        FIO_WRITE \<Rightarrow> (case b2ihex (buf mem) sz 32 (fileoffset fio) of
            None \<Rightarrow> None
          | Some (rc, out) \<Rightarrow> if rc < 0 then Some (-1, mem, out) else Some (rc, mem, out))
      | FIO_READ \<Rightarrow> (case ihex2b junk f mem sz (fileoffset fio) of
            None \<Rightarrow> None
          | Some (rc, mem) \<Rightarrow> if rc < 0 then Some (-1, mem, []) else Some (rc, mem, []))
      | FIO_OTHER _ \<Rightarrow> Some (-1, mem, []))"

definition fileio_srec :: "ihexrec \<Rightarrow> fioparms \<Rightarrow> string \<Rightarrow> avrmem \<Rightarrow> nat \<Rightarrow> (int \<times> avrmem \<times> string) option" where
  "fileio_srec junk fio f mem sz =
     (case fio_op fio of
        FIO_WRITE \<Rightarrow> (case b2srec (buf mem) sz 32 (fileoffset fio) of
            None \<Rightarrow> None
          | Some (rc, out) \<Rightarrow> if rc < 0 then Some (-1, mem, out) else Some (rc, mem, out))
      | FIO_READ \<Rightarrow> (case srec2b junk f mem sz (fileoffset fio) of
            None \<Rightarrow> None
          | Some (rc, mem) \<Rightarrow> if rc < 0 then Some (-1, mem, []) else Some (rc, mem, []))
      | FIO_OTHER _ \<Rightarrow> Some (-1, mem, []))"

text \<open>The digits are produced from the last one and then reversed.\<close>

function itoa_digits :: "nat \<Rightarrow> nat \<Rightarrow> string" where
  "itoa_digits n base =
     (let q = n div base; r = n mod base;
          c = char_of (if r \<ge> 10 then r - 10 + 97 else r + 48)
      in if base < 2 then [c] else if q \<noteq> 0 then c # itoa_digits q base else [c])"
  by pat_completeness auto
termination by (relation "measure fst") (auto intro!: div_less_dividend simp: div_greater_zero_iff)

declare itoa_digits.simps [simp del]

definition itoa_simple :: "nat \<Rightarrow> nat \<Rightarrow> string" where
  "itoa_simple n base = rev (itoa_digits n base)"

fun num_format :: "FILEFMT \<Rightarrow> string \<times> nat" where
  "num_format FMT_HEX = (''0x'', 16)"
| "num_format FMT_OCT = (''0'', 8)"
| "num_format FMT_BIN = (''0b'', 2)"
| "num_format _ = ([], 10)"

definition num_text :: "FILEFMT \<Rightarrow> u8 \<Rightarrow> string" where
  "num_text fmt b =
     (let (prefix, base) = num_format fmt; num = unat b
      in (if prefix \<noteq> [] \<and> \<not> (base = 8 \<and> num < 8) then prefix else []) @ itoa_simple num base)"

fun num_loop :: "FILEFMT \<Rightarrow> bool \<Rightarrow> u8 list \<Rightarrow> string" where
  "num_loop fmt isfirst [] = []"
| "num_loop fmt isfirst (b # bs) = (if isfirst then [] else '','') @ num_text fmt b @ num_loop fmt False bs"

definition fileio_num :: "fio_op \<Rightarrow> avrmem \<Rightarrow> nat \<Rightarrow> FILEFMT \<Rightarrow> (int \<times> avrmem \<times> string) option" where
  "fileio_num op mem sz fmt =
     (case op of
        FIO_WRITE \<Rightarrow> (if sz > length (buf mem) then None
                      else Some (0, mem, num_loop fmt True (take sz (buf mem)) @ [NL]))
      | _ \<Rightarrow> Some (-1, mem, []))"

subsection \<open>Detection of the format\<close>

text \<open>
  One line. The tests for hexadecimal digits look at the first character after the mark each time.
\<close>

definition detect_line :: "string \<Rightarrow> FILEFMT option" where
  "detect_line b =
     (if list_ex (\<lambda>c. of_char c > (127 :: nat)) b then Some FMT_RBIN
      else if length b \<ge> 11 \<and> hd b = CHR '':'' \<and> list_all (\<lambda>i. isxdigit (b ! 1)) [1..<length b] then Some FMT_IHEX
      else if length b \<ge> 10 \<and> hd b = CHR ''S'' \<and> isdigit (b ! 1)
           \<and> list_all (\<lambda>i. isxdigit (b ! 1)) [1..<length b] then Some FMT_SREC
      else None)"

text \<open>\<open>Some None\<close> is the result -1; a line that starts with a NUL is read before its start.\<close>

function detect_loop :: "bool \<Rightarrow> string \<Rightarrow> FILEFMT option option" where
  "detect_loop first f =
     (case fgets MAX_LINE_LEN f of
        None \<Rightarrow> Some None
      | Some (l, f') \<Rightarrow>
          if first \<and> take 4 l = [CHR 0x7F, CHR ''E'', CHR ''L'', CHR ''F''] then Some (Some FMT_ELF)
          else (case chomp l of
             None \<Rightarrow> None
           | Some b \<Rightarrow> (case detect_line b of
                Some fmt \<Rightarrow> Some (Some fmt)
              | None \<Rightarrow> detect_loop False f')))"
  by pat_completeness auto
termination
  by (relation "measure (\<lambda>(_, f). length f)") (auto simp: MAX_LINE_LEN_def dest: fgets_progress)

declare detect_loop.simps [simp del]

subsection \<open>The whole of a transfer\<close>

text \<open>The files, what standard input holds, what went to standard output, and what cannot be opened.\<close>

record filesys =
  files :: "string \<Rightarrow> string option"
  stdin_text :: string
  stdout_text :: string
  locked :: "string \<Rightarrow> bool"

definition fmt_autodetect :: "filesys \<Rightarrow> string \<Rightarrow> FILEFMT option option" where
  "fmt_autodetect fs fname =
     (case files fs fname of
        None \<Rightarrow> Some None
      | Some f \<Rightarrow> if locked fs fname then Some None else detect_loop True f)"

text \<open>Opening returns the text that can be read. Opening for writing empties the file.\<close>

definition open_file :: "fioparms \<Rightarrow> string \<Rightarrow> filesys \<Rightarrow> (string \<times> filesys) option" where
  "open_file fio fname fs =
     (if locked fs fname then None
      else if fio_op fio = FIO_WRITE then Some ([], fs\<lparr>files := (files fs)(fname \<mapsto> [])\<rparr>)
      else (case files fs fname of None \<Rightarrow> None | Some f \<Rightarrow> Some (f, fs)))"

definition write_file :: "bool \<Rightarrow> fioparms \<Rightarrow> string \<Rightarrow> string \<Rightarrow> filesys \<Rightarrow> filesys" where
  "write_file using_stdio fio fname out fs =
     (if fio_op fio \<noteq> FIO_WRITE then fs
      else if using_stdio then fs\<lparr>stdout_text := stdout_text fs @ out\<rparr>
      else fs\<lparr>files := (files fs)(fname \<mapsto> out)\<rparr>)"

definition fileio_format :: "ihexrec \<Rightarrow> FILEFMT \<Rightarrow> fioparms \<Rightarrow> string \<Rightarrow> string \<Rightarrow> avrmem \<Rightarrow> nat
    \<Rightarrow> (int \<times> avrmem \<times> string) option" where
  "fileio_format junk format fio fname f mem sz =
     (case format of
        FMT_IHEX \<Rightarrow> fileio_ihex junk fio f mem sz
      | FMT_SREC \<Rightarrow> fileio_srec junk fio f mem sz
      | FMT_RBIN \<Rightarrow> fileio_rbin (fio_op fio) f mem sz
      | FMT_ELF \<Rightarrow> Some (-1, mem, [])
      | FMT_IMM \<Rightarrow> fileio_imm (fio_op fio) fname mem sz
      | FMT_AUTO \<Rightarrow> Some (-1, mem, [])
      | fmt \<Rightarrow> fileio_num (fio_op fio) mem sz fmt)"

definition hiaddr_memory :: "avrmem \<Rightarrow> bool" where
  "hiaddr_memory mem \<longleftrightarrow> same_ignoring_case (m_desc mem) ''flash''
     \<or> same_ignoring_case (m_desc mem) ''application'' \<or> same_ignoring_case (m_desc mem) ''apptable''
     \<or> same_ignoring_case (m_desc mem) ''boot''"

text \<open>The clearing of the memory: for reading the bytes, and the marks always.\<close>

definition clear_mem :: "fio_op \<Rightarrow> nat \<Rightarrow> avrmem \<Rightarrow> avrmem option" where
  "clear_mem op sz mem = do {
     b \<leftarrow> (if op = FIO_READ then fill sz 0xff (buf mem) else Some (buf mem));
     t \<leftarrow> fill sz 0 (tags mem);
     Some (mem\<lparr>buf := b, tags := t\<rparr>)
   }"

definition detect_format :: "filesys \<Rightarrow> FILEFMT \<Rightarrow> bool \<Rightarrow> string \<Rightarrow> FILEFMT option option" where
  "detect_format fs format using_stdio fname =
     (if format \<noteq> FMT_AUTO then Some (Some format)
      else if using_stdio then Some None
      else fmt_autodetect fs fname)"

definition fileio :: "ihexrec \<Rightarrow> fio_op \<Rightarrow> string \<Rightarrow> FILEFMT \<Rightarrow> avrpart \<Rightarrow> string \<Rightarrow> int \<Rightarrow> filesys
    \<Rightarrow> (int \<times> avrpart \<times> filesys) option" where
  "fileio junk op filename format p memtype sz0 fs =
     (case avr_locate_mem p memtype of
        None \<Rightarrow> Some (-1, p, fs)
      | Some k \<Rightarrow>
     (case fileio_setparms op p (p_mem p ! k) of
        None \<Rightarrow> Some (-1, p, fs)
      | Some fio \<Rightarrow>
     (let sz = (if op = FIO_READ then int (m_size (p_mem p ! k)) else sz0)
      in if sz < 0 then None else
     (case clear_mem op (nat sz) (p_mem p ! k) of
        None \<Rightarrow> None
      | Some mem \<Rightarrow>
     (let p = with_mem p k mem;
          using_stdio = (filename = ''-'');
          fname = (if using_stdio then (if op = FIO_READ then ''<stdin>'' else ''<stdout>'') else filename)
      in case detect_format fs format using_stdio fname of
           None \<Rightarrow> None
         | Some None \<Rightarrow> Some (-1, p, fs)
         | Some (Some format) \<Rightarrow>
     (case (if format = FMT_IMM \<or> using_stdio then Some (stdin_text fs, fs) else open_file fio fname fs) of
        None \<Rightarrow> Some (-1, p, fs)
      | Some (f, fs) \<Rightarrow>
     (case fileio_format junk format fio fname f mem (nat sz) of
        None \<Rightarrow> None
      | Some (rc, mem, out) \<Rightarrow>
          (let fs = (if format = FMT_IMM then fs else write_file using_stdio fio fname out fs);
               rc = (if rc > 0 \<and> op = FIO_READ \<and> hiaddr_memory mem then int (avr_mem_hiaddr mem) else rc)
           in Some (rc, with_mem p k mem, fs)))))))))"

subsection \<open>Lists of numbers are read back\<close>

definition dig :: "nat \<Rightarrow> char" where
  "dig r = char_of (if r \<ge> 10 then r - 10 + 97 else r + 48)"

lemma dig_facts:
  assumes "r < 16"
  shows "digit_val (dig r) = r" "\<not> isspace (dig r)" "dig r \<noteq> CHR ''-''" "dig r \<noteq> CHR ''+''"
    "dig r \<noteq> CHR ''x''" "dig r \<noteq> CHR ''X''" "dig r = CHR ''0'' \<longleftrightarrow> r = 0" "\<not> is_delim (dig r)"
    "r < 10 \<Longrightarrow> dig r \<noteq> CHR ''b''"
proof -
  have *: "digit_val (dig r) = r \<and> \<not> isspace (dig r) \<and> dig r \<noteq> CHR ''-'' \<and> dig r \<noteq> CHR ''+'' \<and>
    dig r \<noteq> CHR ''x'' \<and> dig r \<noteq> CHR ''X'' \<and> (dig r = CHR ''0'' \<longleftrightarrow> r = 0) \<and> \<not> is_delim (dig r)
    \<and> (r < 10 \<longrightarrow> dig r \<noteq> CHR ''b'')"
    using less_16_cases [OF assms]
    by (elim insertE emptyE) (simp_all add: dig_def digit_val_def isspace_def is_delim_def Let_def
        char_of_def of_char_def bit_numeral_rec bit_0)
  then show "digit_val (dig r) = r" "\<not> isspace (dig r)" "dig r \<noteq> CHR ''-''" "dig r \<noteq> CHR ''+''"
    "dig r \<noteq> CHR ''x''" "dig r \<noteq> CHR ''X''" "dig r = CHR ''0'' \<longleftrightarrow> r = 0" "\<not> is_delim (dig r)"
    "r < 10 \<Longrightarrow> dig r \<noteq> CHR ''b''"
    by blast+
qed

lemma itoa_digits_facts:
  assumes "2 \<le> b" and "b \<le> 16"
  shows "(\<forall>c \<in> set (itoa_digits n b). \<exists>r < b. c = dig r) \<and> itoa_digits n b \<noteq> []
    \<and> digits_value b (rev (itoa_digits n b)) = n
    \<and> (\<exists>r < b. last (itoa_digits n b) = dig r \<and> (0 < n \<longrightarrow> 0 < r))
    \<and> (n < b \<longrightarrow> itoa_digits n b = [dig n])"
proof (induction n rule: less_induct)
  case (less n)
  have e: "itoa_digits n b = (if n div b \<noteq> 0 then dig (n mod b) # itoa_digits (n div b) b else [dig (n mod b)])"
    using assms(1) by (subst itoa_digits.simps) (simp add: Let_def dig_def)
  have m: "n mod b < b" "digit_val (dig (n mod b)) = n mod b"
    using assms by (simp_all add: dig_facts(1) order_less_le_trans [of _ b])
  show ?case
  proof (cases "n div b = 0")
    case True
    then have "n mod b = n" using assms(1) by (simp add: div_eq_0_iff)
    then show ?thesis using True m by (auto simp: e digits_value_def)
  next
    case False
    then have "n div b < n" using assms(1) by (auto intro!: div_less_dividend simp: div_greater_zero_iff)
    note IH = less.IH [OF this]
    have "digits_value b (rev (dig (n mod b) # itoa_digits (n div b) b)) = n"
      using IH m by (simp add: digits_value_def mult.commute)
    then show ?thesis using IH False m by (auto simp: e)
  qed
qed

lemma itoa_facts:
  assumes "2 \<le> b" and "b \<le> 16"
  shows "\<And>c. c \<in> set (itoa_simple n b) \<Longrightarrow> \<exists>r < b. c = dig r" "itoa_simple n b \<noteq> []"
    "digits_value b (itoa_simple n b) = n" "\<exists>r < b. hd (itoa_simple n b) = dig r \<and> (0 < n \<longrightarrow> 0 < r)"
    "n < b \<Longrightarrow> itoa_simple n b = [dig n]"
  using itoa_digits_facts [OF assms, of n] by (auto simp: itoa_simple_def hd_rev)

text \<open>A string of digits in base \<open>b\<close> that \<open>strtoul_base\<close> takes as it is.\<close>

lemma strtoul_digits:
  assumes "\<And>c. c \<in> set ds \<Longrightarrow> \<exists>r < b. c = dig r" and "b \<le> 16" and "ds \<noteq> []" and "strtoul_base base (pre @ ds) = (b, ds)"
    and "pre = [] \<or> (\<exists>r < 16. hd pre = dig r)" and "digits_value b ds < 2 ^ 64"
  shows "strtoul base (pre @ ds) = Some (of_nat (digits_value b ds), [])"
proof -
  have d: "\<exists>r < 16. hd (pre @ ds) = dig r"
    using assms(1) [of "hd ds"] assms(2,3,5) by (cases pre) (auto intro: order_less_le_trans)
  then have "strtoul_sign (dropWhile isspace (pre @ ds)) = (False, pre @ ds)"
    using assms(3) by (cases "pre @ ds") (auto simp: strtoul_sign_def dig_facts)
  moreover have "takeWhile (\<lambda>c. digit_val c < b) ds = ds"
    unfolding takeWhile_eq_all_conv using assms(1,2) dig_facts(1) by fastforce
  ultimately show ?thesis using assms(3,4,6) by (simp only: strtoul_def prod.case Let_def) simp
qed

definition num_ok :: "FILEFMT \<Rightarrow> u8 \<Rightarrow> bool" where
  "num_ok fmt b \<longleftrightarrow> imm_number (num_text fmt b) = (ucast b, []) \<and> list_all (\<lambda>c. \<not> is_delim c) (num_text fmt b)
     \<and> num_text fmt b \<noteq> []"

lemma u8_small: "unat (b :: u8) < 2 ^ 64"
  by (rule order_less_trans [OF u8_less]) simp

lemma zero_char: "CHR ''0'' = dig 0"
  by (simp add: dig_def char_of_def bit_numeral_rec bit_0)

lemma delim_free: "(\<And>c. c \<in> set ds \<Longrightarrow> \<exists>r < b. c = dig r) \<Longrightarrow> b \<le> 16 \<Longrightarrow> list_all (\<lambda>c. \<not> is_delim c) ds"
  unfolding list_all_iff using dig_facts(8) by fastforce

lemma num_ok_hex: "num_ok FMT_HEX b"
proof -
  let ?ds = "itoa_simple (unat b) 16"
  note f = itoa_facts [where b = 16 and n = "unat b"]
  have x: "isxdigit (hd ?ds)" using f(4) by (auto simp: isxdigit_def dig_facts)
  then have "hex_prefix (''0x'' @ ?ds)" using f(2) by (cases ?ds) (auto simp: hex_prefix_def)
  then have "strtoul_base 0 (''0x'' @ ?ds) = (16, ?ds)" by (simp add: strtoul_base_def)
  then have "strtoul 0 (''0x'' @ ?ds) = Some (of_nat (digits_value 16 ?ds), [])"
    using f u8_small [of b] by (intro strtoul_digits) (auto simp: zero_char intro: exI [of _ 0])
  moreover have "num_text FMT_HEX b = ''0x'' @ ?ds" by (simp add: num_text_def)
  ultimately show ?thesis
    using delim_free [OF f(1)] f(3) by (simp add: num_ok_def imm_number_def is_delim_def)
qed

lemma num_ok_bin: "num_ok FMT_BIN b"
proof -
  let ?ds = "itoa_simple (unat b) 2"
  note f = itoa_facts [where b = 2 and n = "unat b"]
  have "strtoul_base 2 ([] @ ?ds) = (2, ?ds)" by (simp add: strtoul_base_def)
  then have "strtoul 2 ([] @ ?ds) = Some (of_nat (digits_value 2 ?ds), [])"
    using f u8_small [of b] by (intro strtoul_digits) auto
  moreover have "num_text FMT_BIN b = ''0b'' @ ?ds" by (simp add: num_text_def)
  ultimately show ?thesis
    using delim_free [OF f(1)] f(3) by (simp add: num_ok_def imm_number_def is_delim_def)
qed

text \<open>Digits without a prefix: a decimal number, or an octal one if it starts with a zero.\<close>

lemma no_prefix:
  assumes "\<And>c. c \<in> set ds \<Longrightarrow> \<exists>r < b. c = dig r" and "b \<le> 10" and "ds \<noteq> []"
  shows "\<not> hex_prefix ds" "take 2 ds \<noteq> ''0b''"
proof -
  have r: "\<exists>r < 10. ds ! 1 = dig r" if "2 \<le> length ds"
    using assms(1) [of "ds ! 1"] assms(2) that by (auto intro: order_less_le_trans)
  show "\<not> hex_prefix ds" using r dig_facts(5,6) by (fastforce simp: hex_prefix_def)
  show "take 2 ds \<noteq> ''0b''"
  proof
    assume t: "take 2 ds = ''0b''"
    then have "2 \<le> length ds" "ds ! 1 = CHR ''b''"
      by (auto dest: arg_cong [of _ _ length] arg_cong [of _ _ "\<lambda>x. x ! 1"] split: if_splits)
    moreover from this(1) r obtain k where "k < 10" "ds ! 1 = dig k" by blast
    ultimately show False using dig_facts(9) [of k] by simp
  qed
qed

lemma num_ok_plain:
  assumes "\<And>c. c \<in> set ds \<Longrightarrow> \<exists>r < b. c = dig r" and "b = (if hd ds = CHR ''0'' then 8 else 10)" and "ds \<noteq> []"
    and "digits_value b ds = unat v" and "num_text fmt v = ds"
  shows "num_ok fmt v"
proof -
  have b: "b \<le> 10" "b \<le> 16" by (auto simp: assms(2))
  have "strtoul_base 0 ([] @ ds) = (b, ds)"
    using no_prefix(1) [OF assms(1) b(1) assms(3)] assms(2,3) by (simp add: strtoul_base_def)
  then have "strtoul 0 ([] @ ds) = Some (of_nat (digits_value b ds), [])"
    using assms(1,3,4) b u8_small [of v] by (intro strtoul_digits) auto
  then show ?thesis
    using delim_free [OF assms(1) b(2)] no_prefix(2) [OF assms(1) b(1) assms(3)] assms(3-5)
    by (simp add: num_ok_def imm_number_def)
qed

lemma num_ok_dec: "num_ok FMT_DEC b"
proof (cases "unat b = 0")
  case True
  have "itoa_simple 0 10 = [dig 0]" by (rule itoa_facts) simp_all
  with True show ?thesis
    by (intro num_ok_plain [of "[dig 0]" 8]) (auto simp: zero_char digits_value_def dig_facts num_text_def intro: exI [of _ 0])
next
  case False
  note f = itoa_facts [where b = 10 and n = "unat b"]
  from f(4) False obtain r where "r < 10" "hd (itoa_simple (unat b) 10) = dig r" "0 < r" by auto
  then have "hd (itoa_simple (unat b) 10) \<noteq> CHR ''0''" by (simp add: dig_facts(7))
  with f show ?thesis by (intro num_ok_plain [of "itoa_simple (unat b) 10" 10]) (auto simp: num_text_def)
qed

lemma num_ok_oct: "num_ok FMT_OCT b"
proof (cases "unat b < 8")
  case True
  have i: "itoa_simple (unat b) 8 = [dig (unat b)]" using True by (intro itoa_facts) simp_all
  show ?thesis
  proof (cases "unat b = 0")
    case True
    with i show ?thesis
      by (intro num_ok_plain [of "[dig 0]" 8]) (auto simp: zero_char digits_value_def dig_facts num_text_def intro: exI [of _ 0])
  next
    case False
    with i True show ?thesis
      by (intro num_ok_plain [of "[dig (unat b)]" 10]) (auto simp: digits_value_def dig_facts num_text_def intro: exI [of _ "unat b"])
  qed
next
  case False
  note f = itoa_facts [where b = 8 and n = "unat b"]
  have "digits_value 8 (CHR ''0'' # itoa_simple (unat b) 8) = unat b"
    using f(3) by (simp add: digits_value_def zero_char dig_facts)
  with False f show ?thesis
    by (intro num_ok_plain [of "CHR ''0'' # itoa_simple (unat b) 8" 8]) (auto simp: num_text_def zero_char intro: exI [of _ 0])
qed

lemma tokens_delim: "is_delim c \<Longrightarrow> tokens (c # s) = tokens s"
  by (subst (1 2) tokens.simps) simp

lemma tokens_word:
  assumes "list_all (\<lambda>c. \<not> is_delim c) t" and "t \<noteq> []" and "rest = [] \<or> is_delim (hd rest)"
  shows "tokens (t @ rest) = t # tokens rest"
proof -
  have d: "dropWhile is_delim (t @ rest) = t @ rest" using assms(1,2) by (cases t) simp_all
  have "takeWhile (\<lambda>c. \<not> is_delim c) (t @ rest) = t" "dropWhile (\<lambda>c. \<not> is_delim c) (t @ rest) = rest"
    using assms(1,3) by (induction t) (auto simp: takeWhile_eq_Nil_iff dropWhile_eq_self_iff)
  then show ?thesis using assms(2) by (subst tokens.simps) (simp add: d)
qed

lemma tokens_num_loop:
  assumes "\<And>b. num_ok fmt b" shows "tokens (num_loop fmt i bs) = map (num_text fmt) bs"
proof (induction bs arbitrary: i)
  case Nil
  show ?case by (subst tokens.simps) simp
next
  case (Cons b bs)
  have "num_loop fmt False bs = [] \<or> is_delim (hd (num_loop fmt False bs))"
    by (cases bs) (simp_all add: is_delim_def)
  then have "tokens (num_text fmt b @ num_loop fmt False bs) = num_text fmt b # map (num_text fmt) bs"
    using assms [of b] Cons.IH by (subst tokens_word) (simp_all add: num_ok_def)
  then show ?case by (simp add: tokens_delim is_delim_def)
qed

lemma imm_loop_filled:
  assumes "\<And>b. num_ok fmt b" and "fits d sz m" and "pos \<le> sz"
  shows "imm_loop (map (num_text fmt) (drop pos d)) pos sz (filled d pos m) = Some (int sz, filled d sz m)"
  using assms(3)
proof (induction "sz - pos" arbitrary: pos)
  case 0
  then show ?case using assms(2) by (simp add: fits_def)
next
  case (Suc k)
  then have pos: "pos < sz" "k = sz - (pos + 1)" "pos + 1 \<le> sz" by simp_all
  have d: "drop pos d = d ! pos # drop (pos + 1) d"
    using assms(2) pos(1) by (simp add: fits_def Cons_nth_drop_Suc)
  have i: "imm_number (num_text fmt (d ! pos)) = (ucast (d ! pos), [])"
    using assms(1) [of "d ! pos"] by (simp add: num_ok_def)
  have u: "unat (of_nat pos :: u32) = pos"
    using assms(2) pos(1) by (simp add: fits_def unsigned_of_nat take_bit_nat_eq_self)
  have len: "pos < length (buf (filled d pos m))" "pos < length (tags (filled d pos m))"
    using assms(2) pos(1) by (simp_all add: fits_def filled_def)
  have "store_bytes (of_nat pos) [d ! pos] (filled d pos m) = Some (filled d (pos + 1) m)"
    using filled_store [OF assms(2) pos(3)] d by simp
  then have "(filled d pos m)\<lparr>buf := (buf (filled d pos m))[pos := d ! pos],
      tags := (tags (filled d pos m))[pos := TAG_ALLOCATED]\<rparr> = filled d (pos + 1) m"
    using len u by simp
  then show ?case
    using Suc.hyps(1) [OF pos(2,3)] pos(1) len by (simp add: d i)
qed

text \<open>The lists of numbers that fileio_num writes, in any of the four bases, with their prefixes, are
  what fileio_imm reads back as an immediate value: the bytes of the memory, all marked.\<close>

theorem number_list_roundtrip:
  assumes "fmt = FMT_HEX \<or> fmt = FMT_DEC \<or> fmt = FMT_OCT \<or> fmt = FMT_BIN"
    and "length (buf mem) = sz" and "fits (buf mem) sz m"
  shows "\<exists>out. fileio_num FIO_WRITE mem sz fmt = Some (0, mem, out @ [NL])
    \<and> fileio_imm FIO_READ out m sz = Some (int sz, m\<lparr>buf := buf mem, tags := replicate sz TAG_ALLOCATED\<rparr>, [])"
proof -
  have ok: "num_ok fmt b" for b using assms(1) num_ok_hex num_ok_dec num_ok_oct num_ok_bin by auto
  show ?thesis
    using imm_loop_filled [OF ok assms(3), of 0] filled_all [OF assms(3)] assms(2)
    by (intro exI [of _ "num_loop fmt True (buf mem)"])
      (simp add: fileio_num_def fileio_imm_def tokens_num_loop [OF ok])
qed

theorem number_list_roundtrip_witness:
  "fileio_num FIO_WRITE small_mem 3 FMT_OCT = Some (0, small_mem, ''7,7,7'' @ [NL]) \<and>
   fileio_imm FIO_READ ''7,7,7'' (small_mem\<lparr>buf := [0, 0, 0]\<rparr>) 3
    = Some (3, small_mem\<lparr>buf := [7, 7, 7], tags := [1, 1, 1]\<rparr>, [])"
proof -
  have "itoa_simple 7 8 = ''7''" by code_simp
  then have "fileio_num FIO_WRITE small_mem 3 FMT_OCT = Some (0, small_mem, ''7,7,7'' @ [NL])"
    by (simp add: fileio_num_def small_mem_def num_text_def)
  then show ?thesis
    using number_list_roundtrip [of FMT_OCT small_mem 3 "small_mem\<lparr>buf := [0, 0, 0]\<rparr>"]
    by (simp add: fits_def small_mem_def TAG_ALLOCATED_def numeral_3_eq_3)
qed

subsection \<open>What reading a file does to a memory\<close>

lemma patch_marked:
  assumes "length bs \<le> length (buf m)" and "length bs \<le> length (tags m)"
  shows "only_marked m (m\<lparr>buf := patch 0 bs (buf m), tags := patch 0 (replicate (length bs) TAG_ALLOCATED) (tags m)\<rparr>)"
  using assms by (auto simp: only_marked_def patch_def nth_append)

lemma imm_loop_marked:
  "imm_loop ps loc sz m = Some (rc, m') \<Longrightarrow> loc \<le> sz \<Longrightarrow> only_marked m m' \<and> -1 \<le> rc \<and> rc \<le> int sz"
proof (induction ps arbitrary: loc m)
  case Nil
  then show ?case by simp
next
  case (Cons p ps)
  show ?case
  proof (cases "loc < sz \<and> snd (imm_number p) = []")
    case True
    let ?m = "m\<lparr>buf := (buf m)[loc := ucast (fst (imm_number p))], tags := (tags m)[loc := TAG_ALLOCATED]\<rparr>"
    from True Cons.prems have len: "loc < length (buf m)" "loc < length (tags m)"
      and rec: "imm_loop ps (loc + 1) sz ?m = Some (rc, m')"
      by (auto simp: case_prod_beta Let_def split: if_splits)
    have "only_marked m ?m" using len by (auto simp: only_marked_def nth_list_update)
    with Cons.IH [OF rec] True show ?thesis by (auto intro: only_marked_trans)
  next
    case False
    with Cons.prems show ?thesis by (auto simp: case_prod_beta Let_def split: if_splits)
  qed
qed

lemma fileio_format_reads:
  assumes "fileio_format junk format fio fname f m sz = Some (rc, m', out)" and "fio_op fio = FIO_READ"
    and "length (buf m) = sz" and "length (tags m) = sz" and "sz < 2 ^ 31"
  shows "only_marked m m' \<and> -1 \<le> rc \<and> rc \<le> int sz \<and> out = []"
proof -
  have "fileio_rbin FIO_READ f m sz = Some (int (length (take sz f)), m\<lparr>buf := patch 0 (map byte_of_chr (take sz f)) (buf m),
      tags := patch 0 (replicate (length (map byte_of_chr (take sz f))) TAG_ALLOCATED) (tags m)\<rparr>, [])"
    using assms(3,4) by (simp add: fileio_rbin_def fill_def Let_def) (auto simp: patch_def)
  then have rbin: "fileio_rbin FIO_READ f m sz = Some (rc, m', out) \<Longrightarrow> ?thesis"
    using patch_marked [of "map byte_of_chr (take sz f)" m] assms(3,4) by auto
  show ?thesis
    using assms(1,2) rbin
      ihex2b_marked [of junk f m sz "fileoffset fio" _ m'] srec2b_marked [of junk f m sz "fileoffset fio" _ m']
      imm_loop_marked [of "tokens fname" 0 sz m rc m'] assms(5)
    by (cases format) (auto simp: fileio_format_def fileio_ihex_def fileio_srec_def fileio_imm_def fileio_num_def
        split: option.splits if_splits)
qed

text \<open>The memory that \<open>fileio\<close> leaves when it reads: every byte is marked or has the value 0xff.\<close>

definition read_ok :: "nat \<Rightarrow> avrmem \<Rightarrow> bool" where
  "read_ok sz m \<longleftrightarrow> length (buf m) = sz \<and> length (tags m) = sz
     \<and> (\<forall>i < sz. tags m ! i = TAG_ALLOCATED \<or> tags m ! i = 0 \<and> buf m ! i = 0xff)"

lemma clear_mem_read:
  assumes "length (buf m) = sz" and "length (tags m) = sz"
  shows "clear_mem FIO_READ sz m = Some (m\<lparr>buf := replicate sz 0xff, tags := replicate sz 0\<rparr>)"
  using assms by (simp add: clear_mem_def fill_def patch_def)

lemma read_ok_marked:
  assumes "only_marked (m\<lparr>buf := replicate sz 0xff, tags := replicate sz 0\<rparr>) m'"
  shows "read_ok sz m' \<and> m'\<lparr>buf := [], tags := []\<rparr> = m\<lparr>buf := [], tags := []\<rparr>"
  using assms by (auto simp: read_ok_def only_marked_def)

lemma fileio_reads:
  assumes "avr_locate_mem p mt = Some k" and "m = p_mem p ! k" and "m_size m = sz"
    and "length (buf m) = sz" and "length (tags m) = sz" and "sz < 2 ^ 31"
    and "fileio junk FIO_READ fn fmt p mt z fs = Some (rc, p', fs')"
  shows "\<exists>m'. p' = with_mem p k m' \<and> read_ok sz m' \<and> m'\<lparr>buf := [], tags := []\<rparr> = m\<lparr>buf := [], tags := []\<rparr>
     \<and> fs' = fs \<and> -1 \<le> rc \<and> rc \<le> int sz + 1"
proof -
  let ?m0 = "m\<lparr>buf := replicate sz 0xff, tags := replicate sz 0\<rparr>"
  have k: "k < length (p_mem p)" using assms(1) by (simp add: locate_mem_iff)
  obtain fio where fio: "fileio_setparms FIO_READ p m = Some fio" "fio_op fio = FIO_READ"
    by (simp add: fileio_setparms_def)
  have r0: "read_ok sz ?m0" by (simp add: read_ok_def)
  have sz: "0 < sz" if "0 < rc'" "rc' \<le> int sz" for rc' using that by simp
  have fmt: "read_ok sz m' \<and> m'\<lparr>buf := [], tags := []\<rparr> = m\<lparr>buf := [], tags := []\<rparr> \<and> -1 \<le> rc' \<and> rc' \<le> int sz"
    if "fileio_format junk fmt fio fname f ?m0 sz = Some (rc', m', out)" for fmt fname f rc' m' out
    using fileio_format_reads [OF that fio(2)] read_ok_marked [where m = m and sz = sz and m' = m'] assms(6) by simp
  have hi: "int (avr_mem_hiaddr m') \<le> int sz + 1" if "0 < rc'" "rc' \<le> int sz" "m'\<lparr>buf := [], tags := []\<rparr> = m\<lparr>buf := [], tags := []\<rparr>" for rc' m'
  proof -
    have "m_size (m'\<lparr>buf := [], tags := []\<rparr>) = sz" using that(3) assms(3) by simp
    then have "m_size m' = sz" by simp
    then show ?thesis using hiaddr_loop_spec [of "buf m'" "sz - 1"] sz [OF that(1,2)]
      by (simp add: avr_mem_hiaddr_def)
  qed
  have rd: "open_file fio fname fs = Some (f, fs1) \<Longrightarrow> fs1 = fs" for fname f fs1
    by (auto simp: open_file_def fio(2) split: if_splits option.splits)
  have wr: "write_file u fio fname out fs = fs" for u fname out by (simp add: write_file_def fio(2))
  have m: "p_mem p ! k = m" using assms(2) by simp
  show ?thesis
    using assms(7)
    by (auto simp: fileio_def assms(1,3) m fio(1) clear_mem_read [OF assms(4,5)] r0 k wr Let_def
        split: option.splits prod.splits if_splits dest!: rd fmt intro: hi)
qed

text \<open>Reading a file of any format into a memory with allocated buffers, when it has a defined result (hex records
  that wrap around and S-records with four address bytes may have none), changes only that memory of the part and no file; afterwards every byte of the memory is either
  marked as read from the file or has the value 0xff, and the result lies between -1 and the size of
  the memory plus one.\<close>

theorem fileio_read_fills:
  assumes "avr_locate_mem p mt = Some k" and "length (buf (p_mem p ! k)) = m_size (p_mem p ! k)"
    and "length (tags (p_mem p ! k)) = m_size (p_mem p ! k)" and "m_size (p_mem p ! k) < 2 ^ 31"
    and "fileio junk FIO_READ fn fmt p mt z fs = Some (rc, p', fs')"
  shows "\<exists>m'. p' = with_mem p k m' \<and> read_ok (m_size (p_mem p ! k)) m'
     \<and> m'\<lparr>buf := [], tags := []\<rparr> = (p_mem p ! k)\<lparr>buf := [], tags := []\<rparr>
     \<and> fs' = fs \<and> -1 \<le> rc \<and> rc \<le> int (m_size (p_mem p ! k)) + 1"
  by (rule fileio_reads [OF assms(1) refl refl assms(2-5)])

definition one_file :: filesys where
  "one_file = \<lparr>files = (\<lambda>fn. if fn = ''x'' then Some ''A'' else None), stdin_text = [], stdout_text = [],
     locked = (\<lambda>_. False)\<rparr>"

lemma read_one_file:
  "fileio some_ihexrec FIO_READ ''x'' FMT_RBIN part0 ''fl'' (-1) one_file
     = Some (0, with_mem part0 0 (mem0\<lparr>buf := [0x41, 0xFF, 0xFF, 0xFF], tags := [1, 0, 0, 0]\<rparr>), one_file)"
proof -
  have mems: "p_mem part0 = [mem0, mem0\<lparr>m_desc := ''fuse1''\<rparr>, mem0\<lparr>m_desc := ''fuse2''\<rparr>]" "flags part0 AND AVRPART_AVR32 = 0"
    by (simp_all add: part0_def avr_new_part_def AVRPART_AVR32_def AVRPART_SERIALOK_def AVRPART_PARALLELOK_def
        AVRPART_ENABLEPAGEPROGRAMMING_def)
  have l: "avr_locate_mem part0 ''fl'' = Some 0"
    by (auto simp: locate_mem_iff mems desc_matches_def mem0_def avr_new_memtype_def less_Suc_eq)
  have m0: "buf mem0 = [0xFF, 0xFF, 0xFF, 0xFF]" "tags mem0 = [0, 0, 0, 0]" "m_size mem0 = 4" "m_desc mem0 = ''flash''"
    by (simp_all add: mem0_def avr_new_memtype_def)
  have hi: "avr_mem_hiaddr (mem0\<lparr>buf := [0x41, 0xFF, 0xFF, 0xFF], tags := [1, 0, 0, 0]\<rparr>) = 0" by code_simp
  have hm: "hiaddr_memory (mem0\<lparr>buf := b, tags := t\<rparr>)" for b t
    by (simp add: hiaddr_memory_def m0 same_ignoring_case_def)
  have r: "replicate 4 (v :: u8) = [v, v, v, v]" for v by (simp add: numeral_eq_Suc)
  have A: "byte_of_chr CHR ''A'' = 0x41" by code_simp
  show ?thesis
    by (simp add: fileio_def l mems m0 fileio_setparms_def clear_mem_def fill_def patch_def r detect_format_def
        open_file_def one_file_def fileio_format_def fileio_rbin_def write_file_def hi hm A TAG_ALLOCATED_def)
qed

text \<open>A memory, of size \<open>sz\<close>, that has its arrays, in a part that is not an AVR32.\<close>

definition usable :: "avrpart \<Rightarrow> string \<Rightarrow> nat \<Rightarrow> nat \<Rightarrow> bool" where
  "usable p mt k sz \<longleftrightarrow> avr_locate_mem p mt = Some k \<and> flags p AND AVRPART_AVR32 = 0
     \<and> m_size (p_mem p ! k) = sz \<and> length (buf (p_mem p ! k)) = sz \<and> length (tags (p_mem p ! k)) = sz"

lemma part0_usable: "usable part0 ''fl'' 0 4"
proof -
  have mems: "p_mem part0 = [mem0, mem0\<lparr>m_desc := ''fuse1''\<rparr>, mem0\<lparr>m_desc := ''fuse2''\<rparr>]" "flags part0 AND AVRPART_AVR32 = 0"
    by (simp_all add: part0_def avr_new_part_def AVRPART_AVR32_def AVRPART_SERIALOK_def AVRPART_PARALLELOK_def
        AVRPART_ENABLEPAGEPROGRAMMING_def)
  then show ?thesis
    by (auto simp: usable_def locate_mem_iff desc_matches_def mem0_def avr_new_memtype_def less_Suc_eq)
qed

theorem fileio_read_fills_witness:
  "fileio some_ihexrec FIO_READ ''x'' FMT_RBIN part0 ''fl'' (-1) one_file
     = Some (0, with_mem part0 0 (mem0\<lparr>buf := [0x41, 0xFF, 0xFF, 0xFF], tags := [1, 0, 0, 0]\<rparr>), one_file)
   \<and> (\<exists>m'. read_ok 4 m')"
proof -
  have u: "avr_locate_mem part0 ''fl'' = Some 0" "m_size (p_mem part0 ! 0) = 4"
    "length (buf (p_mem part0 ! 0)) = m_size (p_mem part0 ! 0)"
    "length (tags (p_mem part0 ! 0)) = m_size (p_mem part0 ! 0)" "m_size (p_mem part0 ! 0) < 2 ^ 31"
    using part0_usable by (simp_all add: usable_def)
  show ?thesis
    using fileio_read_fills [OF u(1,3,4,5) read_one_file] read_one_file unfolding u(2) by blast
qed

subsection \<open>A written file is read back\<close>

lemma byte_chr [simp]: "byte_of_chr (chr_of b) = b"
  by (simp add: byte_of_chr_def chr_of_def)

lemma bytes_chrs [simp]: "map byte_of_chr (map chr_of bs) = bs"
  by (simp add: comp_def)

lemma format_roundtrip:
  assumes "fmt = FMT_IHEX \<or> fmt = FMT_RBIN \<or> (fmt = FMT_SREC \<and> sz < 2 ^ 24)"
    and "fits (buf M) sz M" and "fits (buf M) sz m" and "length (data junk) = 256"
    and "fio_op fw = FIO_WRITE" and "fileoffset fw = 0" and "fio_op fr = FIO_READ" and "fileoffset fr = 0"
  shows "\<exists>out. fileio_format junk fmt fw fn f M sz = Some (int sz, M, out)
    \<and> fileio_format junk fmt fr fn' out m sz = Some (int sz, m\<lparr>buf := buf M, tags := replicate sz TAG_ALLOCATED\<rparr>, [])"
  using assms(1)
proof (elim disjE conjE)
  assume f: "fmt = FMT_IHEX"
  show ?thesis
    using ihex_written_is_read [OF assms(3) _ _ assms(4), of 32] assms(5-8)
    by (auto simp: f fileio_format_def fileio_ihex_def)
next
  assume f: "fmt = FMT_RBIN"
  have len: "length (buf M) = sz" "length (buf m) = sz" "length (tags m) = sz"
    using assms(2,3) by (simp_all add: fits_def)
  show ?thesis
    using len assms(5,7)
    by (intro exI [of _ "map chr_of (buf M)"])
      (auto simp: f fileio_format_def fileio_rbin_def fill_def patch_def Let_def comp_def)
next
  assume f: "fmt = FMT_SREC" "sz < 2 ^ 24"
  show ?thesis
    using srec_written_is_read [OF assms(3) f(2) _ _ assms(4), of 32] assms(5-8)
    by (auto simp: f(1) fileio_format_def fileio_srec_def)
qed

text \<open>C6: A memory of less than 2 GB written to a file as Intel hex, as S-records (below 16 MB) or as raw binary is read
  back from that file, into the memory of the same name and size of the same or another part: the bytes are those of the written memory,
  all of them marked, and the result is the size of the memory, or for flash memories the extent of
  what is not 0xff. Both parts have the memory's arrays allocated and neither is an AVR32 (\<open>usable\<close>): for
  those the file format adds an offset, with which S-records are written wrongly (\<open>b2srec_offset_overflow\<close>). The
  file is neither the standard output nor locked.\<close>

theorem fileio_roundtrip:
  assumes "fmt = FMT_IHEX \<or> fmt = FMT_RBIN \<or> (fmt = FMT_SREC \<and> sz < 2 ^ 24)" and "sz < 2 ^ 31"
    and "usable p mt k sz" and "usable q mt k' sz" and "length (data junk) = 256"
    and "fn \<noteq> ''-''" and "\<not> locked fs fn"
    and "d = buf (p_mem p ! k)" and "m = (p_mem q ! k')\<lparr>buf := d, tags := replicate sz TAG_ALLOCATED\<rparr>"
  shows "\<exists>p' fs'. fileio junk FIO_WRITE fn fmt p mt (int sz) fs = Some (int sz, p', fs')
    \<and> fileio junk FIO_READ fn fmt q mt z fs'
      = Some (if 0 < sz \<and> hiaddr_memory m then int (avr_mem_hiaddr m) else int sz, with_mem q k' m, fs')"
proof -
  let ?M = "(p_mem p ! k)\<lparr>tags := replicate sz 0\<rparr>"
  let ?m = "(p_mem q ! k')\<lparr>buf := replicate sz 0xff, tags := replicate sz 0\<rparr>"
  have len: "length (buf (p_mem p ! k)) = sz" "length (tags (p_mem p ! k)) = sz" "m_size (p_mem q ! k') = sz"
    "length (buf (p_mem q ! k')) = sz" "length (tags (p_mem q ! k')) = sz"
    "avr_locate_mem p mt = Some k" "avr_locate_mem q mt = Some k'"
    using assms(3,4) by (simp_all add: usable_def)
  have k: "k < length (p_mem p)" "k' < length (p_mem q)" using len(6,7) by (simp_all add: locate_mem_iff)
  obtain fw where fw: "fileio_setparms FIO_WRITE p (p_mem p ! k) = Some fw" "fio_op fw = FIO_WRITE" "fileoffset fw = 0"
    using assms(3) by (simp add: fileio_setparms_def usable_def)
  obtain fr where fr: "fileio_setparms FIO_READ q (p_mem q ! k') = Some fr" "fio_op fr = FIO_READ" "fileoffset fr = 0"
    using assms(4) by (simp add: fileio_setparms_def usable_def)
  have "fits (buf ?M) sz ?M" "fits (buf ?M) sz ?m" using len assms(2) by (simp_all add: fits_def)
  from format_roundtrip [OF assms(1) this assms(5) fw(2,3) fr(2,3), of fn "[]" fn] obtain out where
    w: "fileio_format junk fmt fw fn [] ?M sz = Some (int sz, ?M, out)" and
    r: "fileio_format junk fmt fr fn out ?m sz = Some (int sz, m, [])"
    using assms(8,9) by auto
  have fmt: "fmt \<noteq> FMT_AUTO" "fmt \<noteq> FMT_IMM" using assms(1) by auto
  have cw: "clear_mem FIO_WRITE sz (p_mem p ! k) = Some ?M"
    using len by (simp add: clear_mem_def fill_def patch_def)
  define fs' where "fs' = fs\<lparr>files := (files fs)(fn \<mapsto> out)\<rparr>"
  have "fileio junk FIO_WRITE fn fmt p mt (int sz) fs = Some (int sz, with_mem p k ?M, fs')"
    using k(1) w fmt assms(6,7)
    by (simp add: fileio_def len(6) fw cw detect_format_def open_file_def write_file_def fs'_def Let_def)
  moreover have "fileio junk FIO_READ fn fmt q mt z fs'
      = Some (if 0 < sz \<and> hiaddr_memory m then int (avr_mem_hiaddr m) else int sz, with_mem q k' m, fs')"
    using k(2) r fmt assms(6,7)
    by (simp add: fileio_def len(3,7) fr clear_mem_read [OF len(4,5)] detect_format_def open_file_def write_file_def
        fs'_def Let_def)
  ultimately show ?thesis by blast
qed

theorem fileio_roundtrip_witness:
  "\<exists>p' fs' rc. fileio some_ihexrec FIO_WRITE ''y'' FMT_SREC part0 ''fl'' 4 one_file = Some (4, p', fs')
    \<and> fileio some_ihexrec FIO_READ ''y'' FMT_SREC part0 ''fl'' (-1) fs'
      = Some (rc, with_mem part0 0 ((p_mem part0 ! 0)\<lparr>tags := replicate 4 1\<rparr>), fs')"
  using fileio_roundtrip [of FMT_SREC 4 part0 "''fl''" 0 part0 0 some_ihexrec "''y''" one_file
      "buf (p_mem part0 ! 0)" "(p_mem part0 ! 0)\<lparr>tags := replicate 4 1\<rparr>" "-1"] part0_usable
  by (fastforce simp: some_ihexrec_def one_file_def TAG_ALLOCATED_def)

subsection \<open>The detection of the format\<close>

text \<open>A text file is taken for Intel hex as soon as its first line has eleven ASCII characters of which
  the first is a colon and the second a hexadecimal digit, whatever the other characters are: the
  loop over the line tests the same character each time.\<close>

theorem detect_tests_one_digit:
  assumes "length l + 1 < 256" and "NL \<notin> set l" and "NUL \<notin> set l" and "11 \<le> length l" and "hd l = CHR '':''"
    and "\<forall>c \<in> set l. of_char c \<le> (127 :: nat)"
  shows "detect_loop True (l @ NL # rest) = Some (Some FMT_IHEX) \<longleftrightarrow> isxdigit (l ! 1) \<or> detect_loop False rest = Some (Some FMT_IHEX)"
proof -
  obtain c cs where l: "l = c # cs" using assms(4) by (cases l) auto
  have g: "fgets MAX_LINE_LEN (l @ NL # rest) = Some (l @ [NL], rest)"
    using assms(1,2) by (intro fgets_line) (simp_all add: MAX_LINE_LEN_def)
  have e: "take 4 l \<noteq> [CHR 0x7F, CHR ''E'', CHR ''L'', CHR ''F'']"
    using assms(5) by (simp add: l)
  have b: "\<not> list_ex (\<lambda>c. of_char c > (127 :: nat)) l"
    using assms(6) by (auto simp: list_ex_iff not_less)
  have S: "hd l \<noteq> CHR ''S''" using assms(5) by simp
  have "[1..<length l] \<noteq> []" using assms(4) l by auto
  then have a: "list_all (\<lambda>i. isxdigit (l ! 1)) [1..<length l] \<longleftrightarrow> isxdigit (l ! 1)"
    by (auto simp: list_all_iff)
  show ?thesis
    by (subst detect_loop.simps)
      (use assms(4,5) in \<open>simp add: g e chomp_line [OF assms(3)] detect_line_def b S a del: One_nat_def\<close>)
qed

theorem detect_tests_one_digit_witness:
  "detect_loop True ('':0 not hex file'' @ NL # []) = Some (Some FMT_IHEX)"
proof -
  have "isxdigit ('':0 not hex file'' ! 1)" by code_simp
  moreover have "\<forall>c \<in> set '':0 not hex file''. of_char c \<le> (127 :: nat)" by code_simp
  ultimately show ?thesis
    using detect_tests_one_digit [of "'':0 not hex file''" "[]"] by (simp add: NL_def NUL_def)
qed

end
