(* ===== verification/Update.thy ===== *)
theory Update
  imports Fileio AvrCore
begin

text \<open>
  The memory operations of avrdude's command line, \<^verbatim>\<open>update.c\<close>: the parsing of their specifications
  and their execution, which moves bytes between a file, the memories of the part description and
  the device. Allocation is taken to succeed.
\<close>

subsection \<open>Update specifications\<close>

definition DEVICE_READ :: int where "DEVICE_READ = 0"
definition DEVICE_WRITE :: int where "DEVICE_WRITE = 1"
definition DEVICE_VERIFY :: int where "DEVICE_VERIFY = 2"
definition UF_NOWRITE :: u32 where "UF_NOWRITE = 1"
definition UF_AUTO_ERASE :: u32 where "UF_AUTO_ERASE = 2"

lemmas device_ops = DEVICE_READ_def DEVICE_WRITE_def DEVICE_VERIFY_def

record update =
  upd_memtype :: "string option"
  upd_op :: int
  upd_filename :: string
  upd_format :: FILEFMT

definition op_of_letter :: "char \<Rightarrow> int option" where
  "op_of_letter c =
     (if c = CHR ''r'' then Some DEVICE_READ
      else if c = CHR ''w'' then Some DEVICE_WRITE
      else if c = CHR ''v'' then Some DEVICE_VERIFY
      else None)"

text \<open>The text after the last colon must be one of these letters, and nothing else.\<close>

definition format_of_text :: "string \<Rightarrow> FILEFMT option" where
  "format_of_text t =
     (if t = ''a'' then Some FMT_AUTO
      else if t = ''s'' then Some FMT_SREC
      else if t = ''i'' then Some FMT_IHEX
      else if t = ''r'' then Some FMT_RBIN
      else if t = ''e'' then Some FMT_ELF
      else if t = ''m'' then Some FMT_IMM
      else if t = ''b'' then Some FMT_BIN
      else if t = ''d'' then Some FMT_DEC
      else if t = ''h'' then Some FMT_HEX
      else if t = ''o'' then Some FMT_OCT
      else None)"

text \<open>\<^verbatim>\<open>strrchr\<close>: the text before and after the last occurrence.\<close>

definition strrchr :: "char \<Rightarrow> string \<Rightarrow> (string \<times> string) option" where
  "strrchr c s =
     (if c \<in> set s
      then Some (rev (tl (dropWhile (\<lambda>x. x \<noteq> c) (rev s))), rev (takeWhile (\<lambda>x. x \<noteq> c) (rev s)))
      else None)"

text \<open>The local buffer takes 1023 characters; a longer specification is cut there.\<close>

definition COLON :: char where "COLON = CHR '':''"

definition parse_op :: "string \<Rightarrow> update option" where
  "parse_op s =
     (let b = take 1023 (takeWhile (\<lambda>c. c \<noteq> COLON) s); p = drop (length b) s
      in if take 1 p \<noteq> [COLON]
         then Some \<lparr>upd_memtype = None, upd_op = DEVICE_WRITE, upd_filename = b, upd_format = FMT_AUTO\<rparr>
         else (let p = tl p
               in case p of
                    [] \<Rightarrow> None
                  | c # p \<Rightarrow> do {
                      operation \<leftarrow> op_of_letter c;
                      if take 1 p \<noteq> [COLON] then None
                      else (let cp = tl p
                            in case strrchr COLON cp of
                                 None \<Rightarrow> Some \<lparr>upd_memtype = Some b, upd_op = operation, upd_filename = cp, upd_format = FMT_AUTO\<rparr>
                               | Some (fn, t) \<Rightarrow> do {
                                   fmt \<leftarrow> format_of_text t;
                                   Some \<lparr>upd_memtype = Some b, upd_op = operation, upd_filename = fn, upd_format = fmt\<rparr>
                                 })
                    }))"

definition dup_update :: "update \<Rightarrow> update" where
  "dup_update u = u\<lparr>upd_memtype := (case upd_memtype u of None \<Rightarrow> None | Some t \<Rightarrow> Some t), upd_filename := upd_filename u\<rparr>"

definition new_update :: "int \<Rightarrow> string \<Rightarrow> FILEFMT \<Rightarrow> string \<Rightarrow> update" where
  "new_update operation memtype filefmt filename =
     \<lparr>upd_memtype = Some memtype, upd_op = operation, upd_filename = filename, upd_format = filefmt\<rparr>"

subsection \<open>Execution\<close>

text \<open>
  The state is the device with safemode's values and the files. A missing memory type is a null
  pointer, which the search for the memory reads through.
\<close>

type_synonym 'd transfer = "(int \<times> avrpart \<times> (fuses \<times> 'd) \<times> filesys) option"

definition do_read :: "ihexrec \<Rightarrow> 'd programmer \<Rightarrow> avrpart \<Rightarrow> string \<Rightarrow> update \<Rightarrow> (fuses \<times> 'd) \<times> filesys \<Rightarrow> 'd transfer" where
  "do_read junk pgm p mt upd = (\<lambda>((st, d), fs). do {
     (rc, p, d) \<leftarrow> avr_read pgm p mt None d;
     if rc < 0 then Some (-1, p, (st, d), fs)
     else do {
       (rc, p, fs) \<leftarrow> fileio junk FIO_WRITE (upd_filename upd) (upd_format upd) p mt rc fs;
       Some (if rc < 0 then -1 else 0, p, (st, d), fs)
     }
   })"

definition do_write :: "ihexrec \<Rightarrow> 'd programmer \<Rightarrow> avrpart \<Rightarrow> string \<Rightarrow> update \<Rightarrow> u32 \<Rightarrow> (fuses \<times> 'd) \<times> filesys \<Rightarrow> 'd transfer" where
  "do_write junk pgm p mt upd uflags = (\<lambda>(sd, fs). do {
     (sz, p, fs) \<leftarrow> fileio junk FIO_READ (upd_filename upd) (upd_format upd) p mt (-1) fs;
     if sz < 0 then Some (-1, p, sd, fs)
     else do {
       (rc, p, sd, fs) \<leftarrow>
         (if uflags AND UF_NOWRITE = 0 then do {
            (rc, sd) \<leftarrow> avr_write pgm p mt sz (uflags AND UF_AUTO_ERASE \<noteq> 0) sd;
            Some (rc, p, sd, fs)
          }
          else do {
            (rc, p, fs) \<leftarrow> fileio junk FIO_WRITE ''-'' FMT_IHEX p mt sz fs;
            Some (rc, p, sd, fs)
          });
       Some (if rc < 0 then -1 else 0, p, sd, fs)
     }
   })"

definition do_verify :: "ihexrec \<Rightarrow> 'd programmer \<Rightarrow> avrpart \<Rightarrow> string \<Rightarrow> update \<Rightarrow> (fuses \<times> 'd) \<times> filesys \<Rightarrow> 'd transfer" where
  "do_verify junk pgm p mt upd = (\<lambda>((st, d), fs). do {
     let d = vfy_led pgm True d;
     (sz, p, fs) \<leftarrow> fileio junk FIO_READ (upd_filename upd) (upd_format upd) p mt (-1) fs;
     if sz < 0 then Some (-1, p, (st, d), fs)
     else do {
       let v = avr_dup_part p;
       (rc, p, d) \<leftarrow> avr_read pgm p mt (Some v) d;
       if rc < 0 then Some (-1, p, (st, err_led pgm True d), fs)
       else do {
         rc \<leftarrow> avr_verify p v mt sz;
         Some (if rc < 0 then (-1, p, (st, err_led pgm True d), fs) else (0, p, (st, vfy_led pgm False d), fs))
       }
     }
   })"

definition do_op :: "ihexrec \<Rightarrow> 'd programmer \<Rightarrow> avrpart \<Rightarrow> update \<Rightarrow> u32 \<Rightarrow> (fuses \<times> 'd) \<times> filesys \<Rightarrow> 'd transfer" where
  "do_op junk pgm p upd uflags sdf =
     (case upd_memtype upd of
        None \<Rightarrow> None
      | Some mt \<Rightarrow>
          if avr_locate_mem p mt = None then Some (-1, p, sdf)
          else if upd_op upd = DEVICE_READ then do_read junk pgm p mt upd sdf
          else if upd_op upd = DEVICE_WRITE then do_write junk pgm p mt upd uflags sdf
          else if upd_op upd = DEVICE_VERIFY then do_verify junk pgm p mt upd sdf
          else Some (-1, p, sdf))"

subsection \<open>The language of specifications\<close>

text \<open>
  The specifications as a grammar: a file name alone; a memory, an operation and a file name; and
  these with a format letter, where the file name may contain colons.
\<close>

inductive denotes :: "string \<Rightarrow> update \<Rightarrow> bool" where
  denotes_file: "COLON \<notin> set (take 1024 s) \<Longrightarrow>
    denotes s \<lparr>upd_memtype = None, upd_op = DEVICE_WRITE, upd_filename = take 1023 s, upd_format = FMT_AUTO\<rparr>"
| denotes_op: "COLON \<notin> set mt \<Longrightarrow> length mt \<le> 1023 \<Longrightarrow> op_of_letter c = Some opn \<Longrightarrow> COLON \<notin> set fn \<Longrightarrow>
    denotes (mt @ [COLON, c, COLON] @ fn) \<lparr>upd_memtype = Some mt, upd_op = opn, upd_filename = fn, upd_format = FMT_AUTO\<rparr>"
| denotes_format: "COLON \<notin> set mt \<Longrightarrow> length mt \<le> 1023 \<Longrightarrow> op_of_letter c = Some opn \<Longrightarrow> format_of_text [f] = Some fmt \<Longrightarrow>
    denotes (mt @ [COLON, c, COLON] @ fn @ [COLON, f]) \<lparr>upd_memtype = Some mt, upd_op = opn, upd_filename = fn, upd_format = fmt\<rparr>"

lemma strrchr_None: "strrchr c s = None \<longleftrightarrow> c \<notin> set s"
  by (simp add: strrchr_def)

lemma strrchr_split: "strrchr c s = Some (a, b) \<longleftrightarrow> s = a @ [c] @ b \<and> c \<notin> set b"
proof
  assume r: "strrchr c s = Some (a, b)"
  then have c: "c \<in> set (rev s)" by (auto simp: strrchr_def split: if_splits)
  let ?t = "takeWhile (\<lambda>x. x \<noteq> c) (rev s)" and ?d = "dropWhile (\<lambda>x. x \<noteq> c) (rev s)"
  have d: "?d \<noteq> []" using c by (auto simp: dropWhile_eq_Nil_conv)
  have "hd ?d = c" using hd_dropWhile [OF d] by simp
  then have "?d = c # tl ?d" using d by (metis list.collapse)
  then have "rev s = ?t @ c # tl ?d" by (metis takeWhile_dropWhile_id)
  then have "s = rev (tl ?d) @ [c] @ rev ?t" by (metis append.assoc rev.simps(2) rev_append rev_rev_ident append_Cons append_Nil)
  moreover have "c \<notin> set (rev ?t)" by (auto dest: set_takeWhileD)
  moreover have "a = rev (tl ?d)" "b = rev ?t" using r by (auto simp: strrchr_def split: if_splits)
  ultimately show "s = a @ [c] @ b \<and> c \<notin> set b" by simp
next
  assume s: "s = a @ [c] @ b \<and> c \<notin> set b"
  then have "takeWhile (\<lambda>x. x \<noteq> c) (rev b @ c # rev a) = rev b" "dropWhile (\<lambda>x. x \<noteq> c) (rev b @ c # rev a) = c # rev a"
    using takeWhile_append2 [of "rev b" "\<lambda>x. x \<noteq> c" "c # rev a"] dropWhile_append2 [of "rev b" "\<lambda>x. x \<noteq> c" "c # rev a"]
    by auto
  with s show "strrchr c s = Some (a, b)" by (simp add: strrchr_def)
qed

lemma taken_prefix: "b = take n s \<Longrightarrow> s = b @ drop (length b) s"
  by (cases "n \<le> length s") auto

lemma format_one_letter: "format_of_text t = Some fmt \<Longrightarrow> \<exists>f. t = [f] \<and> f \<noteq> COLON"
  by (auto simp: format_of_text_def COLON_def split: if_splits)

lemma head_buffer:
  assumes "COLON \<notin> set mt" and "length mt \<le> 1023"
  shows "take 1023 (takeWhile (\<lambda>c. c \<noteq> COLON) (mt @ COLON # rest)) = mt"
  using assms by (subst takeWhile_append2) auto

lemma no_colon_buffer:
  assumes "COLON \<notin> set (take 1024 s)"
  shows "take 1023 (takeWhile (\<lambda>c. c \<noteq> COLON) s) = take 1023 s" and "take 1 (drop (length (take 1023 s)) s) \<noteq> [COLON]"
proof -
  have t: "take (Suc n) s = take n s @ take 1 (drop n s)" for n
    using take_add [of n 1 s] by simp
  have c: "COLON \<notin> set (take 1023 s)" "COLON \<notin> set (take 1 (drop 1023 s))"
    using assms t [of 1023] by auto
  show "take 1023 (takeWhile (\<lambda>c. c \<noteq> COLON) s) = take 1023 s"
  proof (cases "length s \<le> 1023")
    case True
    with c(1) have tw: "takeWhile (\<lambda>c. c \<noteq> COLON) s = s" by (auto simp: takeWhile_eq_all_conv)
    show ?thesis by (subst tw) (rule refl)
  next
    case False
    have "takeWhile (\<lambda>c. c \<noteq> COLON) (take 1023 s @ drop 1023 s) = take 1023 s @ takeWhile (\<lambda>c. c \<noteq> COLON) (drop 1023 s)"
      using c(1) by (intro takeWhile_append2) auto
    then show ?thesis using False by simp
  qed
  show "take 1 (drop (length (take 1023 s)) s) \<noteq> [COLON]"
    using c(2) by (cases "length s \<le> 1023") (auto simp: min_def)
qed

lemma parse_op_complete: "denotes s u \<Longrightarrow> parse_op s = Some u"
proof (induction rule: denotes.induct)
  case (denotes_file s)
  note b = no_colon_buffer [OF denotes_file]
  show ?case unfolding parse_op_def Let_def b(1) using b(2) by simp
next
  case (denotes_op mt c opn fn)
  then show ?case by (simp add: parse_op_def head_buffer strrchr_None [THEN iffD2])
next
  case (denotes_format mt c opn f fmt fn)
  have "f \<noteq> COLON" using format_one_letter [OF denotes_format(4)] by simp
  then have "strrchr COLON (fn @ [COLON, f]) = Some (fn, [f])" by (simp add: strrchr_split)
  with denotes_format show ?case by (simp add: parse_op_def head_buffer)
qed

lemma parse_op_sound:
  assumes "parse_op s = Some u" shows "denotes s u"
proof -
  define b where "b = take 1023 (takeWhile (\<lambda>c. c \<noteq> COLON) s)"
  define p where "p = drop (length b) s"
  have "b = take (min 1023 (length (takeWhile (\<lambda>c. c \<noteq> COLON) s))) s" unfolding b_def by (metis takeWhile_eq_take take_take)
  then have s: "s = b @ p" unfolding p_def by (rule taken_prefix)
  have b: "COLON \<notin> set b" "length b \<le> 1023" by (auto simp: b_def dest: in_set_takeD set_takeWhileD)
  show ?thesis
  proof (cases "take 1 p = [COLON]")
    case False
    have nc: "COLON \<notin> set (take 1024 s)"
    proof (cases "length b = 1023")
      case True
      then show ?thesis using False b(1) s by (cases p) auto
    next
      case less: False
      have "b = takeWhile (\<lambda>c. c \<noteq> COLON) s" using less b(2) by (simp add: b_def min_def split: if_splits)
      then have p: "p = dropWhile (\<lambda>c. c \<noteq> COLON) s" by (simp add: p_def dropWhile_eq_drop)
      have "p = []"
      proof (rule ccontr)
        assume n: "p \<noteq> []"
        then have "hd p = COLON" using hd_dropWhile [of "\<lambda>c. c \<noteq> COLON" s] unfolding p by simp
        with n False show False by (cases p) simp_all
      qed
      then show ?thesis using b s by (auto dest: in_set_takeD)
    qed
    have "u = \<lparr>upd_memtype = None, upd_op = DEVICE_WRITE, upd_filename = b, upd_format = FMT_AUTO\<rparr>"
      using assms False by (simp add: parse_op_def b_def [symmetric] p_def [symmetric])
    moreover have "b = take 1023 s" using no_colon_buffer(1) [OF nc] by (simp add: b_def)
    ultimately show ?thesis using denotes_file [OF nc] by simp
  next
    case True
    then obtain q where q: "p = COLON # q" by (cases p) auto
    obtain c r opn where r: "q = c # COLON # r" "op_of_letter c = Some opn"
      using assms True q by (auto simp: parse_op_def b_def [symmetric] p_def [symmetric] Let_def bind_eq_Some_conv
          split: list.splits if_splits) (metis append_take_drop_id append_Cons append_Nil drop_Suc drop0 One_nat_def)
    have run: "(case strrchr COLON r of
          None \<Rightarrow> Some \<lparr>upd_memtype = Some b, upd_op = opn, upd_filename = r, upd_format = FMT_AUTO\<rparr>
        | Some (fn, t) \<Rightarrow> do { fmt \<leftarrow> format_of_text t;
            Some \<lparr>upd_memtype = Some b, upd_op = opn, upd_filename = fn, upd_format = fmt\<rparr> }) = Some u"
      using assms q r by (simp add: parse_op_def b_def [symmetric] p_def [symmetric])
    have whole: "s = b @ [COLON, c, COLON] @ r" using s q r by simp
    show ?thesis
    proof (cases "strrchr COLON r")
      case None
      then show ?thesis using run denotes_op [OF b r(2), of r] whole strrchr_None [of COLON r] by simp
    next
      case (Some ft)
      then obtain fn t fmt where f: "strrchr COLON r = Some (fn, t)" "format_of_text t = Some fmt"
        "u = \<lparr>upd_memtype = Some b, upd_op = opn, upd_filename = fn, upd_format = fmt\<rparr>"
        using run by (cases ft; cases "format_of_text (snd ft)") auto
      obtain g where "t = [g]" using format_one_letter [OF f(2)] by blast
      then show ?thesis using f denotes_format [OF b r(2), of g fmt fn] whole by (simp add: strrchr_split)
    qed
  qed
qed

text \<open>C10: The parser of update specifications accepts exactly the specifications of the grammar, with the
  update they denote: only the last colon can introduce a format, so that file names may contain
  colons, and a specification without a colon is cut to 1023 characters.\<close>

theorem parse_op_language: "parse_op s = Some u \<longleftrightarrow> denotes s u"
  using parse_op_sound parse_op_complete by blast

subsection \<open>Parts that differ in a memory's bytes\<close>

definition same_meta :: "avrmem \<Rightarrow> avrmem \<Rightarrow> bool" where
  "same_meta m m' \<longleftrightarrow> m'\<lparr>buf := [], tags := []\<rparr> = m\<lparr>buf := [], tags := []\<rparr>"

lemma same_metaD:
  assumes "same_meta m m'"
  shows "m'\<lparr>buf := b, tags := t\<rparr> = m\<lparr>buf := b, tags := t\<rparr>"
proof -
  have "m'\<lparr>buf := [], tags := []\<rparr>\<lparr>buf := b, tags := t\<rparr> = m\<lparr>buf := [], tags := []\<rparr>\<lparr>buf := b, tags := t\<rparr>"
    using assms by (simp only: same_meta_def)
  then show ?thesis by simp
qed

lemma same_meta_fields:
  assumes "same_meta m m'"
  shows "m_desc m' = m_desc m" "m_size m' = m_size m" "page_size m' = page_size m" "paged m' = paged m" "m_offset m' = m_offset m"
proof -
  have e: "f m' = f m" if "\<And>x. f (x\<lparr>buf := [], tags := []\<rparr>) = f x" for f :: "avrmem \<Rightarrow> 'b"
    using that [of m] that [of m'] assms by (simp add: same_meta_def)
  show "m_desc m' = m_desc m" "m_size m' = m_size m" "page_size m' = page_size m" "paged m' = paged m" "m_offset m' = m_offset m"
    by (rule e, simp)+
qed

text \<open>The search depends on the descriptions only.\<close>

lemma locate_desc:
  assumes "map m_desc (p_mem p') = map m_desc (p_mem p)"
  shows "avr_locate_mem p' mt = avr_locate_mem p mt"
proof -
  have len: "length (p_mem p') = length (p_mem p)" using assms by (rule map_eq_imp_length_eq)
  have "desc_matches mt (p_mem p' ! j) = desc_matches mt (p_mem p ! j)" if "j < length (p_mem p)" for j
    using assms that len unfolding desc_matches_def by (metis nth_map)
  then have "avr_locate_mem p' mt = Some j \<longleftrightarrow> avr_locate_mem p mt = Some j" for j
    unfolding locate_mem_iff len by (metis (no_types))
  then show ?thesis by (metis option.exhaust)
qed

lemma locate_with_mem:
  assumes "m_desc m' = m_desc (p_mem p ! k)"
  shows "avr_locate_mem (with_mem p k m') mt = avr_locate_mem p mt"
proof (rule locate_desc)
  show "map m_desc (p_mem (with_mem p k m')) = map m_desc (p_mem p)"
    using assms by (cases "k < length (p_mem p)") (simp_all add: map_update list_update_same_conv list_update_beyond)
qed

lemma dup_part_mems: "p_mem (avr_dup_part d) = map avr_dup_mem (p_mem d)"
proof -
  have "fold (\<lambda>m ms. ms @ [avr_dup_mem m]) xs acc = acc @ map avr_dup_mem xs" for xs acc
    by (induction xs arbitrary: acc) simp_all
  then show ?thesis by (simp add: avr_dup_part_def)
qed

lemma locate_dup_part: "avr_locate_mem (avr_dup_part p) mt = avr_locate_mem p mt"
  by (rule locate_desc) (simp add: dup_part_mems avr_dup_mem_def comp_def)

text \<open>Reading a file a second time gives the same result.\<close>

lemma fileio_again:
  assumes "avr_locate_mem p mt = Some k" and "bytewise pgm p (p_mem p ! k)"
    and "fileio junk FIO_READ fn fmt p mt (-1) fs = Some (rc, p1, fs1)"
  shows "bytewise pgm p1 (p_mem p1 ! k)" "same_meta (p_mem p ! k) (p_mem p1 ! k)"
    "read_ok (m_size (p_mem p ! k)) (p_mem p1 ! k)"
    "p1 = with_mem p k (p_mem p1 ! k)" "fs1 = fs" "avr_locate_mem p1 mt = Some k"
    "0 \<le> rc \<Longrightarrow> fileio junk FIO_READ fn fmt p1 mt (-1) fs = Some (rc, p1, fs)"
proof -
  define m where "m = p_mem p ! k"
  have k: "k < length (p_mem p)" using assms(1) by (simp add: locate_mem_iff)
  have len: "length (buf m) = m_size m" "length (tags m) = m_size m" "m_size m < 2 ^ 31"
    using assms(2) by (auto simp: bytewise_def m_def)
  obtain m1 where m1: "p1 = with_mem p k m1" "read_ok (m_size m) m1" "same_meta m m1" "fs1 = fs"
    using fileio_reads [OF assms(1) m_def refl len assms(3)] by (auto simp: same_meta_def)
  have nth: "p_mem p1 ! k = m1" using k by (simp add: m1(1))
  have len1: "length (buf m1) = m_size m" "length (tags m1) = m_size m" using m1(2) by (simp_all add: read_ok_def)
  note meta = same_meta_fields [OF m1(3)]
  show "same_meta (p_mem p ! k) (p_mem p1 ! k)" "read_ok (m_size (p_mem p ! k)) (p_mem p1 ! k)"
    "p1 = with_mem p k (p_mem p1 ! k)" "fs1 = fs"
    using m1 k by (simp_all add: m_def)
  show "bytewise pgm p1 (p_mem p1 ! k)"
    unfolding nth using assms(2) len1 by (simp add: bytewise_def m1(1) meta m_def)
  show loc: "avr_locate_mem p1 mt = Some k"
    using locate_with_mem [of m1 p k mt] meta(1) assms(1) by (simp add: m1(1) m_def)
  define m0 where "m0 = m\<lparr>buf := replicate (m_size m) 0xff, tags := replicate (m_size m) 0\<rparr>"
  have clr: "clear_mem FIO_READ (m_size m) m = Some m0" "clear_mem FIO_READ (m_size m) m1 = Some m0"
    using clear_mem_read [OF len(1,2)] clear_mem_read [OF len1] same_metaD [OF m1(3)] by (simp_all add: m0_def)
  have par: "fileio_setparms FIO_READ p1 m1 = fileio_setparms FIO_READ p m"
    by (simp add: fileio_setparms_def m1(1) meta)
  have w: "with_mem p1 k x = with_mem p k x" for x by (simp add: m1(1))
  obtain fio where fio: "fileio_setparms FIO_READ p m = Some fio" by (simp add: fileio_setparms_def)
  show "fileio junk FIO_READ fn fmt p1 mt (-1) fs = Some (rc, p1, fs)" if "0 \<le> rc"
    using assms(3) that
    unfolding m1(4) fileio_def
    by (simp add: assms(1) loc nth m_def [symmetric] meta par fio clr w Let_def split: option.splits prod.splits)
qed


subsection \<open>Verifying and writing\<close>

text \<open>The device agrees with the marked bytes of a memory among the first \<open>n\<close>.\<close>

definition agrees :: "('d \<Rightarrow> string \<Rightarrow> u64 \<Rightarrow> u8) \<Rightarrow> 'd \<Rightarrow> avrmem \<Rightarrow> nat \<Rightarrow> bool" where
  "agrees view d m n \<longleftrightarrow> (\<forall>j < n. tagged (tags m) j \<longrightarrow> view d (m_desc m) (of_nat j) = buf m ! j)"

lemma do_verify_exact:
  assumes "byte_access pgm view" and "avr_locate_mem p mt = Some k" and "bytewise pgm p (p_mem p ! k)"
    and "fileio junk FIO_READ fn fmt p mt (-1) fs = Some (n, p1, fs1)" and "0 \<le> n"
    and "upd = \<lparr>upd_memtype = Some mt, upd_op = DEVICE_VERIFY, upd_filename = fn, upd_format = fmt\<rparr>"
  shows "\<exists>p2 d'. view d' = view d \<and> do_op junk pgm p upd uflags ((st, d), fs)
    = Some (if agrees view d (p_mem p1 ! k) (min (nat n) (m_size (p_mem p ! k))) then 0 else -1, p2, (st, d'), fs)"
proof -
  define m1 where "m1 = p_mem p1 ! k"
  define dv where "dv = vfy_led pgm True d"
  note again = fileio_again [OF assms(2,3,4), folded m1_def]
  have sz: "m_size m1 = m_size (p_mem p ! k)" using same_meta_fields [OF again(2)] by simp
  have len: "length (buf m1) = m_size m1" "length (tags m1) = m_size m1"
    using again(3) sz by (simp_all add: read_ok_def)
  have k1: "k < length (p_mem p1)" using again(6) by (simp add: locate_mem_iff)
  have dup: "avr_locate_mem (avr_dup_part p1) mt = Some k" "p_mem (avr_dup_part p1) ! k = m1"
    using again(6) k1 len by (simp_all add: locate_dup_part dup_part_mems avr_dup_mem_def m1_def [symmetric])
  define im where "im = mem_image view dv (Some (tags m1)) m1"
  obtain d1 where d1: "view d1 = view dv" "avr_read pgm p1 mt (Some (avr_dup_part p1)) dv
      = Some (read_result im, with_mem p1 k im, d1)"
    using avr_read_image [OF assms(1) again(6), of "Some (tags m1)" "Some (avr_dup_part p1)" dv] again(1) len dup
    by (auto simp: covers_def im_def m1_def [symmetric])
  have im: "length (buf im) = m_size m1" "m_size im = m_size m1" "m_desc im = m_desc m1"
    by (simp_all add: im_def mem_image_def)
  have v: "view dv = view d" using byte_access_led(3) [OF assms(1)] by (simp add: dv_def)
  let ?n = "min n (int (m_size m1))"
  have nn: "\<not> ?n < 0" "\<not> n < 0" using assms(5) by simp_all
  have nat: "nat ?n = min (nat n) (m_size m1)" "nat ?n \<le> m_size m1" by auto
  have loc: "avr_locate_mem (with_mem p1 k im) mt = Some k"
    using locate_with_mem [of im p1 k mt] im(3) again(6) by (simp add: m1_def)
  have ver: "avr_verify (with_mem p1 k im) (avr_dup_part p1) mt n
      = Some (if \<forall>j < nat ?n. tagged (tags m1) j \<longrightarrow> buf im ! j = buf m1 ! j then ?n else -1)"
    using k1 len nat(2) by (intro avr_verify_marks [OF loc dup(1)]) (simp_all add: dup(2) im)
  have eq: "(\<forall>j < nat ?n. tagged (tags m1) j \<longrightarrow> buf im ! j = buf m1 ! j)
      \<longleftrightarrow> agrees view d m1 (min (nat n) (m_size (p_mem p ! k)))"
    using nat sz by (auto simp: agrees_def im_def mem_image_def needed_def v)
  have rr: "\<not> read_result im < 0" by (simp add: read_result_def)
  have led: "view (err_led pgm True d1) = view d" "view (vfy_led pgm False d1) = view d"
    using byte_access_led [OF assms(1)] d1(1) v by simp_all
  have "do_op junk pgm p upd uflags ((st, d), fs)
    = Some (if agrees view d m1 (min (nat n) (m_size (p_mem p ! k)))
        then (0, with_mem p1 k im, (st, vfy_led pgm False d1), fs) else (-1, with_mem p1 k im, (st, err_led pgm True d1), fs))"
    using rr nn
    by (simp add: assms(6) do_op_def assms(2) device_ops do_verify_def dv_def [symmetric] assms(4) again(5) d1(2) ver eq Let_def)
  then show ?thesis using led by (auto simp: m1_def)
qed

lemma do_write_stores:
  assumes "byte_access pgm view" and "avr_locate_mem p mt = Some k" and "bytewise pgm p (p_mem p ! k)"
    and "fileio junk FIO_READ fn fmt p mt (-1) fs = Some (n, p1, fs1)" and "0 \<le> n" and "uflags AND UF_NOWRITE = 0"
    and "upd = \<lparr>upd_memtype = Some mt, upd_op = DEVICE_WRITE, upd_filename = fn, upd_format = fmt\<rparr>" and "m1 = p_mem p1 ! k"
  shows "\<exists>st' d'. do_op junk pgm p upd uflags ((st, d), fs) = Some (0, p1, (st', d'), fs)
    \<and> view d' = (view d)(m_desc m1 := overwrite m1 0 (min (nat n) (m_size m1)) (view d (m_desc m1)))"
proof -
  note again = fileio_again [OF assms(2,3,4), folded assms(8)]
  obtain st' d' where w: "avr_write pgm p1 mt n (uflags AND UF_AUTO_ERASE \<noteq> 0) (st, d)
      = Some (int (min (nat n) (m_size m1)), st', d')"
    "view d' = (view d)(m_desc m1 := overwrite m1 0 (min (nat n) (m_size m1)) (view d (m_desc m1)))"
    using avr_write_view [OF assms(1) again(6), of n "min (nat n) (m_size m1)" m1] again(1) assms(5,8) by blast
  have "do_op junk pgm p upd uflags ((st, d), fs) = Some (0, p1, (st', d'), fs)"
    using assms(5,6)
    by (simp add: assms(7) do_op_def assms(2) device_ops do_write_def assms(4) again(5) w(1) Let_def)
  with w(2) show ?thesis by blast
qed

text \<open>C5: Verifying a device against a file, over a programmer that reads bytes faithfully, tells exactly
  whether the device agrees with the file: the operation returns 0 if every byte that the file marks,
  within the extent it gives, is the byte of the device, and -1 if one of them is not. It changes
  neither the device nor a file.\<close>

theorem do_op_verify:
  assumes "byte_access pgm view" and "avr_locate_mem p mt = Some k" and "bytewise pgm p (p_mem p ! k)"
    and "fileio junk FIO_READ fn fmt p mt (-1) fs = Some (n, p1, fs1)" and "0 \<le> n"
    and "upd = \<lparr>upd_memtype = Some mt, upd_op = DEVICE_VERIFY, upd_filename = fn, upd_format = fmt\<rparr>"
  shows "\<exists>p2 d'. view d' = view d \<and> do_op junk pgm p upd uflags ((st, d), fs)
    = Some (if agrees view d (p_mem p1 ! k) (min (nat n) (m_size (p_mem p ! k))) then 0 else -1, p2, (st, d'), fs)"
  by (rule do_verify_exact [OF assms])

text \<open>C4: What is written verifies: over a programmer that reads and writes bytes faithfully, writing a file
  to a memory succeeds, and verifying the resulting device against the same file, with the part
  description as the write has left it, succeeds too.\<close>

theorem write_then_verify:
  assumes "byte_access pgm view" and "avr_locate_mem p mt = Some k" and "bytewise pgm p (p_mem p ! k)"
    and "fileio junk FIO_READ fn fmt p mt (-1) fs = Some (n, p1, fs1)" and "0 \<le> n" and "fn \<noteq> ''-''" and "uflags AND UF_NOWRITE = 0"
    and "upd = \<lparr>upd_memtype = Some mt, upd_op = DEVICE_WRITE, upd_filename = fn, upd_format = fmt\<rparr>"
  shows "\<exists>p1 st' d' p2 d''. do_op junk pgm p upd uflags ((st, d), fs) = Some (0, p1, (st', d'), fs)
    \<and> do_op junk pgm p1 (upd\<lparr>upd_op := DEVICE_VERIFY\<rparr>) vflags ((st', d'), fs) = Some (0, p2, (st', d''), fs)
    \<and> view d'' = view d'"
proof -
  define m1 where "m1 = p_mem p1 ! k"
  note again = fileio_again [OF assms(2,3,4), folded m1_def]
  have sz: "m_size m1 = m_size (p_mem p ! k)" using same_meta_fields [OF again(2)] by simp
  obtain st' d' where w: "do_op junk pgm p upd uflags ((st, d), fs) = Some (0, p1, (st', d'), fs)"
    "view d' = (view d)(m_desc m1 := overwrite m1 0 (min (nat n) (m_size m1)) (view d (m_desc m1)))"
    using do_write_stores [OF assms(1-5,7,8) m1_def] by blast
  have sm: "m_size m1 < 2 ^ 31" using again(1) by (simp add: bytewise_def)
  have "unat (of_nat j :: u64) = j" if "j < m_size m1" for j using that sm by (intro unat_small) simp
  then have ag: "agrees view d' m1 (min (nat n) (m_size m1))"
    by (simp add: agrees_def w(2) overwrite_def)
  have "\<exists>p2 d''. view d'' = view d' \<and> do_op junk pgm p1 (upd\<lparr>upd_op := DEVICE_VERIFY\<rparr>) vflags ((st', d'), fs)
      = Some (if agrees view d' (p_mem p1 ! k) (min (nat n) (m_size (p_mem p1 ! k))) then 0 else -1, p2, (st', d''), fs)"
    by (rule do_verify_exact [OF assms(1) again(6) again(1) [unfolded m1_def] again(7) [OF assms(5)] assms(5)]) (simp add: assms(8))
  with ag w(1) show ?thesis by (auto simp: m1_def)
qed


subsection \<open>Examples\<close>

definition two_bytes :: filesys where
  "two_bytes = \<lparr>files = (\<lambda>fn. if fn = ''x'' then Some ''AB'' else None), stdin_text = [], stdout_text = [], locked = (\<lambda>_. False)\<rparr>"

lemma read_two_bytes:
  "fileio some_ihexrec FIO_READ ''x'' FMT_RBIN (byte_part [0, 0, 0] [0, 0, 0]) ''eeprom'' (-1) two_bytes
     = Some (2, byte_part [0x41, 0x42, 0xFF] [1, 1, 0], two_bytes)"
proof -
  let ?p = "byte_part [0, 0, 0] [0, 0, 0]"
  have mems: "p_mem ?p ! 0 = avr_new_memtype\<lparr>m_desc := ''eeprom'', m_size := 3, buf := [0, 0, 0], tags := [0, 0, 0]\<rparr>"
    by (simp add: byte_part_mem)
  have hm: "\<not> hiaddr_memory (x\<lparr>m_desc := ''eeprom'', m_size := i, buf := b, tags := t\<rparr>)" for x i b t
    by (simp add: hiaddr_memory_def same_ignoring_case_def lower_def)
  have r: "replicate 3 (v :: u8) = [v, v, v]" "replicate 2 v = [v, v]" for v by (simp_all add: numeral_eq_Suc)
  have AB: "byte_of_chr CHR ''A'' = 0x41" "byte_of_chr CHR ''B'' = 0x42" by code_simp+
  have fio: "\<exists>fio. fileio_setparms FIO_READ ?p (p_mem ?p ! 0) = Some fio \<and> fio_op fio = FIO_READ"
    by (simp add: fileio_setparms_def)
  then obtain fio where fio: "fileio_setparms FIO_READ ?p (p_mem ?p ! 0) = Some fio" "fio_op fio = FIO_READ" by blast
  have w: "with_mem (byte_part b0 t0) 0 (avr_new_memtype\<lparr>m_desc := ''eeprom'', m_size := 3, buf := b, tags := t\<rparr>) = byte_part b t"
    if "length b = 3" for b t b0 t0
    using that by (simp add: with_mem_def byte_part_def avr_new_part_def)
  show ?thesis
    unfolding fileio_def byte_part_locate option.case fio(1)
    by (simp add: mems clear_mem_def fill_def patch_def r detect_format_def open_file_def fio(2) two_bytes_def
        fileio_format_def fileio_rbin_def write_file_def AB hm w TAG_ALLOCATED_def Let_def)
qed

definition write_two :: update where
  "write_two = \<lparr>upd_memtype = Some ''eeprom'', upd_op = DEVICE_WRITE, upd_filename = ''x'', upd_format = FMT_RBIN\<rparr>"

theorem do_op_verify_witness:
  "\<exists>p2 d'. do_op some_ihexrec store_pgm (byte_part [0, 0, 0] [0, 0, 0]) (write_two\<lparr>upd_op := DEVICE_VERIFY\<rparr>) 0
     ((safemode_init, counting), two_bytes) = Some (-1, p2, (safemode_init, d'), two_bytes)"
proof -
  have "\<not> agrees (\<lambda>d. d) counting (p_mem (byte_part [0x41, 0x42, 0xFF] [1, 1, 0]) ! 0) 2"
    by (auto simp: agrees_def byte_part_mem tagged_def TAG_ALLOCATED_def counting_def intro!: exI [of _ 0])
  moreover have "min (nat 2) (m_size (p_mem (byte_part [0, 0, 0] [0, 0, 0]) ! 0)) = 2" by (simp add: byte_part_mem)
  ultimately show ?thesis
    using do_op_verify [OF store_pgm_access byte_part_locate byte_part_bytewise read_two_bytes, of
        "write_two\<lparr>upd_op := DEVICE_VERIFY\<rparr>" counting 0 safemode_init] by (auto simp: write_two_def)
qed

theorem write_then_verify_witness:
  "\<exists>p1 sd p2 sd'. do_op some_ihexrec store_pgm (byte_part [0, 0, 0] [0, 0, 0]) write_two 0
       ((safemode_init, counting), two_bytes) = Some (0, p1, sd, two_bytes)
     \<and> do_op some_ihexrec store_pgm p1 (write_two\<lparr>upd_op := DEVICE_VERIFY\<rparr>) 0 (sd, two_bytes) = Some (0, p2, sd', two_bytes)"
  using write_then_verify [OF store_pgm_access byte_part_locate byte_part_bytewise read_two_bytes _ _ _ write_two_def, of 0 safemode_init counting 0]
  by auto

end
