(* ===== verification/Lists.thy ===== *)
theory Lists
  imports Prelude
begin

text \<open>
  The list package of avrdude, \<^verbatim>\<open>lists.c\<close>: doubly linked lists whose nodes come out of pools that
  are allocated as needed, with a chain of free nodes per list. The memory is a heap of nodes, pools
  and list structures. An address of a node is its pool and its index in it; a pool or a list
  structure is known by the number of the call of \<^verbatim>\<open>malloc\<close> that made it, so that no address comes
  back after it was freed. Reading or writing through \<^verbatim>\<open>NULL\<close>, through a freed address or behind the
  end of a pool, and the overflow of an \<^verbatim>\<open>int\<close>, have no result (\<open>None\<close>). Sizes are those of a
  machine with addresses of eight bytes. \<open>CHECK_MAGIC\<close> is off, as in the source.
\<close>

subsection \<open>Data\<close>

datatype lnode = Lnode (pool_of: nat) (slot_of: nat)

record 'd LISTNODE =
  ln_next :: "lnode option"
  ln_prev :: "lnode option"
  ln_data :: "'d option"

record NODEPOOL =
  chain_next :: "nat option"
  chain_prev :: "nat option"
  np_bytes :: int

record LIST =
  num :: int
  free_on_close :: bool
  poolsize :: u16
  n_ln_pool :: int
  top :: "lnode option"
  bottom :: "lnode option"
  next_ln :: "lnode option"
  np_top :: "nat option"
  np_bottom :: "nat option"

text \<open>
  \<open>mallocs\<close> counts the calls of \<^verbatim>\<open>malloc\<close>, and \<open>oom\<close> tells which of them find no memory.
\<close>

record 'd heap =
  nodes :: "lnode \<Rightarrow> 'd LISTNODE option"
  pools :: "nat \<Rightarrow> NODEPOOL option"
  lists :: "nat \<Rightarrow> LIST option"
  mallocs :: nat
  oom :: "nat \<Rightarrow> bool"

definition DEFAULT_POOLSIZE :: u16 where "DEFAULT_POOLSIZE = 512"

subsection \<open>Memory\<close>

definition get_node :: "'d heap \<Rightarrow> lnode option \<Rightarrow> 'd LISTNODE option" where
  "get_node h p = Option.bind p (nodes h)"

definition upd_node ::
  "'d heap \<Rightarrow> lnode option \<Rightarrow> ('d LISTNODE \<Rightarrow> 'd LISTNODE) \<Rightarrow> 'd heap option" where
  "upd_node h p f = do {
     a \<leftarrow> p;
     n \<leftarrow> nodes h a;
     Some (h\<lparr>nodes := (nodes h)(a \<mapsto> f n)\<rparr>)
   }"

definition upd_list :: "'d heap \<Rightarrow> nat \<Rightarrow> (LIST \<Rightarrow> LIST) \<Rightarrow> 'd heap option" where
  "upd_list h l f = do { L \<leftarrow> lists h l; Some (h\<lparr>lists := (lists h)(l \<mapsto> f L)\<rparr>) }"

definition upd_pool :: "'d heap \<Rightarrow> nat option \<Rightarrow> (NODEPOOL \<Rightarrow> NODEPOOL) \<Rightarrow> 'd heap option" where
  "upd_pool h p f = do {
     a \<leftarrow> p;
     P \<leftarrow> pools h a;
     Some (h\<lparr>pools := (pools h)(a \<mapsto> f P)\<rparr>)
   }"

text \<open>A store of the whole node \<^verbatim>\<open>ln[i]\<close> of a pool that may not be initialised.\<close>

definition put_ln :: "'d heap \<Rightarrow> nat \<Rightarrow> int \<Rightarrow> 'd LISTNODE \<Rightarrow> 'd heap option" where
  "put_ln h np i n = do {
     P \<leftarrow> pools h np;
     if 0 \<le> i \<and> 16 + 24 * (i + 1) \<le> np_bytes P
     then Some (h\<lparr>nodes := (nodes h)(Lnode np (nat i) \<mapsto> n)\<rparr>) else None
   }"

definition inc :: "int \<Rightarrow> int option" where
  "inc i = (if i < 2147483647 then Some (i + 1) else None)"

definition dec :: "int \<Rightarrow> int option" where
  "dec i = (if - 2147483648 < i then Some (i - 1) else None)"

text \<open>No block is larger than \<^verbatim>\<open>PTRDIFF_MAX\<close>.\<close>

definition malloc :: "'d heap \<Rightarrow> u64 \<Rightarrow> nat option \<times> 'd heap" where
  "malloc h bytes =
     (if oom h (mallocs h) \<or> 0x7FFFFFFFFFFFFFFF < bytes then None else Some (mallocs h),
      h\<lparr>mallocs := mallocs h + 1\<rparr>)"

subsection \<open>Pools and free nodes\<close>

partial_function (option) new_nodepool_loop ::
  "'d heap \<Rightarrow> nat \<Rightarrow> int \<Rightarrow> int \<Rightarrow> 'd heap option" where
  "new_nodepool_loop h np i n =
     (if i < n - 1 then do {
        h \<leftarrow> put_ln h np i \<lparr>ln_next = Some (Lnode np (nat (i + 1))),
               ln_prev = Some (Lnode np (nat (i - 1))), ln_data = None\<rparr>;
        new_nodepool_loop h np (i + 1) n
      } else Some h)"

definition new_nodepool :: "'d heap \<Rightarrow> nat \<Rightarrow> (nat option \<times> 'd heap) option" where
  "new_nodepool h l = do {
     L \<leftarrow> lists h l;
     let (r, h) = malloc h (word_of_int (sint (poolsize L)));
     case r of None \<Rightarrow> Some (None, h)
     | Some np \<Rightarrow> do {
         let h = h\<lparr>pools := (pools h)(np \<mapsto>
             \<lparr>chain_next = None, chain_prev = None, np_bytes = sint (poolsize L)\<rparr>)\<rparr>;
         h \<leftarrow> put_ln h np 0 \<lparr>ln_next = Some (Lnode np 1), ln_prev = None, ln_data = None\<rparr>;
         h \<leftarrow> new_nodepool_loop h np 1 (n_ln_pool L);
         h \<leftarrow> put_ln h np (n_ln_pool L - 1) \<lparr>ln_next = None,
                ln_prev = Some (Lnode np (nat (n_ln_pool L - 2))), ln_data = None\<rparr>;
         Some (Some np, h)
       }
   }"

text \<open>The first half of \<^verbatim>\<open>get_listnode\<close>: another pool, when there is no free node.\<close>

definition more_nodes :: "'d heap \<Rightarrow> nat \<Rightarrow> (bool \<times> 'd heap) option" where
  "more_nodes h l = do {
     (r, h) \<leftarrow> new_nodepool h l;
     case r of None \<Rightarrow> Some (False, h)
     | Some np \<Rightarrow> do {
         L \<leftarrow> lists h l;
         h \<leftarrow> (if np_top L = None then do {
                 h \<leftarrow> upd_list h l (\<lambda>L. L\<lparr>np_top := Some np, np_bottom := Some np\<rparr>);
                 upd_pool h (Some np) (\<lambda>P. P\<lparr>chain_next := None, chain_prev := None\<rparr>)
               } else do {
                 h \<leftarrow> upd_pool h (Some np) (\<lambda>P. P\<lparr>chain_next := None, chain_prev := np_bottom L\<rparr>);
                 h \<leftarrow> upd_pool h (np_bottom L) (\<lambda>P. P\<lparr>chain_next := Some np\<rparr>);
                 upd_list h l (\<lambda>L. L\<lparr>np_bottom := Some np\<rparr>)
               });
         h \<leftarrow> upd_list h l (\<lambda>L. L\<lparr>next_ln := Some (Lnode np 0)\<rparr>);
         Some (True, h)
       }
   }"

text \<open>The second half: the first free node, with its fields reset.\<close>

definition take_node :: "'d heap \<Rightarrow> nat \<Rightarrow> (lnode option \<times> 'd heap) option" where
  "take_node h l = do {
     L \<leftarrow> lists h l;
     n \<leftarrow> get_node h (next_ln L);
     h \<leftarrow> upd_list h l (\<lambda>K. K\<lparr>next_ln := ln_next n\<rparr>);
     h \<leftarrow> upd_node h (next_ln L) (\<lambda>n. n\<lparr>ln_next := None, ln_prev := None, ln_data := None\<rparr>);
     Some (next_ln L, h)
   }"

definition get_listnode :: "'d heap \<Rightarrow> nat \<Rightarrow> (lnode option \<times> 'd heap) option" where
  "get_listnode h l = do {
     L \<leftarrow> lists h l;
     (ok, h) \<leftarrow> (if next_ln L = None then more_nodes h l else Some (True, h));
     if \<not> ok then Some (None, h) else take_node h l
   }"

definition free_listnode :: "'d heap \<Rightarrow> nat \<Rightarrow> lnode option \<Rightarrow> 'd heap option" where
  "free_listnode h l ln = do {
     h \<leftarrow> upd_node h ln (\<lambda>n. n\<lparr>ln_prev := None, ln_data := None\<rparr>);
     L \<leftarrow> lists h l;
     h \<leftarrow> upd_node h ln (\<lambda>n. n\<lparr>ln_next := next_ln L\<rparr>);
     upd_list h l (\<lambda>L. L\<lparr>next_ln := ln\<rparr>)
   }"

subsection \<open>Creation and destruction\<close>

definition pool_bytes :: "int \<Rightarrow> u16" where
  "pool_bytes elements =
     (if elements = 0 then DEFAULT_POOLSIZE else ucast (word_of_int elements * 24 + 16 :: u64))"

definition pool_nodes :: "u16 \<Rightarrow> int" where
  "pool_nodes bytes = sint (ucast ((word_of_int (sint bytes) - 16 :: u64) div 24) :: u32)"

text \<open>\<open>junk\<close> is what the memory of a new list structure holds.\<close>

definition lcreat ::
  "LIST \<Rightarrow> 'd heap \<Rightarrow> nat option \<Rightarrow> int \<Rightarrow> (nat option \<times> 'd heap) option" where
  "lcreat junk h liststruct elements =
     (let (r, h) = (case liststruct of
          None \<Rightarrow> (case malloc h 56 of
              (None, h) \<Rightarrow> (None, h)
            | (Some l, h) \<Rightarrow> (Some l, h\<lparr>lists := (lists h)(l \<mapsto> junk\<lparr>free_on_close := True\<rparr>)\<rparr>))
        | Some a \<Rightarrow> (Some a, h))
      in case r of None \<Rightarrow> Some (None, h)
         | Some l \<Rightarrow> do {
             h \<leftarrow> (if liststruct = None then Some h
                  else upd_list h l (\<lambda>L. L\<lparr>free_on_close := False\<rparr>));
             h \<leftarrow> upd_list h l (\<lambda>L. L\<lparr>top := None, bottom := None, num := 0\<rparr>);
             h \<leftarrow> upd_list h l (\<lambda>L. L\<lparr>poolsize := pool_bytes elements\<rparr>);
             h \<leftarrow> upd_list h l (\<lambda>L. L\<lparr>n_ln_pool := pool_nodes (poolsize L)\<rparr>);
             L \<leftarrow> lists h l;
             if n_ln_pool L < 5
             then Some (None, if liststruct = None then h\<lparr>lists := (lists h)(l := None)\<rparr> else h)
             else do {
               h \<leftarrow> upd_list h l (\<lambda>L. L\<lparr>np_top := None, np_bottom := None, next_ln := None\<rparr>);
               Some (Some l, h)
             }
           })"

text \<open>\<^verbatim>\<open>free\<close> of a pool, which takes its nodes with it. A second \<^verbatim>\<open>free\<close> is undefined.\<close>

definition free_pool :: "'d heap \<Rightarrow> nat \<Rightarrow> 'd heap option" where
  "free_pool h p = (if pools h p = None then None
     else Some (h\<lparr>pools := (pools h)(p := None),
                  nodes := (\<lambda>a. if pool_of a = p then None else nodes h a)\<rparr>))"

partial_function (option) ldestroy_loop :: "'d heap \<Rightarrow> nat option \<Rightarrow> 'd heap option" where
  "ldestroy_loop h p1 = (case p1 of None \<Rightarrow> Some h
     | Some p \<Rightarrow> do {
         P \<leftarrow> pools h p;
         h \<leftarrow> free_pool h p;
         ldestroy_loop h (chain_next P)
       })"

definition ldestroy :: "'d heap \<Rightarrow> nat \<Rightarrow> 'd heap option" where
  "ldestroy h l = do {
     L \<leftarrow> lists h l;
     h \<leftarrow> ldestroy_loop h (np_top L);
     Some (if free_on_close L then h\<lparr>lists := (lists h)(l := None)\<rparr> else h)
   }"

text \<open>The callback works on a state of the caller's own, \<open>s\<close>.\<close>

partial_function (option) ldestroy_cb_loop ::
  "'d heap \<Rightarrow> ('d option \<Rightarrow> 's \<Rightarrow> 's option) \<Rightarrow> 's \<Rightarrow> lnode option \<Rightarrow> 's option" where
  "ldestroy_cb_loop h ucleanup s ln = (case ln of None \<Rightarrow> Some s
     | Some a \<Rightarrow> do {
         n \<leftarrow> nodes h a;
         s \<leftarrow> ucleanup (ln_data n) s;
         ldestroy_cb_loop h ucleanup s (ln_next n)
       })"

definition ldestroy_cb ::
  "'d heap \<Rightarrow> nat \<Rightarrow> ('d option \<Rightarrow> 's \<Rightarrow> 's option) \<Rightarrow> 's \<Rightarrow> ('s \<times> 'd heap) option" where
  "ldestroy_cb h l ucleanup s = do {
     L \<leftarrow> lists h l;
     s \<leftarrow> ldestroy_cb_loop h ucleanup s (top L);
     h \<leftarrow> ldestroy h l;
     Some (s, h)
   }"

subsection \<open>Adding\<close>

definition ladd :: "'d heap \<Rightarrow> nat \<Rightarrow> 'd option \<Rightarrow> (int \<times> 'd heap) option" where
  "ladd h l p = do {
     (lnptr, h) \<leftarrow> get_listnode h l;
     if lnptr = None then Some (- 1, h)
     else do {
       h \<leftarrow> upd_node h lnptr (\<lambda>n. n\<lparr>ln_data := p\<rparr>);
       L \<leftarrow> lists h l;
       h \<leftarrow> (if top L = None then do {
               h \<leftarrow> upd_list h l (\<lambda>L. L\<lparr>top := lnptr, bottom := lnptr\<rparr>);
               upd_node h lnptr (\<lambda>n. n\<lparr>ln_next := None, ln_prev := None\<rparr>)
             } else do {
               h \<leftarrow> upd_node h lnptr (\<lambda>n. n\<lparr>ln_prev := bottom L, ln_next := None\<rparr>);
               h \<leftarrow> upd_node h (bottom L) (\<lambda>n. n\<lparr>ln_next := lnptr\<rparr>);
               upd_list h l (\<lambda>L. L\<lparr>bottom := lnptr\<rparr>)
             });
       L \<leftarrow> lists h l;
       k \<leftarrow> inc (num L);
       h \<leftarrow> upd_list h l (\<lambda>L. L\<lparr>num := k\<rparr>);
       Some (0, h)
     }
   }"

definition insert_ln ::
  "'d heap \<Rightarrow> nat \<Rightarrow> lnode option \<Rightarrow> 'd option \<Rightarrow> (int \<times> 'd heap) option" where
  "insert_ln h l ln data_ptr =
     (if ln = None then do { (_, h) \<leftarrow> ladd h l data_ptr; Some (0, h) }
      else do {
        (lnptr, h) \<leftarrow> get_listnode h l;
        if lnptr = None then Some (- 1, h)
        else do {
          h \<leftarrow> upd_node h lnptr (\<lambda>n. n\<lparr>ln_data := data_ptr\<rparr>);
          L \<leftarrow> lists h l;
          h \<leftarrow> (if ln = top L then do {
                  h \<leftarrow> upd_node h lnptr (\<lambda>n. n\<lparr>ln_next := ln, ln_prev := None\<rparr>);
                  h \<leftarrow> upd_node h ln (\<lambda>n. n\<lparr>ln_prev := lnptr\<rparr>);
                  upd_list h l (\<lambda>L. L\<lparr>top := lnptr\<rparr>)
                } else do {
                  n \<leftarrow> get_node h ln;
                  h \<leftarrow> upd_node h lnptr (\<lambda>m. m\<lparr>ln_next := ln, ln_prev := ln_prev n\<rparr>);
                  h \<leftarrow> upd_node h ln (\<lambda>n. n\<lparr>ln_prev := lnptr\<rparr>);
                  m \<leftarrow> get_node h lnptr;
                  upd_node h (ln_prev m) (\<lambda>n. n\<lparr>ln_next := lnptr\<rparr>)
                });
          L \<leftarrow> lists h l;
          k \<leftarrow> inc (num L);
          h \<leftarrow> upd_list h l (\<lambda>L. L\<lparr>num := k\<rparr>);
          Some (0, h)
        }
      })"

text \<open>
  \<open>firstdup\<close> is \<^verbatim>\<open>NULL\<close> or what the variable holds that it points to.
\<close>

partial_function (option) laddo_loop ::
  "'d heap \<Rightarrow> nat \<Rightarrow> 'd option \<Rightarrow> ('d option \<Rightarrow> 'd option \<Rightarrow> int) \<Rightarrow> lnode option option \<Rightarrow> int \<Rightarrow>
   lnode option \<Rightarrow> (int \<times> lnode option option \<times> 'd heap) option" where
  "laddo_loop h l p cmp firstdup dup ln =
     (if ln \<noteq> None then do {
        n \<leftarrow> get_node h ln;
        let c = cmp p (ln_data n);
        let dup = (if c = 0 then 1 else dup);
        let firstdup = (if c = 0 \<and> firstdup \<noteq> None then Some ln else firstdup);
        if c < 0 then do {
          (_, h) \<leftarrow> insert_ln h l ln p;
          Some (dup, firstdup, h)
        } else laddo_loop h l p cmp firstdup dup (ln_next n)
      } else do {
        (_, h) \<leftarrow> ladd h l p;
        Some (dup, firstdup, h)
      })"

definition laddo ::
  "'d heap \<Rightarrow> nat \<Rightarrow> 'd option \<Rightarrow> ('d option \<Rightarrow> 'd option \<Rightarrow> int) \<Rightarrow> lnode option option \<Rightarrow>
   (int \<times> lnode option option \<times> 'd heap) option" where
  "laddo h l p cmp firstdup = do { L \<leftarrow> lists h l; laddo_loop h l p cmp firstdup 0 (top L) }"

partial_function (option) laddu_loop ::
  "'d heap \<Rightarrow> nat \<Rightarrow> 'd option \<Rightarrow> ('d option \<Rightarrow> 'd option \<Rightarrow> int) \<Rightarrow> lnode option \<Rightarrow>
   (int \<times> 'd heap) option" where
  "laddu_loop h l p cmp ln =
     (if ln \<noteq> None then do {
        n \<leftarrow> get_node h ln;
        let c = cmp p (ln_data n);
        if c = 0 then Some (0, h)
        else if c < 0 then do { (_, h) \<leftarrow> insert_ln h l ln p; Some (1, h) }
        else laddu_loop h l p cmp (ln_next n)
      } else do { (_, h) \<leftarrow> ladd h l p; Some (1, h) })"

definition laddu ::
  "'d heap \<Rightarrow> nat \<Rightarrow> 'd option \<Rightarrow> ('d option \<Rightarrow> 'd option \<Rightarrow> int) \<Rightarrow> (int \<times> 'd heap) option" where
  "laddu h l p cmp = do { L \<leftarrow> lists h l; laddu_loop h l p cmp (top L) }"

subsection \<open>Walking\<close>

definition lfirst :: "'d heap \<Rightarrow> nat \<Rightarrow> lnode option option" where
  "lfirst h l = map_option top (lists h l)"

definition llast :: "'d heap \<Rightarrow> nat \<Rightarrow> lnode option option" where
  "llast h l = map_option bottom (lists h l)"

definition lnext :: "'d heap \<Rightarrow> lnode option \<Rightarrow> lnode option option" where
  "lnext h ln = map_option ln_next (get_node h ln)"

definition lprev :: "'d heap \<Rightarrow> lnode option \<Rightarrow> lnode option option" where
  "lprev h ln = map_option ln_prev (get_node h ln)"

definition ldata :: "'d heap \<Rightarrow> lnode option \<Rightarrow> 'd option option" where
  "ldata h ln = map_option ln_data (get_node h ln)"

definition lsize :: "'d heap \<Rightarrow> nat \<Rightarrow> int option" where
  "lsize h l = map_option num (lists h l)"

definition lget :: "'d heap \<Rightarrow> nat \<Rightarrow> 'd option option" where
  "lget h l = do {
     L \<leftarrow> lists h l;
     if bottom L = None then Some None else map_option ln_data (get_node h (bottom L))
   }"

text \<open>
  The loop \<^verbatim>\<open>while (ln && (i!=n))\<close> of \<^verbatim>\<open>lget_n\<close>, \<^verbatim>\<open>lins_n\<close> and \<^verbatim>\<open>lrmv_n\<close>; \<^verbatim>\<open>i\<close> is an \<^verbatim>\<open>int\<close>, and \<^verbatim>\<open>n\<close> is
  unsigned.
\<close>

partial_function (option) nth_loop ::
  "'d heap \<Rightarrow> lnode option \<Rightarrow> int \<Rightarrow> u32 \<Rightarrow> lnode option option" where
  "nth_loop h ln i n =
     (if ln \<noteq> None \<and> word_of_int i \<noteq> n then do {
        m \<leftarrow> get_node h ln;
        i \<leftarrow> inc i;
        nth_loop h (ln_next m) i n
      } else Some ln)"

definition lget_n :: "'d heap \<Rightarrow> nat \<Rightarrow> u32 \<Rightarrow> 'd option option" where
  "lget_n h l n = do {
     k \<leftarrow> lsize h l;
     if n < 1 \<or> word_of_int k < n then Some None
     else do {
       L \<leftarrow> lists h l;
       ln \<leftarrow> nth_loop h (top L) 1 n;
       if ln \<noteq> None then map_option ln_data (get_node h ln) else Some None
     }
   }"

partial_function (option) lget_ln_loop ::
  "'d heap \<Rightarrow> lnode option \<Rightarrow> int \<Rightarrow> u32 \<Rightarrow> lnode option option" where
  "lget_ln_loop h ln i n =
     (if word_of_int i \<noteq> n then do {
        m \<leftarrow> get_node h ln;
        i \<leftarrow> inc i;
        lget_ln_loop h (ln_next m) i n
      } else Some ln)"

definition lget_ln :: "'d heap \<Rightarrow> nat \<Rightarrow> u32 \<Rightarrow> lnode option option" where
  "lget_ln h l n = do {
     k \<leftarrow> lsize h l;
     if n < 1 \<or> word_of_int k < n then Some None
     else do { L \<leftarrow> lists h l; lget_ln_loop h (top L) 1 n }
   }"

partial_function (option) lsrch_loop ::
  "'d heap \<Rightarrow> 'd option \<Rightarrow> ('d option \<Rightarrow> 'd option \<Rightarrow> int) \<Rightarrow> lnode option \<Rightarrow> 'd option option" where
  "lsrch_loop h p cmp ln =
     (if ln \<noteq> None then do {
        n \<leftarrow> get_node h ln;
        if cmp p (ln_data n) = 0 then Some (ln_data n) else lsrch_loop h p cmp (ln_next n)
      } else Some None)"

definition lsrch ::
  "'d heap \<Rightarrow> nat \<Rightarrow> 'd option \<Rightarrow> ('d option \<Rightarrow> 'd option \<Rightarrow> int) \<Rightarrow> 'd option option" where
  "lsrch h l p cmp = do { L \<leftarrow> lists h l; lsrch_loop h p cmp (top L) }"

subsection \<open>Inserting\<close>

definition lins_n :: "'d heap \<Rightarrow> nat \<Rightarrow> 'd option \<Rightarrow> u32 \<Rightarrow> (int \<times> 'd heap) option" where
  "lins_n h l data_ptr n = do {
     L \<leftarrow> lists h l;
     k \<leftarrow> (if n < 1 then Some 0 else inc (num L));
     if n < 1 \<or> word_of_int k < n then Some (- 1, h)
     else if num L = 0 then ladd h l data_ptr
     else do {
       ln \<leftarrow> nth_loop h (top L) 1 n;
       if ln = None then Some (- 1, h) else insert_ln h l ln data_ptr
     }
   }"

text \<open>The loop of \<^verbatim>\<open>lins_ln\<close> and \<^verbatim>\<open>lrmv_ln\<close> that looks for the node in the list.\<close>

partial_function (option) find_loop ::
  "'d heap \<Rightarrow> lnode option \<Rightarrow> lnode option \<Rightarrow> lnode option option" where
  "find_loop h ln ln_ptr =
     (if ln_ptr \<noteq> None \<and> ln_ptr \<noteq> ln then do {
        m \<leftarrow> get_node h ln_ptr;
        find_loop h ln (ln_next m)
      } else Some ln_ptr)"

definition lins_ln ::
  "'d heap \<Rightarrow> nat \<Rightarrow> lnode option \<Rightarrow> 'd option \<Rightarrow> (int \<times> 'd heap) option" where
  "lins_ln h l lnid data_ptr = do {
     L \<leftarrow> lists h l;
     ln_ptr \<leftarrow> find_loop h lnid (top L);
     if ln_ptr = None then Some (- 1, h) else insert_ln h l lnid data_ptr
   }"

subsection \<open>Removing\<close>

definition remove_ln ::
  "'d heap \<Rightarrow> nat \<Rightarrow> lnode option \<Rightarrow> ('d option \<times> 'd heap) option" where
  "remove_ln h l ln = do {
     L \<leftarrow> lists h l;
     n \<leftarrow> get_node h ln;
     h \<leftarrow> (if ln = top L then do {
             h \<leftarrow> upd_list h l (\<lambda>L. L\<lparr>top := ln_next n\<rparr>);
             if ln_next n \<noteq> None then upd_node h (ln_next n) (\<lambda>m. m\<lparr>ln_prev := None\<rparr>)
             else upd_list h l (\<lambda>L. L\<lparr>bottom := None\<rparr>)
           } else if ln = bottom L then do {
             h \<leftarrow> upd_list h l (\<lambda>L. L\<lparr>bottom := ln_prev n\<rparr>);
             if ln_prev n \<noteq> None then upd_node h (ln_prev n) (\<lambda>m. m\<lparr>ln_next := None\<rparr>)
             else Some h
           } else do {
             h \<leftarrow> upd_node h (ln_prev n) (\<lambda>m. m\<lparr>ln_next := ln_next n\<rparr>);
             n \<leftarrow> get_node h ln;
             upd_node h (ln_next n) (\<lambda>m. m\<lparr>ln_prev := ln_prev n\<rparr>)
           });
     n \<leftarrow> get_node h ln;
     h \<leftarrow> free_listnode h l ln;
     L \<leftarrow> lists h l;
     k \<leftarrow> dec (num L);
     h \<leftarrow> upd_list h l (\<lambda>L. L\<lparr>num := k\<rparr>);
     Some (ln_data n, h)
   }"

partial_function (option) lrmv_d_loop ::
  "'d heap \<Rightarrow> 'd option \<Rightarrow> int \<Rightarrow> lnode option \<Rightarrow> lnode option option" where
  "lrmv_d_loop h data_ptr i ln =
     (if ln = None then Some None
      else do {
        n \<leftarrow> get_node h ln;
        if ln_data n = data_ptr then Some ln
        else do {
          i \<leftarrow> inc i;
          lrmv_d_loop h data_ptr i (ln_next n)
        }
      })"

definition lrmv_d :: "'d heap \<Rightarrow> nat \<Rightarrow> 'd option \<Rightarrow> ('d option \<times> 'd heap) option" where
  "lrmv_d h l data_ptr = do {
     L \<leftarrow> lists h l;
     ln \<leftarrow> lrmv_d_loop h data_ptr 0 (top L);
     if ln = None then Some (None, h) else remove_ln h l ln
   }"

definition lrmv_ln :: "'d heap \<Rightarrow> nat \<Rightarrow> lnode option \<Rightarrow> ('d option \<times> 'd heap) option" where
  "lrmv_ln h l lnid = do {
     L \<leftarrow> lists h l;
     p \<leftarrow> find_loop h lnid (top L);
     if p = None then Some (None, h) else remove_ln h l p
   }"

definition lrmv_n :: "'d heap \<Rightarrow> nat \<Rightarrow> u32 \<Rightarrow> ('d option \<times> 'd heap) option" where
  "lrmv_n h l n = do {
     L \<leftarrow> lists h l;
     if n < 1 \<or> word_of_int (num L) < n then Some (None, h)
     else do {
       ln \<leftarrow> nth_loop h (top L) 1 n;
       if ln \<noteq> None then remove_ln h l ln else Some (None, h)
     }
   }"

definition lrmv :: "'d heap \<Rightarrow> nat \<Rightarrow> ('d option \<times> 'd heap) option" where
  "lrmv h l = do {
     L \<leftarrow> lists h l;
     if bottom L = None then Some (None, h) else remove_ln h l (bottom L)
   }"

partial_function (option) lcat_loop :: "'d heap \<Rightarrow> nat \<Rightarrow> nat \<Rightarrow> 'd heap option" where
  "lcat_loop h lid1 lid2 = do {
     k \<leftarrow> lsize h lid2;
     if k \<noteq> 0 then do {
       (d, h) \<leftarrow> lrmv_n h lid2 1;
       (_, h) \<leftarrow> ladd h lid1 d;
       lcat_loop h lid1 lid2
     } else Some h
   }"

definition lcat :: "'d heap \<Rightarrow> nat \<Rightarrow> nat \<Rightarrow> (nat \<times> 'd heap) option" where
  "lcat h lid1 lid2 = do { h \<leftarrow> lcat_loop h lid1 lid2; Some (lid1, h) }"

subsection \<open>Sorting\<close>

text \<open>One pass of \<^verbatim>\<open>lsort\<close>, and the passes until one changes nothing.\<close>

partial_function (option) lsort_pass ::
  "'d heap \<Rightarrow> ('d option \<Rightarrow> 'd option \<Rightarrow> int) \<Rightarrow> bool \<Rightarrow> lnode option \<Rightarrow> (bool \<times> 'd heap) option" where
  "lsort_pass h cmp unsorted lt =
     (if lt = None then Some (unsorted, h)
      else do {
        t \<leftarrow> get_node h lt;
        let ln = ln_next t;
        if ln = None then lsort_pass h cmp unsorted ln
        else do {
          n \<leftarrow> get_node h ln;
          if 0 < cmp (ln_data t) (ln_data n) then do {
            h \<leftarrow> upd_node h ln (\<lambda>m. m\<lparr>ln_data := ln_data t\<rparr>);
            h \<leftarrow> upd_node h lt (\<lambda>m. m\<lparr>ln_data := ln_data n\<rparr>);
            lsort_pass h cmp True ln
          } else lsort_pass h cmp unsorted ln
        }
      })"

partial_function (option) lsort_loop ::
  "'d heap \<Rightarrow> nat \<Rightarrow> ('d option \<Rightarrow> 'd option \<Rightarrow> int) \<Rightarrow> 'd heap option" where
  "lsort_loop h l cmp = do {
     L \<leftarrow> lists h l;
     (unsorted, h) \<leftarrow> lsort_pass h cmp False (top L);
     if unsorted then lsort_loop h l cmp else Some h
   }"

definition lsort :: "'d heap \<Rightarrow> nat \<Rightarrow> ('d option \<Rightarrow> 'd option \<Rightarrow> int) \<Rightarrow> 'd heap option" where
  "lsort h l cmp = lsort_loop h l cmp"

subsection \<open>Stacks and queues\<close>

definition PUSH :: "'d heap \<Rightarrow> nat \<Rightarrow> 'd option \<Rightarrow> (int \<times> 'd heap) option" where
  "PUSH h s d = lins_n h s d 1"

definition POP :: "'d heap \<Rightarrow> nat \<Rightarrow> ('d option \<times> 'd heap) option" where
  "POP h s = lrmv_n h s 1"

definition LOOKSTACK :: "'d heap \<Rightarrow> nat \<Rightarrow> 'd option option" where
  "LOOKSTACK h s = lget_n h s 1"

definition ENQUEUE :: "'d heap \<Rightarrow> nat \<Rightarrow> 'd option \<Rightarrow> (int \<times> 'd heap) option" where
  "ENQUEUE h q d = lins_n h q d 1"

definition DEQUEUE :: "'d heap \<Rightarrow> nat \<Rightarrow> ('d option \<times> 'd heap) option" where
  "DEQUEUE h q = lrmv h q"

definition REQUEUE :: "'d heap \<Rightarrow> nat \<Rightarrow> 'd option \<Rightarrow> (int \<times> 'd heap) option" where
  "REQUEUE h q d = ladd h q d"

definition LOOKQUEUE :: "'d heap \<Rightarrow> nat \<Rightarrow> 'd option option" where
  "LOOKQUEUE h q = lget h q"

definition QUEUELEN :: "'d heap \<Rightarrow> nat \<Rightarrow> int option" where
  "QUEUELEN h q = lsize h q"

end
