(* ===== verification/ListsRep.thy ===== *)
theory ListsRep
  imports Lists "HOL-Library.Sorting_Algorithms"
begin

text \<open>
  What a list of \<^verbatim>\<open>lists.c\<close> represents: \<open>list_rep h l xs fs ps\<close> says that the list structure \<open>l\<close> in
  the heap \<open>h\<close> has the nodes and data \<open>xs\<close>, the free nodes \<open>fs\<close> and the pools \<open>ps\<close>, and that its
  pointers are those of a doubly linked list. Every operation is proved to have a result, to keep
  this for the lists that it works on, and to leave all other lists alone (\<open>others\<close>).
\<close>

subsection \<open>The order of addresses\<close>

instantiation lnode :: linorder
begin

definition less_eq_lnode :: "lnode \<Rightarrow> lnode \<Rightarrow> bool" where
  "less_eq_lnode a b =
     (pool_of a < pool_of b \<or> pool_of a = pool_of b \<and> slot_of a \<le> slot_of b)"

definition less_lnode :: "lnode \<Rightarrow> lnode \<Rightarrow> bool" where
  "less_lnode a b =
     (pool_of a < pool_of b \<or> pool_of a = pool_of b \<and> slot_of a < slot_of b)"

instance
  by standard (auto simp: less_eq_lnode_def less_lnode_def lnode.expand)

end

definition slots :: "nat set \<Rightarrow> int \<Rightarrow> lnode set" where
  "slots ps n = {a. pool_of a \<in> ps \<and> int (slot_of a) < n}"

definition fresh_slots :: "nat \<Rightarrow> int \<Rightarrow> lnode list" where
  "fresh_slots np n = map (Lnode np) [0..<nat n]"

lemma fresh_slots_ascending: "sorted_wrt (<) (fresh_slots np n)"
  by (simp add: fresh_slots_def sorted_wrt_map less_lnode_def sorted_wrt_upt)

lemma distinct_fresh_slots [simp]: "distinct (fresh_slots np n)"
  using fresh_slots_ascending by (simp add: strict_sorted_iff)

lemma set_fresh_slots [simp]: "set (fresh_slots np n) = slots {np} n"
  by (auto simp: fresh_slots_def slots_def image_iff) (metis lnode.collapse nat_less_iff atLeastLessThan_iff le0 linorder_not_less of_nat_0_le_iff zless_nat_eq_int_zless)

lemma slots_insert: "slots (insert p ps) n = slots {p} n \<union> slots ps n"
  by (auto simp: slots_def)

subsection \<open>Segments\<close>

type_synonym 'd cells = "(lnode \<times> 'd option) list"

definition hdp :: "'d cells \<Rightarrow> lnode option \<Rightarrow> lnode option" where
  "hdp xs nx = (case xs of [] \<Rightarrow> nx | (a, d) # _ \<Rightarrow> Some a)"

definition lastp :: "lnode option \<Rightarrow> 'd cells \<Rightarrow> lnode option" where
  "lastp pr xs = (if xs = [] then pr else Some (fst (last xs)))"

lemma hdp_simps [simp]: "hdp [] nx = nx" "hdp ((a, d) # xs) nx = Some a"
  by (simp_all add: hdp_def)

lemma hdp_append: "hdp (xs @ ys) nx = hdp xs (hdp ys nx)"
  by (cases xs) (auto simp: hdp_def)

lemma hdp_None [simp]: "hdp xs None = None \<longleftrightarrow> xs = []"
  by (cases xs) (auto simp: hdp_def)

lemma lastp_simps [simp]:
  "lastp pr [] = pr" "lastp pr ((a, d) # xs) = lastp (Some a) xs" "lastp pr (xs @ [(a, d)]) = Some a"
  by (auto simp: lastp_def)

lemma lastp_append: "lastp pr (xs @ ys) = lastp (lastp pr xs) ys"
  by (auto simp: lastp_def)

lemma lastp_None [simp]: "lastp None xs = None \<longleftrightarrow> xs = []"
  by (simp add: lastp_def)

lemma hdp_neq [simp]:
  "b \<notin> fst ` set xs \<Longrightarrow> nx \<noteq> Some b \<Longrightarrow> hdp xs nx \<noteq> Some b"
  "b \<notin> fst ` set xs \<Longrightarrow> nx \<noteq> Some b \<Longrightarrow> Some b \<noteq> hdp xs nx"
  by (cases xs; auto simp: hdp_def)+

lemma lastp_neq [simp]:
  "b \<notin> fst ` set xs \<Longrightarrow> pr \<noteq> Some b \<Longrightarrow> lastp pr xs \<noteq> Some b"
  "b \<notin> fst ` set xs \<Longrightarrow> pr \<noteq> Some b \<Longrightarrow> Some b \<noteq> lastp pr xs"
  by (cases xs rule: rev_cases; auto simp: lastp_def)+

fun seg :: "(lnode \<Rightarrow> 'd LISTNODE option) \<Rightarrow> lnode option \<Rightarrow> 'd cells \<Rightarrow> lnode option \<Rightarrow> bool" where
  "seg N pr [] nx = True"
| "seg N pr ((a, d) # xs) nx =
     (N a = Some \<lparr>ln_next = hdp xs nx, ln_prev = pr, ln_data = d\<rparr> \<and> seg N (Some a) xs nx)"

lemma seg_append [simp]:
  "seg N pr (xs @ ys) nx \<longleftrightarrow> seg N pr xs (hdp ys nx) \<and> seg N (lastp pr xs) ys nx"
  by (induction N pr xs nx rule: seg.induct) (auto simp: hdp_append)

lemma seg_cong:
  "(\<And>a. a \<in> fst ` set xs \<Longrightarrow> N' a = N a) \<Longrightarrow> seg N' pr xs nx = seg N pr xs nx"
  by (induction N pr xs nx rule: seg.induct) auto

lemma seg_upd [simp]: "a \<notin> fst ` set xs \<Longrightarrow> seg (N(a := v)) pr xs nx = seg N pr xs nx"
  by (rule seg_cong) auto

fun fchain :: "(lnode \<Rightarrow> 'd LISTNODE option) \<Rightarrow> lnode option \<Rightarrow> lnode list \<Rightarrow> bool" where
  "fchain N p [] = (p = None)"
| "fchain N p (a # fs) =
     (p = Some a \<and> (case N a of None \<Rightarrow> False | Some n \<Rightarrow> fchain N (ln_next n) fs))"

lemma fchain_cong:
  "(\<And>a. a \<in> set fs \<Longrightarrow> N' a = N a) \<Longrightarrow> fchain N' p fs = fchain N p fs"
  by (induction N p fs rule: fchain.induct) (auto split: option.splits)

lemma fchain_upd [simp]: "a \<notin> set fs \<Longrightarrow> fchain (N(a := v)) p fs = fchain N p fs"
  by (rule fchain_cong) auto

lemma fchain_None [simp]: "fchain N None fs \<longleftrightarrow> fs = []"
  by (cases fs) auto

lemma fchain_SomeE:
  assumes "fchain N p fs" "p \<noteq> None"
  obtains a gs n where "p = Some a" "fs = a # gs" "N a = Some n" "fchain N (ln_next n) gs"
  using assms by (cases fs) (auto split: option.splits)

definition lasto :: "nat option \<Rightarrow> nat list \<Rightarrow> nat option" where
  "lasto pr ps = (if ps = [] then pr else Some (last ps))"

definition hdo :: "nat list \<Rightarrow> nat option" where
  "hdo ps = (case ps of [] \<Rightarrow> None | p # _ \<Rightarrow> Some p)"

fun pchain :: "(nat \<Rightarrow> NODEPOOL option) \<Rightarrow> int \<Rightarrow> nat option \<Rightarrow> nat list \<Rightarrow> bool" where
  "pchain P B pr [] = True"
| "pchain P B pr (p # ps) =
     (P p = Some \<lparr>chain_next = hdo ps, chain_prev = pr, np_bytes = B\<rparr> \<and> pchain P B (Some p) ps)"

lemma pchain_cong:
  "(\<And>p. p \<in> set ps \<Longrightarrow> P' p = P p) \<Longrightarrow> pchain P' B pr ps = pchain P B pr ps"
  by (induction P B pr ps rule: pchain.induct) auto

lemma pchain_upd [simp]: "p \<notin> set ps \<Longrightarrow> pchain (P(p := v)) B pr ps = pchain P B pr ps"
  by (rule pchain_cong) auto

lemma pchain_alloc: "pchain P B pr ps \<Longrightarrow> p \<in> set ps \<Longrightarrow> P p = Some (the (P p))"
  by (induction P B pr ps rule: pchain.induct) auto

lemma hdo_simps [simp]: "hdo [] = None" "hdo (p # ps) = Some p"
  by (simp_all add: hdo_def)

lemma hdo_None [simp]: "hdo ps = None \<longleftrightarrow> ps = []"
  by (simp add: hdo_def split: list.split)

lemma lasto_simps [simp]:
  "lasto pr [] = pr" "lasto pr (p # ps) = lasto (Some p) ps" "lasto pr (ps @ [p]) = Some p"
  by (auto simp: lasto_def)

text \<open>A new pool at the end of the chain.\<close>

lemma pchain_snoc:
  assumes "pchain P B pr (ps @ [q])" "distinct (ps @ [q])" "np \<notin> set (ps @ [q])"
    "P np = Some \<lparr>chain_next = None, chain_prev = Some q, np_bytes = B\<rparr>"
  shows "pchain (P(q \<mapsto> (the (P q))\<lparr>chain_next := Some np\<rparr>)) B pr (ps @ [q, np])"
  using assms
proof (induction ps arbitrary: pr)
  case (Cons p ps)
  then show ?case by (cases ps) auto
qed auto

subsection \<open>The representation\<close>

definition pool_ok :: "LIST \<Rightarrow> bool" where
  "pool_ok L \<longleftrightarrow> 5 \<le> n_ln_pool L \<and> 16 + 24 * n_ln_pool L \<le> sint (poolsize L)"

lemma pool_ok_upd [simp]:
  "pool_ok (L\<lparr>num := k\<rparr>) = pool_ok L" "pool_ok (L\<lparr>top := p\<rparr>) = pool_ok L"
  "pool_ok (L\<lparr>bottom := p\<rparr>) = pool_ok L" "pool_ok (L\<lparr>next_ln := p\<rparr>) = pool_ok L"
  by (simp_all add: pool_ok_def)

text \<open>\<open>ds\<close> are nodes that were taken out of the chain of free nodes and are not in the list yet.\<close>

definition list_ok ::
  "'d heap \<Rightarrow> LIST \<Rightarrow> 'd cells \<Rightarrow> lnode list \<Rightarrow> lnode list \<Rightarrow> nat list \<Rightarrow> bool" where
  "list_ok h L xs fs ds ps \<longleftrightarrow>
     num L = int (length xs) \<and> length xs \<le> 2147483647 \<and>
     top L = hdp xs None \<and> bottom L = lastp None xs \<and> seg (nodes h) None xs None \<and>
     fchain (nodes h) (next_ln L) fs \<and>
     np_top L = hdo ps \<and> np_bottom L = lasto None ps \<and>
     pchain (pools h) (sint (poolsize L)) None ps \<and>
     distinct (map fst xs @ fs @ ds) \<and> distinct ps \<and> (\<forall>p \<in> set ps. p < mallocs h) \<and>
     fst ` set xs \<union> set fs \<union> set ds = slots (set ps) (n_ln_pool L) \<and> pool_ok L"

lemma list_okD:
  assumes "list_ok h L xs fs ds ps"
  shows "num L = int (length xs)" "length xs \<le> 2147483647" "top L = hdp xs None"
    "bottom L = lastp None xs" "seg (nodes h) None xs None" "fchain (nodes h) (next_ln L) fs"
    "distinct (map fst xs @ fs @ ds)" "set (map fst xs @ fs @ ds) = slots (set ps) (n_ln_pool L)"
    "\<forall>x \<in> set xs. pool_of (fst x) \<in> set ps"
  using assms by (auto simp: list_ok_def slots_def)

definition list_rep ::
  "'d heap \<Rightarrow> nat \<Rightarrow> 'd cells \<Rightarrow> lnode list \<Rightarrow> nat list \<Rightarrow> bool" where
  "list_rep h l xs fs ps = (case lists h l of None \<Rightarrow> False | Some L \<Rightarrow> list_ok h L xs fs [] ps)"

definition others :: "nat \<Rightarrow> nat list \<Rightarrow> nat list \<Rightarrow> 'd heap \<Rightarrow> 'd heap \<Rightarrow> bool" where
  "others l ps ps' h h' \<longleftrightarrow>
     (\<forall>k. k \<noteq> l \<longrightarrow> lists h' k = lists h k) \<and>
     (\<forall>p. p \<notin> set ps \<and> p < mallocs h \<longrightarrow> pools h' p = pools h p) \<and>
     (\<forall>a. pool_of a \<notin> set ps \<and> pool_of a < mallocs h \<longrightarrow> nodes h' a = nodes h a) \<and>
     mallocs h \<le> mallocs h' \<and> oom h' = oom h \<and>
     (\<forall>p \<in> set ps'. p \<in> set ps \<or> mallocs h \<le> p) \<and> set ps \<subseteq> set ps'"

lemma others_refl [intro, simp]: "others l ps ps h h"
  by (auto simp: others_def)

lemma others_trans [trans]:
  assumes a: "others l ps ps1 h h1" and b: "others l ps1 ps2 h1 h2"
  shows "others l ps ps2 h h2"
proof -
  have out: "p \<notin> set ps1 \<and> p < mallocs h1" if "p \<notin> set ps" "p < mallocs h" for p
    using a that by (fastforce simp: others_def)
  have "pools h2 p = pools h p" if "p \<notin> set ps" "p < mallocs h" for p
    using a b that out [OF that] by (simp add: others_def)
  moreover have "nodes h2 a = nodes h a" if "pool_of a \<notin> set ps" "pool_of a < mallocs h" for a
    using a b that out [OF that] by (simp add: others_def)
  moreover have "p \<in> set ps \<or> mallocs h \<le> p" if "p \<in> set ps2" for p
    using a b that by (fastforce simp: others_def)
  ultimately show ?thesis using a b by (auto simp: others_def)
qed

text \<open>The other lists keep what they represent.\<close>

lemma others_rep:
  assumes "others l ps ps' h h'" "k \<noteq> l" "list_rep h k ys gs qs" "set qs \<inter> set ps = {}"
  shows "list_rep h' k ys gs qs" "set qs \<inter> set ps' = {}"
proof -
  from assms(3) obtain K where K: "lists h k = Some K" and ok: "list_ok h K ys gs [] qs"
    by (auto simp: list_rep_def split: option.splits)
  have q: "q \<notin> set ps" "q < mallocs h" if "q \<in> set qs" for q
    using that ok assms(4) by (auto simp: list_ok_def)
  have a: "pool_of a \<in> set qs" if "a \<in> fst ` set ys \<union> set gs" for a
    using that ok by (auto simp: list_ok_def slots_def)
  have N: "nodes h' a = nodes h a" if "a \<in> fst ` set ys \<union> set gs" for a
    using assms(1) q [OF a [OF that]] by (simp add: others_def)
  have P: "pools h' p = pools h p" if "p \<in> set qs" for p
    using assms(1) q [OF that] by (simp add: others_def)
  have "seg (nodes h') None ys None = seg (nodes h) None ys None"
    by (rule seg_cong) (simp add: N)
  moreover have "fchain (nodes h') p gs = fchain (nodes h) p gs" for p
    by (rule fchain_cong) (simp add: N)
  moreover have "pchain (pools h') B None qs = pchain (pools h) B None qs" for B
    by (rule pchain_cong) (simp add: P)
  moreover have "lists h' k = Some K" "mallocs h \<le> mallocs h'"
    using K assms(1,2) by (simp_all add: others_def)
  ultimately show "list_rep h' k ys gs qs"
    using ok by (auto simp: list_rep_def list_ok_def)
  show "set qs \<inter> set ps' = {}"
    using q assms(1) by (force simp: others_def)
qed

subsection \<open>Pools\<close>

definition pool_node :: "nat \<Rightarrow> int \<Rightarrow> nat \<Rightarrow> 'd LISTNODE" where
  "pool_node np n i =
     \<lparr>ln_next = (if int i = n - 1 then None else Some (Lnode np (Suc i))),
      ln_prev = (if i = 0 then None else Some (Lnode np (i - 1))), ln_data = None\<rparr>"

lemma new_nodepool_loop_result:
  assumes "pools h np = Some P" "16 + 24 * n \<le> np_bytes P" "0 < i"
  shows "new_nodepool_loop h np i n =
    Some (h\<lparr>nodes := \<lambda>a. if pool_of a = np \<and> i \<le> int (slot_of a) \<and> int (slot_of a) < n - 1
                      then Some (pool_node np n (slot_of a)) else nodes h a\<rparr>)"
  using assms
proof (induction "nat (n - i)" arbitrary: h i)
  case 0
  then have "(\<lambda>a. if pool_of a = np \<and> i \<le> int (slot_of a) \<and> int (slot_of a) < n - 1
                  then Some (pool_node np n (slot_of a)) else nodes h a) = nodes h"
    by (auto simp: fun_eq_iff)
  with 0 show ?case by (subst new_nodepool_loop.simps) simp
next
  case (Suc k)
  show ?case
  proof (cases "i < n - 1")
    case True
    let ?n = "\<lparr>ln_next = Some (Lnode np (nat (i + 1))), ln_prev = Some (Lnode np (nat (i - 1))),
               ln_data = None\<rparr>"
    let ?h = "h\<lparr>nodes := (nodes h)(Lnode np (nat i) \<mapsto> ?n)\<rparr>"
    have put: "put_ln h np i ?n = Some ?h"
      using Suc.prems True by (simp add: put_ln_def)
    have IH: "new_nodepool_loop ?h np (i + 1) n =
      Some (?h\<lparr>nodes := \<lambda>a. if pool_of a = np \<and> i + 1 \<le> int (slot_of a) \<and> int (slot_of a) < n - 1
                          then Some (pool_node np n (slot_of a)) else nodes ?h a\<rparr>)"
      using Suc.prems Suc.hyps(2) by (intro Suc.hyps(1)) auto
    have n_eq: "?n = pool_node np n (nat i)"
      using Suc.prems True by (auto simp: pool_node_def nat_add_distrib nat_diff_distrib)
    have addr: "a = Lnode np (nat i) \<longleftrightarrow> pool_of a = np \<and> int (slot_of a) = i" for a
      using Suc.prems(3) by (cases a) auto
    have eq: "(\<lambda>a. if pool_of a = np \<and> i + 1 \<le> int (slot_of a) \<and> int (slot_of a) < n - 1
        then Some (pool_node np n (slot_of a)) else nodes ?h a) =
      (\<lambda>a. if pool_of a = np \<and> i \<le> int (slot_of a) \<and> int (slot_of a) < n - 1
        then Some (pool_node np n (slot_of a)) else nodes h a)"
    proof
      fix a
      show "(if pool_of a = np \<and> i + 1 \<le> int (slot_of a) \<and> int (slot_of a) < n - 1
          then Some (pool_node np n (slot_of a)) else nodes ?h a) =
        (if pool_of a = np \<and> i \<le> int (slot_of a) \<and> int (slot_of a) < n - 1
          then Some (pool_node np n (slot_of a)) else nodes h a)"
        unfolding n_eq using True by (simp add: addr) auto
    qed
    have "new_nodepool_loop h np i n = new_nodepool_loop ?h np (i + 1) n"
      using True by (subst new_nodepool_loop.simps) (simp add: put)
    also have "\<dots> = Some (h\<lparr>nodes := \<lambda>a. if pool_of a = np \<and> i \<le> int (slot_of a) \<and>
        int (slot_of a) < n - 1 then Some (pool_node np n (slot_of a)) else nodes h a\<rparr>)"
      unfolding IH eq by simp
    finally show ?thesis .
  next
    case False
    then have "(\<lambda>a. if pool_of a = np \<and> i \<le> int (slot_of a) \<and> int (slot_of a) < n - 1
                    then Some (pool_node np n (slot_of a)) else nodes h a) = nodes h"
      by (auto simp: fun_eq_iff)
    with False show ?thesis by (subst new_nodepool_loop.simps) simp
  qed
qed

lemma malloc_pool:
  assumes "pool_ok L"
  shows "malloc h (word_of_int (sint (poolsize L))) =
     (if oom h (mallocs h) then None else Some (mallocs h), h\<lparr>mallocs := mallocs h + 1\<rparr>)"
proof -
  have "0 \<le> sint (poolsize L)" "sint (poolsize L) < 32768"
    using assms sint_lt [of "poolsize L"] by (simp_all add: pool_ok_def)
  then have "uint (word_of_int (sint (poolsize L)) :: u64) = sint (poolsize L)"
    by (simp only: uint_word_of_int) simp
  then have "\<not> 0x7FFFFFFFFFFFFFFF < (word_of_int (sint (poolsize L)) :: u64)"
    using sint_lt [of "poolsize L"] by (simp add: word_less_def)
  then show ?thesis by (simp add: malloc_def)
qed

lemma new_nodepool_result:
  assumes "lists h l = Some L" "pool_ok L"
  shows "new_nodepool h l = Some (if oom h (mallocs h) then (None, h\<lparr>mallocs := mallocs h + 1\<rparr>)
    else (Some (mallocs h), h\<lparr>mallocs := mallocs h + 1,
      pools := (pools h)(mallocs h \<mapsto> \<lparr>chain_next = None, chain_prev = None, np_bytes = sint (poolsize L)\<rparr>),
      nodes := \<lambda>a. if a \<in> slots {mallocs h} (n_ln_pool L)
                    then Some (pool_node (mallocs h) (n_ln_pool L) (slot_of a)) else nodes h a\<rparr>))"
proof (cases "oom h (mallocs h)")
  case True
  then show ?thesis using malloc_pool [OF assms(2), of h] by (simp add: new_nodepool_def assms(1))
next
  case False
  define n np where "n = n_ln_pool L" and "np = mallocs h"
  have n: "5 \<le> n" "16 + 24 * n \<le> sint (poolsize L)"
    using assms(2) by (auto simp: n_def pool_ok_def)
  let ?P = "\<lparr>chain_next = None, chain_prev = None, np_bytes = sint (poolsize L)\<rparr>"
  let ?f = "\<lparr>ln_next = Some (Lnode np 1), ln_prev = None, ln_data = None\<rparr>"
  let ?b = "\<lparr>ln_next = None, ln_prev = Some (Lnode np (nat (n - 2))), ln_data = None\<rparr>"
  have ends: "?f = pool_node np n 0" "?b = pool_node np n (nat (n - 1))"
    using n(1) by (auto simp: pool_node_def nat_diff_distrib)
  define h1 where "h1 = h\<lparr>mallocs := mallocs h + 1, pools := (pools h)(np \<mapsto> ?P)\<rparr>"
  define h2 where "h2 = h1\<lparr>nodes := (nodes h1)(Lnode np 0 \<mapsto> ?f)\<rparr>"
  have loop: "new_nodepool_loop h2 np 1 n =
    Some (h2\<lparr>nodes := \<lambda>a. if pool_of a = np \<and> 1 \<le> int (slot_of a) \<and> int (slot_of a) < n - 1
                       then Some (pool_node np n (slot_of a)) else nodes h2 a\<rparr>)"
    by (rule new_nodepool_loop_result [where P = ?P]) (use n in \<open>simp_all add: h2_def h1_def\<close>)
  have eq: "(\<lambda>a. if pool_of a = np \<and> 1 \<le> int (slot_of a) \<and> int (slot_of a) < n - 1
               then Some (pool_node np n (slot_of a)) else nodes h2 a)(Lnode np (nat (n - 1)) \<mapsto> ?b) =
      (\<lambda>a. if a \<in> slots {np} n then Some (pool_node np n (slot_of a)) else nodes h a)"
    (is "?l = ?r")
  proof
    fix a
    have "a = Lnode np (nat (n - 1)) \<longleftrightarrow> pool_of a = np \<and> int (slot_of a) = n - 1"
      "a = Lnode np 0 \<longleftrightarrow> pool_of a = np \<and> slot_of a = 0"
      using n(1) by (cases a; auto)+
    then show "?l a = ?r a"
      unfolding ends h2_def h1_def using n(1) by (simp add: slots_def) auto
  qed
  have "malloc h (scast (poolsize L)) = (Some np, h\<lparr>mallocs := mallocs h + 1\<rparr>)"
    using False malloc_pool [OF assms(2), of h] by (simp add: np_def)
  then have "new_nodepool h l = do {
      h \<leftarrow> put_ln h1 np 0 ?f;
      h \<leftarrow> new_nodepool_loop h np 1 n;
      h \<leftarrow> put_ln h np (n - 1) ?b;
      Some (Some np, h)
    }"
    by (simp add: new_nodepool_def assms(1) h1_def n_def)
  also have "put_ln h1 np 0 ?f = Some h2"
    using n by (simp add: put_ln_def h2_def h1_def)
  also have "Option.bind (Some h2) (\<lambda>h. do {
      h \<leftarrow> new_nodepool_loop h np 1 n;
      h \<leftarrow> put_ln h np (n - 1) ?b;
      Some (Some np, h)
    }) = Some (Some np, h2\<lparr>nodes := ?r\<rparr>)"
    unfolding Option.bind.bind_lunit loop eq [symmetric]
    using n by (simp add: put_ln_def h2_def h1_def)
  also have "h2\<lparr>nodes := ?r\<rparr> = h1\<lparr>nodes := ?r\<rparr>" by (simp add: h2_def)
  finally show ?thesis using False unfolding h1_def n_def np_def by simp
qed

lemma fchain_fresh:
  assumes "\<And>i. i < nat n \<Longrightarrow> N (Lnode np i) = Some (pool_node np n i)" "k < nat n"
  shows "fchain N (Some (Lnode np k)) (map (Lnode np) [k..<nat n])"
  using assms(2)
proof (induction "nat n - k" arbitrary: k)
  case (Suc j)
  show ?case
  proof (cases "Suc k < nat n")
    case True
    then have "fchain N (Some (Lnode np (Suc k))) (map (Lnode np) [Suc k..<nat n])"
      using Suc.hyps(2) by (intro Suc.hyps(1)) simp_all
    with True show ?thesis
      by (simp add: upt_rec [of k] assms(1) pool_node_def)
  next
    case False
    with Suc.prems have "nat n = Suc k" by simp
    then show ?thesis by (simp add: assms(1) pool_node_def)
  qed
qed simp

subsection \<open>Memory accesses that have a result\<close>

lemma node_access [simp]:
  "get_node h (Some a) = nodes h a" "get_node h None = None" "upd_node h None f = None"
  "nodes h a = Some n \<Longrightarrow> upd_node h (Some a) f = Some (h\<lparr>nodes := (nodes h)(a \<mapsto> f n)\<rparr>)"
  by (simp_all add: get_node_def upd_node_def)

lemma list_access [simp]:
  "lists h l = Some L \<Longrightarrow> upd_list h l f = Some (h\<lparr>lists := (lists h)(l \<mapsto> f L)\<rparr>)"
  by (simp add: upd_list_def)

lemma pool_access [simp]:
  "pools h p = Some P \<Longrightarrow> upd_pool h (Some p) f = Some (h\<lparr>pools := (pools h)(p \<mapsto> f P)\<rparr>)"
  by (simp add: upd_pool_def)

lemma list_repD:
  assumes "list_rep h l xs fs ps"
  obtains L where "lists h l = Some L" "list_ok h L xs fs [] ps"
  using assms by (auto simp: list_rep_def split: option.splits)

lemma more_nodes_result:
  assumes "lists h l = Some L" "list_ok h L xs [] [] ps"
  shows "wp (more_nodes h l) (\<lambda>(ok, h').
    if ok then \<not> oom h (mallocs h) \<and> others l ps (ps @ [mallocs h]) h h' \<and>
      list_rep h' l xs (fresh_slots (mallocs h) (n_ln_pool L)) (ps @ [mallocs h])
    else oom h (mallocs h) \<and> others l ps ps h h' \<and> list_rep h' l xs [] ps)"
proof (cases "oom h (mallocs h)")
  case True
  then show ?thesis
    using assms by (simp add: more_nodes_def new_nodepool_result others_def list_rep_def list_ok_def)
      auto
next
  case False
  define n np where "n = n_ln_pool L" and "np = mallocs h"
  let ?B = "sint (poolsize L)"
  let ?P = "\<lparr>chain_next = None, chain_prev = lasto None ps, np_bytes = ?B\<rparr>"
  let ?N = "\<lambda>a. if a \<in> slots {np} n then Some (pool_node np n (slot_of a)) else nodes h a"
  have ok: "pool_ok L" "pchain (pools h) ?B None ps" "distinct ps" "np \<notin> set ps"
    "np_top L = hdo ps" "np_bottom L = lasto None ps" "5 \<le> n"
    using assms(2) by (auto simp: list_ok_def np_def n_def pool_ok_def)
  have new: "new_nodepool h l = Some (Some np, h\<lparr>mallocs := Suc np, nodes := ?N,
      pools := (pools h)(np \<mapsto> \<lparr>chain_next = None, chain_prev = None, np_bytes = ?B\<rparr>)\<rparr>)"
    unfolding n_def np_def using False new_nodepool_result [OF assms(1) ok(1)] by simp
  obtain P' L' where more: "more_nodes h l = Some (True,
      h\<lparr>mallocs := Suc np, pools := P', nodes := ?N, lists := (lists h)(l \<mapsto> L')\<rparr>)"
    and P': "pchain P' ?B None (ps @ [np])" "\<And>p. p \<notin> set ps \<Longrightarrow> p \<noteq> np \<Longrightarrow> P' p = pools h p"
    and L': "L' = L\<lparr>np_top := hdo (ps @ [np]), np_bottom := Some np, next_ln := Some (Lnode np 0)\<rparr>"
  proof (cases ps rule: rev_cases)
    case Nil
    show ?thesis
      by (rule that [where P' = "(pools h)(np \<mapsto> ?P)" and L' = "L\<lparr>np_top := Some np, np_bottom := Some np, next_ln := Some (Lnode np 0)\<rparr>"])
        (use False ok Nil in \<open>simp_all add: more_nodes_def new assms(1)\<close>)
  next
    case (snoc qs q)
    let ?Q = "(pools h)(np \<mapsto> ?P)"
    have q: "q \<noteq> np" "pools h q = Some (the (pools h q))" "np \<notin> set qs"
      using ok snoc pchain_alloc [of "pools h" ?B None ps q] by auto
    have "pchain (?Q(q \<mapsto> (the (?Q q))\<lparr>chain_next := Some np\<rparr>)) ?B None (qs @ [q, np])"
      using ok snoc by (intro pchain_snoc) auto
    moreover have "L\<lparr>np_bottom := Some np, next_ln := Some (Lnode np 0)\<rparr> =
        L\<lparr>np_top := hdo (qs @ [q, np]), np_bottom := Some np, next_ln := Some (Lnode np 0)\<rparr>"
      using ok(5) snoc by (cases L; cases qs) simp_all
    ultimately show ?thesis
      by (intro that [where P' = "?Q(q \<mapsto> (the (?Q q))\<lparr>chain_next := Some np\<rparr>)" and
          L' = "L\<lparr>np_bottom := Some np, next_ln := Some (Lnode np 0)\<rparr>"])
        (use False ok snoc q in \<open>simp_all add: more_nodes_def new assms(1)\<close>)
  qed
  let ?h = "h\<lparr>mallocs := Suc np, pools := P', nodes := ?N, lists := (lists h)(l \<mapsto> L')\<rparr>"
  have "others l ps (ps @ [np]) h ?h"
    using P'(2) by (auto simp: others_def np_def slots_def)
  moreover have "list_ok ?h L' xs (fresh_slots np n) [] (ps @ [np])"
  proof -
    have old: "a \<notin> slots {np} n" if "a \<in> fst ` set xs" for a
      using that assms(2) by (auto simp: list_ok_def slots_def np_def)
    have "seg ?N None xs None = seg (nodes h) None xs None"
      by (rule seg_cong) (use old in auto)
    moreover have "fchain ?N (Some (Lnode np 0)) (fresh_slots np n)"
      unfolding fresh_slots_def by (rule fchain_fresh) (use ok in \<open>auto simp: slots_def\<close>)
    moreover have "fst ` set xs \<inter> slots {np} n = {}" using old by blast
    moreover have "fst ` set xs = slots (set ps) n" "\<forall>p \<in> set (ps @ [np]). p < Suc np"
      using assms(2) by (auto simp: list_ok_def n_def np_def)
    moreover have "slots (set (ps @ [np])) n = slots (set ps) n \<union> slots {np} n"
      by (auto simp: slots_def)
    ultimately show ?thesis
      using assms(2) P'(1) ok by (simp add: list_ok_def L' pool_ok_def flip: n_def)
  qed
  ultimately show ?thesis
    using False by (simp add: more list_rep_def flip: np_def n_def)
qed

subsection \<open>Taking and returning nodes\<close>

definition starved :: "'d heap \<Rightarrow> lnode list \<Rightarrow> bool" where
  "starved h fs \<longleftrightarrow> fs = [] \<and> oom h (mallocs h)"

definition spare :: "'d heap \<Rightarrow> nat \<Rightarrow> 'd cells \<Rightarrow> lnode list \<Rightarrow> lnode \<Rightarrow> nat list \<Rightarrow> bool" where
  "spare h l xs fs a ps \<longleftrightarrow> nodes h a = Some \<lparr>ln_next = None, ln_prev = None, ln_data = None\<rparr> \<and>
     (case lists h l of None \<Rightarrow> False | Some L \<Rightarrow> list_ok h L xs fs [a] ps)"

lemma take_node_result:
  assumes "list_rep h l xs (a # fs) ps"
  shows "wp (take_node h l) (\<lambda>(r, h'). r = Some a \<and> spare h' l xs fs a ps \<and> others l ps ps h h')"
proof -
  from assms obtain L where L: "lists h l = Some L" and ok: "list_ok h L xs (a # fs) [] ps"
    by (rule list_repD)
  from ok obtain n where n: "next_ln L = Some a" "nodes h a = Some n" "fchain (nodes h) (ln_next n) fs"
    by (auto simp: list_ok_def split: option.splits)
  have a: "pool_of a \<in> set ps" using ok by (auto simp: list_ok_def slots_def)
  then show ?thesis
    using ok by (simp add: take_node_def L n spare_def list_ok_def others_def)
qed

lemma get_listnode_result:
  assumes "list_rep h l xs fs ps"
  shows "wp (get_listnode h l) (\<lambda>(r, h'). case r of
      None \<Rightarrow> starved h fs \<and> others l ps ps h h' \<and> list_rep h' l xs [] ps
    | Some a \<Rightarrow> \<not> starved h fs \<and> (\<exists>fs' ps'. spare h' l xs fs' a ps' \<and> others l ps ps' h h'))"
proof -
  from assms obtain L where L: "lists h l = Some L" and ok: "list_ok h L xs fs [] ps"
    by (rule list_repD)
  show ?thesis
  proof (cases fs)
    case (Cons a gs)
    with ok have "next_ln L = Some a" by (simp add: list_ok_def)
    then show ?thesis
      using take_node_result [of h l xs a gs ps] assms Cons
      by (auto simp: get_listnode_def L starved_def elim!: wp_conseq intro!: exI)
  next
    case Nil
    with ok have "next_ln L = None" "5 \<le> n_ln_pool L" by (auto simp: list_ok_def pool_ok_def)
    moreover from this(2) have "fresh_slots (mallocs h) (n_ln_pool L) \<noteq> []"
      by (simp add: fresh_slots_def)
    ultimately show ?thesis
      using more_nodes_result [OF L ok [unfolded Nil]]
      apply (simp add: get_listnode_def L Nil)
      apply (erule wp_conseq)
      apply (auto simp: neq_Nil_conv Nil starved_def L split: if_splits)
      apply (rule wp_conseq [OF take_node_result])
       apply (auto simp: starved_def L intro: others_trans intro!: exI)
      done
  qed
qed

subsection \<open>Adding\<close>

lemma spareD:
  assumes "spare h l xs fs a ps"
  obtains L where "lists h l = Some L" "list_ok h L xs fs [a] ps"
    "nodes h a = Some \<lparr>ln_next = None, ln_prev = None, ln_data = None\<rparr>"
    "a \<notin> fst ` set xs" "pool_of a \<in> set ps" "a \<notin> set fs"
proof -
  from assms obtain L where L: "lists h l = Some L" "list_ok h L xs fs [a] ps"
    by (auto simp: spare_def split: option.splits)
  moreover from L(2) have "a \<in> slots (set ps) (n_ln_pool L)" by (auto simp: list_ok_def)
  ultimately show ?thesis
    using that assms by (auto simp: spare_def list_ok_def slots_def)
qed

text \<open>What all operations that take a node promise when there is none.\<close>

definition refused :: "'d heap \<Rightarrow> nat \<Rightarrow> 'd cells \<Rightarrow> lnode list \<Rightarrow> nat list \<Rightarrow> 'd heap \<Rightarrow> bool" where
  "refused h l xs fs ps h' \<longleftrightarrow> starved h fs \<and> others l ps ps h h' \<and> list_rep h' l xs [] ps"

definition inserted ::
  "'d heap \<Rightarrow> nat \<Rightarrow> lnode list \<Rightarrow> nat list \<Rightarrow> 'd cells \<Rightarrow> 'd option \<Rightarrow> 'd cells \<Rightarrow> 'd heap \<Rightarrow> bool" where
  "inserted h l fs ps us d vs h' \<longleftrightarrow> \<not> starved h fs \<and>
     (\<exists>a fs' ps'. others l ps ps' h h' \<and> list_rep h' l (us @ (a, d) # vs) fs' ps')"

text \<open>\<^verbatim>\<open>get_listnode\<close> in front of the rest of an operation.\<close>

lemma wp_with_node:
  assumes "list_rep h l xs fs ps"
    and "\<And>h'. refused h l xs fs ps h' \<Longrightarrow> wp (f (None, h')) Q"
    and "\<And>a h' fs' ps'. \<not> starved h fs \<Longrightarrow> spare h' l xs fs' a ps' \<Longrightarrow> others l ps ps' h h' \<Longrightarrow>
      wp (f (Some a, h')) Q"
  shows "wp (Option.bind (get_listnode h l) f) Q"
proof (rule wp_bind_conseq [OF get_listnode_result [OF assms(1)]])
  fix x :: "lnode option \<times> 'a heap"
  assume x: "case x of (r, h') \<Rightarrow> case r of
      None \<Rightarrow> starved h fs \<and> others l ps ps h h' \<and> list_rep h' l xs [] ps
    | Some a \<Rightarrow> \<not> starved h fs \<and> (\<exists>fs' ps'. spare h' l xs fs' a ps' \<and> others l ps ps' h h')"
  obtain r h' where [simp]: "x = (r, h')" by (cases x)
  show "wp (f x) Q"
  proof (cases r)
    case None
    then show ?thesis using x assms(2) [of h'] by (simp add: refused_def)
  next
    case (Some a)
    then show ?thesis using x assms(3) by auto
  qed
qed

text \<open>The pointers of a list are changed, and nothing else.\<close>

lemma relink:
  assumes L: "lists h l = Some L" "list_ok h L xs fs ds ps"
    and seg: "seg N' None ys None" "fchain N' (next_ln L') fs'"
    and perm: "mset (map fst ys @ fs') = mset (map fst xs @ fs @ ds)"
    and num: "num L' = int (length ys)" "length ys \<le> 2147483647"
    and ends: "top L' = hdp ys None" "bottom L' = lastp None ys"
    and same: "np_top L' = np_top L" "np_bottom L' = np_bottom L" "poolsize L' = poolsize L"
      "n_ln_pool L' = n_ln_pool L"
    and out: "\<And>b. pool_of b \<notin> set ps \<Longrightarrow> N' b = nodes h b"
  shows "list_rep (h\<lparr>nodes := N', lists := (lists h)(l \<mapsto> L')\<rparr>) l ys fs' ps \<and>
    others l ps ps h (h\<lparr>nodes := N', lists := (lists h)(l \<mapsto> L')\<rparr>)"
proof -
  have "set (map fst ys @ fs') = set (map fst xs @ fs @ ds)"
    and "distinct (map fst ys @ fs')"
    using mset_eq_setD [OF perm] mset_eq_imp_distinct_iff [OF perm] L(2)
    by (auto simp: list_ok_def)
  then have "list_rep (h\<lparr>nodes := N', lists := (lists h)(l \<mapsto> L')\<rparr>) l ys fs' ps"
    using L seg num ends same by (simp add: list_rep_def list_ok_def pool_ok_def Un_assoc)
  moreover have "others l ps ps h (h\<lparr>nodes := N', lists := (lists h)(l \<mapsto> L')\<rparr>)"
    using out by (simp add: others_def)
  ultimately show ?thesis ..
qed

lemma inc_dec [simp]:
  "i < 2147483647 \<Longrightarrow> inc i = Some (i + 1)" "- 2147483648 < i \<Longrightarrow> dec i = Some (i - 1)"
  by (simp_all add: inc_def dec_def)

lemma insertedI:
  "\<not> starved h fs \<Longrightarrow> others l ps ps1 h h1 \<Longrightarrow>
   list_rep h2 l (us @ (a, d) # vs) fs2 ps1 \<Longrightarrow> others l ps1 ps1 h1 h2 \<Longrightarrow> inserted h l fs ps us d vs h2"
  unfolding inserted_def using others_trans by blast

lemma insertedI_relink:
  assumes "\<not> starved h fs" "others l ps qs h h1" "lists h1 l = Some L" "list_ok h1 L (us @ vs) gs [a] qs"
    and "seg N' None (us @ (a, d) # vs) None" "fchain N' (next_ln L') gs"
    and "num L' = int (Suc (length us + length vs))" "length us + length vs < 2147483647"
    and "top L' = hdp (us @ (a, d) # vs) None" "bottom L' = lastp None (us @ (a, d) # vs)"
    and "np_top L' = np_top L" "np_bottom L' = np_bottom L" "poolsize L' = poolsize L"
      "n_ln_pool L' = n_ln_pool L"
    and "\<And>b. pool_of b \<notin> set qs \<Longrightarrow> N' b = nodes h1 b"
  shows "inserted h l fs ps us d vs (h1\<lparr>nodes := N', lists := (lists h1)(l \<mapsto> L')\<rparr>)"
proof -
  have perm: "mset (map fst (us @ (a, d) # vs) @ gs) = mset (map fst (us @ vs) @ gs @ [a])"
    by simp
  have num: "num L' = int (length (us @ (a, d) # vs))" using assms(7) by simp
  note r = relink [OF assms(3,4,5,6) perm num _ assms(9-15)]
  show ?thesis by (rule insertedI [OF assms(1,2) conjunct1 [OF r] conjunct2 [OF r]]) (use assms(8) in simp_all)
qed

lemma ladd_result:
  assumes "list_rep h l xs fs ps" "length xs < 2147483647"
  shows "wp (ladd h l d) (\<lambda>(r, h').
    r = 0 \<and> inserted h l fs ps xs d [] h' \<or> r = - 1 \<and> refused h l xs fs ps h')"
  unfolding ladd_def
proof (rule wp_with_node [OF assms(1)], goal_cases)
  case (2 a h1 fs1 ps1)
  note st = 2(1) and o = 2(3)
  from 2(2) obtain L where L: "lists h1 l = Some L" and ok: "list_ok h1 L xs fs1 [a] ps1"
    and a: "nodes h1 a = Some \<lparr>ln_next = None, ln_prev = None, ln_data = None\<rparr>"
      "a \<notin> fst ` set xs" "pool_of a \<in> set ps1" "a \<notin> set fs1"
    by (rule spareD)
  note ok' = list_okD [OF ok] assms(2)
  note link = disjI1 insertedI_relink [OF st o L, where a = a and gs = fs1]
  show ?case
  proof (cases xs rule: rev_cases)
    case Nil
    then show ?thesis
      using ok' a by (simp add: L) (intro link; use ok Nil in auto)
  next
    case (snoc ys y)
    obtain b e where y: "y = (b, e)" by (cases y)
    show ?thesis
      using snoc y ok' a
      by (simp add: L) (intro link; use ok snoc y in \<open>auto simp: lastp_append hdp_append\<close>)
  qed
qed simp

lemma insert_ln_result:
  assumes "list_rep h l (us @ (b, e) # vs) fs ps" "length us + length vs < 2147483646"
  shows "wp (insert_ln h l (Some b) d) (\<lambda>(r, h').
    r = 0 \<and> inserted h l fs ps us d ((b, e) # vs) h' \<or> r = - 1 \<and> refused h l (us @ (b, e) # vs) fs ps h')"
  unfolding insert_ln_def if_not_P [OF option.distinct(2)]
proof (rule wp_with_node [OF assms(1)], goal_cases)
  case (2 a h1 fs1 ps1)
  note st = 2(1) and o = 2(3)
  from 2(2) obtain L where L: "lists h1 l = Some L" and ok: "list_ok h1 L (us @ (b, e) # vs) fs1 [a] ps1"
    and a: "nodes h1 a = Some \<lparr>ln_next = None, ln_prev = None, ln_data = None\<rparr>"
      "a \<notin> fst ` set (us @ (b, e) # vs)" "pool_of a \<in> set ps1" "a \<notin> set fs1"
    by (rule spareD)
  note ok' = list_okD [OF ok] assms(2)
  note link = disjI1 insertedI_relink [OF st o L, where a = a and gs = fs1]
  show ?case
  proof (cases us rule: rev_cases)
    case Nil
    then show ?thesis
      using ok' a by (simp add: L) (intro link; use ok Nil in auto)
  next
    case (snoc ys y)
    obtain c f where y: "y = (c, f)" by (cases y)
    show ?thesis
      using snoc y ok' a
      by (simp add: L hdp_append) (intro link; use ok snoc y in \<open>auto simp: lastp_append hdp_append\<close>)
  qed
qed simp

subsection \<open>Removing\<close>

lemma remove_ln_result:
  assumes "list_rep h l (us @ (b, e) # vs) fs ps"
  shows "wp (remove_ln h l (Some b)) (\<lambda>(r, h').
    r = e \<and> list_rep h' l (us @ vs) (b # fs) ps \<and> others l ps ps h h')"
proof -
  from assms obtain L where L: "lists h l = Some L" and ok: "list_ok h L (us @ (b, e) # vs) fs [] ps"
    by (rule list_repD)
  note ok' = list_okD [OF ok]
  note link = relink [OF L ok]
  show ?thesis
  proof (cases us rule: rev_cases)
    case Nil
    show ?thesis
    proof (cases vs)
      case N2: Nil
      show ?thesis
        using Nil N2 ok' by (simp add: L remove_ln_def free_listnode_def) (rule link; use Nil N2 in auto)
    next
      case (Cons w ws)
      obtain c f where w: "w = (c, f)" by (cases w)
      have ne: "b \<noteq> c" "c \<noteq> b" using ok' Cons w by auto
      show ?thesis
        using Nil Cons w ne ok' by (simp add: L remove_ln_def free_listnode_def) (rule link; use Nil Cons in auto)
    qed
  next
    case (snoc ys y)
    obtain c f where y: "y = (c, f)" by (cases y)
    have ne: "b \<noteq> c" "c \<noteq> b" using ok' snoc y by auto
    show ?thesis
    proof (cases vs)
      case N2: Nil
      show ?thesis
        using snoc y N2 ne ok' by (simp add: L remove_ln_def free_listnode_def hdp_append lastp_append) (rule link; use snoc N2 in \<open>auto simp: hdp_append lastp_append\<close>)
    next
      case (Cons w ws)
      obtain g i where w: "w = (g, i)" by (cases w)
      have ne2: "b \<noteq> g" "g \<noteq> b" "c \<noteq> g" "g \<noteq> c" using ok' snoc y Cons w by auto
      show ?thesis
        using snoc y Cons w ne ne2 ok' by (simp add: L remove_ln_def free_listnode_def hdp_append lastp_append) (rule link; use snoc Cons in \<open>auto simp: hdp_append lastp_append\<close>)
    qed
  qed
qed

end
