(* ===== verification/ListsOps.thy ===== *)
theory ListsOps
  imports ListsRep
begin

text \<open>
  The operations of \<^verbatim>\<open>lists.c\<close> on the represented list: what each returns, and what the list is
  afterwards, on every branch.
\<close>

subsection \<open>Walking\<close>

lemma word_of_int_neq:
  "0 \<le> i \<Longrightarrow> i < 4294967296 \<Longrightarrow> (word_of_int i \<noteq> (n :: u32)) = (i \<noteq> uint n)"
  by (auto simp: word_uint_eq_iff uint_word_of_int)

lemma nth_loop_result:
  assumes "seg (nodes h) pr xs None" "0 < i" "i \<le> uint n"
    and "uint n < i + int (length xs) \<and> i + int (length xs) \<le> 2147483648 \<or> i + int (length xs) \<le> 2147483647"
  shows "nth_loop h (hdp xs None) i n =
    Some (if uint n < i + int (length xs) then Some (fst (xs ! nat (uint n - i))) else None)"
  using assms
proof (induction xs arbitrary: pr i)
  case Nil
  then show ?case by (subst nth_loop.simps) simp
next
  case (Cons x xs)
  obtain a d where [simp]: "x = (a, d)" by (cases x)
  show ?case
  proof (cases "i = uint n")
    case True
    then show ?thesis by (subst nth_loop.simps) simp
  next
    case False
    then have i: "i < uint n" "i < 2147483647" using Cons.prems by auto
    have "word_of_int i \<noteq> n" using word_of_int_neq [of i n] i Cons.prems(2) by simp
    moreover have "nth_loop h (hdp xs None) (i + 1) n =
      Some (if uint n < i + 1 + int (length xs) then Some (fst (xs ! nat (uint n - (i + 1)))) else None)"
      using Cons.prems i by (intro Cons.IH [of "Some a"]) auto
    moreover have "nat (uint n - i) = Suc (nat (uint n - (i + 1)))" using i by simp
    ultimately show ?thesis
      using Cons.prems(1) i by (subst nth_loop.simps) (simp add: add.assoc)
  qed
qed

lemma lget_ln_loop_result:
  assumes "seg (nodes h) pr xs None" "0 < i" "i \<le> uint n" "uint n < i + int (length xs)"
    and "i + int (length xs) \<le> 2147483648"
  shows "lget_ln_loop h (hdp xs None) i n = Some (Some (fst (xs ! nat (uint n - i))))"
  using assms
proof (induction xs arbitrary: pr i)
  case (Cons x xs)
  obtain a d where [simp]: "x = (a, d)" by (cases x)
  show ?case
  proof (cases "i = uint n")
    case True
    then show ?thesis by (subst lget_ln_loop.simps) simp
  next
    case False
    then have i: "i < uint n" "i < 2147483647" using Cons.prems by auto
    have "word_of_int i \<noteq> n" using word_of_int_neq [of i n] i Cons.prems(2) by simp
    moreover have "lget_ln_loop h (hdp xs None) (i + 1) n = Some (Some (fst (xs ! nat (uint n - (i + 1)))))"
      using Cons.prems i by (intro Cons.IH [of "Some a"]) auto
    moreover have "nat (uint n - i) = Suc (nat (uint n - (i + 1)))" using i by simp
    ultimately show ?thesis
      using Cons.prems(1) i by (subst lget_ln_loop.simps) (simp add: add.assoc)
  qed
qed simp

lemma find_loop_result:
  assumes "seg (nodes h) pr xs None"
  shows "find_loop h (Some b) (hdp xs None) = Some (if b \<in> fst ` set xs then Some b else None)"
  using assms
proof (induction xs arbitrary: pr)
  case Nil
  then show ?case by (subst find_loop.simps) simp
next
  case (Cons x xs)
  obtain a d where [simp]: "x = (a, d)" by (cases x)
  show ?case
    using Cons.prems Cons.IH [of "Some a"] by (subst find_loop.simps) auto
qed

text \<open>The data that a walk with \<^verbatim>\<open>lfirst\<close> and \<^verbatim>\<open>lnext\<close> meets, as the clients of the package use them.\<close>

lemma walk_result:
  assumes "list_rep h l xs fs ps"
  shows "lfirst h l = Some (hdp xs None)" "llast h l = Some (lastp None xs)"
    and "lsize h l = Some (int (length xs))"
    and "k < length xs \<Longrightarrow> lnext h (Some (fst (xs ! k))) = Some (hdp (drop (Suc k) xs) None)"
    and "k < length xs \<Longrightarrow> lprev h (Some (fst (xs ! k))) = Some (lastp None (take k xs))"
    and "k < length xs \<Longrightarrow> ldata h (Some (fst (xs ! k))) = Some (snd (xs ! k))"
proof -
  from assms obtain L where L: "lists h l = Some L" and ok: "list_ok h L xs fs [] ps"
    by (rule list_repD)
  note ok' = list_okD [OF ok]
  show "lfirst h l = Some (hdp xs None)" "llast h l = Some (lastp None xs)"
    "lsize h l = Some (int (length xs))"
    using ok' by (simp_all add: lfirst_def llast_def lsize_def L)
  assume k: "k < length xs"
  obtain a d where x: "xs ! k = (a, d)" by (cases "xs ! k")
  have "seg (nodes h) None (take k xs @ (a, d) # drop (Suc k) xs) None"
    using ok'(5) id_take_nth_drop [OF k] x by simp
  then show "lnext h (Some (fst (xs ! k))) = Some (hdp (drop (Suc k) xs) None)"
    "lprev h (Some (fst (xs ! k))) = Some (lastp None (take k xs))"
    "ldata h (Some (fst (xs ! k))) = Some (snd (xs ! k))"
    by (simp_all add: lnext_def lprev_def ldata_def x)
qed

lemma lget_result:
  assumes "list_rep h l xs fs ps"
  shows "lget h l = Some (if xs = [] then None else snd (last xs))"
proof -
  from assms obtain L where L: "lists h l = Some L" and ok: "list_ok h L xs fs [] ps"
    by (rule list_repD)
  show ?thesis
    using list_okD [OF ok] by (cases xs rule: rev_cases) (auto simp: lget_def L)
qed

text \<open>Positions count from 1; they are unsigned numbers of 32 bits.\<close>

lemma size_word_less:
  "k \<le> 2147483648 \<Longrightarrow> (word_of_int (int k) < (n :: u32)) = (k < unat n)"
  by (simp add: word_less_nat_alt unat_of_nat)

lemma u32_less_1: "((n :: u32) < 1) = (unat n = 0)" "(unat (n :: u32) = 0) = (n = 0)"
  by (simp_all add: word_less_nat_alt unat_eq_0)

lemma seg_nth:
  "seg N pr xs nx \<Longrightarrow> k < length xs \<Longrightarrow> \<exists>n. N (fst (xs ! k)) = Some n \<and> ln_data n = snd (xs ! k)"
  by (induction xs arbitrary: pr k) (auto simp: nth_Cons split: nat.splits)

lemma nth_pos:
  assumes "list_ok h L xs fs ds ps" "unat n \<noteq> 0" "unat n \<le> length xs"
  shows "nth_loop h (top L) 1 n = Some (Some (fst (xs ! (unat n - 1))))"
    and "lget_ln_loop h (top L) 1 n = Some (Some (fst (xs ! (unat n - 1))))"
proof -
  note ok' = list_okD [OF assms(1)]
  have u: "uint n = int (unat n)" by simp
  have i: "1 \<le> uint n" "uint n < 1 + int (length xs)" "1 + int (length xs) \<le> 2147483648"
    using assms(2,3) ok'(2) unfolding u by linarith+
  have "nat (int k - 1) = k - 1" for k by simp
  then have "nat (uint n - 1) = unat n - 1" by (simp only: u)
  then show "nth_loop h (top L) 1 n = Some (Some (fst (xs ! (unat n - 1))))"
    "lget_ln_loop h (top L) 1 n = Some (Some (fst (xs ! (unat n - 1))))"
    using nth_loop_result [OF ok'(5) _ i(1)] lget_ln_loop_result [OF ok'(5) _ i(1)] i ok'(3) by simp_all
qed

lemma lget_n_result:
  assumes "list_rep h l xs fs ps"
  shows "lget_n h l n =
      Some (if 1 \<le> unat n \<and> unat n \<le> length xs then snd (xs ! (unat n - 1)) else None)"
    and "lget_ln h l n =
      Some (if 1 \<le> unat n \<and> unat n \<le> length xs then Some (fst (xs ! (unat n - 1))) else None)"
proof -
  from assms obtain L where L: "lists h l = Some L" and ok: "list_ok h L xs fs [] ps"
    by (rule list_repD)
  note ok' = list_okD [OF ok]
  have less: "word_of_int (num L) < n \<longleftrightarrow> length xs < unat n" using size_word_less ok'(1,2) by simp
  show "lget_n h l n =
      Some (if 1 \<le> unat n \<and> unat n \<le> length xs then snd (xs ! (unat n - 1)) else None)"
    using nth_pos(1) [OF ok, of n] seg_nth [OF ok'(5), of "unat n - 1"]
    by (auto simp: lget_n_def lsize_def L less u32_less_1 not_less Suc_le_eq)
  show "lget_ln h l n =
      Some (if 1 \<le> unat n \<and> unat n \<le> length xs then Some (fst (xs ! (unat n - 1))) else None)"
    using nth_pos(2) [OF ok, of n]
    by (auto simp: lget_ln_def lsize_def L less u32_less_1 not_less Suc_le_eq)
qed

lemma lsrch_result:
  assumes "list_rep h l xs fs ps"
  shows "lsrch h l p cmp =
    Some (case List.find (\<lambda>d. cmp p d = 0) (map snd xs) of None \<Rightarrow> None | Some d \<Rightarrow> d)"
proof -
  from assms obtain L where L: "lists h l = Some L" and ok: "list_ok h L xs fs [] ps"
    by (rule list_repD)
  have "lsrch_loop h p cmp (hdp xs None) =
    Some (case List.find (\<lambda>d. cmp p d = 0) (map snd xs) of None \<Rightarrow> None | Some d \<Rightarrow> d)"
    if "seg (nodes h) pr xs None" for pr
    using that
  proof (induction xs arbitrary: pr)
    case Nil
    then show ?case by (subst lsrch_loop.simps) simp
  next
    case (Cons x xs)
    obtain a d where [simp]: "x = (a, d)" by (cases x)
    show ?case
      using Cons.prems Cons.IH [of "Some a"] by (subst lsrch_loop.simps) auto
  qed
  then show ?thesis using list_okD [OF ok] by (auto simp: lsrch_def L)
qed

subsection \<open>Inserting\<close>

lemma split_at:
  assumes "k < length xs"
  obtains us b e vs where "xs = us @ (b, e) # vs" "us = take k xs" "xs ! k = (b, e)"
    "(b, e) # vs = drop k xs"
proof -
  obtain b e where "xs ! k = (b, e)" by (cases "xs ! k")
  then show thesis
    using id_take_nth_drop [OF assms] Cons_nth_drop_Suc [OF assms]
    by (intro that [of "take k xs" b e "drop (Suc k) xs"]) simp_all
qed

lemma insert_ln_at:
  assumes "list_rep h l xs fs ps" "length xs < 2147483647" "k < length xs"
  shows "wp (insert_ln h l (Some (fst (xs ! k))) d) (\<lambda>(r, h').
    r = 0 \<and> inserted h l fs ps (take k xs) d (drop k xs) h' \<or> r = - 1 \<and> refused h l xs fs ps h')"
proof -
  obtain us b e vs where x: "xs = us @ (b, e) # vs" "us = take k xs" "xs ! k = (b, e)"
    "(b, e) # vs = drop k xs" by (rule split_at [OF assms(3)])
  show ?thesis
    using insert_ln_result [of h l us b e vs fs ps d] assms(1,2) x(1)
    unfolding x(2) [symmetric] x(4) [symmetric] x(3) by simp
qed

text \<open>
  Insertion by position. Position \<open>length xs + 1\<close>, which the first check lets pass, is refused
  unless the list is empty.
\<close>

lemma lins_n_result:
  assumes "list_rep h l xs fs ps" "length xs < 2147483647"
  shows "wp (lins_n h l d n) (\<lambda>(r, h').
    if 1 \<le> unat n \<and> (unat n \<le> length xs \<or> xs = [] \<and> unat n = 1)
    then r = 0 \<and> inserted h l fs ps (take (unat n - 1) xs) d (drop (unat n - 1) xs) h' \<or>
         r = - 1 \<and> refused h l xs fs ps h'
    else r = - 1 \<and> h' = h)"
proof -
  from assms(1) obtain L where L: "lists h l = Some L" and ok: "list_ok h L xs fs [] ps"
    by (rule list_repD)
  note ok' = list_okD [OF ok]
  have less: "word_of_int (num L) + 1 < n \<longleftrightarrow> length xs + 1 < unat n"
    using size_word_less [of "length xs + 1" n] ok'(1) assms(2) by (simp add: add.commute)
  have inc: "inc (num L) = Some (num L + 1)" using ok'(1) assms(2) by simp
  consider "unat n = 0" | "length xs + 1 < unat n" | "xs = []" "unat n = 1"
    | "xs \<noteq> []" "unat n = length xs + 1" | "unat n \<noteq> 0" "unat n \<le> length xs"
    by (atomize_elim, cases "xs = []") auto
  then show ?thesis
  proof cases
    case 1
    then show ?thesis by (simp add: lins_n_def L u32_less_1)
  next
    case 2
    then show ?thesis by (simp add: lins_n_def L u32_less_1 inc less)
  next
    case 3
    have "\<not> n < 1" using 3 u32_less_1(1) [of n] by linarith
    then show ?thesis
      using 3 ladd_result [OF assms] ok'(1) less by (simp add: lins_n_def L inc)
  next
    case 4
    have u: "uint n = int (unat n)" by simp
    have "nth_loop h (hdp xs None) 1 n = Some None"
      using nth_loop_result [OF ok'(5), of 1 n] assms(2) unfolding u 4(2) by simp
    with 4 show ?thesis
      using ok'(1,3) less assms(2) by (simp add: lins_n_def L u32_less_1 inc)
  next
    case 5
    have "\<not> n < 1" "length xs \<noteq> 0" "unat n - 1 < length xs" using 5 by (auto simp: u32_less_1(1))
    then show ?thesis
      using 5 nth_pos(1) [OF ok 5] insert_ln_at [OF assms, of "unat n - 1" d] ok'(1) less assms(2)
      by (simp add: lins_n_def L inc)
  qed
qed

lemma lins_ln_result:
  assumes "list_rep h l xs fs ps" "length xs < 2147483647"
  shows "k < length xs \<Longrightarrow> wp (lins_ln h l (Some (fst (xs ! k))) d) (\<lambda>(r, h').
      r = 0 \<and> inserted h l fs ps (take k xs) d (drop k xs) h' \<or> r = - 1 \<and> refused h l xs fs ps h')"
    and "b \<notin> fst ` set xs \<Longrightarrow> lins_ln h l (Some b) d = Some (- 1, h)"
proof -
  from assms(1) obtain L where L: "lists h l = Some L" and ok: "list_ok h L xs fs [] ps"
    by (rule list_repD)
  note ok' = list_okD [OF ok]
  show "wp (lins_ln h l (Some (fst (xs ! k))) d) (\<lambda>(r, h').
      r = 0 \<and> inserted h l fs ps (take k xs) d (drop k xs) h' \<or> r = - 1 \<and> refused h l xs fs ps h')"
    if k: "k < length xs"
    using insert_ln_at [OF assms k] find_loop_result [OF ok'(5)] ok'(3) k
    by (simp add: lins_ln_def L)
  show "lins_ln h l (Some b) d = Some (- 1, h)" if "b \<notin> fst ` set xs"
    using that find_loop_result [OF ok'(5)] ok'(3) by (simp add: lins_ln_def L)
qed

subsection \<open>Removing\<close>

definition removed :: "'d heap \<Rightarrow> nat \<Rightarrow> 'd cells \<Rightarrow> lnode list \<Rightarrow> nat list \<Rightarrow> nat \<Rightarrow> 'd heap \<Rightarrow> bool" where
  "removed h l xs fs ps k h' \<longleftrightarrow>
     list_rep h' l (take k xs @ drop (Suc k) xs) (fst (xs ! k) # fs) ps \<and> others l ps ps h h'"

lemma remove_ln_at:
  assumes "list_rep h l xs fs ps" "k < length xs"
  shows "wp (remove_ln h l (Some (fst (xs ! k)))) (\<lambda>(r, h').
    r = snd (xs ! k) \<and> removed h l xs fs ps k h')"
proof -
  obtain us b e vs where x: "xs = us @ (b, e) # vs" "us = take k xs" "xs ! k = (b, e)"
    "(b, e) # vs = drop k xs" by (rule split_at [OF assms(2)])
  have vs: "vs = drop (Suc k) xs" using arg_cong [OF x(4), of tl] by (simp add: drop_Suc tl_drop)
  from remove_ln_result [of h l us b e vs fs ps] assms(1) show ?thesis
    unfolding removed_def x(3) x(2) [symmetric] vs [symmetric] x(1) [symmetric] by simp
qed

lemma lrmv_n_result:
  assumes "list_rep h l xs fs ps"
  shows "wp (lrmv_n h l n) (\<lambda>(r, h').
    if 1 \<le> unat n \<and> unat n \<le> length xs
    then r = snd (xs ! (unat n - 1)) \<and> removed h l xs fs ps (unat n - 1) h'
    else r = None \<and> h' = h)"
proof -
  from assms(1) obtain L where L: "lists h l = Some L" and ok: "list_ok h L xs fs [] ps"
    by (rule list_repD)
  note ok' = list_okD [OF ok]
  have less: "word_of_int (num L) < n \<longleftrightarrow> length xs < unat n"
    using size_word_less [of "length xs" n] ok'(1,2) by simp
  show ?thesis
  proof (cases "1 \<le> unat n \<and> unat n \<le> length xs")
    case True
    then have "\<not> n < 1" "\<not> length xs < unat n" "unat n \<noteq> 0" by (auto simp: u32_less_1(1))
    moreover have "unat n - 1 < length xs" using True by linarith
    ultimately show ?thesis
      using True nth_pos(1) [OF ok, of n] remove_ln_at [OF assms, of "unat n - 1"]
      by (simp add: lrmv_n_def L less)
  next
    case False
    then show ?thesis by (auto simp: lrmv_n_def L less u32_less_1 Suc_le_eq)
  qed
qed

lemma lrmv_result:
  assumes "list_rep h l xs fs ps"
  shows "wp (lrmv h l) (\<lambda>(r, h'). if xs = [] then r = None \<and> h' = h
    else r = snd (last xs) \<and> removed h l xs fs ps (length xs - 1) h')"
proof -
  from assms(1) obtain L where L: "lists h l = Some L" and ok: "list_ok h L xs fs [] ps"
    by (rule list_repD)
  note ok' = list_okD [OF ok]
  show ?thesis
  proof (cases "xs = []")
    case True
    then show ?thesis using ok' by (simp add: lrmv_def L)
  next
    case False
    then show ?thesis
      using ok' remove_ln_at [OF assms, of "length xs - 1"]
      by (simp add: lrmv_def L lastp_def last_conv_nth)
  qed
qed

lemma lrmv_ln_result:
  assumes "list_rep h l xs fs ps"
  shows "k < length xs \<Longrightarrow> wp (lrmv_ln h l (Some (fst (xs ! k)))) (\<lambda>(r, h').
      r = snd (xs ! k) \<and> removed h l xs fs ps k h')"
    and "b \<notin> fst ` set xs \<Longrightarrow> lrmv_ln h l (Some b) = Some (None, h)"
proof -
  from assms(1) obtain L where L: "lists h l = Some L" and ok: "list_ok h L xs fs [] ps"
    by (rule list_repD)
  note ok' = list_okD [OF ok]
  show "wp (lrmv_ln h l (Some (fst (xs ! k)))) (\<lambda>(r, h').
      r = snd (xs ! k) \<and> removed h l xs fs ps k h')" if k: "k < length xs"
    using remove_ln_at [OF assms k] find_loop_result [OF ok'(5)] ok'(3) k
    by (simp add: lrmv_ln_def L)
  show "lrmv_ln h l (Some b) = Some (None, h)" if "b \<notin> fst ` set xs"
    using that find_loop_result [OF ok'(5)] ok'(3) by (simp add: lrmv_ln_def L)
qed

text \<open>The first item with the given data.\<close>

lemma lrmv_d_loop_result:
  assumes "seg (nodes h) pr xs None" "0 \<le> i" "i + int (length xs) \<le> 2147483647"
  shows "\<forall>k < length xs. snd (xs ! k) \<noteq> d \<Longrightarrow> lrmv_d_loop h d i (hdp xs None) = Some None"
    and "k < length xs \<Longrightarrow> snd (xs ! k) = d \<Longrightarrow> \<forall>j < k. snd (xs ! j) \<noteq> d \<Longrightarrow>
      lrmv_d_loop h d i (hdp xs None) = Some (Some (fst (xs ! k)))"
  using assms
proof (induction xs arbitrary: pr i k)
  case Nil
  { case 1 show ?case by (subst lrmv_d_loop.simps) simp }
  { case 2 then show ?case by simp }
next
  case (Cons x xs)
  obtain a e where x: "x = (a, e)" by (cases x)
  { case 1
    then have "e \<noteq> d" "\<forall>k < length xs. snd (xs ! k) \<noteq> d" by (auto simp: x All_less_Suc2)
    then show ?case
      using 1 Cons.IH(1) [of "Some a" "i + 1"] by (subst lrmv_d_loop.simps) (simp add: x) }
  { case 2
    show ?case
    proof (cases k)
      case 0
      then show ?thesis using 2 by (subst lrmv_d_loop.simps) (simp add: x)
    next
      case (Suc j)
      then have "e \<noteq> d" "\<forall>i < j. snd (xs ! i) \<noteq> d" using 2(3) by (auto simp: x All_less_Suc2)
      then show ?thesis
        using 2 Suc Cons.IH(2) [of j "Some a" "i + 1"] by (subst lrmv_d_loop.simps) (simp add: x)
    qed }
qed

lemma lrmv_d_result:
  assumes "list_rep h l xs fs ps"
  shows "d \<notin> snd ` set xs \<Longrightarrow> lrmv_d h l d = Some (None, h)"
    and "k < length xs \<Longrightarrow> snd (xs ! k) = d \<Longrightarrow> \<forall>j < k. snd (xs ! j) \<noteq> d \<Longrightarrow>
      wp (lrmv_d h l d) (\<lambda>(r, h'). r = d \<and> removed h l xs fs ps k h')"
proof -
  from assms(1) obtain L where L: "lists h l = Some L" and ok: "list_ok h L xs fs [] ps"
    by (rule list_repD)
  note ok' = list_okD [OF ok]
  have n: "0 + int (length xs) \<le> 2147483647" using ok'(2) by simp
  show "lrmv_d h l d = Some (None, h)" if "d \<notin> snd ` set xs"
    using that lrmv_d_loop_result(1) [OF ok'(5) order.refl n, of d] ok'(3)
    by (force simp: lrmv_d_def L set_conv_nth)
  show "wp (lrmv_d h l d) (\<lambda>(r, h'). r = d \<and> removed h l xs fs ps k h')"
    if "k < length xs" "snd (xs ! k) = d" "\<forall>j < k. snd (xs ! j) \<noteq> d"
    using that lrmv_d_loop_result(2) [OF ok'(5) order.refl n, of k d] ok'(3) remove_ln_at [OF assms that(1)]
    by (simp add: lrmv_d_def L)
qed

end
