(* ===== verification/ListsLife.thy ===== *)
theory ListsLife
  imports ListsOps "HOL-Library.Sublist"
begin

text \<open>
  Creation, destruction and concatenation of the lists of \<^verbatim>\<open>lists.c\<close>.
\<close>

subsection \<open>Creation\<close>

text \<open>
  Whatever the number of elements asked for, also when the size of a pool does not fit in its
  \<^verbatim>\<open>short\<close>: a list that is created has pools that hold their nodes.
\<close>

lemma pool_nodes_bound:
  assumes "5 \<le> pool_nodes b"
  shows "16 + 24 * pool_nodes b \<le> sint b"
proof -
  define x where "x = sint b - 16"
  have x: "- 32784 \<le> x" "x < 32752"
    using sint_greater_eq [of b] sint_lt [of b] by (simp_all add: x_def)
  define q where "q = (x mod 2 ^ 64) div 24"
  have "uint ((word_of_int (sint b) - 16 :: u64) div 24) = q"
  proof -
    have "(word_of_int (sint b) - 16 :: u64) = word_of_int x"
      unfolding x_def wi_hom_syms by simp
    then have "uint (word_of_int (sint b) - 16 :: u64) = x mod 2 ^ 64"
      using uint_word_of_int [of x, where 'a = 64] by simp
    then show ?thesis unfolding q_def uint_div by simp
  qed
  then have n: "pool_nodes b = signed_take_bit 31 (take_bit 32 q)"
    unfolding pool_nodes_def by (simp add: sint_uint unsigned_ucast_eq)
  show ?thesis
  proof (cases "0 \<le> x")
    case True
    then have "q = x div 24" "0 \<le> q" "q < 1365" using x by (auto simp: q_def)
    moreover from this have "pool_nodes b = q"
      by (simp add: n take_bit_int_eq_self signed_take_bit_int_eq_self)
    ultimately show ?thesis by (simp add: x_def)
  next
    case False
    have "(x + 2 ^ 64) mod 2 ^ 64 = x + 2 ^ 64"
      using False x by (intro mod_pos_pos_trivial) simp_all
    then have "q = (x + 2 ^ 64) div 24" by (simp add: q_def)
    then have "768614336404563284 \<le> q" "q \<le> 768614336404564650" using False x by simp_all
    define r where "r = q - 178956970 * 2 ^ 32"
    then have r: "q = r + 178956970 * 2 ^ 32" "2 ^ 31 \<le> r" "r < 2 ^ 32"
      using \<open>768614336404563284 \<le> q\<close> \<open>q \<le> 768614336404564650\<close> by simp_all
    have "take_bit 32 q = r mod 2 ^ 32" unfolding r(1) take_bit_eq_mod by (rule mod_mult_self1)
    also have "\<dots> = r" using r(2,3) by (intro mod_pos_pos_trivial) simp_all
    finally have "pool_nodes b = (r + 2 ^ 31) mod 2 ^ 32 - 2 ^ 31"
      by (simp add: n signed_take_bit_eq_take_bit_shift take_bit_eq_mod)
    also have "(r + 2 ^ 31) mod 2 ^ 32 = (r - 2 ^ 31 + 1 * 2 ^ 32) mod 2 ^ 32"
      by (simp add: add.commute)
    also have "\<dots> = r - 2 ^ 31"
      using r(2,3) unfolding mod_mult_self1 by (intro mod_pos_pos_trivial) simp_all
    finally have "pool_nodes b < 0" using r(3) by simp
    with assms show ?thesis by simp
  qed
qed

lemma sint_pool_bytes:
  assumes "0 < e" "e \<le> 1364"
  shows "sint (pool_bytes e) = 24 * e + 16"
proof -
  have "uint (word_of_int e * 24 + 16 :: u64) = 24 * e + 16"
  proof -
    have "(word_of_int e * 24 + 16 :: u64) = word_of_int (24 * e + 16)" by (simp add: mult.commute)
    then have "uint (word_of_int e * 24 + 16 :: u64) = (24 * e + 16) mod 2 ^ 64"
      using uint_word_of_int [of "24 * e + 16", where 'a = 64] by (simp add: mult.commute)
    then show ?thesis using assms by simp
  qed
  then have "uint (pool_bytes e) = take_bit 16 (24 * e + 16)"
    using assms by (simp add: pool_bytes_def unsigned_ucast_eq)
  then have "uint (pool_bytes e) = 24 * e + 16"
    using assms by (simp add: take_bit_int_eq_self)
  then show ?thesis using assms by (simp add: sint_uint signed_take_bit_int_eq_self)
qed

lemma pool_nodes_exact:
  assumes "16 \<le> sint b"
  shows "pool_nodes b = (sint b - 16) div 24"
proof -
  define x where "x = sint b - 16"
  have x: "0 \<le> x" "x < 32752" using assms sint_lt [of b] by (simp_all add: x_def)
  have "(word_of_int (sint b) - 16 :: u64) = word_of_int x"
    unfolding x_def wi_hom_syms by simp
  then have "uint (word_of_int (sint b) - 16 :: u64) = x mod 2 ^ 64"
    using uint_word_of_int [of x, where 'a = 64] by simp
  also have "\<dots> = x" using x by simp
  finally have "uint ((word_of_int (sint b) - 16 :: u64) div 24) = x div 24"
    unfolding uint_div by simp
  then have "pool_nodes b = signed_take_bit 31 (take_bit 32 (x div 24))"
    unfolding pool_nodes_def by (simp add: sint_uint unsigned_ucast_eq)
  also have "\<dots> = x div 24"
    using x by (simp add: take_bit_int_eq_self signed_take_bit_int_eq_self)
  finally show ?thesis by (simp add: x_def)
qed

lemma pool_nodes_elements:
  "0 < e \<Longrightarrow> e \<le> 1364 \<Longrightarrow> pool_nodes (pool_bytes e) = e" "pool_nodes (pool_bytes 0) = 20"
  using pool_nodes_exact [of "pool_bytes e"] pool_nodes_exact [of "512 :: u16"]
  by (simp_all add: sint_pool_bytes pool_bytes_def [of 0] DEFAULT_POOLSIZE_def)

text \<open>A list that was just created.\<close>

definition new_list :: "bool \<Rightarrow> int \<Rightarrow> LIST" where
  "new_list foc e = \<lparr>num = 0, free_on_close = foc, poolsize = pool_bytes e,
     n_ln_pool = pool_nodes (pool_bytes e), top = None, bottom = None, next_ln = None,
     np_top = None, np_bottom = None\<rparr>"

lemma new_list_ok: "5 \<le> pool_nodes (pool_bytes e) \<Longrightarrow> list_ok h (new_list foc e) [] [] [] []"
  using pool_nodes_bound [of "pool_bytes e"]
  by (simp add: list_ok_def new_list_def pool_ok_def slots_def hdo_def lasto_def)

lemma lcreat_result:
  "lcreat junk h None e = Some (
     if oom h (mallocs h) then (None, h\<lparr>mallocs := mallocs h + 1\<rparr>)
     else if pool_nodes (pool_bytes e) < 5
     then (None, h\<lparr>mallocs := mallocs h + 1, lists := (lists h)(mallocs h := None)\<rparr>)
     else (Some (mallocs h), h\<lparr>mallocs := mallocs h + 1,
             lists := (lists h)(mallocs h \<mapsto> new_list True e)\<rparr>))"
  "lists h a = Some L \<Longrightarrow> \<not> pool_nodes (pool_bytes e) < 5 \<Longrightarrow>
   lcreat junk h (Some a) e = Some (Some a, h\<lparr>lists := (lists h)(a \<mapsto> new_list False e)\<rparr>)"
  "lists h a = Some L \<Longrightarrow> pool_nodes (pool_bytes e) < 5 \<Longrightarrow>
   map_option fst (lcreat junk h (Some a) e) = Some None"
proof -
  show "lcreat junk h None e = Some (
     if oom h (mallocs h) then (None, h\<lparr>mallocs := mallocs h + 1\<rparr>)
     else if pool_nodes (pool_bytes e) < 5
     then (None, h\<lparr>mallocs := mallocs h + 1, lists := (lists h)(mallocs h := None)\<rparr>)
     else (Some (mallocs h), h\<lparr>mallocs := mallocs h + 1,
             lists := (lists h)(mallocs h \<mapsto> new_list True e)\<rparr>))"
    by (cases junk) (simp add: lcreat_def malloc_def new_list_def)
  show "lcreat junk h (Some a) e = Some (Some a, h\<lparr>lists := (lists h)(a \<mapsto> new_list False e)\<rparr>)"
    if "lists h a = Some L" "\<not> pool_nodes (pool_bytes e) < 5"
    using that by (cases L) (simp add: lcreat_def new_list_def)
  show "map_option fst (lcreat junk h (Some a) e) = Some None"
    if "lists h a = Some L" "pool_nodes (pool_bytes e) < 5"
    using that by (simp add: lcreat_def)
qed

subsection \<open>Destruction\<close>

definition without_pools :: "nat set \<Rightarrow> 'd heap \<Rightarrow> 'd heap" where
  "without_pools ps h = h\<lparr>pools := (\<lambda>p. if p \<in> ps then None else pools h p),
     nodes := (\<lambda>a. if pool_of a \<in> ps then None else nodes h a)\<rparr>"

lemma ldestroy_loop_result:
  assumes "pchain (pools h) B pr ps" "distinct ps"
  shows "ldestroy_loop h (hdo ps) = Some (without_pools (set ps) h)"
  using assms
proof (induction ps arbitrary: h pr)
  case Nil
  then show ?case by (subst ldestroy_loop.simps) (simp add: without_pools_def)
next
  case (Cons p ps)
  define h1 where "h1 = without_pools {p} h"
  have "pchain (pools h1) B (Some p) ps = pchain (pools h) B (Some p) ps"
    by (rule pchain_cong) (use Cons.prems in \<open>auto simp: h1_def without_pools_def\<close>)
  then have "ldestroy_loop h1 (hdo ps) = Some (without_pools (set ps) h1)"
    using Cons.prems by (intro Cons.IH [of _ "Some p"]) simp_all
  also have "without_pools (set ps) h1 = without_pools (set (p # ps)) h"
    by (simp add: h1_def without_pools_def fun_eq_iff cong: if_cong)
  finally have "ldestroy_loop h1 (hdo ps) = Some (without_pools (set (p # ps)) h)" .
  moreover have "free_pool h p = Some h1"
    using Cons.prems by (simp add: free_pool_def h1_def without_pools_def fun_upd_def)
  ultimately show ?case
    using Cons.prems by (subst ldestroy_loop.simps) simp
qed

lemma ldestroy_result:
  assumes "list_rep h l xs fs ps"
  shows "ldestroy h l = Some ((without_pools (set ps) h)\<lparr>lists :=
    if free_on_close (the (lists h l)) then (lists h)(l := None) else lists h\<rparr>)"
proof -
  from assms obtain L where L: "lists h l = Some L" and ok: "list_ok h L xs fs [] ps"
    by (rule list_repD)
  have "ldestroy_loop h (np_top L) = Some (without_pools (set ps) h)"
    using ok ldestroy_loop_result [of h _ None ps] by (auto simp: list_ok_def)
  then show ?thesis by (simp add: ldestroy_def L without_pools_def)
qed

fun call_each :: "('d option \<Rightarrow> 's \<Rightarrow> 's option) \<Rightarrow> 'd option list \<Rightarrow> 's \<Rightarrow> 's option" where
  "call_each f [] s = Some s"
| "call_each f (d # ds) s = do { s \<leftarrow> f d s; call_each f ds s }"

lemma ldestroy_cb_result:
  assumes "list_rep h l xs fs ps"
  shows "ldestroy_cb h l ucleanup s = do {
    s \<leftarrow> call_each ucleanup (map snd xs) s;
    h \<leftarrow> ldestroy h l;
    Some (s, h)
  }"
proof -
  from assms obtain L where L: "lists h l = Some L" and ok: "list_ok h L xs fs [] ps"
    by (rule list_repD)
  have "ldestroy_cb_loop h ucleanup s (hdp xs None) = call_each ucleanup (map snd xs) s"
    if "seg (nodes h) pr xs None" for pr
    using that
  proof (induction xs arbitrary: pr s)
    case Nil
    then show ?case by (subst ldestroy_cb_loop.simps) simp
  next
    case (Cons x xs)
    obtain a d where [simp]: "x = (a, d)" by (cases x)
    show ?case
      using Cons.prems Cons.IH [of "Some a"] by (subst ldestroy_cb_loop.simps) simp
  qed
  then show ?thesis using list_okD [OF ok] by (simp add: ldestroy_cb_def L)
qed

subsection \<open>Concatenation\<close>

text \<open>
  The data of the second list move to the end of the first. Without memory for a node the datum is
  lost, since \<^verbatim>\<open>lcat\<close> does not look at what \<^verbatim>\<open>ladd\<close> returns.
\<close>

text \<open>The lists outside of \<open>ls\<close> keep what they represent, and apart from the pools of those in \<open>ls\<close>.\<close>

definition bystanders :: "nat set \<Rightarrow> nat set \<Rightarrow> nat set \<Rightarrow> 'd heap \<Rightarrow> 'd heap \<Rightarrow> bool" where
  "bystanders ls P P' h h' \<longleftrightarrow> mallocs h \<le> mallocs h' \<and> (\<forall>k. k \<notin> ls \<longrightarrow> lists h' k = lists h k) \<and>
     (\<forall>k ys gs qs. k \<notin> ls \<longrightarrow> list_rep h k ys gs qs \<longrightarrow> set qs \<inter> P = {} \<longrightarrow>
        list_rep h' k ys gs qs \<and> set qs \<inter> P' = {})"

lemma bystanders_refl [simp]: "bystanders ls P P h h"
  by (simp add: bystanders_def)

lemma bystandersD:
  assumes "bystanders ls P P' h h'" "k \<notin> ls"
  shows "lists h' k = lists h k"
    and "list_rep h k ys gs qs \<Longrightarrow> set qs \<inter> P = {} \<Longrightarrow> list_rep h' k ys gs qs \<and> set qs \<inter> P' = {}"
  using assms unfolding bystanders_def by blast+

lemma bystanders_trans:
  assumes "bystanders ls P P1 h h1" "bystanders ls P1 P2 h1 h2"
  shows "bystanders ls P P2 h h2"
proof -
  have "mallocs h \<le> mallocs h2" using assms by (simp add: bystanders_def)
  moreover have "lists h2 k = lists h k" if "k \<notin> ls" for k
    using bystandersD(1) [OF assms(1) that] bystandersD(1) [OF assms(2) that] by simp
  moreover have "list_rep h2 k ys gs qs \<and> set qs \<inter> P2 = {}"
    if "k \<notin> ls" "list_rep h k ys gs qs" "set qs \<inter> P = {}" for k ys gs qs
    using bystandersD(2) [OF assms(2) that(1)] bystandersD(2) [OF assms(1) that] by blast
  ultimately show ?thesis by (simp add: bystanders_def)
qed

lemma others_bystanders:
  assumes "others l ps ps' h h'" "l \<in> ls"
  shows "bystanders ls (set ps \<union> X) (set ps' \<union> X) h h'" "bystanders ls (X \<union> set ps) (X \<union> set ps') h h'"
proof -
  show *: "bystanders ls (set ps \<union> X) (set ps' \<union> X) h h'"
    unfolding bystanders_def
  proof (intro conjI allI impI)
    show "mallocs h \<le> mallocs h'" using assms(1) by (simp add: others_def)
    show "lists h' k = lists h k" if "k \<notin> ls" for k
      using that assms by (auto simp: others_def)
    fix k ys gs qs
    assume k: "k \<notin> ls" "list_rep h k ys gs qs" "set qs \<inter> (set ps \<union> X) = {}"
    then have "k \<noteq> l" "set qs \<inter> set ps = {}" using assms(2) by auto
    from others_rep [OF assms(1) this(1) k(2) this(2)] k(3)
    show "list_rep h' k ys gs qs" "set qs \<inter> (set ps' \<union> X) = {}" by auto
  qed
  then show "bystanders ls (X \<union> set ps) (X \<union> set ps') h h'" by (simp add: Un_commute)
qed

definition catenated ::
  "'d heap \<Rightarrow> nat \<Rightarrow> nat \<Rightarrow> nat set \<Rightarrow> 'd option list \<Rightarrow> 'd option list \<Rightarrow> 'd heap \<Rightarrow> bool" where
  "catenated h l1 l2 P ds1 ds2 h' \<longleftrightarrow> (\<exists>zs ys fs1 ps1 fs2 ps2.
     list_rep h' l1 ys fs1 ps1 \<and> map snd ys = ds1 @ zs \<and> subseq zs ds2 \<and>
     ((\<forall>k. \<not> oom h k) \<longrightarrow> zs = ds2) \<and>
     list_rep h' l2 [] fs2 ps2 \<and> set ps1 \<inter> set ps2 = {} \<and>
     bystanders {l1, l2} P (set ps1 \<union> set ps2) h h')"

lemma catenated_step:
  assumes "bystanders {l1, l2} P P1 h h1" "oom h1 = oom h"
    and "subseq xs ys" "(\<forall>k. \<not> oom h k) \<Longrightarrow> xs = ys"
    and "catenated h1 l1 l2 P1 (ds1 @ xs) ds2 h'"
  shows "catenated h l1 l2 P ds1 (ys @ ds2) h'"
proof -
  from assms(5) obtain zs zys fs1 ps1 fs2 ps2 where
    z: "list_rep h' l1 zys fs1 ps1" "map snd zys = ds1 @ xs @ zs" "subseq zs ds2"
      "(\<forall>k. \<not> oom h k) \<longrightarrow> zs = ds2" "list_rep h' l2 [] fs2 ps2" "set ps1 \<inter> set ps2 = {}"
      "bystanders {l1, l2} P1 (set ps1 \<union> set ps2) h1 h'"
    unfolding catenated_def assms(2) append_assoc by blast
  have "subseq (xs @ zs) (ys @ ds2)" using assms(3) z(3) by (rule list_emb_append_mono)
  with z assms(4) bystanders_trans [OF assms(1) z(7)] show ?thesis
    unfolding catenated_def by (intro exI [of _ "xs @ zs"] exI [of _ zys] exI [of _ fs1] exI [of _ ps1]
      exI [of _ fs2] exI [of _ ps2]) auto
qed

lemma refused_rep:
  "refused h l xs fs ps h' \<Longrightarrow> list_rep h' l xs [] ps \<and> others l ps ps h h' \<and> oom h (mallocs h)"
  by (simp add: refused_def starved_def)

lemma lcat_loop_result:
  assumes "list_rep h l1 xs1 fs1 ps1" "list_rep h l2 xs2 fs2 ps2" "l1 \<noteq> l2"
    and "set ps1 \<inter> set ps2 = {}" "length xs1 + length xs2 \<le> 2147483647"
  shows "wp (lcat_loop h l1 l2) (catenated h l1 l2 (set ps1 \<union> set ps2) (map snd xs1) (map snd xs2))"
  using assms
proof (induction xs2 arbitrary: h xs1 fs1 ps1 fs2)
  case Nil
  then have "lsize h l2 = Some 0" using walk_result(3) by fastforce
  moreover have "catenated h l1 l2 (set ps1 \<union> set ps2) (map snd xs1) (map snd ([] :: 'a cells)) h"
    unfolding catenated_def using Nil.prems
    by (intro exI [of _ "[]"] exI [of _ xs1] exI [of _ fs1] exI [of _ ps1] exI [of _ fs2]
        exI [of _ ps2]) simp
  ultimately show ?case by (subst lcat_loop.simps) simp
next
  case (Cons x xs2)
  let ?Q = "catenated h l1 l2 (set ps1 \<union> set ps2) (map snd xs1) (snd x # map snd xs2)"
  have sz: "lsize h l2 = Some (int (length xs2) + 1)" using walk_result(3) [OF Cons.prems(2)] by simp
  have rm: "wp (lrmv_n h l2 1) (\<lambda>(r, h'). r = snd x \<and> removed h l2 (x # xs2) fs2 ps2 0 h')"
    using lrmv_n_result [OF Cons.prems(2), of 1] by simp
  show ?case
    unfolding lcat_loop.simps [of h]
  proof (simp add: sz, rule wp_conseq [OF rm], clarsimp)
    fix h1
    assume "removed h l2 (x # xs2) fs2 ps2 0 h1"
    then have r2: "list_rep h1 l2 xs2 (fst x # fs2) ps2" and o: "others l2 ps2 ps2 h h1"
      by (simp_all add: removed_def)
    have r1: "list_rep h1 l1 xs1 fs1 ps1"
      using others_rep(1) [OF o Cons.prems(3) Cons.prems(1)] Cons.prems(4) by blast
    have len: "length xs1 < 2147483647" using Cons.prems(5) by simp
    have oom: "oom h1 = oom h" using o by (simp add: others_def)
    note by1 = others_bystanders(2) [OF o, of "{l1, l2}" "set ps1"]
    show "wp (ladd h1 l1 (snd x)) (\<lambda>a. wp (case a of (_, h) \<Rightarrow> lcat_loop h l1 l2) ?Q)"
    proof (rule wp_conseq [OF ladd_result [OF r1 len]], clarsimp, elim disjE conjE)
      fix h2
      assume "inserted h1 l1 fs1 ps1 xs1 (snd x) [] h2"
      then obtain a fs' ps' where o1: "others l1 ps1 ps' h1 h2"
        and a: "list_rep h2 l1 (xs1 @ [(a, snd x)]) fs' ps'" by (auto simp: inserted_def)
      note k = others_rep [OF o1 not_sym [OF Cons.prems(3)] r2] Cons.prems(4)
      have st: "bystanders {l1, l2} (set ps1 \<union> set ps2) (set ps' \<union> set ps2) h h2"
        using bystanders_trans [OF by1 others_bystanders(1) [OF o1]] by simp
      have "wp (lcat_loop h2 l1 l2)
          (catenated h2 l1 l2 (set ps' \<union> set ps2) (map snd (xs1 @ [(a, snd x)])) (map snd xs2))"
        using k Cons.prems(3,5) by (intro Cons.IH [OF a]) auto
      moreover have "oom h2 = oom h" using o1 oom by (simp add: others_def)
      ultimately show "wp (lcat_loop h2 l1 l2) ?Q"
        using catenated_step [OF st, of "[snd x]" "[snd x]"] by (auto elim!: wp_conseq)
    next
      fix h2
      assume "refused h1 l1 xs1 fs1 ps1 h2"
      then have b: "list_rep h2 l1 xs1 [] ps1" "others l1 ps1 ps1 h1 h2" "oom h (mallocs h1)"
        using refused_rep oom by fastforce+
      note k = others_rep [OF b(2) not_sym [OF Cons.prems(3)] r2] Cons.prems(4)
      have st: "bystanders {l1, l2} (set ps1 \<union> set ps2) (set ps1 \<union> set ps2) h h2"
        using bystanders_trans [OF by1 others_bystanders(1) [OF b(2)]] by simp
      have "wp (lcat_loop h2 l1 l2) (catenated h2 l1 l2 (set ps1 \<union> set ps2) (map snd xs1) (map snd xs2))"
        using k Cons.prems(3,5) by (intro Cons.IH [OF b(1)]) auto
      moreover have "oom h2 = oom h" using b(2) oom by (simp add: others_def)
      ultimately show "wp (lcat_loop h2 l1 l2) ?Q"
        using catenated_step [OF st, of "[]" "[snd x]"] b(3) by (auto elim!: wp_conseq)
    qed
  qed
qed

lemma lcat_result:
  assumes "list_rep h l1 xs1 fs1 ps1" "list_rep h l2 xs2 fs2 ps2" "l1 \<noteq> l2"
    and "set ps1 \<inter> set ps2 = {}" "length xs1 + length xs2 \<le> 2147483647"
  shows "wp (lcat h l1 l2) (\<lambda>(r, h'). r = l1 \<and>
    catenated h l1 l2 (set ps1 \<union> set ps2) (map snd xs1) (map snd xs2) h')"
  using lcat_loop_result [OF assms] by (simp add: lcat_def)

text \<open>A list that is appended to itself takes its own first item to its end, and again, forever.\<close>

lemma rotate_once:
  assumes "list_rep h l (x # xs) fs ps" "lrmv_n h l 1 = Some (d, h1)" "ladd h1 l d = Some (r, h2)"
  shows "\<exists>ys fs' ps'. list_rep h2 l ys fs' ps' \<and> map snd ys = map snd xs @ [snd x]"
proof -
  from assms(1) obtain L where "list_ok h L (x # xs) fs [] ps" by (rule list_repD)
  then have len: "length xs < 2147483647" using list_okD(2) by fastforce
  have "d = snd x" "removed h l (x # xs) fs ps 0 h1"
    using lrmv_n_result [OF assms(1), of 1] assms(2) by simp_all
  then have "list_rep h1 l xs (fst x # fs) ps" by (simp add: removed_def)
  from ladd_result [OF this len, of d] assms(3) have "inserted h1 l (fst x # fs) ps xs (snd x) [] h2"
    using \<open>d = snd x\<close> by (auto simp: refused_def starved_def)
  then obtain a fs' ps' where "list_rep h2 l (xs @ [(a, snd x)]) fs' ps'" by (auto simp: inserted_def)
  then show ?thesis by (intro exI [of _ "xs @ [(a, snd x)]"]) auto
qed

lemma lcat_loop_self:
  assumes "lcat_loop h a b = Some r"
  shows "a = b \<longrightarrow> list_rep h a xs fs ps \<longrightarrow> xs = []"
  using assms
proof (induction arbitrary: xs fs ps rule: lcat_loop.raw_induct [rotated, consumes 1])
  case (1 f h a b r)
  show ?case
  proof (intro impI, rule ccontr)
    assume ab: "a = b" and rep: "list_rep h a xs fs ps" and "xs \<noteq> []"
    then obtain x ys where xs: "xs = x # ys" by (cases xs) auto
    have "lsize h a = Some (int (length ys) + 1)" using walk_result(3) [OF rep] xs by simp
    with 1(2) ab obtain d h1 e h2 where s: "lrmv_n h a 1 = Some (d, h1)" "ladd h1 a d = Some (e, h2)"
      and f: "f h2 a a = Some r" by (auto simp: bind_eq_Some_conv)
    from rotate_once [OF rep [unfolded xs] s] obtain zs fs' ps' where
      "list_rep h2 a zs fs' ps'" "zs \<noteq> []" by fastforce
    with 1(1) [OF f] show False by blast
  qed
qed

lemma lcat_self_diverges:
  assumes "list_rep h l xs fs ps" "xs \<noteq> []"
  shows "lcat h l l = None"
  using lcat_loop_self [of h l l] assms by (cases "lcat_loop h l l") (auto simp: lcat_def)

subsection \<open>Filling a list\<close>

text \<open>The heap of a program that has created one list, with memory that never runs out.\<close>

definition one_list :: "int \<Rightarrow> 'd heap" where
  "one_list e = \<lparr>nodes = (\<lambda>_. None), pools = (\<lambda>_. None), lists = [0 \<mapsto> new_list True e],
     mallocs = 1, oom = (\<lambda>_. False)\<rparr>"

lemma one_list_rep: "5 \<le> pool_nodes (pool_bytes e) \<Longrightarrow> list_rep (one_list e) 0 [] [] []"
  by (simp add: list_rep_def one_list_def new_list_ok)

fun ladd_all :: "'d heap \<Rightarrow> nat \<Rightarrow> 'd option list \<Rightarrow> 'd heap option" where
  "ladd_all h l [] = Some h"
| "ladd_all h l (d # ds) = do { (r, h) \<leftarrow> ladd h l d; ladd_all h l ds }"

lemma ladd_all_result:
  assumes "list_rep h l xs fs ps" "length xs + length ds \<le> 2147483647" "\<forall>k. \<not> oom h k"
  shows "wp (ladd_all h l ds) (\<lambda>h'. \<exists>ys fs' ps'. list_rep h' l (xs @ ys) fs' ps' \<and>
    map snd ys = ds \<and> others l ps ps' h h')"
  using assms
proof (induction ds arbitrary: h xs fs ps)
  case Nil
  have "list_rep h l (xs @ []) fs ps" using Nil by simp
  then show ?case using others_refl unfolding ladd_all.simps wp_Some by blast
next
  case (Cons d ds)
  have len: "length xs < 2147483647" using Cons.prems(2) by simp
  show ?case
    unfolding ladd_all.simps
  proof (rule wp_bind_conseq [OF ladd_result [OF Cons.prems(1) len, of d]])
    fix z :: "int \<times> 'a heap"
    obtain r h1 where z: "z = (r, h1)" by (cases z)
    assume "case z of (r, h') \<Rightarrow> r = 0 \<and> inserted h l fs ps xs d [] h' \<or> r = - 1 \<and> refused h l xs fs ps h'"
    then have "inserted h l fs ps xs d [] h1"
      using Cons.prems(3) by (auto simp: z refused_def starved_def)
    then obtain a fs' ps' where 1: "others l ps ps' h h1" "list_rep h1 l (xs @ [(a, d)]) fs' ps'"
      by (auto simp: inserted_def)
    have "wp (ladd_all h1 l ds) (\<lambda>h'. \<exists>ys fs1 ps1. list_rep h' l ((xs @ [(a, d)]) @ ys) fs1 ps1 \<and>
        map snd ys = ds \<and> others l ps' ps1 h1 h')"
      using 1 Cons.prems by (intro Cons.IH) (auto simp: others_def)
    then show "wp (case z of (r, h) \<Rightarrow> ladd_all h l ds) (\<lambda>h'. \<exists>ys fs' ps'.
        list_rep h' l (xs @ ys) fs' ps' \<and> map snd ys = d # ds \<and> others l ps ps' h h')"
      unfolding z prod.case
    proof (rule wp_conseq, elim exE conjE)
      fix h' ys fs1 ps1
      assume "list_rep h' l ((xs @ [(a, d)]) @ ys) fs1 ps1" "map snd ys = ds" "others l ps' ps1 h1 h'"
      with others_trans [OF 1(1)] show "\<exists>ys fs' ps'. list_rep h' l (xs @ ys) fs' ps' \<and>
          map snd ys = d # ds \<and> others l ps ps' h h'"
        by (intro exI [of _ "(a, d) # ys"]) auto
    qed
  qed
qed

lemma filled_list:
  assumes "length ds \<le> 2147483647"
  obtains h xs fs ps where "ladd_all (one_list 0) 0 ds = Some h" "list_rep h 0 xs fs ps" "map snd xs = ds"
    "\<forall>k. \<not> oom h k"
proof -
  have rep: "list_rep (one_list 0) 0 [] [] []" by (rule one_list_rep) (simp add: pool_nodes_elements)
  have "wp (ladd_all (one_list 0) 0 ds) (\<lambda>h'. \<exists>ys fs' ps'. list_rep h' 0 ([] @ ys) fs' ps' \<and>
    map snd ys = ds \<and> others 0 [] ps' (one_list 0) h')"
    by (rule ladd_all_result [OF rep]) (use assms in \<open>simp_all add: one_list_def\<close>)
  then show ?thesis using that by (auto simp: wp_ex others_def one_list_def)
qed

text \<open>Two lists with the data of the caller in them.\<close>

lemma two_filled_lists:
  assumes "length ds \<le> 2147483647" "length es \<le> 2147483647"
  obtains g h xs1 fs1 ps1 xs2 fs2 ps2 where
    "ladd_all ((one_list 0)\<lparr>mallocs := 2, lists := [0 \<mapsto> new_list True 0, 1 \<mapsto> new_list True 0]\<rparr>) 0 ds = Some g"
    "ladd_all g 1 es = Some h" "list_rep h 0 xs1 fs1 ps1" "list_rep h 1 xs2 fs2 ps2"
    "map snd xs1 = ds" "map snd xs2 = es" "set ps1 \<inter> set ps2 = {}" "\<forall>k. \<not> oom h k"
proof -
  let ?h = "(one_list 0)\<lparr>mallocs := 2, lists := [0 \<mapsto> new_list True 0, 1 \<mapsto> new_list True 0]\<rparr> :: 'a heap"
  have rep: "list_rep ?h 0 [] [] []" "list_rep ?h 1 [] [] []"
    by (simp_all add: list_rep_def new_list_ok pool_nodes_elements)
  obtain g ys gs qs where g: "ladd_all ?h 0 ds = Some g" "list_rep g 0 ys gs qs" "map snd ys = ds"
      and o: "others 0 [] qs ?h g"
    using ladd_all_result [OF rep(1), of ds] assms(1) by (auto simp: wp_ex one_list_def)
  have 1: "list_rep g 1 [] [] []" using others_rep [OF o _ rep(2)] by simp
  have oom: "\<forall>k. \<not> oom g k" using o by (simp add: others_def one_list_def)
  obtain h zs hs rs where h: "ladd_all g 1 es = Some h" "list_rep h 1 zs hs rs" "map snd zs = es"
      and o2: "others 1 [] rs g h"
    using ladd_all_result [OF 1, of es] assms(2) oom by (auto simp: wp_ex)
  have "list_rep h 0 ys gs qs" "set qs \<inter> set rs = {}"
    using others_rep [OF o2 _ g(2)] by simp_all
  moreover have "\<forall>k. \<not> oom h k" using o2 oom by (simp add: others_def)
  ultimately show ?thesis using that g h by blast
qed

subsection \<open>Properties\<close>

text \<open>C34: Appending a list to another moves its items, in order, behind those of the first and leaves
  the second empty, if memory does not run out; the lists are well formed and all others unchanged.\<close>

theorem lcat_moves:
  assumes "list_rep h l1 xs1 fs1 ps1" "list_rep h l2 xs2 fs2 ps2" "l1 \<noteq> l2"
    and "set ps1 \<inter> set ps2 = {}" "length xs1 + length xs2 \<le> 2147483647" "\<forall>k. \<not> oom h k"
  shows "\<exists>h' ys gs1 qs1 gs2 qs2. lcat h l1 l2 = Some (l1, h') \<and>
    list_rep h' l1 ys gs1 qs1 \<and> map snd ys = map snd xs1 @ map snd xs2 \<and>
    list_rep h' l2 [] gs2 qs2 \<and> set qs1 \<inter> set qs2 = {} \<and>
    bystanders {l1, l2} (set ps1 \<union> set ps2) (set qs1 \<union> set qs2) h h'"
  using lcat_result [OF assms(1-5)] assms(6) by (fastforce simp: wp_ex catenated_def)

theorem lcat_moves_witness:
  "\<exists>g h h' ys gs qs. ladd_all ((one_list 0)\<lparr>mallocs := 2, lists := [0 \<mapsto> new_list True 0, 1 \<mapsto> new_list True 0]\<rparr>)
       0 [Some (1::nat)] = Some g \<and> ladd_all g 1 [Some 2, Some 3] = Some h \<and>
     lcat h 0 1 = Some (0, h') \<and> list_rep h' 0 ys gs qs \<and> map snd ys = [Some 1, Some 2, Some 3]"
proof -
  obtain g h xs1 fs1 ps1 xs2 fs2 ps2 where g:
      "ladd_all ((one_list 0)\<lparr>mallocs := 2, lists := [0 \<mapsto> new_list True 0, 1 \<mapsto> new_list True 0]\<rparr>)
         0 [Some (1::nat)] = Some g"
      "ladd_all g 1 [Some 2, Some 3] = Some h"
      and h: "list_rep h 0 xs1 fs1 ps1" "list_rep h 1 xs2 fs2 ps2" "set ps1 \<inter> set ps2 = {}" "\<forall>k. \<not> oom h k"
      and xs: "map snd xs1 = [Some 1]" "map snd xs2 = [Some 2, Some 3]"
    by (rule two_filled_lists [of "[Some (1::nat)]" "[Some 2, Some 3]"]) simp_all
  have "length xs1 + length xs2 \<le> 2147483647"
    using arg_cong [OF xs(1), of length] arg_cong [OF xs(2), of length] by simp
  from lcat_moves [OF h(1,2) _ h(3) this h(4)] obtain h' ys gs qs where
    "lcat h 0 1 = Some (0, h')" "list_rep h' 0 ys gs qs" "map snd ys = [Some 1, Some 2, Some 3]"
    unfolding xs by auto
  with g show ?thesis by (intro exI conjI)
qed

text \<open>C35: Destroying a list returns all of its pools and nodes, and the list structure if the package
  allocated it; the clean-up function of the caller sees every item once, from the first to the last.\<close>

theorem ldestroy_frees:
  assumes "list_rep h l xs fs ps" "call_each f (map snd xs) s = Some s'"
  shows "\<exists>h'. ldestroy_cb h l f s = Some (s', h') \<and> (\<forall>p \<in> set ps. pools h' p = None) \<and>
    (\<forall>a. pool_of a \<in> set ps \<longrightarrow> nodes h' a = None) \<and>
    (\<forall>p. p \<notin> set ps \<longrightarrow> pools h' p = pools h p) \<and> (\<forall>a. pool_of a \<notin> set ps \<longrightarrow> nodes h' a = nodes h a) \<and>
    lists h' = (if free_on_close (the (lists h l)) then (lists h)(l := None) else lists h)"
  by (simp add: ldestroy_cb_result [OF assms(1)] assms(2) ldestroy_result [OF assms(1)] without_pools_def)

theorem ldestroy_frees_witness:
  "\<exists>h h'. ladd_all (one_list 0) 0 [Some (1::nat), Some 2] = Some h \<and>
     ldestroy_cb h 0 (\<lambda>d seen. Some (seen @ [d])) [] = Some ([Some 1, Some 2], h')"
proof -
  obtain h xs fs ps where h: "ladd_all (one_list 0) 0 [Some (1::nat), Some 2] = Some h"
      "list_rep h 0 xs fs ps" and xs: "map snd xs = [Some 1, Some 2]"
    by (rule filled_list [of "[Some (1::nat), Some 2]"]) simp_all
  have "call_each (\<lambda>d seen. Some (seen @ [d])) (map snd xs) [] = Some [Some 1, Some 2]"
    by (simp add: xs)
  from ldestroy_frees [OF h(2) this] h(1) show ?thesis by blast
qed

text \<open>C36: Inserting before the n-th item succeeds exactly for the positions of the items (and for 1 in the
  empty list), if there is memory. The position after the last item, which the first check of the code
  lets pass, is refused: nothing can be appended by its position.\<close>

theorem lins_n_positions:
  assumes "list_rep h l xs fs ps" "length xs < 2147483647" "\<not> starved h fs"
  shows "\<exists>r h'. lins_n h l d n = Some (r, h') \<and>
    (if 1 \<le> unat n \<and> unat n \<le> max 1 (length xs) then r = 0 \<and> (\<exists>ys fs' ps'. list_rep h' l ys fs' ps' \<and>
         map snd ys = take (unat n - 1) (map snd xs) @ d # drop (unat n - 1) (map snd xs))
     else r = - 1 \<and> h' = h)"
proof -
  have c: "1 \<le> unat n \<and> unat n \<le> max 1 (length xs) \<longleftrightarrow>
      1 \<le> unat n \<and> (unat n \<le> length xs \<or> xs = [] \<and> unat n = 1)"
    by (cases xs) auto
  show ?thesis
    unfolding c using lins_n_result [OF assms(1,2), of d n] assms(3)
    by (auto simp: wp_ex inserted_def refused_def take_map drop_map split: if_splits) fastforce+
qed

theorem lins_n_positions_witness:
  "\<exists>h. ladd_all (one_list 0) 0 [Some (1::nat), Some 2] = Some h \<and> lins_n h 0 (Some 3) 3 = Some (- 1, h)"
proof -
  obtain h xs fs ps where h: "ladd_all (one_list 0) 0 [Some (1::nat), Some 2] = Some h"
      "list_rep h 0 xs fs ps" and xs: "map snd xs = [Some 1, Some 2]" and oom: "\<forall>k. \<not> oom h k"
    by (rule filled_list [of "[Some (1::nat), Some 2]"]) simp_all
  have len: "length xs = 2" using arg_cong [OF xs, of length] by simp
  then have "length xs < 2147483647" by simp
  moreover have "\<not> starved h fs" using oom by (simp add: starved_def)
  ultimately show ?thesis
    using lins_n_positions [OF h(2), of "Some 3" 3] h(1) len by auto
qed

end
