(* ===== verification/ListsQueue.thy ===== *)
theory ListsQueue
  imports ListsLife
begin

text \<open>
  The lists of \<^verbatim>\<open>lists.c\<close> as stacks and queues (the macros of \<^verbatim>\<open>libavrdude.h\<close>): the contract of a
  double-ended sequence whose additions are refused for lack of memory and only then, what follows from it for
  any run of operations, and that the package fulfils it.
\<close>

subsection \<open>The contracts\<close>

text \<open>
  \<open>rep s xs\<close>: the state \<open>s\<close> holds the data \<open>xs\<close>; \<open>room\<close> bounds their number. \<open>full s\<close>: there is no memory
  for another one, which is when, and only when, an addition is refused.
\<close>

locale lifo =
  fixes rep :: "'s \<Rightarrow> 'e list \<Rightarrow> bool"
    and push :: "'s \<Rightarrow> 'e \<Rightarrow> (int \<times> 's) option"
    and pop :: "'s \<Rightarrow> ('e \<times> 's) option"
    and full :: "'s \<Rightarrow> bool"
    and room :: nat
    and none :: 'e
  assumes push: "rep s xs \<Longrightarrow> length xs < room \<Longrightarrow>
      wp (push s d) (\<lambda>(r, s'). if full s then r = - 1 \<and> rep s' xs else r = 0 \<and> rep s' (d # xs))"
    and pop: "rep s (x # xs) \<Longrightarrow> wp (pop s) (\<lambda>(d, s'). d = x \<and> rep s' xs)"
    and pop_empty: "rep s [] \<Longrightarrow> pop s = Some (none, s)"
begin

text \<open>Pushes of all data of a list, as long as none is refused, and as many pops.\<close>

primrec push_all :: "'e list \<Rightarrow> 's \<Rightarrow> (bool \<times> 's) option" where
  "push_all [] s = Some (True, s)"
| "push_all (d # ds) s = do {
     (r, s) \<leftarrow> push s d;
     if r = 0 then push_all ds s else Some (False, s)
   }"

primrec pop_many :: "nat \<Rightarrow> 's \<Rightarrow> ('e list \<times> 's) option" where
  "pop_many 0 s = Some ([], s)"
| "pop_many (Suc n) s = do {
     (d, s) \<leftarrow> pop s;
     (ds, s) \<leftarrow> pop_many n s;
     Some (d # ds, s)
   }"

lemma push_all_rep:
  "rep s xs \<Longrightarrow> length xs + length ds \<le> room \<Longrightarrow>
   wp (push_all ds s) (\<lambda>(ok, s'). \<exists>es. prefix es ds \<and> (ok \<longrightarrow> es = ds) \<and> rep s' (rev es @ xs))"
proof (induction ds arbitrary: s xs)
  case (Cons d ds)
  have "length xs < room" using Cons.prems(2) by simp
  note p = push [OF Cons.prems(1) this, of d]
  show ?case
    unfolding push_all.simps
  proof (rule wp_bind_conseq [OF p])
    fix z :: "int \<times> 's"
    assume z: "case z of (r, s') \<Rightarrow> if full s then r = - 1 \<and> rep s' xs else r = 0 \<and> rep s' (d # xs)"
    obtain r s' where zs: "z = (r, s')" by (cases z)
    from z zs consider "r = 0" "rep s' (d # xs)" | "r = - 1" "rep s' xs" by (auto split: if_splits)
    then show "wp (case z of (r, s) \<Rightarrow> if r = 0 then push_all ds s else Some (False, s))
        (\<lambda>(ok, t). \<exists>es. prefix es (d # ds) \<and> (ok \<longrightarrow> es = d # ds) \<and> rep t (rev es @ xs))"
    proof cases
      case 1
      have "wp (push_all ds s') (\<lambda>(ok, t). \<exists>es. prefix es ds \<and> (ok \<longrightarrow> es = ds) \<and> rep t (rev es @ d # xs))"
        using Cons.prems(2) 1(2) by (intro Cons.IH) simp_all
      moreover have "\<exists>es. prefix es (d # ds) \<and> (ok \<longrightarrow> es = d # ds) \<and> rep t (rev es @ xs)"
        if "prefix es ds" "ok \<longrightarrow> es = ds" "rep t (rev es @ d # xs)" for ok t es
        using that by (intro exI [of _ "d # es"]) simp
      ultimately show ?thesis using 1(1) zs by (auto elim!: wp_conseq)
    next
      case 2
      then have "prefix [] (d # ds) \<and> (False \<longrightarrow> [] = d # ds) \<and> rep s' (rev [] @ xs)" by simp
      with 2(1) zs show ?thesis by (auto intro!: exI [of _ "[]"])
    qed
  qed
qed auto

lemma pop_many_rep:
  "rep s (ds @ xs) \<Longrightarrow> wp (pop_many (length ds) s) (\<lambda>(es, s'). es = ds \<and> rep s' xs)"
proof (induction ds arbitrary: s)
  case (Cons d ds)
  from Cons.prems have "rep s (d # ds @ xs)" by simp
  note p = pop [OF this]
  show ?case
    unfolding list.size pop_many.simps Suc_eq_plus1 [symmetric] add_0_right add_Suc_right
  proof (rule wp_bind_conseq [OF p], clarsimp)
    fix s'
    assume "rep s' (ds @ xs)"
    from Cons.IH [OF this] show "wp (pop_many (length ds) s')
        (\<lambda>a. wp (case a of (ds, s) \<Rightarrow> Some (d # ds, s)) (\<lambda>(es, t). es = d # ds \<and> rep t xs))"
      by (rule wp_conseq) auto
  qed
qed simp

text \<open>What goes in comes out in the opposite order.\<close>

lemma push_all_pop_many:
  assumes "rep s xs" "length xs + length ds \<le> room"
  shows "wp (push_all ds s) (\<lambda>(ok, s'). ok \<longrightarrow>
    wp (pop_many (length ds) s') (\<lambda>(es, t). es = rev ds \<and> rep t xs))"
  using push_all_rep [OF assms]
proof (rule wp_conseq, clarsimp)
  fix s' assume "rep s' (rev ds @ xs)"
  from pop_many_rep [OF this]
  show "wp (pop_many (length ds) s') (\<lambda>(es, t). es = rev ds \<and> rep t xs)" by simp
qed

end

text \<open>The two ends of a queue.\<close>

locale double_ended =
  front: lifo rep push_front pop_front full room none +
  rear: lifo "\<lambda>s xs. rep s (rev xs)" push_back pop_back full room none
  for rep :: "'s \<Rightarrow> 'e list \<Rightarrow> bool"
    and push_front and pop_front and push_back and pop_back and full and room and none

datatype 'e queue_op = Enqueue 'e | Dequeue | Requeue 'e

datatype 'e queue_result = Code int | Item 'e

text \<open>
  The abstract queue, next item first. It is told before each operation whether there is memory for
  another item; it refuses an addition when there is none, and only then, and it has no successor for a
  result that is not its own.
\<close>

fun queue_step :: "'e \<Rightarrow> 'e queue_op \<Rightarrow> bool \<times> 'e queue_result \<Rightarrow> 'e list \<Rightarrow> 'e list option" where
  "queue_step none (Enqueue d) (full, Code r) q =
     (if full then (if r = - 1 then Some q else None) else (if r = 0 then Some (q @ [d]) else None))"
| "queue_step none (Requeue d) (full, Code r) q =
     (if full then (if r = - 1 then Some q else None) else (if r = 0 then Some (d # q) else None))"
| "queue_step none Dequeue (full, Item d) [] = (if d = none then Some [] else None)"
| "queue_step none Dequeue (full, Item d) (e # q) = (if d = e then Some q else None)"
| "queue_step none op r q = None"

fun queue_run :: "'e \<Rightarrow> 'e queue_op list \<Rightarrow> (bool \<times> 'e queue_result) list \<Rightarrow> 'e list \<Rightarrow> 'e list option" where
  "queue_run none [] [] q = Some q"
| "queue_run none (op # ops) (r # rs) q = do { q \<leftarrow> queue_step none op r q; queue_run none ops rs q }"
| "queue_run none ops rs q = None"

context double_ended
begin

primrec do_queue :: "'e queue_op \<Rightarrow> 's \<Rightarrow> ('e queue_result \<times> 's) option" where
  "do_queue (Enqueue d) s = do { (r, s) \<leftarrow> push_front s d; Some (Code r, s) }"
| "do_queue (Requeue d) s = do { (r, s) \<leftarrow> push_back s d; Some (Code r, s) }"
| "do_queue Dequeue s = do { (d, s) \<leftarrow> pop_back s; Some (Item d, s) }"

text \<open>Each result with whether there was memory.\<close>

primrec run_queue :: "'e queue_op list \<Rightarrow> 's \<Rightarrow> ((bool \<times> 'e queue_result) list \<times> 's) option" where
  "run_queue [] s = Some ([], s)"
| "run_queue (op # ops) s = do {
     (r, s') \<leftarrow> do_queue op s;
     (rs, s') \<leftarrow> run_queue ops s';
     Some ((full s, r) # rs, s')
   }"

lemma do_queue_step:
  assumes "rep s (rev q)" "length q < room"
  shows "wp (do_queue op s) (\<lambda>(r, s'). \<exists>q'. queue_step none op (full s, r) q = Some q' \<and> rep s' (rev q') \<and>
    length q' \<le> Suc (length q))"
proof (cases op)
  case (Enqueue d)
  with front.push [of s "rev q" d] assms show ?thesis by (fastforce elim: wp_conseq)
next
  case (Requeue d)
  with rear.push [of s q d] assms show ?thesis by (fastforce elim: wp_conseq)
next
  case Dequeue
  show ?thesis
  proof (cases q)
    case Nil
    with rear.pop_empty [of s] assms Dequeue show ?thesis by simp
  next
    case (Cons e q')
    with rear.pop [of s e q'] assms Dequeue show ?thesis by (fastforce elim: wp_conseq)
  qed
qed

text \<open>Every run of operations is a run of the abstract queue with the same results.\<close>

lemma run_queue_refines:
  assumes "rep s (rev q)" "length q + length ops \<le> room"
  shows "wp (run_queue ops s) (\<lambda>(rs, s'). \<exists>q'. queue_run none ops rs q = Some q' \<and> rep s' (rev q'))"
  using assms
proof (induction ops arbitrary: s q)
  case (Cons op ops)
  have room: "length q < room" using Cons.prems(2) by simp
  show ?case
    unfolding run_queue.simps
  proof (rule wp_bind_conseq [OF do_queue_step [OF Cons.prems(1) room, of op]], clarsimp)
    fix r s' q'
    assume st: "queue_step none op (full s, r) q = Some q'" and rep: "rep s' (rev q')" and "length q' \<le> Suc (length q)"
    then have "wp (run_queue ops s') (\<lambda>(rs, t). \<exists>q''. queue_run none ops rs q' = Some q'' \<and> rep t (rev q''))"
      using Cons.prems(2) by (intro Cons.IH) simp_all
    then show "wp (run_queue ops s') (\<lambda>a. wp (case a of (rs, s') \<Rightarrow> Some ((full s, r) # rs, s'))
        (\<lambda>(rs, t). \<exists>q'. queue_run none (op # ops) rs q = Some q' \<and> rep t (rev q')))"
      using st by (auto elim!: wp_conseq)
  qed
qed simp

end

subsection \<open>The package fulfils the contract\<close>

definition list_data :: "nat \<Rightarrow> 'd heap \<Rightarrow> 'd option list \<Rightarrow> bool" where
  "list_data l h ds \<longleftrightarrow> (\<exists>xs fs ps. list_rep h l xs fs ps \<and> map snd xs = ds)"

text \<open>No free node is left, and the next call of \<^verbatim>\<open>malloc\<close> finds no memory.\<close>

definition no_memory :: "nat \<Rightarrow> 'd heap \<Rightarrow> bool" where
  "no_memory l h \<longleftrightarrow> (case lists h l of None \<Rightarrow> False | Some L \<Rightarrow> next_ln L = None) \<and> oom h (mallocs h)"

lemma starved_no_memory: "list_rep h l xs fs ps \<Longrightarrow> starved h fs \<longleftrightarrow> no_memory l h"
  by (cases fs) (auto simp: list_rep_def list_ok_def starved_def no_memory_def split: option.splits)

lemma refused_data: "refused h l xs fs ps h' \<Longrightarrow> list_data l h' (map snd xs)"
  by (auto simp: refused_def list_data_def)

lemma inserted_list_data: "inserted h l fs ps us d vs h' \<Longrightarrow> list_data l h' (map snd us @ d # map snd vs)"
  unfolding inserted_def list_data_def by fastforce

lemma added_data:
  assumes "list_rep h l xs fs ps" and "r = 0 \<and> inserted h l fs ps us d vs h' \<or> r = - 1 \<and> refused h l xs fs ps h'"
  shows "if no_memory l h then r = - 1 \<and> list_data l h' (map snd xs)
    else r = 0 \<and> list_data l h' (map snd us @ d # map snd vs)"
proof -
  have "\<not> no_memory l h" if "inserted h l fs ps us d vs h'"
    using that starved_no_memory [OF assms(1)] by (simp add: inserted_def)
  moreover have "no_memory l h" if "refused h l xs fs ps h'"
    using that starved_no_memory [OF assms(1)] by (simp add: refused_def)
  ultimately show ?thesis
    using assms(2) inserted_list_data refused_data by auto
qed

lemma removed_data:
  "removed h l xs fs ps k h' \<Longrightarrow> list_data l h' (take k (map snd xs) @ drop (Suc k) (map snd xs))"
  unfolding removed_def list_data_def by (fastforce simp: take_map drop_map)

lemma push_front_data:
  assumes "list_data l h ds" "length ds < 2147483647"
  shows "wp (ENQUEUE h l d) (\<lambda>(r, h'). if no_memory l h then r = - 1 \<and> list_data l h' ds else r = 0 \<and> list_data l h' (d # ds))"
proof -
  from assms obtain xs fs ps where rep: "list_rep h l xs fs ps" and ds: "map snd xs = ds"
    by (auto simp: list_data_def)
  have len: "length xs < 2147483647" using assms(2) ds by auto
  have one: "1 \<le> unat (1 :: u32) \<and> (unat (1 :: u32) \<le> length xs \<or> xs = [] \<and> unat (1 :: u32) = 1)"
    by (cases xs) simp_all
  have "wp (lins_n h l d 1) (\<lambda>(r, h'). r = 0 \<and> inserted h l fs ps [] d xs h' \<or> r = - 1 \<and> refused h l xs fs ps h')"
    using lins_n_result [OF rep len, of d 1] unfolding if_P [OF one] by simp
  then show ?thesis
    unfolding ENQUEUE_def
  proof (rule wp_conseq)
    fix a :: "int \<times> 'a heap"
    assume a: "case a of (r, h') \<Rightarrow> r = 0 \<and> inserted h l fs ps [] d xs h' \<or> r = - 1 \<and> refused h l xs fs ps h'"
    show "case a of (r, h') \<Rightarrow> if no_memory l h then r = - 1 \<and> list_data l h' ds else r = 0 \<and> list_data l h' (d # ds)"
      using added_data [OF rep a [unfolded split_beta]] unfolding split_beta ds list.map append_Nil .
  qed
qed

lemma push_back_data:
  assumes "list_data l h ds" "length ds < 2147483647"
  shows "wp (REQUEUE h l d) (\<lambda>(r, h'). if no_memory l h then r = - 1 \<and> list_data l h' ds else r = 0 \<and> list_data l h' (ds @ [d]))"
proof -
  from assms obtain xs fs ps where rep: "list_rep h l xs fs ps" and ds: "map snd xs = ds"
    by (auto simp: list_data_def)
  have "length xs < 2147483647" using assms(2) ds by auto
  from ladd_result [OF rep this, of d] show ?thesis
    unfolding REQUEUE_def
  proof (rule wp_conseq)
    fix a :: "int \<times> 'a heap"
    assume a: "case a of (r, h') \<Rightarrow> r = 0 \<and> inserted h l fs ps xs d [] h' \<or> r = - 1 \<and> refused h l xs fs ps h'"
    show "case a of (r, h') \<Rightarrow> if no_memory l h then r = - 1 \<and> list_data l h' ds else r = 0 \<and> list_data l h' (ds @ [d])"
      using added_data [OF rep a [unfolded split_beta]] unfolding split_beta ds list.map .
  qed
qed

lemma pop_front_data:
  assumes "list_data l h (d # ds)"
  shows "wp (POP h l) (\<lambda>(e, h'). e = d \<and> list_data l h' ds)"
proof -
  from assms obtain xs fs ps where rep: "list_rep h l xs fs ps" and ds: "map snd xs = d # ds"
    by (auto simp: list_data_def)
  then obtain x ys where xs: "xs = x # ys" "snd x = d" "map snd ys = ds" by auto
  from lrmv_n_result [OF rep, of 1] show ?thesis
    unfolding POP_def using xs by (auto elim!: wp_conseq dest!: removed_data)
qed

lemma pop_back_data:
  assumes "list_data l h (ds @ [d])"
  shows "wp (DEQUEUE h l) (\<lambda>(e, h'). e = d \<and> list_data l h' ds)"
proof -
  from assms obtain xs fs ps where rep: "list_rep h l xs fs ps" and ds: "map snd xs = ds @ [d]"
    by (auto simp: list_data_def)
  then obtain x ys where xs: "xs = ys @ [x]" "snd x = d" "map snd ys = ds"
    by (auto simp: map_eq_append_conv)
  from lrmv_result [OF rep] show ?thesis
    unfolding DEQUEUE_def using xs by (auto elim!: wp_conseq dest!: removed_data)
qed

lemma pop_empty_data:
  assumes "list_data l h []"
  shows "POP h l = Some (None, h)" "DEQUEUE h l = Some (None, h)"
proof -
  from assms obtain fs ps where rep: "list_rep h l [] fs ps" by (auto simp: list_data_def)
  show "POP h l = Some (None, h)" "DEQUEUE h l = Some (None, h)"
    using lrmv_n_result [OF rep, of 1] lrmv_result [OF rep]
    by (auto simp: POP_def DEQUEUE_def wp_ex)
qed

interpretation list_queue: double_ended "list_data l" "\<lambda>h. ENQUEUE h l" "\<lambda>h. POP h l"
  "\<lambda>h. REQUEUE h l" "\<lambda>h. DEQUEUE h l" "no_memory l" 2147483647 None for l :: nat
proof (unfold_locales, goal_cases)
  case 1 then show ?case by (rule push_front_data)
next
  case 2 then show ?case by (rule pop_front_data)
next
  case 3 then show ?case by (rule pop_empty_data)
next
  case (4 s xs d) then show ?case using push_back_data [of l s "rev xs" d] by (simp cong: if_cong)
next
  case (5 s x xs) then show ?case using pop_back_data [of l s "rev xs" x] by simp
next
  case 6 then show ?case by (simp add: pop_empty_data)
qed

subsection \<open>Queues of the code\<close>

fun queue_call ::
  "nat \<Rightarrow> 'd option queue_op \<Rightarrow> 'd heap \<Rightarrow> ('d option queue_result \<times> 'd heap) option" where
  "queue_call q (Enqueue d) h = map_option (apfst Code) (ENQUEUE h q d)"
| "queue_call q (Requeue d) h = map_option (apfst Code) (REQUEUE h q d)"
| "queue_call q Dequeue h = map_option (apfst Item) (DEQUEUE h q)"

fun queue_calls ::
  "nat \<Rightarrow> 'd option queue_op list \<Rightarrow> 'd heap \<Rightarrow> ((bool \<times> 'd option queue_result) list \<times> 'd heap) option" where
  "queue_calls q [] h = Some ([], h)"
| "queue_calls q (op # ops) h = do {
     (r, h') \<leftarrow> queue_call q op h;
     (rs, h') \<leftarrow> queue_calls q ops h';
     Some ((no_memory q h, r) # rs, h')
   }"

lemma queue_calls_eq: "queue_calls q ops h = list_queue.run_queue q ops h"
proof (induction ops arbitrary: h)
  case (Cons op ops)
  have "queue_call q op h = list_queue.do_queue q op h"
    by (cases op) (auto split: bind_splits simp: map_option_case split: option.splits)
  with Cons show ?case by simp
qed simp

text \<open>C19: A list used as a queue is the abstract queue: any sequence of ENQUEUE, REQUEUE and DEQUEUE
  returns, its results are those that the abstract queue gives, and the list holds the abstract queue's
  items afterwards. An addition is refused with -1, and leaves the queue as it was, exactly when the list has no free node
  and the next call of malloc finds no memory; otherwise it succeeds.\<close>

theorem queue_refines:
  assumes "list_data q h (rev ds)" "length ds + length ops \<le> 2147483647"
  shows "\<exists>rs h' ds'. queue_calls q ops h = Some (rs, h') \<and> queue_run None ops rs ds = Some ds' \<and>
    list_data q h' (rev ds')"
  using list_queue.run_queue_refines [OF assms] by (auto simp: queue_calls_eq wp_ex)

text \<open>First in, first out, around a REQUEUE and a DEQUEUE of the empty queue.\<close>

theorem queue_refines_witness:
  "\<exists>rs h' ds'. queue_calls 0 [Enqueue (Some (1::nat)), Enqueue (Some 2), Dequeue, Requeue (Some 3), Dequeue,
       Dequeue, Dequeue] (one_list 0) = Some (rs, h') \<and>
     queue_run None [Enqueue (Some 1), Enqueue (Some 2), Dequeue, Requeue (Some 3), Dequeue,
       Dequeue, Dequeue] rs [] = Some ds' \<and> list_data 0 h' (rev ds')"
proof (rule queue_refines)
  show "list_data 0 (one_list 0) (rev [])"
    using one_list_rep [of 0] unfolding list_data_def pool_nodes_elements by auto
qed simp

end
