(* ===== verification/ListsOrder.thy ===== *)
theory ListsOrder
  imports ListsLife "HOL-Library.Sorting_Algorithms"
begin

text \<open>
  Order in the lists of \<^verbatim>\<open>lists.c\<close>: sorting in place, ordered and unique insertion.
\<close>

subsection \<open>One pass of the sort on the data\<close>

fun bubble :: "('e \<Rightarrow> 'e \<Rightarrow> int) \<Rightarrow> 'e list \<Rightarrow> bool \<times> 'e list" where
  "bubble cmp (x # y # zs) =
     (if 0 < cmp x y then (True, y # snd (bubble cmp (x # zs)))
      else (fst (bubble cmp (y # zs)), x # snd (bubble cmp (y # zs))))"
| "bubble cmp xs = (False, xs)"

lemma mset_bubble [simp]: "mset (snd (bubble cmp xs)) = mset xs"
  by (induction cmp xs rule: bubble.induct) auto

lemma length_bubble [simp]: "length (snd (bubble cmp xs)) = length xs"
  using mset_bubble mset_eq_length by blast

lemma set_bubble [simp]: "set (snd (bubble cmp xs)) = set xs"
  by (rule mset_eq_setD) simp

fun inversions :: "('e \<Rightarrow> 'e \<Rightarrow> int) \<Rightarrow> 'e list \<Rightarrow> nat" where
  "inversions cmp [] = 0"
| "inversions cmp (x # xs) = length (filter (\<lambda>y. 0 < cmp x y) xs) + inversions cmp xs"

definition asymmetric :: "('e \<Rightarrow> 'e \<Rightarrow> int) \<Rightarrow> bool" where
  "asymmetric cmp \<longleftrightarrow> (\<forall>x y. 0 < cmp x y \<longrightarrow> \<not> 0 < cmp y x)"

lemma length_filter_mset: "mset xs = mset ys \<Longrightarrow> length (filter P xs) = length (filter P ys)"
  by (metis mset_filter mset_eq_length)

text \<open>A pass that changes something leaves fewer inversions; one that changes nothing, a sorted list.\<close>

lemma bubble_inversions:
  assumes "asymmetric cmp"
  shows "inversions cmp (snd (bubble cmp xs)) + (if fst (bubble cmp xs) then 1 else 0) \<le> inversions cmp xs"
  using assms
proof (induction cmp xs rule: bubble.induct)
  case (1 cmp x y zs)
  show ?case
  proof (cases "0 < cmp x y")
    case True
    then have "\<not> 0 < cmp y x" using "1.prems" by (simp add: asymmetric_def)
    moreover have "length (filter (\<lambda>z. 0 < cmp y z) (snd (bubble cmp (x # zs)))) =
        length (filter (\<lambda>z. 0 < cmp y z) (x # zs))"
      by (rule length_filter_mset) simp
    ultimately show ?thesis
      using True "1.IH"(1) [OF True] "1.prems" by (simp split: if_splits)
  next
    case False
    have "length (filter (\<lambda>z. 0 < cmp x z) (snd (bubble cmp (y # zs)))) =
        length (filter (\<lambda>z. 0 < cmp x z) (y # zs))"
      by (rule length_filter_mset) simp
    then show ?thesis
      using False "1.IH"(2) [OF False] "1.prems" by (simp split: if_splits)
  qed
qed simp_all

lemma bubble_done: "\<not> fst (bubble cmp xs) \<Longrightarrow> snd (bubble cmp xs) = xs"
  by (induction cmp xs rule: bubble.induct) (auto split: if_splits)

text \<open>A comparison function of C agrees with a comparator on the data that it is called with.\<close>

definition agrees :: "'e set \<Rightarrow> 'e comparator \<Rightarrow> ('e \<Rightarrow> 'e \<Rightarrow> int) \<Rightarrow> bool" where
  "agrees S c cmp \<longleftrightarrow> (\<forall>x \<in> S. \<forall>y \<in> S. (0 < cmp x y \<longleftrightarrow> compare c x y = Greater) \<and>
     (cmp x y = 0 \<longleftrightarrow> compare c x y = Equiv))"

lemma agreesD:
  assumes "agrees S c cmp" "x \<in> S" "y \<in> S"
  shows "0 < cmp x y \<longleftrightarrow> compare c x y = Greater" "cmp x y = 0 \<longleftrightarrow> compare c x y = Equiv"
    "cmp x y < 0 \<longleftrightarrow> compare c x y = Less"
proof -
  show "0 < cmp x y \<longleftrightarrow> compare c x y = Greater" "cmp x y = 0 \<longleftrightarrow> compare c x y = Equiv"
    using assms by (auto simp: agrees_def)
  then show "cmp x y < 0 \<longleftrightarrow> compare c x y = Less" by (cases "compare c x y") auto
qed

lemma agrees_subset: "agrees S c cmp \<Longrightarrow> T \<subseteq> S \<Longrightarrow> agrees T c cmp"
  by (auto simp: agrees_def)

lemma bubble_sorted:
  "agrees (set xs) c cmp \<Longrightarrow> \<not> fst (bubble cmp xs) \<Longrightarrow> Sorting_Algorithms.sorted c xs"
proof (induction cmp xs rule: bubble.induct)
  case (1 cmp x y zs)
  then show ?case
    using agreesD(1) [OF "1.prems"(1), of x y] agrees_subset [OF "1.prems"(1), of "set (y # zs)"]
    by (auto split: if_splits)
qed simp_all

lemma bubble_stable:
  assumes "agrees (set xs) c cmp"
  shows "filter (\<lambda>z. compare c v z = Equiv) (snd (bubble cmp xs)) = filter (\<lambda>z. compare c v z = Equiv) xs"
  using assms
proof (induction cmp xs rule: bubble.induct)
  case (1 cmp x y zs)
  have "\<not> (compare c v x = Equiv \<and> compare c v y = Equiv)" if "0 < cmp x y"
  proof
    assume "compare c v x = Equiv \<and> compare c v y = Equiv"
    then have "compare c x y = Equiv"
      using compare.trans_equiv [of c x v y] compare.sym [of c v x] by blast
    with that agreesD(1) [OF "1.prems", of x y] show False by simp
  qed
  moreover have "agrees (set (x # zs)) c cmp" "agrees (set (y # zs)) c cmp"
    by (rule agrees_subset [OF "1.prems"]; auto)+
  ultimately show ?case using "1.IH" by auto
qed simp_all

subsection \<open>Sorting in place\<close>

lemma lsort_pass_None: "lsort_pass h cmp u None = Some (u, h)"
  by (subst lsort_pass.simps) simp

lemma same_nodes: "h\<lparr>nodes := nodes h\<rparr> = h"
  by (cases h) simp

text \<open>Exchange of the data of two neighbours.\<close>

lemma lsort_pass_swap:
  assumes "nodes h a = Some t" "ln_next t = Some b" "nodes h b = Some n" "a \<noteq> b"
    and "0 < cmp (ln_data t) (ln_data n)"
  shows "lsort_pass h cmp u (Some a) =
    lsort_pass (h\<lparr>nodes := (nodes h)(b \<mapsto> n\<lparr>ln_data := ln_data t\<rparr>, a \<mapsto> t\<lparr>ln_data := ln_data n\<rparr>)\<rparr>) cmp True (Some b)"
  using assms by (subst lsort_pass.simps) simp

lemma lsort_pass_keep:
  assumes "nodes h a = Some t" "ln_next t = Some b" "nodes h b = Some n"
    and "\<not> 0 < cmp (ln_data t) (ln_data n)"
  shows "lsort_pass h cmp u (Some a) = lsort_pass h cmp u (Some b)"
  using assms by (subst lsort_pass.simps) simp

lemma lsort_pass_last:
  "nodes h a = Some t \<Longrightarrow> ln_next t = None \<Longrightarrow> lsort_pass h cmp u (Some a) = Some (u, h)"
  by (subst lsort_pass.simps) (simp add: lsort_pass_None)

definition pass_post ::
  "('d option \<Rightarrow> 'd option \<Rightarrow> int) \<Rightarrow> 'd heap \<Rightarrow> lnode option \<Rightarrow> 'd cells \<Rightarrow> bool \<Rightarrow> bool \<times> 'd heap \<Rightarrow> bool" where
  "pass_post cmp h pr xs u r \<longleftrightarrow> (\<exists>N'. r = (u \<or> fst (bubble cmp (map snd xs)), h\<lparr>nodes := N'\<rparr>) \<and>
    seg N' pr (zip (map fst xs) (snd (bubble cmp (map snd xs)))) None \<and>
    (\<forall>a. a \<notin> fst ` set xs \<longrightarrow> N' a = nodes h a))"

lemma hdp_zip: "length ds = Suc (length as) \<Longrightarrow> hdp (zip (b # as) ds) nx = Some b"
  by (cases ds) simp_all

lemma lsort_pass_Cons:
  assumes "seg (nodes h) pr ((a, d) # ys) None" "distinct (map fst ((a, d) # ys))"
  shows "wp (lsort_pass h cmp u (Some a)) (pass_post cmp h pr ((a, d) # ys) u)"
  using assms
proof (induction ys arbitrary: h pr u a d)
  case Nil
  then show ?case
    by (simp add: lsort_pass_last pass_post_def) (rule exI [of _ "nodes h"], simp add: same_nodes)
next
  case (Cons y ys)
  obtain b e where y: "y = (b, e)" by (cases y)
  define t n where "t = \<lparr>ln_next = Some b, ln_prev = pr, ln_data = d\<rparr>"
    and "n = \<lparr>ln_next = hdp ys None, ln_prev = Some a, ln_data = e\<rparr>"
  have N: "nodes h a = Some t" "nodes h b = Some n" "seg (nodes h) (Some b) ys None" "a \<noteq> b"
    "a \<notin> fst ` set ys" "b \<notin> fst ` set ys" "distinct (map fst ys)"
    using Cons.prems y by (auto simp: t_def n_def)
  show ?case
  proof (cases "0 < cmp d e")
    case True
    define h1 where "h1 = h\<lparr>nodes := (nodes h)(b \<mapsto> n\<lparr>ln_data := d\<rparr>, a \<mapsto> t\<lparr>ln_data := e\<rparr>)\<rparr>"
    have "seg (nodes h1) (Some a) ((b, d) # ys) None" "distinct (map fst ((b, d) # ys))"
      using N by (simp_all add: h1_def n_def)
    then have "wp (lsort_pass h1 cmp True (Some b)) (pass_post cmp h1 (Some a) ((b, d) # ys) True)"
      by (rule Cons.IH)
    moreover have "lsort_pass h cmp u (Some a) = lsort_pass h1 cmp True (Some b)"
      using True N lsort_pass_swap [OF N(1) _ N(2) N(4)] by (simp add: t_def n_def h1_def)
    moreover have "pass_post cmp h pr ((a, d) # y # ys) u r"
      if post: "pass_post cmp h1 (Some a) ((b, d) # ys) True r" for r
    proof -
      obtain N' where r: "r = (True, h1\<lparr>nodes := N'\<rparr>)"
        and sg: "seg N' (Some a) (zip (b # map fst ys) (snd (bubble cmp (d # map snd ys)))) None"
        and out: "\<And>c. c \<noteq> b \<Longrightarrow> c \<notin> fst ` set ys \<Longrightarrow> N' c = nodes h1 c"
        using post by (auto simp: pass_post_def)
      have "N' a = Some (t\<lparr>ln_data := e\<rparr>)" using out [of a] N(4,5) by (simp add: h1_def)
      moreover have "N' c = nodes h c" if "c \<noteq> a" "c \<noteq> b" "c \<notin> fst ` set ys" for c
        using out [of c] that by (simp add: h1_def)
      ultimately show ?thesis
        unfolding pass_post_def using True r sg
        by (intro exI [of _ N']) (simp add: y t_def h1_def hdp_zip)
    qed
    ultimately show ?thesis by (auto elim: wp_conseq)
  next
    case False
    have "seg (nodes h) (Some a) ((b, e) # ys) None" "distinct (map fst ((b, e) # ys))"
      using N by (simp_all add: n_def)
    then have "wp (lsort_pass h cmp u (Some b)) (pass_post cmp h (Some a) ((b, e) # ys) u)"
      by (rule Cons.IH)
    moreover have "lsort_pass h cmp u (Some a) = lsort_pass h cmp u (Some b)"
      using False N lsort_pass_keep [OF N(1) _ N(2)] by (simp add: t_def n_def)
    moreover have "pass_post cmp h pr ((a, d) # y # ys) u r"
      if post: "pass_post cmp h (Some a) ((b, e) # ys) u r" for r
    proof -
      obtain N' where r: "r = (u \<or> fst (bubble cmp (e # map snd ys)), h\<lparr>nodes := N'\<rparr>)"
        and sg: "seg N' (Some a) (zip (b # map fst ys) (snd (bubble cmp (e # map snd ys)))) None"
        and out: "\<And>c. c \<noteq> b \<Longrightarrow> c \<notin> fst ` set ys \<Longrightarrow> N' c = nodes h c"
        using post by (auto simp: pass_post_def)
      have "N' a = Some t" using out [of a] N(1,4,5) by simp
      then show ?thesis
        unfolding pass_post_def using False r sg out
        by (intro exI [of _ N']) (simp add: y t_def hdp_zip)
    qed
    ultimately show ?thesis by (auto elim: wp_conseq)
  qed
qed

lemma lsort_pass_rep:
  assumes "list_rep h l xs fs ps"
  shows "wp (lsort_pass h cmp False (hdp xs None)) (\<lambda>(u, h'). u = fst (bubble cmp (map snd xs)) \<and>
    list_rep h' l (zip (map fst xs) (snd (bubble cmp (map snd xs)))) fs ps \<and> others l ps ps h h')"
proof (cases xs)
  case Nil
  with assms show ?thesis by (simp add: lsort_pass_None)
next
  case (Cons x ys)
  from assms obtain L where L: "lists h l = Some L" and ok: "list_ok h L xs fs [] ps"
    by (rule list_repD)
  obtain a d where x: "x = (a, d)" by (cases x)
  have "wp (lsort_pass h cmp False (hdp xs None)) (pass_post cmp h None xs False)"
    using lsort_pass_Cons [of h None a d ys] list_okD [OF ok] Cons x by simp
  then show ?thesis
  proof (rule wp_conseq)
    fix r assume "pass_post cmp h None xs False r"
    then obtain N' where r: "r = (fst (bubble cmp (map snd xs)), h\<lparr>nodes := N'\<rparr>)"
      and sg: "seg N' None (zip (map fst xs) (snd (bubble cmp (map snd xs)))) None"
      and out: "\<forall>c. c \<notin> fst ` set xs \<longrightarrow> N' c = nodes h c"
      by (auto simp: pass_post_def)
    define ds where "ds = snd (bubble cmp (map snd xs))"
    have len: "length ds = length xs" by (simp add: ds_def)
    then have fsts: "map fst (zip (map fst xs) ds) = map fst xs" by simp
    have "list_rep (h\<lparr>nodes := N', lists := (lists h)(l \<mapsto> L)\<rparr>) l (zip (map fst xs) ds) fs ps \<and>
      others l ps ps h (h\<lparr>nodes := N', lists := (lists h)(l \<mapsto> L)\<rparr>)"
    proof (rule relink [OF L ok])
      show "seg N' None (zip (map fst xs) ds) None" using sg by (simp add: ds_def)
      have "fchain N' (next_ln L) fs = fchain (nodes h) (next_ln L) fs"
      proof (rule fchain_cong)
        fix c assume "c \<in> set fs"
        then have "c \<notin> fst ` set xs" using list_okD(7) [OF ok] by auto
        with out show "N' c = nodes h c" by simp
      qed
      then show "fchain N' (next_ln L) fs" using list_okD [OF ok] by simp
      show "mset (map fst (zip (map fst xs) ds) @ fs) = mset (map fst xs @ fs @ [])"
        unfolding fsts by simp
      show "N' c = nodes h c" if "pool_of c \<notin> set ps" for c
        using that out list_okD(9) [OF ok] by fastforce
      have "xs \<noteq> []" "ds \<noteq> []" using Cons len by auto
      then show "top L = hdp (zip (map fst xs) ds) None" "bottom L = lastp None (zip (map fst xs) ds)"
        using list_okD [OF ok] len by (auto simp: hdp_def lastp_def neq_Nil_conv last_zip last_map)
    qed (use list_okD [OF ok] len in simp_all)
    moreover have "(lists h)(l \<mapsto> L) = lists h" using L by auto
    ultimately show "case r of (u, h') \<Rightarrow> u = fst (bubble cmp (map snd xs)) \<and>
        list_rep h' l (zip (map fst xs) (snd (bubble cmp (map snd xs)))) fs ps \<and> others l ps ps h h'"
      by (cases h) (simp add: ds_def r)
  qed
qed

text \<open>The sort ends if no two items are each greater than the other, and gives the stable order.\<close>

definition sorted_in_place ::
  "'d heap \<Rightarrow> nat \<Rightarrow> ('d option \<Rightarrow> 'd option \<Rightarrow> int) \<Rightarrow> 'd cells \<Rightarrow> lnode list \<Rightarrow> nat list \<Rightarrow> 'd heap \<Rightarrow> bool" where
  "sorted_in_place h l cmp xs fs ps h' \<longleftrightarrow> (\<exists>ds. list_rep h' l (zip (map fst xs) ds) fs ps \<and>
     others l ps ps h h' \<and> mset ds = mset (map snd xs) \<and> \<not> fst (bubble cmp ds) \<and>
     (\<forall>c. agrees (snd ` set xs) c cmp \<longrightarrow> ds = Sorting_Algorithms.sort c (map snd xs)))"

lemma lsort_result:
  assumes "list_rep h l xs fs ps" "asymmetric cmp"
  shows "wp (lsort h l cmp) (sorted_in_place h l cmp xs fs ps)"
  unfolding lsort_def using assms(1)
proof (induction "inversions cmp (map snd xs)" arbitrary: h xs rule: less_induct)
  case less
  define ds where "ds = snd (bubble cmp (map snd xs))"
  have len: "length ds = length xs" by (simp add: ds_def)
  from less.prems obtain L where L: "lists h l = Some L" "top L = hdp xs None"
    by (auto elim!: list_repD dest: list_okD)
  show ?case
    unfolding lsort_loop.simps [of h]
  proof (simp add: L, rule wp_conseq [OF lsort_pass_rep [OF less.prems]], clarsimp simp flip: ds_def, intro conjI impI)
    fix h1
    assume rep: "list_rep h1 l (zip (map fst xs) ds) fs ps" and o: "others l ps ps h h1"
    { assume u: "fst (bubble cmp (map snd xs))"
      have snds: "map snd (zip (map fst xs) ds) = ds" "map fst (zip (map fst xs) ds) = map fst xs"
        using len by simp_all
      have "wp (lsort_loop h1 l cmp) (sorted_in_place h1 l cmp (zip (map fst xs) ds) fs ps)"
        using bubble_inversions [OF assms(2), of "map snd xs"] u rep
        by (intro less.hyps) (simp_all add: snds flip: ds_def)
      then show "wp (lsort_loop h1 l cmp) (sorted_in_place h l cmp xs fs ps)"
      proof (elim wp_conseq)
        fix h2
        assume "sorted_in_place h1 l cmp (zip (map fst xs) ds) fs ps h2"
        then obtain es where "list_rep h2 l (zip (map fst xs) es) fs ps" "others l ps ps h1 h2"
          and es: "mset es = mset ds" "\<not> fst (bubble cmp es)" "\<And>c. agrees (set ds) c cmp \<Longrightarrow> es = Sorting_Algorithms.sort c ds"
          by (auto simp: sorted_in_place_def snds simp flip: set_map)
        moreover have "set ds = snd ` set xs" by (simp add: ds_def)
        moreover have "Sorting_Algorithms.sort c ds = Sorting_Algorithms.sort c (map snd xs)"
          if "agrees (set (map snd xs)) c cmp" for c
          by (rule sort_eqI) (simp_all add: ds_def stable_sort bubble_stable [OF that])
        ultimately show "sorted_in_place h l cmp xs fs ps h2"
          using o by (auto simp: sorted_in_place_def ds_def intro: others_trans) 
      qed }
    assume u: "\<not> fst (bubble cmp (map snd xs))"
    then have ds: "ds = map snd xs" by (simp add: ds_def bubble_done)
    have "ds = Sorting_Algorithms.sort c (map snd xs)" if "agrees (set (map snd xs)) c cmp" for c
      by (rule sort_eqI [symmetric]) (use bubble_sorted [OF that u] in \<open>simp_all add: ds\<close>)
    then show "sorted_in_place h l cmp xs fs ps h1"
      using rep o u by (auto simp: sorted_in_place_def ds)
  qed
qed

subsection \<open>Ordered insertion\<close>

text \<open>
  What \<^verbatim>\<open>laddo\<close> leaves in \<^verbatim>\<open>*firstdup\<close>: every equal item that it passes overwrites it, so that it is
  the last of them.
\<close>

fun passed_dup ::
  "('d option \<Rightarrow> int) \<Rightarrow> lnode option option \<Rightarrow> 'd cells \<Rightarrow> lnode option option" where
  "passed_dup f fd [] = fd"
| "passed_dup f fd (x # xs) =
     passed_dup f (if f (snd x) = 0 \<and> fd \<noteq> None then Some (Some (fst x)) else fd) xs"

definition laddo_post ::
  "'d heap \<Rightarrow> nat \<Rightarrow> lnode list \<Rightarrow> nat list \<Rightarrow> ('d option \<Rightarrow> int) \<Rightarrow> 'd option \<Rightarrow> lnode option option \<Rightarrow> int \<Rightarrow>
   'd cells \<Rightarrow> 'd cells \<Rightarrow> int \<times> lnode option option \<times> 'd heap \<Rightarrow> bool" where
  "laddo_post h l fs ps f p fd dup us ys = (\<lambda>(r, fd', h').
     let pre = takeWhile (\<lambda>x. \<not> f (snd x) < 0) ys; post = dropWhile (\<lambda>x. \<not> f (snd x) < 0) ys
     in r = (if \<exists>x \<in> set pre. f (snd x) = 0 then 1 else dup) \<and> fd' = passed_dup f fd pre \<and>
        (inserted h l fs ps (us @ pre) p post h' \<or> refused h l (us @ ys) fs ps h'))"

lemma laddo_post_step:
  assumes "\<not> f e < 0"
    and "laddo_post h l fs ps f p (if f e = 0 \<and> fd \<noteq> None then Some (Some b) else fd)
      (if f e = 0 then 1 else dup) (us @ [(b, e)]) ys r"
  shows "laddo_post h l fs ps f p fd dup us ((b, e) # ys) r"
  using assms by (cases r) (auto simp: laddo_post_def Let_def)

lemma laddo_loop_result:
  assumes "list_rep h l (us @ ys) fs ps" "length us + length ys < 2147483647"
  shows "wp (laddo_loop h l p cmp fd dup (hdp ys None)) (laddo_post h l fs ps (cmp p) p fd dup us ys)"
  using assms
proof (induction ys arbitrary: us fd dup)
  case Nil
  then have "wp (ladd h l p) (\<lambda>(r, h'). r = 0 \<and> inserted h l fs ps us p [] h' \<or>
      r = - 1 \<and> refused h l us fs ps h')"
    by (intro ladd_result) simp_all
  then show ?case
    by (subst laddo_loop.simps) (auto simp: laddo_post_def elim!: wp_conseq)
next
  case (Cons y ys)
  obtain b e where y: "y = (b, e)" by (cases y)
  from Cons.prems(1) obtain L where "list_ok h L (us @ y # ys) fs [] ps"
    by (rule list_repD)
  then obtain n where n: "nodes h b = Some n" "ln_data n = e" "ln_next n = hdp ys None"
    using list_okD(5) by (fastforce simp: y)
  show ?case
  proof (cases "cmp p e < 0")
    case True
    have "wp (insert_ln h l (Some b) p) (\<lambda>(r, h').
        r = 0 \<and> inserted h l fs ps us p (y # ys) h' \<or> r = - 1 \<and> refused h l (us @ y # ys) fs ps h')"
      using insert_ln_result [of h l us b e ys fs ps p] Cons.prems by (simp add: y)
    then show ?thesis
      using True by (subst laddo_loop.simps) (auto simp: y n laddo_post_def elim!: wp_conseq)
  next
    case False
    let ?fd = "if cmp p e = 0 \<and> fd \<noteq> None then Some (Some b) else fd"
    let ?dup = "if cmp p e = 0 then 1 else dup"
    have eq: "laddo_loop h l p cmp fd dup (hdp (y # ys) None) = laddo_loop h l p cmp ?fd ?dup (hdp ys None)"
      using False by (subst laddo_loop.simps) (simp add: y n Let_def)
    have IH: "wp (laddo_loop h l p cmp ?fd ?dup (hdp ys None))
        (laddo_post h l fs ps (cmp p) p ?fd ?dup (us @ [(b, e)]) ys)"
      by (rule Cons.IH) (use Cons.prems y in simp_all)
    show ?thesis
      unfolding eq unfolding y
      by (rule wp_conseq [OF IH]) (rule laddo_post_step [where f = "cmp p", OF False])
  qed
qed

definition ordered_insert ::
  "('d option \<Rightarrow> 'd option \<Rightarrow> int) \<Rightarrow> 'd option \<Rightarrow> 'd option list \<Rightarrow> 'd option list" where
  "ordered_insert cmp p ds =
     takeWhile (\<lambda>d. \<not> cmp p d < 0) ds @ p # dropWhile (\<lambda>d. \<not> cmp p d < 0) ds"

lemma inserted_data:
  assumes "inserted h l fs ps us d vs h'"
  obtains ys fs' ps' where "list_rep h' l ys fs' ps'" "others l ps ps' h h'"
    "map snd ys = map snd us @ d # map snd vs"
  using assms by (auto simp: inserted_def)

lemma map_takeWhile_snd:
  "map snd (takeWhile (\<lambda>x. P (snd x)) xs) = takeWhile P (map snd xs)"
  "map snd (dropWhile (\<lambda>x. P (snd x)) xs) = dropWhile P (map snd xs)"
  by (induction xs) auto

lemma laddo_result:
  assumes "list_rep h l xs fs ps" "length xs < 2147483647"
  shows "wp (laddo h l p cmp fd) (\<lambda>(r, fd', h').
    r = (if \<exists>d \<in> set (takeWhile (\<lambda>d. \<not> cmp p d < 0) (map snd xs)). cmp p d = 0 then 1 else 0) \<and>
    fd' = passed_dup (cmp p) fd (takeWhile (\<lambda>x. \<not> cmp p (snd x) < 0) xs) \<and>
    (\<not> starved h fs \<and> (\<exists>ys fs' ps'. list_rep h' l ys fs' ps' \<and> others l ps ps' h h' \<and>
       map snd ys = ordered_insert cmp p (map snd xs)) \<or> refused h l xs fs ps h'))"
proof -
  from assms(1) obtain L where L: "lists h l = Some L" "top L = hdp xs None"
    by (auto elim!: list_repD dest: list_okD)
  have w: "wp (laddo_loop h l p cmp fd 0 (hdp xs None)) (laddo_post h l fs ps (cmp p) p fd 0 [] xs)"
    by (rule laddo_loop_result) (use assms in simp_all)
  have post: "case r of (r, fd', h') \<Rightarrow>
      r = (if \<exists>d \<in> set (takeWhile (\<lambda>d. \<not> cmp p d < 0) (map snd xs)). cmp p d = 0 then 1 else 0) \<and>
      fd' = passed_dup (cmp p) fd (takeWhile (\<lambda>x. \<not> cmp p (snd x) < 0) xs) \<and>
      (\<not> starved h fs \<and> (\<exists>ys fs' ps'. list_rep h' l ys fs' ps' \<and> others l ps ps' h h' \<and>
         map snd ys = ordered_insert cmp p (map snd xs)) \<or> refused h l xs fs ps h')"
    if "laddo_post h l fs ps (cmp p) p fd 0 [] xs r" for r
    using that
    by (cases r) (fastforce simp: laddo_post_def Let_def ordered_insert_def inserted_def
        simp flip: map_takeWhile_snd)
  have "laddo h l p cmp fd = laddo_loop h l p cmp fd 0 (hdp xs None)" by (simp add: laddo_def L)
  then show ?thesis by (simp only:) (rule wp_conseq [OF w post])
qed

subsection \<open>Unique insertion\<close>

fun unique_insert ::
  "('d option \<Rightarrow> int) \<Rightarrow> 'd option \<Rightarrow> 'd option list \<Rightarrow> 'd option list option" where
  "unique_insert f p [] = Some [p]"
| "unique_insert f p (d # ds) =
     (if f d = 0 then None else if f d < 0 then Some (p # d # ds)
      else map_option ((#) d) (unique_insert f p ds))"

definition laddu_post ::
  "'d heap \<Rightarrow> nat \<Rightarrow> lnode list \<Rightarrow> nat list \<Rightarrow> ('d option \<Rightarrow> int) \<Rightarrow> 'd option \<Rightarrow> 'd cells \<Rightarrow> 'd cells \<Rightarrow>
   int \<times> 'd heap \<Rightarrow> bool" where
  "laddu_post h l fs ps f p us ys = (\<lambda>(r, h'). case unique_insert f p (map snd ys) of
       None \<Rightarrow> r = 0 \<and> h' = h
     | Some ds \<Rightarrow> r = 1 \<and> (\<not> starved h fs \<and> (\<exists>zs fs' ps'. list_rep h' l zs fs' ps' \<and>
          others l ps ps' h h' \<and> map snd zs = map snd us @ ds) \<or> refused h l (us @ ys) fs ps h'))"

lemma laddu_loop_result:
  assumes "list_rep h l (us @ ys) fs ps" "length us + length ys < 2147483647"
  shows "wp (laddu_loop h l p cmp (hdp ys None)) (laddu_post h l fs ps (cmp p) p us ys)"
  using assms
proof (induction ys arbitrary: us)
  case Nil
  then have "wp (ladd h l p) (\<lambda>(r, h'). r = 0 \<and> inserted h l fs ps us p [] h' \<or>
      r = - 1 \<and> refused h l us fs ps h')"
    by (intro ladd_result) simp_all
  then show ?case
    by (subst laddu_loop.simps) (fastforce simp: laddu_post_def inserted_def elim!: wp_conseq)
next
  case (Cons y ys)
  obtain b e where y: "y = (b, e)" by (cases y)
  from Cons.prems(1) obtain L where "list_ok h L (us @ y # ys) fs [] ps"
    by (rule list_repD)
  then obtain n where n: "nodes h b = Some n" "ln_data n = e" "ln_next n = hdp ys None"
    using list_okD(5) by (fastforce simp: y)
  consider "cmp p e = 0" | "cmp p e < 0" | "0 < cmp p e" by linarith
  then show ?case
  proof cases
    case 1
    then show ?thesis by (subst laddu_loop.simps) (simp add: y n laddu_post_def)
  next
    case 2
    have "wp (insert_ln h l (Some b) p) (\<lambda>(r, h').
        r = 0 \<and> inserted h l fs ps us p (y # ys) h' \<or> r = - 1 \<and> refused h l (us @ y # ys) fs ps h')"
      using insert_ln_result [of h l us b e ys fs ps p] Cons.prems by (simp add: y)
    then show ?thesis
      using 2 by (subst laddu_loop.simps)
        (fastforce simp: y n laddu_post_def inserted_def elim!: wp_conseq)
  next
    case 3
    have eq: "laddu_loop h l p cmp (hdp (y # ys) None) = laddu_loop h l p cmp (hdp ys None)"
      using 3 by (subst laddu_loop.simps) (simp add: y n)
    have IH: "wp (laddu_loop h l p cmp (hdp ys None)) (laddu_post h l fs ps (cmp p) p (us @ [(b, e)]) ys)"
      by (rule Cons.IH) (use Cons.prems y in simp_all)
    have "laddu_post h l fs ps (cmp p) p us ((b, e) # ys) r"
      if "laddu_post h l fs ps (cmp p) p (us @ [(b, e)]) ys r" for r
      using 3 that by (cases r) (auto simp: laddu_post_def split: option.splits)
    then show ?thesis unfolding eq unfolding y by (rule wp_conseq [OF IH])
  qed
qed

lemma laddu_result:
  assumes "list_rep h l xs fs ps" "length xs < 2147483647"
  shows "wp (laddu h l p cmp) (laddu_post h l fs ps (cmp p) p [] xs)"
proof -
  from assms(1) obtain L where L: "lists h l = Some L" "top L = hdp xs None"
    by (auto elim!: list_repD dest: list_okD)
  then have "laddu h l p cmp = laddu_loop h l p cmp (hdp xs None)" by (simp add: laddu_def)
  then show ?thesis using laddu_loop_result [of h l "[]" xs fs ps p cmp] assms by simp
qed

subsection \<open>The order of the data\<close>

lemma sorted_Cons_iff:
  "Sorting_Algorithms.sorted c (x # xs) \<longleftrightarrow>
   Sorting_Algorithms.sorted c xs \<and> (\<forall>y \<in> set xs. compare c x y \<noteq> Greater)"
  by (auto intro: sorted_Cons_imp_sorted sorted_ConsI dest: sorted_Cons_imp_not_less)

lemma ordered_insert_sorted:
  assumes "agrees (insert p (set ds)) c cmp" "Sorting_Algorithms.sorted c ds"
  shows "Sorting_Algorithms.sorted c (ordered_insert cmp p ds)"
    and "mset (ordered_insert cmp p ds) = add_mset p (mset ds)"
proof -
  show m: "mset (ordered_insert cmp p ds) = add_mset p (mset ds)" for ds
    unfolding ordered_insert_def
    by (simp flip: union_code mset_append)
  show "Sorting_Algorithms.sorted c (ordered_insert cmp p ds)"
    using assms
  proof (induction ds rule: list.induct)
    case Nil
    then show ?case by (simp add: ordered_insert_def)
  next
    case (Cons d ds)
    have ag: "agrees (insert p (set ds)) c cmp" by (rule agrees_subset [OF Cons.prems(1)]) auto
    have a3: "cmp p d < 0 \<longleftrightarrow> compare c p d = Less" by (rule agreesD(3) [OF Cons.prems(1)]) simp_all
    have le: "compare c p y \<noteq> Greater" if "cmp p d < 0" "y \<in> set ds" for y
      using that sorted_Cons_imp_not_less [OF Cons.prems(2)] a3
      by (intro compare.trans_not_greater [of c p d y]) simp_all
    have set: "set (ordered_insert cmp p ds) = insert p (set ds)"
      using arg_cong [OF m [of ds], of set_mset] by simp
    show ?case
    proof (cases "cmp p d < 0")
      case True
      then show ?thesis
        using Cons.prems le a3 by (simp add: ordered_insert_def sorted_Cons_iff)
    next
      case False
      then have "compare c d p \<noteq> Greater"
        using a3 by (simp add: compare.greater_iff_sym_less)
      moreover have "ordered_insert cmp p (d # ds) = d # ordered_insert cmp p ds"
        using False by (simp add: ordered_insert_def)
      ultimately show ?thesis
        using Cons ag by (auto simp: sorted_Cons_iff set)
    qed
  qed
qed

text \<open>Without equal items: a set.\<close>

definition strictly :: "'e comparator \<Rightarrow> 'e list \<Rightarrow> bool" where
  "strictly c = sorted_wrt (\<lambda>x y. compare c x y = Less)"

lemma unique_insert_result:
  assumes "agrees (insert p (set ds)) c cmp" "strictly c ds"
  shows "case unique_insert (cmp p) p ds of
      None \<Rightarrow> \<exists>d \<in> set ds. compare c p d = Equiv
    | Some es \<Rightarrow> strictly c es \<and> set es = insert p (set ds) \<and> (\<forall>d \<in> set ds. compare c p d \<noteq> Equiv)"
  using assms
proof (induction ds rule: list.induct)
  case Nil
  then show ?case by (simp add: strictly_def)
next
  case (Cons d ds)
  note a = agreesD [OF Cons.prems(1), of p d]
  have ag: "agrees (insert p (set ds)) c cmp" by (rule agrees_subset [OF Cons.prems(1)]) auto
  have IH: "case unique_insert (cmp p) p ds of
      None \<Rightarrow> \<exists>d \<in> set ds. compare c p d = Equiv
    | Some es \<Rightarrow> strictly c es \<and> set es = insert p (set ds) \<and> (\<forall>d \<in> set ds. compare c p d \<noteq> Equiv)"
    using Cons ag by (simp add: strictly_def)
  show ?case
  proof (cases "compare c p d")
    case Less
    then have "compare c p y = Less" if "y \<in> set ds" for y
      using that Cons.prems by (auto simp: strictly_def intro: compare.trans_less)
    with Less show ?thesis using Cons.prems a by (auto simp: strictly_def)
  next
    case Equiv
    then show ?thesis using a by simp
  next
    case Greater
    then have "compare c d p = Less" by (simp add: compare.less_iff_sym_greater)
    then show ?thesis
      using Greater a IH Cons.prems by (auto simp: strictly_def split: option.splits)
  qed
qed

subsection \<open>Properties\<close>

text \<open>A difference of keys agrees with the comparator of the keys.\<close>

lemma agrees_difference: "agrees S (key f default) (\<lambda>x y. f x - f y :: int)"
  by (auto simp: agrees_def compare_key_apply)

lemma asymmetric_difference: "asymmetric (\<lambda>x y. f x - f y :: int)"
  by (auto simp: asymmetric_def)

text \<open>C18: Sorting a list ends, whatever the number of items, and puts the data into the nodes in the
  order of the stable library sort of a comparator that the comparison function agrees with; the nodes
  stay where they are, and no other list is touched.\<close>

theorem lsort_sorts:
  assumes "list_rep h l xs fs ps" "asymmetric cmp" "agrees (set (map snd xs)) c cmp"
  shows "\<exists>h'. lsort h l cmp = Some h' \<and> others l ps ps h h' \<and>
    list_rep h' l (zip (map fst xs) (Sorting_Algorithms.sort c (map snd xs))) fs ps"
  using lsort_result [OF assms(1,2)] assms(3) by (auto simp: wp_ex sorted_in_place_def)

text \<open>Three items, of which two are equal for the comparison.\<close>

theorem lsort_sorts_witness:
  "\<exists>h (xs :: int cells) fs ps h'. ladd_all (one_list 0) 0 [Some (7::int), Some 13, Some 2] = Some h \<and>
     lsort h 0 (\<lambda>x y. the x mod 10 - the y mod 10) = Some h' \<and>
     list_rep h' 0 (zip (map fst xs) [Some 2, Some 13, Some 7]) fs ps"
proof -
  obtain h xs fs ps where h: "ladd_all (one_list 0) 0 [Some (7::int), Some 13, Some 2] = Some h"
      "list_rep h 0 xs fs ps" and xs: "map snd xs = [Some 7, Some 13, Some 2]"
    by (rule filled_list [of "[Some (7::int), Some 13, Some 2]"]) simp_all
  have "Sorting_Algorithms.sort (key (\<lambda>x. the x mod 10) default) [Some 7, Some 13, Some (2::int)] =
      [Some 2, Some 13, Some 7]"
    by (simp add: Sorting_Algorithms.sort_def compare_key_apply)
  with lsort_sorts [OF h(2) asymmetric_difference agrees_difference, of "\<lambda>x. the x mod 10"] h(1)
  obtain h' where "lsort h 0 (\<lambda>x y. the x mod 10 - the y mod 10) = Some h'"
      "list_rep h' 0 (zip (map fst xs) [Some 2, Some 13, Some 7]) fs ps"
    unfolding xs by auto
  with h(1) show ?thesis by (intro exI conjI)
qed

text \<open>C20: Adding to a list that has no two equal items keeps it in strict order: 0 means that an equal
  item is there and nothing was done. But 1 does not mean that the item was added: without memory for a
  node it is lost, and the return code is the same.\<close>

theorem laddu_outcome:
  assumes "list_rep h l xs fs ps" "length xs < 2147483647" "strictly c (map snd xs)"
    and "agrees (insert d (set (map snd xs))) c cmp"
  shows "\<exists>r h'. laddu h l d cmp = Some (r, h') \<and>
    (if \<exists>e \<in> set (map snd xs). compare c d e = Equiv then r = 0 \<and> h' = h
     else if starved h fs then r = 1 \<and> list_rep h' l xs [] ps
     else r = 1 \<and> (\<exists>ys fs' ps'. list_rep h' l ys fs' ps' \<and> others l ps ps' h h' \<and>
       strictly c (map snd ys) \<and> set (map snd ys) = insert d (set (map snd xs))))"
proof -
  obtain r h' where r: "laddu h l d cmp = Some (r, h')" and post: "laddu_post h l fs ps (cmp d) d [] xs (r, h')"
    using laddu_result [OF assms(1,2), of d cmp] by (auto simp: wp_ex)
  note u = unique_insert_result [OF assms(4,3)]
  show ?thesis
  proof (cases "unique_insert (cmp d) d (map snd xs)")
    case None
    then show ?thesis using r post u by (auto simp: laddu_post_def)
  next
    case (Some ds)
    then have "\<not> (\<exists>e \<in> set (map snd xs). compare c d e = Equiv)" "strictly c ds" "set ds = insert d (set (map snd xs))"
      using u by auto
    moreover have "r = 1 \<and> (\<not> starved h fs \<and> (\<exists>ys fs' ps'. list_rep h' l ys fs' ps' \<and>
        others l ps ps' h h' \<and> map snd ys = ds) \<or> starved h fs \<and> list_rep h' l xs [] ps)"
      using post Some by (simp add: laddu_post_def refused_def) blast
    ultimately show ?thesis using r by (auto simp del: set_map)
  qed
qed

theorem laddu_outcome_witness:
  "\<exists>h h' ys fs ps. ladd_all (one_list 0) 0 [Some (2::int), Some 7] = Some h \<and>
     laddu h 0 (Some 5) (\<lambda>x y. the x - the y) = Some (1, h') \<and>
     list_rep h' 0 ys fs ps \<and> strictly (key the default) (map snd ys) \<and>
     set (map snd ys) = {Some 2, Some 5, Some 7}"
proof -
  obtain h xs fs ps where h: "ladd_all (one_list 0) 0 [Some (2::int), Some 7] = Some h"
      "list_rep h 0 xs fs ps" "\<forall>k. \<not> oom h k" and xs: "map snd xs = [Some 2, Some 7]"
    by (rule filled_list [of "[Some (2::int), Some 7]"]) simp_all
  have len: "length xs < 2147483647" using arg_cong [OF xs, of length] by simp
  have "strictly (key the default) (map snd xs)" by (simp add: xs strictly_def compare_key_apply)
  from laddu_outcome [OF h(2) len this agrees_difference, of "Some 5"] h(3)
  obtain h' ys fs' ps' where r: "laddu h 0 (Some 5) (\<lambda>x y. the x - the y) = Some (1, h')"
      "list_rep h' 0 ys fs' ps'" "strictly (key the default) (map snd ys)"
      "set (map snd ys) = {Some 5, Some 2, Some 7}"
    unfolding xs by (auto simp: starved_def simp del: set_map)
  moreover have "{Some 5, Some 2, Some 7} = {Some 2, Some 5, Some (7 :: int)}" by auto
  ultimately show ?thesis using h(1) by metis
qed

end
