(* ===== verification/ListsSafe.thy ===== *)
theory ListsSafe
  imports ListsQueue ListsOrder
begin

text \<open>
  Programs that use the lists of \<^verbatim>\<open>lists.c\<close>: in every heap that calls of the package can reach, all
  lists are well formed and share no memory, and no further call has undefined behaviour.
\<close>

lemma find_loop_None:
  assumes "seg (nodes h) pr xs None"
  shows "find_loop h None (hdp xs None) = Some None"
  using assms
proof (induction xs arbitrary: pr)
  case Nil
  then show ?case by (subst find_loop.simps) simp
next
  case (Cons x xs)
  obtain a d where [simp]: "x = (a, d)" by (cases x)
  show ?case using Cons.prems Cons.IH [of "Some a"] by (subst find_loop.simps) simp
qed

lemma null_node_refused:
  assumes "list_rep h l xs fs ps"
  shows "lins_ln h l None d = Some (- 1, h)" "lrmv_ln h l None = Some (None, h)"
proof -
  from assms obtain L where L: "lists h l = Some L" and ok: "list_ok h L xs fs [] ps"
    by (rule list_repD)
  show "lins_ln h l None d = Some (- 1, h)" "lrmv_ln h l None = Some (None, h)"
    using find_loop_None [OF list_okD(5) [OF ok]] list_okD(3) [OF ok]
    by (simp_all add: lins_ln_def lrmv_ln_def L)
qed

subsection \<open>Well-formed heaps\<close>

definition heap_ok :: "'d heap \<Rightarrow> bool" where
  "heap_ok h \<longleftrightarrow> (\<exists>pl. (\<forall>l. lists h l \<noteq> None \<longrightarrow> l < mallocs h \<and> (\<exists>xs fs. list_rep h l xs fs (pl l))) \<and>
     (\<forall>k l. lists h k \<noteq> None \<longrightarrow> lists h l \<noteq> None \<longrightarrow> k \<noteq> l \<longrightarrow> set (pl k) \<inter> set (pl l) = {}))"

lemma list_rep_lists: "list_rep h l xs fs ps \<Longrightarrow> lists h l \<noteq> None"
  by (auto simp: list_rep_def split: option.splits)

lemma list_rep_num: "list_rep h l xs fs ps \<Longrightarrow> num (the (lists h l)) = int (length xs)"
  by (auto simp: list_rep_def list_ok_def split: option.splits)

text \<open>A call that changes one list.\<close>

lemma heap_ok_one:
  assumes pl: "\<And>l. lists h l \<noteq> None \<Longrightarrow> l < mallocs h \<and> (\<exists>xs fs. list_rep h l xs fs (pl l))"
      "\<And>k l. lists h k \<noteq> None \<Longrightarrow> lists h l \<noteq> None \<Longrightarrow> k \<noteq> l \<Longrightarrow> set (pl k) \<inter> set (pl l) = {}"
    and o: "others l (pl l) ps' h h'" and l: "lists h l \<noteq> None" and rep: "list_rep h' l ys fs' ps'"
  shows "heap_ok h'"
proof -
  have same: "lists h' k = lists h k" if "k \<noteq> l" for k using o that by (simp add: others_def)
  have m: "mallocs h \<le> mallocs h'" using o by (simp add: others_def)
  have k: "(\<exists>xs fs. list_rep h' k xs fs (pl k)) \<and> set (pl k) \<inter> set ps' = {}"
    if "lists h k \<noteq> None" "k \<noteq> l" for k
    using others_rep [OF o that(2)] pl(1) [OF that(1)] pl(2) [OF that(1) l that(2)] by blast
  show ?thesis
    unfolding heap_ok_def
  proof (intro exI [of _ "pl(l := ps')"] conjI allI impI)
    fix k assume n: "lists h' k \<noteq> None"
    show "k < mallocs h'"
      using pl(1) [of k] n same [of k] m l by (cases "k = l") (auto dest!: pl(1))
    show "\<exists>xs fs. list_rep h' k xs fs ((pl(l := ps')) k)"
      using k [of k] n same [of k] rep by (cases "k = l") auto
  next
    fix j k assume n: "lists h' j \<noteq> None" "lists h' k \<noteq> None" "j \<noteq> k"
    show "set ((pl(l := ps')) j) \<inter> set ((pl(l := ps')) k) = {}"
      using k [of j] k [of k] n same [of j] same [of k] pl(2) [of j k]
      by (cases "j = l"; cases "k = l") auto
  qed
qed

subsection \<open>Calls\<close>

datatype 'd list_call =
    Create int
  | Add nat "'d option"
  | Insert nat "'d option" u32
  | Insert_at nat "lnode option" "'d option"
  | Insert_ordered nat "'d option" "'d option \<Rightarrow> 'd option \<Rightarrow> int"
  | Insert_unique nat "'d option" "'d option \<Rightarrow> 'd option \<Rightarrow> int"
  | Remove nat u32
  | Remove_at nat "lnode option"
  | Remove_data nat "'d option"
  | Remove_last nat
  | Get nat u32
  | Sort nat "'d option \<Rightarrow> 'd option \<Rightarrow> int"
  | Cat nat nat
  | Destroy nat

fun call :: "LIST \<Rightarrow> 'd list_call \<Rightarrow> 'd heap \<Rightarrow> 'd heap option" where
  "call junk (Create n) h = map_option snd (lcreat junk h None n)"
| "call junk (Add l d) h = map_option snd (ladd h l d)"
| "call junk (Insert l d n) h = map_option snd (lins_n h l d n)"
| "call junk (Insert_at l ln d) h = map_option snd (lins_ln h l ln d)"
| "call junk (Insert_ordered l d cmp) h = map_option (snd \<circ> snd) (laddo h l d cmp None)"
| "call junk (Insert_unique l d cmp) h = map_option snd (laddu h l d cmp)"
| "call junk (Remove l n) h = map_option snd (lrmv_n h l n)"
| "call junk (Remove_at l ln) h = map_option snd (lrmv_ln h l ln)"
| "call junk (Remove_data l d) h = map_option snd (lrmv_d h l d)"
| "call junk (Remove_last l) h = map_option snd (lrmv h l)"
| "call junk (Get l n) h = map_option (\<lambda>_. h) (lget_n h l n)"
| "call junk (Sort l cmp) h = lsort h l cmp"
| "call junk (Cat k l) h = map_option snd (lcat h k l)"
| "call junk (Destroy l) h = ldestroy h l"

text \<open>
  What a caller has to observe: the lists exist, they do not grow over \<^verbatim>\<open>INT_MAX\<close> items, no two
  items are each greater than the other, a list is not appended to itself, and a destroyed list is one
  that the package allocated (one in the caller's own memory is no list any more afterwards).
\<close>

definition alive :: "'d heap \<Rightarrow> nat \<Rightarrow> bool" where
  "alive h l \<longleftrightarrow> lists h l \<noteq> None"

definition room :: "'d heap \<Rightarrow> nat \<Rightarrow> bool" where
  "room h l \<longleftrightarrow> alive h l \<and> num (the (lists h l)) < 2147483647"

fun legal :: "'d heap \<Rightarrow> 'd list_call \<Rightarrow> bool" where
  "legal h (Create n) = True"
| "legal h (Add l d) = room h l"
| "legal h (Insert l d n) = room h l"
| "legal h (Insert_at l ln d) = room h l"
| "legal h (Insert_ordered l d cmp) = room h l"
| "legal h (Insert_unique l d cmp) = room h l"
| "legal h (Remove l n) = alive h l"
| "legal h (Remove_at l ln) = alive h l"
| "legal h (Remove_data l d) = alive h l"
| "legal h (Remove_last l) = alive h l"
| "legal h (Get l n) = alive h l"
| "legal h (Sort l cmp) = (alive h l \<and> asymmetric cmp)"
| "legal h (Cat k l) = (alive h k \<and> alive h l \<and> k \<noteq> l \<and>
     num (the (lists h k)) + num (the (lists h l)) \<le> 2147483647)"
| "legal h (Destroy l) = (alive h l \<and> free_on_close (the (lists h l)))"

subsection \<open>Progress and preservation\<close>

definition updates :: "nat \<Rightarrow> nat list \<Rightarrow> 'd heap \<Rightarrow> 'd heap \<Rightarrow> bool" where
  "updates l ps h h' \<longleftrightarrow> (\<exists>ys fs' ps'. others l ps ps' h h' \<and> list_rep h' l ys fs' ps')"

lemma updatesI:
  "inserted h l fs ps us d vs h' \<Longrightarrow> updates l ps h h'" "refused h l xs fs ps h' \<Longrightarrow> updates l ps h h'"
  "removed h l xs fs ps k h' \<Longrightarrow> updates l ps h h'" "list_rep h l xs fs ps \<Longrightarrow> updates l ps h h"
  unfolding updates_def inserted_def refused_def removed_def using others_refl by blast+

lemma wp_map [simp]: "wp (map_option f m) Q = wp m (\<lambda>x. Q (f x))"
  by (cases m) simp_all

lemma grow_updates:
  assumes "list_rep h l xs fs ps" "room h l"
  shows "wp (call junk (Add l d) h) (updates l ps h)"
    and "wp (call junk (Insert l d n) h) (updates l ps h)"
    and "wp (call junk (Insert_at l ln d) h) (updates l ps h)"
    and "wp (call junk (Insert_ordered l d cmp) h) (updates l ps h)"
    and "wp (call junk (Insert_unique l d cmp) h) (updates l ps h)"
proof -
  have len: "length xs < 2147483647" using assms(2) list_rep_num [OF assms(1)] by (simp add: room_def)
  note same = updatesI(4) [OF assms(1)]
  show "wp (call junk (Add l d) h) (updates l ps h)"
    unfolding call.simps wp_map using ladd_result [OF assms(1) len]
    by (rule wp_conseq) (auto intro: updatesI(1,2))
  show "wp (call junk (Insert l d n) h) (updates l ps h)"
    unfolding call.simps wp_map using lins_n_result [OF assms(1) len]
    by (rule wp_conseq) (auto intro: updatesI(1,2) same split: if_splits)
  show "wp (call junk (Insert_at l ln d) h) (updates l ps h)"
  proof (cases ln)
    case None
    then show ?thesis by (simp add: null_node_refused [OF assms(1)] same)
  next
    case (Some b)
    show ?thesis
    proof (cases "b \<in> fst ` set xs")
      case True
      then obtain k where k: "k < length xs" "fst (xs ! k) = b" by (auto simp: in_set_conv_nth)
      show ?thesis
        unfolding call.simps wp_map Some k(2) [symmetric] using lins_ln_result(1) [OF assms(1) len k(1)]
        by (rule wp_conseq) (auto intro: updatesI(1,2))
    next
      case False
      then show ?thesis by (simp add: Some lins_ln_result(2) [OF assms(1) len] same)
    qed
  qed
  show "wp (call junk (Insert_ordered l d cmp) h) (updates l ps h)"
    unfolding call.simps wp_map using laddo_result [OF assms(1) len]
  proof (rule wp_conseq)
    fix z :: "int \<times> lnode option option \<times> 'a heap"
    obtain r fd' h' where z: "z = (r, fd', h')" by (cases z)
    show "updates l ps h ((snd \<circ> snd) z)" if "case z of (r, fd', h') \<Rightarrow>
      r = (if \<exists>e \<in> set (takeWhile (\<lambda>e. \<not> cmp d e < 0) (map snd xs)). cmp d e = 0 then 1 else 0) \<and>
      fd' = passed_dup (cmp d) None (takeWhile (\<lambda>x. \<not> cmp d (snd x) < 0) xs) \<and>
      (\<not> starved h fs \<and> (\<exists>ys fs' ps'. list_rep h' l ys fs' ps' \<and> others l ps ps' h h' \<and>
        map snd ys = ordered_insert cmp d (map snd xs)) \<or> refused h l xs fs ps h')"
      using that updatesI(2) [of h l xs fs ps h'] unfolding z updates_def by auto
  qed
  show "wp (call junk (Insert_unique l d cmp) h) (updates l ps h)"
    unfolding call.simps wp_map using laddu_result [OF assms(1) len]
  proof (rule wp_conseq)
    fix z :: "int \<times> 'a heap"
    obtain r h' where z: "z = (r, h')" by (cases z)
    show "updates l ps h (snd z)" if "laddu_post h l fs ps (cmp d) d [] xs z"
      using that same updatesI(2) [of h l xs fs ps h'] unfolding z laddu_post_def updates_def
      by (auto split: option.splits)
  qed
qed

lemma shrink_updates:
  assumes "list_rep h l xs fs ps"
  shows "wp (call junk (Remove l n) h) (updates l ps h)"
    and "wp (call junk (Remove_at l ln) h) (updates l ps h)"
    and "wp (call junk (Remove_data l d) h) (updates l ps h)"
    and "wp (call junk (Remove_last l) h) (updates l ps h)"
    and "wp (call junk (Get l n) h) (updates l ps h)"
    and "asymmetric cmp \<Longrightarrow> wp (call junk (Sort l cmp) h) (updates l ps h)"
proof -
  note same = updatesI(4) [OF assms(1)]
  show "wp (call junk (Remove l n) h) (updates l ps h)"
    unfolding call.simps wp_map using lrmv_n_result [OF assms(1)]
    by (rule wp_conseq) (auto intro: updatesI(3) same split: if_splits)
  show "wp (call junk (Remove_last l) h) (updates l ps h)"
    unfolding call.simps wp_map using lrmv_result [OF assms(1)]
    by (rule wp_conseq) (auto intro: updatesI(3) same split: if_splits)
  show "wp (call junk (Get l n) h) (updates l ps h)"
    using same by (simp add: lget_n_result(1) [OF assms(1)])
  show "wp (call junk (Remove_at l ln) h) (updates l ps h)"
  proof (cases ln)
    case None
    then show ?thesis by (simp add: null_node_refused [OF assms(1)] same)
  next
    case (Some b)
    show ?thesis
    proof (cases "b \<in> fst ` set xs")
      case True
      then obtain k where k: "k < length xs" "fst (xs ! k) = b" by (auto simp: in_set_conv_nth)
      show ?thesis
        unfolding call.simps wp_map Some k(2) [symmetric] using lrmv_ln_result(1) [OF assms(1) k(1)]
        by (rule wp_conseq) (auto intro: updatesI(3))
    next
      case False
      then show ?thesis by (simp add: Some lrmv_ln_result(2) [OF assms(1)] same)
    qed
  qed
  show "wp (call junk (Remove_data l d) h) (updates l ps h)"
  proof (cases "d \<in> snd ` set xs")
    case True
    then obtain x where "x \<in> set xs" "snd x = d" by auto
    then obtain j where "j < length xs \<and> snd (xs ! j) = d" by (auto simp: in_set_conv_nth)
    then obtain k where k: "k < length xs" "snd (xs ! k) = d" "\<forall>j < k. snd (xs ! j) \<noteq> d"
      using exists_least_iff [of "\<lambda>j. j < length xs \<and> snd (xs ! j) = d"] order.strict_trans by blast
    show ?thesis
      unfolding call.simps wp_map using lrmv_d_result(2) [OF assms(1) k]
      by (rule wp_conseq) (auto intro: updatesI(3))
  next
    case False
    then show ?thesis by (simp add: lrmv_d_result(1) [OF assms(1)] same)
  qed
  show "wp (call junk (Sort l cmp) h) (updates l ps h)" if "asymmetric cmp"
    unfolding call.simps using lsort_result [OF assms that]
    by (rule wp_conseq) (unfold sorted_in_place_def updates_def, blast)
qed

lemma heap_ok_updates:
  assumes "\<And>l. lists h l \<noteq> None \<Longrightarrow> l < mallocs h \<and> (\<exists>xs fs. list_rep h l xs fs (pl l))"
    and "\<And>k l. lists h k \<noteq> None \<Longrightarrow> lists h l \<noteq> None \<Longrightarrow> k \<noteq> l \<Longrightarrow> set (pl k) \<inter> set (pl l) = {}"
    and "lists h l \<noteq> None" "wp m (updates l (pl l) h)"
  shows "wp m heap_ok"
  using assms(4)
proof (rule wp_conseq)
  fix h' assume "updates l (pl l) h h'"
  then obtain ys fs' ps' where "others l (pl l) ps' h h'" "list_rep h' l ys fs' ps'"
    by (auto simp: updates_def)
  then show "heap_ok h'" using heap_ok_one [OF assms(1,2) _ assms(3)] by blast
qed

lemma heap_ok_fresh:
  assumes "heap_ok h" and v: "v = None \<or> v = Some (new_list True n) \<and> 5 \<le> pool_nodes (pool_bytes n)"
  shows "heap_ok (h\<lparr>mallocs := Suc (mallocs h), lists := (lists h)(mallocs h := v)\<rparr>)"
proof -
  define m where "m = mallocs h"
  define g where "g = h\<lparr>mallocs := Suc m, lists := (lists h)(m := v)\<rparr>"
  from assms(1) obtain pl where
    pl: "\<And>l. lists h l \<noteq> None \<Longrightarrow> l < m \<and> (\<exists>xs fs. list_rep h l xs fs (pl l))"
      "\<And>k l. lists h k \<noteq> None \<Longrightarrow> lists h l \<noteq> None \<Longrightarrow> k \<noteq> l \<Longrightarrow> set (pl k) \<inter> set (pl l) = {}"
    unfolding heap_ok_def m_def by blast
  have g: "lists g k = (if k = m then v else lists h k)" "mallocs g = Suc m" for k
    by (simp_all add: g_def)
  have keep: "list_rep g k xs fs ps" if "list_rep h k xs fs ps" "k \<noteq> m" for k xs fs ps
    using that by (auto simp: g_def m_def list_rep_def list_ok_def less_Suc_eq split: option.splits)
  have "l < mallocs g \<and> (\<exists>xs fs. list_rep g l xs fs ((pl(m := [])) l))" if l: "lists g l \<noteq> None" for l
  proof (cases "l = m")
    case True
    then have "v = Some (new_list True n)" "5 \<le> pool_nodes (pool_bytes n)" using l v by (auto simp: g)
    then have "list_rep g l [] [] []" using True new_list_ok by (simp add: list_rep_def g)
    then show ?thesis using True by (auto simp: g)
  next
    case False
    then have "lists h l \<noteq> None" using l by (simp add: g)
    from pl(1) [OF this] obtain xs fs where "l < m" "list_rep h l xs fs (pl l)" by blast
    then show ?thesis using keep [OF _ False] False by (simp add: g) blast
  qed
  moreover have "set ((pl(m := [])) k) \<inter> set ((pl(m := [])) l) = {}"
    if "lists g k \<noteq> None" "lists g l \<noteq> None" "k \<noteq> l" for k l
    using that pl(2) [of k l] by (cases "k = m"; cases "l = m") (simp_all add: g)
  ultimately have "heap_ok g" unfolding heap_ok_def by (intro exI [of _ "pl(m := [])"]) blast
  then show ?thesis by (simp add: g_def m_def)
qed

lemma create_ok:
  assumes "heap_ok h"
  shows "wp (call junk (Create n) h) heap_ok"
proof -
  have "mallocs h \<noteq> l" if "lists h l \<noteq> None" for l using assms that by (auto simp: heap_ok_def)
  then have "lists h (mallocs h) = None" by blast
  then have "(lists h)(mallocs h := None) = lists h" by (simp add: fun_upd_idem)
  then have "heap_ok (h\<lparr>mallocs := Suc (mallocs h)\<rparr>)"
    using heap_ok_fresh [OF assms, of None n] by (cases h) simp
  then show ?thesis
    using heap_ok_fresh [OF assms, of None n] heap_ok_fresh [OF assms, of "Some (new_list True n)" n]
    by (simp add: lcreat_result(1))
qed

lemma cat_ok:
  assumes ok: "heap_ok h" and "legal h (Cat k l)"
  shows "wp (call junk (Cat k l) h) heap_ok"
proof -
  from ok obtain pl where
    pl: "\<And>l. lists h l \<noteq> None \<Longrightarrow> l < mallocs h \<and> (\<exists>xs fs. list_rep h l xs fs (pl l))"
      "\<And>k l. lists h k \<noteq> None \<Longrightarrow> lists h l \<noteq> None \<Longrightarrow> k \<noteq> l \<Longrightarrow> set (pl k) \<inter> set (pl l) = {}"
    unfolding heap_ok_def by blast
  have kl: "lists h k \<noteq> None" "lists h l \<noteq> None" "k \<noteq> l" using assms(2) by (auto simp: alive_def)
  obtain xs fs where x: "list_rep h k xs fs (pl k)" using pl(1) [OF kl(1)] by blast
  obtain ys gs where y: "list_rep h l ys gs (pl l)" using pl(1) [OF kl(2)] by blast
  have "length xs + length ys \<le> 2147483647"
    using assms(2) list_rep_num [OF x] list_rep_num [OF y] by simp
  from lcat_result [OF x y kl(3) pl(2) [OF kl] this] show ?thesis
    unfolding call.simps wp_map
  proof (rule wp_conseq)
    fix z :: "nat \<times> 'a heap"
    obtain r h' where z: "z = (r, h')" by (cases z)
    assume "case z of (r, h') \<Rightarrow> r = k \<and> catenated h k l (set (pl k) \<union> set (pl l)) (map snd xs) (map snd ys) h'"
    then obtain us fs1 ps1 fs2 ps2 where r: "list_rep h' k us fs1 ps1" "list_rep h' l [] fs2 ps2"
        "set ps1 \<inter> set ps2 = {}"
      and bys: "bystanders {k, l} (set (pl k) \<union> set (pl l)) (set ps1 \<union> set ps2) h h'"
      unfolding z catenated_def by auto
    define pl' where "pl' = pl(k := ps1, l := ps2)"
    have m: "mallocs h \<le> mallocs h'" using bys by (simp add: bystanders_def)
    have old: "lists h j \<noteq> None" if "lists h' j \<noteq> None" for j
      using that kl(1,2) bystandersD(1) [OF bys, of j] by (cases "j \<in> {k, l}") auto
    have other: "(\<exists>xs fs. list_rep h' j xs fs (pl j)) \<and> set (pl j) \<inter> (set ps1 \<union> set ps2) = {}"
      if j: "lists h j \<noteq> None" "j \<notin> {k, l}" for j
    proof -
      obtain us gs where "list_rep h j us gs (pl j)" using pl(1) [OF j(1)] by blast
      moreover have "set (pl j) \<inter> (set (pl k) \<union> set (pl l)) = {}"
        using j(2) pl(2) [OF j(1) kl(1)] pl(2) [OF j(1) kl(2)] by blast
      ultimately show ?thesis using bystandersD(2) [OF bys j(2)] by blast
    qed
    have "j < mallocs h' \<and> (\<exists>xs fs. list_rep h' j xs fs (pl' j))" if "lists h' j \<noteq> None" for j
      using pl(1) [OF old [OF that]] other [OF old [OF that]] r(1,2) m kl(3)
      by (cases "j = k"; cases "j = l") (auto simp: pl'_def)
    moreover have "set (pl' i) \<inter> set (pl' j) = {}"
      if "lists h' i \<noteq> None" "lists h' j \<noteq> None" "i \<noteq> j" for i j
      using that(3) pl(2) [OF old [OF that(1)] old [OF that(2)]] other [OF old [OF that(1)]]
        other [OF old [OF that(2)]] r(3) kl(3)
      by (cases "i = k"; cases "i = l"; cases "j = k"; cases "j = l") (auto simp: pl'_def)
    ultimately have "heap_ok h'" unfolding heap_ok_def by (intro exI [of _ pl']) blast
    then show "heap_ok (snd z)" by (simp add: z)
  qed
qed

lemma destroy_ok:
  assumes ok: "heap_ok h" and "legal h (Destroy l)"
  shows "wp (call junk (Destroy l) h) heap_ok"
proof -
  from ok obtain pl where
    pl: "\<And>l. lists h l \<noteq> None \<Longrightarrow> l < mallocs h \<and> (\<exists>xs fs. list_rep h l xs fs (pl l))"
      "\<And>k l. lists h k \<noteq> None \<Longrightarrow> lists h l \<noteq> None \<Longrightarrow> k \<noteq> l \<Longrightarrow> set (pl k) \<inter> set (pl l) = {}"
    unfolding heap_ok_def by blast
  have l: "lists h l \<noteq> None" "free_on_close (the (lists h l))" using assms(2) by (auto simp: alive_def)
  obtain xs fs where x: "list_rep h l xs fs (pl l)" using pl(1) [OF l(1)] by blast
  define g where "g = (without_pools (set (pl l)) h)\<lparr>lists := (lists h)(l := None)\<rparr>"
  have "list_rep g k ys gs qs" if "list_rep h k ys gs qs" "k \<noteq> l" "set qs \<inter> set (pl l) = {}" for k ys gs qs
  proof -
    from that(1) obtain K where K: "lists h k = Some K" and kok: "list_ok h K ys gs [] qs"
      by (rule list_repD)
    have a: "a \<in> fst ` set ys \<union> set gs \<Longrightarrow> pool_of a \<notin> set (pl l)" for a
      using kok that(3) by (auto simp: list_ok_def slots_def)
    have "seg (nodes g) None ys None = seg (nodes h) None ys None"
      by (rule seg_cong) (use a in \<open>auto simp: g_def without_pools_def\<close>)
    moreover have "fchain (nodes g) p gs = fchain (nodes h) p gs" for p
      by (rule fchain_cong) (use a in \<open>auto simp: g_def without_pools_def\<close>)
    moreover have "pchain (pools g) B None qs = pchain (pools h) B None qs" for B
      by (rule pchain_cong) (use that(3) in \<open>auto simp: g_def without_pools_def\<close>)
    moreover have "lists g k = Some K" "mallocs g = mallocs h"
      using K that(2) by (simp_all add: g_def without_pools_def)
    ultimately show ?thesis using kok by (simp add: list_rep_def list_ok_def)
  qed
  moreover have "lists g k = (if k = l then None else lists h k)" "mallocs g = mallocs h" for k
    by (simp_all add: g_def without_pools_def)
  ultimately have "heap_ok g"
    unfolding heap_ok_def using pl l(1) by (intro exI [of _ pl]) (simp, metis)
  then show ?thesis by (simp add: ldestroy_result [OF x] l(2) g_def)
qed

text \<open>Every legal call of the package returns, and leaves a well-formed heap.\<close>

lemma call_ok:
  assumes "heap_ok h" "legal h c"
  shows "wp (call junk c h) heap_ok"
proof -
  from assms(1) obtain pl where
    pl: "\<And>l. lists h l \<noteq> None \<Longrightarrow> l < mallocs h \<and> (\<exists>xs fs. list_rep h l xs fs (pl l))"
      "\<And>k l. lists h k \<noteq> None \<Longrightarrow> lists h l \<noteq> None \<Longrightarrow> k \<noteq> l \<Longrightarrow> set (pl k) \<inter> set (pl l) = {}"
    unfolding heap_ok_def by blast
  have up: "wp (call junk c h) heap_ok"
    if "alive h l" "\<And>xs fs. list_rep h l xs fs (pl l) \<Longrightarrow> wp (call junk c h) (updates l (pl l) h)" for l
  proof (rule heap_ok_updates [OF pl])
    show l: "lists h l \<noteq> None" using that(1) by (simp add: alive_def)
    show "wp (call junk c h) (updates l (pl l) h)" using pl(1) [OF l] that(2) by blast
  qed
  show ?thesis
  proof (cases c)
    case (Create n) then show ?thesis using create_ok [OF assms(1)] by simp
  next
    case (Cat k l) then show ?thesis using cat_ok [OF assms(1)] assms(2) by simp
  next
    case (Destroy l) then show ?thesis using destroy_ok [OF assms(1)] assms(2) by simp
  next
    case (Add l d)
    then have r: "room h l" using assms(2) by simp
    show ?thesis unfolding Add
      by (rule up [of l, unfolded Add, OF _ grow_updates(1) [OF _ r]]) (use r in \<open>simp_all add: room_def\<close>)
  next
    case (Insert l d n)
    then have r: "room h l" using assms(2) by simp
    show ?thesis unfolding Insert
      by (rule up [of l, unfolded Insert, OF _ grow_updates(2) [OF _ r]]) (use r in \<open>simp_all add: room_def\<close>)
  next
    case (Insert_at l ln d)
    then have r: "room h l" using assms(2) by simp
    show ?thesis unfolding Insert_at
      by (rule up [of l, unfolded Insert_at, OF _ grow_updates(3) [OF _ r]]) (use r in \<open>simp_all add: room_def\<close>)
  next
    case (Insert_ordered l d cmp)
    then have r: "room h l" using assms(2) by simp
    show ?thesis unfolding Insert_ordered
      by (rule up [of l, unfolded Insert_ordered, OF _ grow_updates(4) [OF _ r]]) (use r in \<open>simp_all add: room_def\<close>)
  next
    case (Insert_unique l d cmp)
    then have r: "room h l" using assms(2) by simp
    show ?thesis unfolding Insert_unique
      by (rule up [of l, unfolded Insert_unique, OF _ grow_updates(5) [OF _ r]]) (use r in \<open>simp_all add: room_def\<close>)
  next
    case (Remove l n)
    then have r: "alive h l" using assms(2) by simp
    show ?thesis unfolding Remove by (rule up [of l, unfolded Remove, OF r shrink_updates(1)])
  next
    case (Remove_at l ln)
    then have r: "alive h l" using assms(2) by simp
    show ?thesis unfolding Remove_at by (rule up [of l, unfolded Remove_at, OF r shrink_updates(2)])
  next
    case (Remove_data l d)
    then have r: "alive h l" using assms(2) by simp
    show ?thesis unfolding Remove_data by (rule up [of l, unfolded Remove_data, OF r shrink_updates(3)])
  next
    case (Remove_last l)
    then have r: "alive h l" using assms(2) by simp
    show ?thesis unfolding Remove_last by (rule up [of l, unfolded Remove_last, OF r shrink_updates(4)])
  next
    case (Get l n)
    then have r: "alive h l" using assms(2) by simp
    show ?thesis unfolding Get by (rule up [of l, unfolded Get, OF r shrink_updates(5)])
  next
    case (Sort l cmp)
    then have r: "alive h l" "asymmetric cmp" using assms(2) by simp_all
    show ?thesis unfolding Sort by (rule up [of l, unfolded Sort, OF r(1) shrink_updates(6) [OF _ r(2)]])
  qed
qed

subsection \<open>Programs\<close>

definition no_lists :: "(nat \<Rightarrow> bool) \<Rightarrow> 'd heap" where
  "no_lists f = \<lparr>nodes = (\<lambda>_. None), pools = (\<lambda>_. None), lists = (\<lambda>_. None), mallocs = 0, oom = f\<rparr>"

inductive reaches :: "'d heap \<Rightarrow> 'd heap \<Rightarrow> bool" where
  start: "reaches h h"
| one: "reaches h g \<Longrightarrow> legal g c \<Longrightarrow> call junk c g = Some g' \<Longrightarrow> reaches h g'"

inductive_cases reachesE: "reaches h g"

lemma reaches_ok: "reaches h g \<Longrightarrow> heap_ok h \<Longrightarrow> heap_ok g"
proof (induction rule: reaches.induct)
  case (one h g c junk g')
  then show ?case using call_ok [of g c junk] by simp
qed

subsection \<open>Properties\<close>

text \<open>C17: Memory safety of the list package: after any sequence of legal calls, a further legal call
  returns (it touches no memory that is freed, uninitialised, behind the end of a pool or at the null
  address, and overflows no integer), and all lists of the heap are well formed and share no memory.\<close>

theorem list_calls_safe:
  assumes "reaches (no_lists f) h" "legal h c"
  shows "\<exists>h'. call junk c h = Some h' \<and> heap_ok h'"
proof -
  have "heap_ok (no_lists f)" by (simp add: heap_ok_def no_lists_def)
  with assms(1) have "heap_ok h" by (rule reaches_ok)
  from call_ok [OF this assms(2)] show ?thesis by (simp add: wp_ex)
qed

theorem list_calls_safe_witness:
  "\<exists>h'. call (new_list True 0) (Add 0 (Some (5::nat))) (one_list 0) = Some h' \<and> heap_ok h'"
proof (rule list_calls_safe)
  have "call (new_list True 0) (Create 0) (no_lists (\<lambda>_. False)) = Some (one_list 0)"
    by (simp add: lcreat_result pool_nodes_elements no_lists_def one_list_def)
  then show "reaches (no_lists (\<lambda>_. False)) (one_list 0)"
    by (rule one [OF start, rotated]) simp
qed (simp add: room_def alive_def one_list_def new_list_def)

end
