(* ===== verification/Spec2Isabelle.thy ===== *)
theory Spec2Isabelle
  imports JtagMkII Pins LucaxLink Firmware SoftUsart Safemode Update ListsSafe
begin

text \<open>
  Verification of the XMEGA programmer: a firmware for an ATmega32U4 board
  (\<^verbatim>\<open>lucax-arduino-leonardo\<close>) that programs a target over the two-wire PDI link on the commands of a
  host over USB, and the host program, avrdude 6.3 with the driver \<^verbatim>\<open>lucax.c\<close> for this firmware.

  \<^bold>\<open>The parts and how they interact.\<close> avrdude reads a file into the memory of a part description
  (\<^verbatim>\<open>fileio.c\<close>), on behalf of an update operation (\<^verbatim>\<open>update.c\<close>), and moves the bytes between that memory
  and the device through the operations of a programmer (\<^verbatim>\<open>avr.c\<close>), guarding the fuses (\<^verbatim>\<open>safemode.c\<close>).
  The programmer's driver (\<^verbatim>\<open>lucax.c\<close>) turns an operation into a control request and bulk transfers.
  The firmware's USB stack receives the request and calls its handler (\<^verbatim>\<open>src/Lucax.c\<close>), which uses the
  commands of the target's memory controller (\<^verbatim>\<open>src/nvm.c\<close>), the PDI link layer
  (\<^verbatim>\<open>src/driver/pdi_physical.c\<close>) and the serial driver (\<^verbatim>\<open>src/driver/usart.c\<close>).

  \<^bold>\<open>The theories, from the bottom up.\<close>
  \<^item> \<open>Prelude\<close>: machine integers, total correctness of option-valued code (\<open>wp\<close>), little-endian bytes.
  \<^item> \<open>Hw\<close>: the microcontroller's registers. The state is the trace of register accesses; the hardware
    is a parameter \<open>env\<close>, a function from the trace to the value that is read.
  \<^item> \<open>Usart\<close>, \<open>Pdi\<close>, \<open>Nvm\<close>: the serial driver, the link layer and the memory controller's commands,
    each with the bytes that it puts on the line (\<open>tx\<close>) and takes from it (\<open>rx_count\<close>).
  \<^item> \<open>Usb\<close>: the endpoint operations of the stack, the data and control streams.
  \<^item> \<open>Lucax\<close>: the request handlers, their dispatch and the device task. \<open>UsbStd\<close>: the standard requests
    (\<^verbatim>\<open>DeviceStandardReq.c\<close>), the descriptors and the events; the interface \<open>usb_frame\<close> of a predicate
    that operations of the stack leave alone. \<open>UsbCtrl\<close>: starting and stopping the controller and its
    interrupt routine. \<open>UsbBus\<close>: the controller's endpoints during a request that carries data to the device
    (a state computed from the accesses to its registers, \<open>controller_step\<close>, and what the registers then show,
    \<open>usb_request\<close>), and the stack's operations on it. \<open>LucaxIo\<close>: what the handlers do between host and target. \<open>Firmware\<close>: the runs of
    the firmware (\<open>fw_run\<close>: the start, then device tasks and interrupt routines in any order) and their
    invariant. \<open>SoftUsart\<close>: the debug output.
  \<^item> \<open>Lists\<close>, \<open>ListsOps\<close>: avrdude's generic lists (\<^verbatim>\<open>lists.c\<close>) over a heap of nodes, node pools and list
    structures. \<open>ListsRep\<close>: the cells that a list structure represents, and its exclusive ownership of
    them. \<open>ListsOrder\<close>, \<open>ListsLife\<close>: sorting and ordered insertion, life and death of a list.
    \<open>ListsQueue\<close>: stacks and queues, the interfaces \<open>lifo\<close> and \<open>double_ended\<close>. \<open>ListsSafe\<close>: any
    sequence of calls is memory safe.
  \<^item> \<open>Crc16\<close>: the message checksum of avrdude's \<^verbatim>\<open>crc16.c\<close>.
  \<^item> \<open>AvrPart\<close>: parts, memories and opcodes (\<^verbatim>\<open>avrpart.c\<close>). \<open>CLib\<close>: the C library functions that the
    file formats use. \<open>HexRec\<close>: what both record formats share, and the interface \<open>record_codec\<close> of a
    format. \<open>IHex\<close> and \<open>SRec\<close>: Intel hex and S-records, which implement it. \<open>Fileio\<close>: the other formats,
    the detection of the format and \<^verbatim>\<open>fileio\<close>.
  \<^item> \<open>AvrCore\<close>: programmers as records of operations and \<^verbatim>\<open>avr.c\<close>. \<open>Safemode\<close>: \<^verbatim>\<open>safemode.c\<close>.
    \<open>Update\<close>: \<^verbatim>\<open>update.c\<close>.
  \<^item> \<open>Pins\<close>: the sets of pins of avrdude's \<^verbatim>\<open>pindefs.c\<close>. \<open>Serial\<close>: the transfers of \<^verbatim>\<open>ser_posix.c\<close> over a record of
    system calls, and the interface \<open>serial_line\<close> of a port. \<open>JtagMkII\<close>: the messages of \<^verbatim>\<open>jtagmkII.c\<close> over such a port.
  \<^item> \<open>LucaxHost\<close>: \<^verbatim>\<open>lucax.c\<close> over a record of libusb's calls. \<open>LucaxLink\<close>: host driver and firmware
    together.

  \<^bold>\<open>How state and operations correspond to the code.\<close> A structure is a record with the fields of the
  code; the global variables of the firmware are the fields of one record, extended from layer to
  layer. Every function of a modelled file is a definition of its name (suffixes and helper
  definitions stand for its loops). The result \<open>None\<close> is a wait that never ends or undefined
  behaviour: a store or read outside an array, a division by zero, a null pointer. Return codes are
  kept as they are. Integers have the width of the code where it shows; a C string is the list of its
  characters without the terminator. An array that a function fills is an argument and a result.
  Uninitialised variables are arguments (\<open>junk\<close>). In the theories of \<^verbatim>\<open>lists.c\<close> an address is the number
  of the allocation, sizes are those of a 64-bit host, and \<^verbatim>\<open>CHECK_MAGIC\<close> is off as in the code.

  \<^bold>\<open>What the lemmas show.\<close>
  \<^item> Firmware: what every operation puts on the line and returns, for any target and any hardware;
    that the bounded waits end; that requests of other classes are ignored; the invariant of all
    reachable states, by partial correctness (\<open>wlp\<close>) of every operation from the registers up; which
    bytes of a descriptor reach the host; that the interrupt routine ends.
  \<^item> Lists: each operation as a function of the cells, that it keeps the structure well formed and the
    rest of the heap as it is, and that sorting gives what the library's sort of sequences gives.
  \<^item> File formats: round trips, that a reading with a defined result changes no byte that it does not mark, and
    where a range check fails, so that there is none.
  \<^item> Core: over an abstract view of the device (\<open>byte_access\<close>), reading delivers it, writing overwrites
    exactly the marked bytes, verification compares exactly these.
  \<^item> Composition: what \<^verbatim>\<open>do_op\<close> writes it verifies; a page or block of the host reaches the target
    and back, through the driver, the packets of the bus and the firmware.
  \<^item> Other parts of avrdude: which assignments the check of the pins accepts; that a message of the JTAG ICE
    mkII arrives, behind noise and other messages, and that receiving ends whatever the line delivers.

  \<^bold>\<open>Bounds and fuel.\<close> Loops with a counter recurse over it. The only fuel is the nesting depth of
  \<open>USB_DeviceTask\<close>, which the streams of a handler may run again; results at every depth are covered,
  and the totality of the handlers does not use it. Loops that may not end (\<open>wait_set\<close>, the waits
  of the stack, \<open>tpi_wait\<close>, \<open>write_poll\<close>, \<open>writefuse_loop\<close>) are partial functions, and that they end is
  proved where the hardware's promises give it. Sizes of memories are below 2 ^ 31 where the code
  uses \<^verbatim>\<open>int\<close>.

  \<^bold>\<open>Not modelled.\<close> The drivers of other programmers but for the messages of one, their transports but for the bytes of
  a serial port, the configuration file's
  grammar, the command line and the interactive terminal of avrdude; messages, progress display and
  memory release; ELF files (built without libelf); the diagnostic \<^verbatim>\<open>lprint\<close> of the lists. In the firmware
  the parts of LUFA that this configuration does not compile (host mode, class drivers). An interrupt
  routine runs between device tasks; what it changes during a task is part of what the task reads.
  \<^verbatim>\<open>libusb\<close> is a parameter with its documented behaviour as hypotheses (\<open>usb_log\<close>: transfers to the device that
  succeed; \<open>usb_stream\<close>: one packet for a transfer from the device, or the code of a time-out when there is none), and so are the
  system calls of the serial port (\<open>posix_port\<close>). The values of the time-outs are left out. What standard input holds is not
  consumed by a transfer.
\<close>

end
